(* ===== verification/GR_Prelude.thy ===== *)
theory GR_Prelude
  imports Main "HOL-Library.Word" "HOL-Library.Char_ord" "HOL-Library.List_Lexorder"
begin

text \<open>
  What every component of the development shares: \<open>absl::Status\<close> values as data, the
  fixed-width integers of C++, \<open>std::map\<close> as a key-sorted association list, decimal
  printing, and the contract of a dictionary as a locale, with the lemmas its clients use
  (node options, side packets, shard sets, registries) proved once inside it.
\<close>

named_theorems status_simps \<open>evaluation of status values\<close>
named_theorems int_width \<open>reading fixed-width integers\<close>

section \<open>Status values\<close>

text \<open>
  \<open>absl::Status\<close> is a code and a message; a function returning \<open>absl::StatusOr<T>\<close>
  returns \<open>Inl\<close> of a status or \<open>Inr\<close> of the value. The codes are those of absl's
  canonical error space.
\<close>

datatype status_code =
    COk | CCancelled | CUnknown | CInvalidArgument | CDeadlineExceeded | CNotFound
  | CAlreadyExists | CPermissionDenied | CResourceExhausted | CFailedPrecondition
  | CAborted | COutOfRange | CUnimplemented | CInternal | CUnavailable | CDataLoss
  | CUnauthenticated

datatype status = Status (st_code: status_code) (st_msg: string)

type_synonym 'a status_or = "status + 'a"

definition ok_status :: status where
  "ok_status = Status COk []"

definition st_ok :: "status \<Rightarrow> bool" where
  "st_ok s \<longleftrightarrow> st_code s = COk"

definition IsStopStatus :: "status \<Rightarrow> bool" where
  "IsStopStatus s \<longleftrightarrow> st_code s = CUnavailable"

definition StatusStop :: status where
  "StatusStop = Status CUnavailable ''Stop''"

lemma st_ok_simps [simp, status_simps]:
  "st_ok ok_status" "st_ok (Status c m) \<longleftrightarrow> c = COk"
  by (simp_all add: st_ok_def ok_status_def)

lemma IsStopStatus_simps [simp, status_simps]:
  "IsStopStatus StatusStop" "IsStopStatus (Status c m) \<longleftrightarrow> c = CUnavailable"
  "\<not> IsStopStatus ok_status"
  by (simp_all add: IsStopStatus_def StatusStop_def ok_status_def)

lemma stop_not_ok: "IsStopStatus s \<Longrightarrow> \<not> st_ok s"
  by (cases s) simp

section \<open>Fixed-width integers\<close>

abbreviation INT64_MIN :: int where "INT64_MIN \<equiv> -9223372036854775808"
abbreviation INT64_MAX :: int where "INT64_MAX \<equiv> 9223372036854775807"
abbreviation INT32_MIN :: int where "INT32_MIN \<equiv> -2147483648"
abbreviation INT32_MAX :: int where "INT32_MAX \<equiv> 2147483647"

text \<open>\<open>static_cast<int>\<close> of a wider value keeps the low 32 bits, read as two's complement.\<close>

definition to_i32 :: "int \<Rightarrow> int" where
  "to_i32 x = signed_take_bit 31 x"

definition to_i64 :: "int \<Rightarrow> int" where
  "to_i64 x = signed_take_bit 63 x"

lemma to_i32_id [int_width]: "INT32_MIN \<le> x \<Longrightarrow> x \<le> INT32_MAX \<Longrightarrow> to_i32 x = x"
  unfolding to_i32_def by (rule signed_take_bit_int_eq_self) simp_all

lemma to_i64_id [int_width]: "INT64_MIN \<le> x \<Longrightarrow> x \<le> INT64_MAX \<Longrightarrow> to_i64 x = x"
  unfolding to_i64_def by (rule signed_take_bit_int_eq_self) simp_all

lemma to_i32_range: "INT32_MIN \<le> to_i32 x \<and> to_i32 x \<le> INT32_MAX"
  using signed_take_bit_int_greater_eq_minus_exp [of 31 x] signed_take_bit_int_less_exp [of 31 x]
  by (simp add: to_i32_def)

lemma to_i64_range: "INT64_MIN \<le> to_i64 x \<and> to_i64 x \<le> INT64_MAX"
  using signed_take_bit_int_greater_eq_minus_exp [of 63 x] signed_take_bit_int_less_exp [of 63 x]
  by (simp add: to_i64_def)

section \<open>Decimal printing\<close>

text \<open>\<open>std::to_string\<close>, \<open>absl::StrCat\<close> and \<open>operator<<\<close> of an integer.\<close>

definition digit_char :: "nat \<Rightarrow> char" where
  "digit_char d = char_of (48 + d)"

definition is_digit :: "char \<Rightarrow> bool" where
  "is_digit c \<longleftrightarrow> (48 :: nat) \<le> of_char c \<and> of_char c \<le> (57 :: nat)"

definition digit_val :: "char \<Rightarrow> nat" where
  "digit_val c = of_char c - 48"

fun dec_of_nat :: "nat \<Rightarrow> string" where
  "dec_of_nat n =
     (if n < 10 then [digit_char n] else dec_of_nat (n div 10) @ [digit_char (n mod 10)])"

declare dec_of_nat.simps [simp del]

definition dec_of_int :: "int \<Rightarrow> string" where
  "dec_of_int i = (if i < 0 then CHR ''-'' # dec_of_nat (nat (- i)) else dec_of_nat (nat i))"

lemma digit_char_digit: "d < 10 \<Longrightarrow> is_digit (digit_char d) \<and> digit_val (digit_char d) = d"
  by (simp add: is_digit_def digit_val_def digit_char_def)

lemma dec_of_nat_not_Nil [simp]: "dec_of_nat n \<noteq> []"
  by (subst dec_of_nat.simps) simp

lemma dec_of_nat_digits: "\<forall>c \<in> set (dec_of_nat n). is_digit c"
proof (induction n rule: dec_of_nat.induct)
  case (1 n)
  then show ?case
    by (subst dec_of_nat.simps) (auto simp: digit_char_digit)
qed

text \<open>The value a digit-by-digit reader computes, starting from an accumulator.\<close>

definition dec_value :: "nat \<Rightarrow> string \<Rightarrow> nat" where
  "dec_value a s = foldl (\<lambda>v c. v * 10 + digit_val c) a s"

lemma dec_value_Nil [simp]: "dec_value a [] = a"
  by (simp add: dec_value_def)

lemma dec_value_Cons [simp]: "dec_value a (c # s) = dec_value (a * 10 + digit_val c) s"
  by (simp add: dec_value_def)

lemma dec_value_append: "dec_value a (s @ t) = dec_value (dec_value a s) t"
  by (simp add: dec_value_def)

lemma dec_value_dec_of_nat: "dec_value 0 (dec_of_nat n) = n"
proof (induction n rule: dec_of_nat.induct)
  case (1 n)
  show ?case
  proof (cases "n < 10")
    case True
    then show ?thesis by (subst dec_of_nat.simps) (simp add: digit_char_digit)
  next
    case False
    with 1 show ?thesis
      by (subst dec_of_nat.simps) (simp add: dec_value_append digit_char_digit)
  qed
qed

lemma char_not_digit [simp]:
  "\<not> is_digit CHR '':''" "\<not> is_digit CHR ''-''" "\<not> is_digit CHR ''+''" "\<not> is_digit CHR '' ''"
  "\<not> is_digit CHR '',''" "\<not> is_digit CHR ''}''" "\<not> is_digit CHR '']''" "\<not> is_digit CHR ''.''"
  by (simp_all add: is_digit_def)

section \<open>\<open>std::map\<close> as a key-sorted association list\<close>

text \<open>
  The iteration order of a \<open>std::map\<close> is the key order, and some components iterate; so a
  map is the list of its entries, sorted by key, with no key twice.
\<close>

type_synonym ('k, 'v) omap = "('k \<times> 'v) list"

definition omap_wf :: "('k::linorder, 'v) omap \<Rightarrow> bool" where
  "omap_wf m \<longleftrightarrow> sorted_wrt (<) (map fst m)"

fun omap_put :: "'k::linorder \<Rightarrow> 'v \<Rightarrow> ('k, 'v) omap \<Rightarrow> ('k, 'v) omap" where
  "omap_put k v [] = [(k, v)]"
| "omap_put k v ((k', v') # m) =
     (if k < k' then (k, v) # (k', v') # m
      else if k = k' then (k, v) # m
      else (k', v') # omap_put k v m)"

definition omap_get :: "('k, 'v) omap \<Rightarrow> 'k \<Rightarrow> 'v option" where
  "omap_get m k = map_of m k"

definition omap_erase :: "'k \<Rightarrow> ('k, 'v) omap \<Rightarrow> ('k, 'v) omap" where
  "omap_erase k m = filter (\<lambda>e. fst e \<noteq> k) m"

definition omap_keys :: "('k, 'v) omap \<Rightarrow> 'k list" where
  "omap_keys m = map fst m"

lemma omap_wf_Nil [simp]: "omap_wf []"
  by (simp add: omap_wf_def)

lemma omap_get_Nil [simp]: "omap_get [] k = None"
  by (simp add: omap_get_def)

lemma omap_get_Cons [simp]: "omap_get ((k', v) # m) k = (if k = k' then Some v else omap_get m k)"
  by (simp add: omap_get_def)

lemma set_keys_omap_put: "fst ` set (omap_put k v m) = insert k (fst ` set m)"
  by (induction k v m rule: omap_put.induct) auto

lemma omap_wf_put: "omap_wf m \<Longrightarrow> omap_wf (omap_put k v m)"
proof (induction k v m rule: omap_put.induct)
  case (2 k v k' v' m)
  have "sorted_wrt (<) (map fst m)" and lt: "\<forall>x\<in>fst ` set m. k' < x"
    using 2 by (auto simp: omap_wf_def)
  then show ?case
    using 2 set_keys_omap_put [of k v m] by (auto simp: omap_wf_def dest: less_trans)
qed (simp add: omap_wf_def)

lemma omap_get_not_key: "k \<notin> fst ` set m \<Longrightarrow> omap_get m k = None"
  by (auto simp: omap_get_def map_of_eq_None_iff)

lemma omap_get_put:
  "omap_wf m \<Longrightarrow> omap_get (omap_put k v m) k' = (if k' = k then Some v else omap_get m k')"
proof (induction k v m rule: omap_put.induct)
  case (2 k v k'' v'' m)
  then show ?case by (auto simp: omap_wf_def)
qed auto

lemma omap_wf_erase: "omap_wf m \<Longrightarrow> omap_wf (omap_erase k m)"
  by (induction m) (auto simp: omap_wf_def omap_erase_def)

lemma omap_get_erase: "omap_get (omap_erase k m) k' = (if k' = k then None else omap_get m k')"
  by (induction m) (auto simp: omap_erase_def omap_get_def)

lemma omap_get_Some_iff: "omap_wf m \<Longrightarrow> omap_get m k = Some v \<longleftrightarrow> (k, v) \<in> set m"
proof -
  assume "omap_wf m"
  then have "distinct (map fst m)"
    by (auto simp: omap_wf_def strict_sorted_iff)
  then show ?thesis by (simp add: omap_get_def)
qed

lemma dom_omap_get: "dom (omap_get m) = fst ` set m"
  by (simp add: omap_get_def [abs_def] dom_map_of_conv_image_fst)

lemma omap_get_None_iff: "omap_get m k = None \<longleftrightarrow> k \<notin> fst ` set m"
  by (simp add: omap_get_def map_of_eq_None_iff)

section \<open>The contract of a dictionary\<close>

text \<open>
  What clients of a \<open>std::map\<close> (or of a class wrapping one) rely on. The client lemmas
  are about writing one key twice, writing two keys, and the loops that copy a list of entries
  into a dictionary.
\<close>

locale dict =
  fixes empty :: "'m"
    and get :: "'m \<Rightarrow> 'k \<Rightarrow> 'v option"
    and put :: "'k \<Rightarrow> 'v \<Rightarrow> 'm \<Rightarrow> 'm"
    and inv :: "'m \<Rightarrow> bool"
  assumes inv_empty: "inv empty"
    and inv_put: "inv m \<Longrightarrow> inv (put k v m)"
    and get_empty: "get empty k = None"
    and get_put: "inv m \<Longrightarrow> get (put k v m) k' = (if k' = k then Some v else get m k')"
begin

lemma get_put_same: "inv m \<Longrightarrow> get (put k v m) k = Some v"
  by (simp add: get_put)

lemma get_put_other: "inv m \<Longrightarrow> k' \<noteq> k \<Longrightarrow> get (put k v m) k' = get m k'"
  by (simp add: get_put)

lemma get_put_twice: "inv m \<Longrightarrow> get (put k v (put k w m)) k' = get (put k v m) k'"
  by (simp add: get_put inv_put)

lemma inv_put_all: "inv m \<Longrightarrow> inv (fold (\<lambda>(k, v). put k v) kvs m)"
  by (induction kvs arbitrary: m) (auto simp: inv_put)

lemma get_put_all:
  "inv m \<Longrightarrow> get (fold (\<lambda>(k, v). put k v) kvs m) k =
     (case map_of (rev kvs) k of Some v \<Rightarrow> Some v | None \<Rightarrow> get m k)"
proof (induction kvs arbitrary: m)
  case (Cons kv kvs)
  obtain k' v' where kv: "kv = (k', v')" by (cases kv)
  then show ?case
    using Cons.IH [of "put k' v' m"] Cons.prems
    by (auto simp: inv_put get_put map_add_def split: option.splits)
qed simp

end

interpretation omap: dict "[]" omap_get omap_put omap_wf
  by unfold_locales (simp_all add: omap_wf_put omap_get_put)

section \<open>Lists of cells addressed by index\<close>

text \<open>
  Objects the code reaches through pointers (stream managers, handlers, nodes, queues) live in
  lists and are addressed by their index; \<open>update_at\<close> runs an operation on one of them.
\<close>

definition update_at :: "nat \<Rightarrow> ('a \<Rightarrow> 'a) \<Rightarrow> 'a list \<Rightarrow> 'a list" where
  "update_at i f xs = (if i < length xs then xs[i := f (xs ! i)] else xs)"

lemma length_update_at [simp]: "length (update_at i f xs) = length xs"
  by (simp add: update_at_def)

lemma nth_update_at:
  "j < length xs \<Longrightarrow> update_at i f xs ! j = (if j = i then f (xs ! j) else xs ! j)"
  by (auto simp: update_at_def)

lemma nth_update_at_same [simp]: "i < length xs \<Longrightarrow> update_at i f xs ! i = f (xs ! i)"
  by (simp add: nth_update_at)

lemma nth_update_at_other [simp]: "j \<noteq> i \<Longrightarrow> update_at i f xs ! j = xs ! j"
  by (auto simp: update_at_def)

lemma nth_list_update_in: "j < length xs \<Longrightarrow> xs[i := y] ! j = (if i = j then y else xs ! j)"
  by (cases "i = j") auto

lemma sum_map_update_at:
  "i < length xs \<Longrightarrow>
   sum_list (map f (update_at i g xs)) + f (xs ! i) = sum_list (map f xs) + (f (g (xs ! i)) :: nat)"
proof (induction xs arbitrary: i)
  case (Cons x xs)
  then show ?case by (cases i) (auto simp: update_at_def)
qed simp

lemma sum_map_update_at_same:
  "(\<And>x. f (g x) = f x) \<Longrightarrow> sum_list (map f (update_at i g xs)) = (sum_list (map f xs) :: nat)"
  by (cases "i < length xs") (use sum_map_update_at [of i xs f g] in \<open>auto simp: update_at_def\<close>)

end
