(* ===== verification/Timestamps.thy ===== *)
theory Timestamps
  imports GR_Prelude
begin

text \<open>
  \<open>framework/stream/timestamp.{h,cc}\<close>: \<open>Timestamp\<close> and \<open>TimestampDiff\<close> wrap an
  \<open>int64_t\<close>, kept here as a 64-bit word read as two's complement. The comparison operators
  of the class are the instance of \<open>linorder\<close>; the bounds of the special values, the
  successor and predecessor used for stream bounds, and the saturating arithmetic are
  related to the integers they stand for.
\<close>

named_theorems ts_simps \<open>reading timestamps as integers\<close>

section \<open>Representation and order\<close>

datatype timestamp = Timestamp (ts_raw: "64 word")

definition ts_val :: "timestamp \<Rightarrow> int" where
  "ts_val t = sint (ts_raw t)"

definition ts_of :: "int \<Rightarrow> timestamp" where
  "ts_of v = Timestamp (word_of_int v)"

lemma sint_range64: "INT64_MIN \<le> sint (w :: 64 word) \<and> sint w \<le> INT64_MAX"
  using sint_greater_eq [of w] sint_less [of w] by simp

lemma ts_val_range: "INT64_MIN \<le> ts_val t" "ts_val t \<le> INT64_MAX"
  using sint_range64 [of "ts_raw t"] by (simp_all add: ts_val_def)

lemma ts_eq_iff: "a = b \<longleftrightarrow> ts_val a = ts_val b"
  by (cases a; cases b) (auto simp: ts_val_def intro: signed_word_eqI)

lemma sint_of_int64:
  "INT64_MIN \<le> v \<Longrightarrow> v \<le> INT64_MAX \<Longrightarrow> sint (word_of_int v :: 64 word) = v"
  by (simp add: signed_of_int signed_take_bit_int_eq_self)

lemma ts_val_of [ts_simps]: "INT64_MIN \<le> v \<Longrightarrow> v \<le> INT64_MAX \<Longrightarrow> ts_val (ts_of v) = v"
  by (simp add: ts_val_def ts_of_def sint_of_int64)

lemma ts_val_wraps: "ts_val (ts_of v) = to_i64 v"
  by (simp add: ts_val_def ts_of_def to_i64_def signed_of_int)

lemma ts_of_val [simp]: "ts_of (ts_val t) = t"
  by (simp add: ts_val_def ts_of_def)

text \<open>\<open>operator<=\<close> and \<open>operator<\<close> compare the values; they make the timestamps a linear order, so the
  library's \<open>min\<close>, \<open>max\<close> and sorting lemmas apply to them.\<close>

definition ts_le :: "timestamp \<Rightarrow> timestamp \<Rightarrow> bool" where
  "ts_le a b \<longleftrightarrow> ts_val a \<le> ts_val b"

definition ts_less :: "timestamp \<Rightarrow> timestamp \<Rightarrow> bool" where
  "ts_less a b \<longleftrightarrow> ts_val a < ts_val b"

instantiation timestamp :: linorder
begin

definition less_eq_timestamp :: "timestamp \<Rightarrow> timestamp \<Rightarrow> bool" where
  "less_eq_timestamp = ts_le"

definition less_timestamp :: "timestamp \<Rightarrow> timestamp \<Rightarrow> bool" where
  "less_timestamp = ts_less"

instance
  by standard
    (auto simp: less_eq_timestamp_def less_timestamp_def ts_le_def ts_less_def ts_eq_iff)

end

lemma ts_le_iff: "a \<le> b \<longleftrightarrow> ts_val a \<le> ts_val b"
  by (simp add: less_eq_timestamp_def ts_le_def)

lemma ts_less_iff: "a < b \<longleftrightarrow> ts_val a < ts_val b"
  by (simp add: less_timestamp_def ts_less_def)

lemma ts_val_min: "ts_val (min a b) = min (ts_val a) (ts_val b)"
  by (simp add: min_def ts_le_iff)

lemma ts_val_max: "ts_val (max a b) = max (ts_val a) (ts_val b)"
  by (simp add: max_def ts_le_iff)

section \<open>Special values\<close>

definition ts_Unset :: timestamp where "ts_Unset = ts_of INT64_MIN"
definition ts_Unstarted :: timestamp where "ts_Unstarted = ts_of (INT64_MIN + 1)"
definition ts_PreStream :: timestamp where "ts_PreStream = ts_of (INT64_MIN + 2)"
definition ts_Min :: timestamp where "ts_Min = ts_of (INT64_MIN + 3)"
definition ts_Max :: timestamp where "ts_Max = ts_of (INT64_MAX - 3)"
definition ts_PostStream :: timestamp where "ts_PostStream = ts_of (INT64_MAX - 2)"
definition ts_OneOverPostStream :: timestamp where "ts_OneOverPostStream = ts_of (INT64_MAX - 1)"
definition ts_Done :: timestamp where "ts_Done = ts_of INT64_MAX"

lemma ts_special_vals [simp]:
  "ts_val ts_Unset = INT64_MIN" "ts_val ts_Unstarted = INT64_MIN + 1"
  "ts_val ts_PreStream = INT64_MIN + 2" "ts_val ts_Min = INT64_MIN + 3"
  "ts_val ts_Max = INT64_MAX - 3" "ts_val ts_PostStream = INT64_MAX - 2"
  "ts_val ts_OneOverPostStream = INT64_MAX - 1" "ts_val ts_Done = INT64_MAX"
  by (simp_all add: ts_Unset_def ts_Unstarted_def ts_PreStream_def ts_Min_def ts_Max_def
      ts_PostStream_def ts_OneOverPostStream_def ts_Done_def ts_val_of)

lemma ts_le_Done [simp]: "t \<le> ts_Done"
  using ts_val_range by (simp add: ts_le_iff)

lemma ts_Unset_le [simp]: "ts_Unset \<le> t"
  using ts_val_range by (simp add: ts_le_iff)

lemma not_Done_less [simp]: "\<not> ts_Done < t"
  by (simp add: not_less)

lemma ts_special_distinct [simp]:
  "ts_Unset \<noteq> ts_Done" "ts_Done \<noteq> ts_Unset" "ts_PreStream \<noteq> ts_Done" "ts_Done \<noteq> ts_PreStream"
  "ts_PreStream \<noteq> ts_Unset" "ts_Unset \<noteq> ts_PreStream"
  "ts_OneOverPostStream \<noteq> ts_Done" "ts_Done \<noteq> ts_OneOverPostStream"
  by (simp_all add: ts_eq_iff)

definition IsSpecialValue :: "timestamp \<Rightarrow> bool" where
  "IsSpecialValue t \<longleftrightarrow> ts_val t \<le> INT64_MIN + 3 \<or> ts_val t \<ge> INT64_MAX - 3"

definition IsRangeValue :: "timestamp \<Rightarrow> bool" where
  "IsRangeValue t \<longleftrightarrow> ts_val t \<ge> INT64_MIN + 3 \<and> ts_val t \<le> INT64_MAX - 3"

definition IsAllowedInStream :: "timestamp \<Rightarrow> bool" where
  "IsAllowedInStream t \<longleftrightarrow> ts_val t \<ge> INT64_MIN + 2 \<and> ts_val t \<le> INT64_MAX - 2"

definition ts_IsEmpty :: "timestamp \<Rightarrow> bool" where
  "ts_IsEmpty t \<longleftrightarrow> ts_val t = INT64_MIN"

definition SpecialValueName :: "int \<Rightarrow> string option" where
  "SpecialValueName v =
     (if v = INT64_MIN then Some ''Timestamp::Unset()''
      else if v = INT64_MIN + 1 then Some ''Timestamp::Unstarted()''
      else if v = INT64_MIN + 2 then Some ''Timestamp::PreStream()''
      else if v = INT64_MIN + 3 then Some ''Timestamp::Min()''
      else if v = INT64_MAX - 3 then Some ''Timestamp::Max()''
      else if v = INT64_MAX - 2 then Some ''Timestamp::PostStream()''
      else if v = INT64_MAX - 1 then Some ''Timestamp::OneOverPostStream()''
      else if v = INT64_MAX then Some ''Timestamp::Done()''
      else None)"

definition ts_DebugString :: "timestamp \<Rightarrow> string" where
  "ts_DebugString t =
     (case SpecialValueName (ts_val t) of Some n \<Rightarrow> n | None \<Rightarrow> dec_of_int (ts_val t))"

text \<open>Every timestamp is allowed in a stream or special: the two ranges overlap and cover.\<close>

lemma allowed_or_special: "IsAllowedInStream t \<or> IsSpecialValue t"
  by (auto simp: IsAllowedInStream_def IsSpecialValue_def)

lemma range_is_allowed: "IsRangeValue t \<Longrightarrow> IsAllowedInStream t"
  by (simp add: IsRangeValue_def IsAllowedInStream_def)

section \<open>Successor and predecessor\<close>

definition NextAllowedInStream :: "timestamp \<Rightarrow> timestamp" where
  "NextAllowedInStream t =
     (if ts_val t \<ge> INT64_MAX - 2 then ts_of (INT64_MAX - 1) else Timestamp (ts_raw t + 1))"

definition PreviousAllowedInStream :: "timestamp \<Rightarrow> timestamp" where
  "PreviousAllowedInStream t =
     (if ts_val t \<le> INT64_MIN + 2 then ts_of (INT64_MIN + 1) else Timestamp (ts_raw t - 1))"

lemma sint_add_no_overflow:
  "INT64_MIN \<le> sint (a :: 64 word) + sint b \<Longrightarrow> sint a + sint b \<le> INT64_MAX \<Longrightarrow>
   sint (a + b) = sint a + sint b"
  by (simp add: sint_word_add signed_take_bit_int_eq_self)

lemma sint_sub_no_overflow:
  "INT64_MIN \<le> sint (a :: 64 word) - sint b \<Longrightarrow> sint a - sint b \<le> INT64_MAX \<Longrightarrow>
   sint (a - b) = sint a - sint b"
  by (simp add: sint_word_diff signed_take_bit_int_eq_self)

lemma ts_val_Next [simp]:
  "ts_val (NextAllowedInStream t) =
     (if ts_val t \<ge> INT64_MAX - 2 then INT64_MAX - 1 else ts_val t + 1)"
proof -
  have "sint (ts_raw t + 1) = ts_val t + 1" if "\<not> ts_val t \<ge> INT64_MAX - 2"
    using that sint_add_no_overflow [of "ts_raw t" 1] ts_val_range [of t]
    by (simp add: ts_val_def)
  then show ?thesis
    using ts_val_of [of "INT64_MAX - 1"] ts_val_of [of "INT64_MIN + 1"]
    by (auto simp: NextAllowedInStream_def ts_val_def)
qed

lemma ts_val_Previous [simp]:
  "ts_val (PreviousAllowedInStream t) =
     (if ts_val t \<le> INT64_MIN + 2 then INT64_MIN + 1 else ts_val t - 1)"
proof -
  have "sint (ts_raw t - 1) = ts_val t - 1" if "\<not> ts_val t \<le> INT64_MIN + 2"
    using that sint_sub_no_overflow [of "ts_raw t" 1] ts_val_range [of t]
    by (simp add: ts_val_def)
  then show ?thesis
    using ts_val_of [of "INT64_MAX - 1"] ts_val_of [of "INT64_MIN + 1"]
    by (auto simp: PreviousAllowedInStream_def ts_val_def)
qed

lemma Next_not_Done [simp]: "NextAllowedInStream t \<noteq> ts_Done"
  using ts_val_range [of t] by (simp add: ts_eq_iff)

lemma Next_not_Unset [simp]: "NextAllowedInStream t \<noteq> ts_Unset"
  using ts_val_range [of t] by (simp add: ts_eq_iff)

lemma Next_mono: "a \<le> b \<Longrightarrow> NextAllowedInStream a \<le> NextAllowedInStream b"
  by (simp add: ts_le_iff)

lemma Next_greater: "t < ts_OneOverPostStream \<Longrightarrow> t < NextAllowedInStream t"
  by (simp add: ts_less_iff)

lemma Next_gap: "t < ts_OneOverPostStream \<Longrightarrow> u < NextAllowedInStream t \<longleftrightarrow> u \<le> t"
  by (auto simp: ts_less_iff ts_le_iff)

lemma Previous_Next: "ts_PreStream \<le> t \<Longrightarrow> t \<le> ts_PostStream \<Longrightarrow>
    PreviousAllowedInStream (NextAllowedInStream t) = t"
  by (simp add: ts_eq_iff ts_le_iff)

lemma Next_Previous: "ts_PreStream \<le> t \<Longrightarrow> t \<le> ts_PostStream \<Longrightarrow>
    NextAllowedInStream (PreviousAllowedInStream t) = t"
  by (simp add: ts_eq_iff ts_le_iff)

section \<open>Differences and arithmetic\<close>

datatype tsdiff = TimestampDiff (td_raw: "64 word")

definition td_val :: "tsdiff \<Rightarrow> int" where
  "td_val d = sint (td_raw d)"

definition td_of :: "int \<Rightarrow> tsdiff" where
  "td_of v = TimestampDiff (word_of_int v)"

definition td_Unset :: tsdiff where "td_Unset = td_of INT64_MIN"

definition td_IsEmpty :: "tsdiff \<Rightarrow> bool" where
  "td_IsEmpty d \<longleftrightarrow> td_val d = INT64_MIN"

definition td_DebugString :: "tsdiff \<Rightarrow> string" where
  "td_DebugString d =
     (if td_val d = INT64_MIN then ''TimestampDiff::Unset()'' else dec_of_int (td_val d))"

text \<open>
  The arithmetic works on \<open>int64_t\<close> first and clamps afterwards; the wrap-around of the
  64-bit addition is that of the machine (in C++ the overflow is undefined behaviour).
\<close>

definition ts_diff :: "timestamp \<Rightarrow> timestamp \<Rightarrow> tsdiff" where
  "ts_diff t1 t2 = TimestampDiff (ts_raw t1 - ts_raw t2)"

definition ts_minus :: "timestamp \<Rightarrow> tsdiff \<Rightarrow> timestamp" where
  "ts_minus t d = ts_of (max (sint (ts_raw t - td_raw d)) (INT64_MIN + 3))"

definition ts_plus :: "timestamp \<Rightarrow> tsdiff \<Rightarrow> timestamp" where
  "ts_plus t d = ts_of (min (sint (ts_raw t + td_raw d)) (INT64_MAX - 3))"

definition td_plus :: "tsdiff \<Rightarrow> tsdiff \<Rightarrow> tsdiff" where
  "td_plus d1 d2 = TimestampDiff (td_raw d1 + td_raw d2)"

lemma td_val_range: "INT64_MIN \<le> td_val d" "td_val d \<le> INT64_MAX"
  using sint_range64 [of "td_raw d"] by (simp_all add: td_val_def)

lemma td_val_of [ts_simps]: "INT64_MIN \<le> v \<Longrightarrow> v \<le> INT64_MAX \<Longrightarrow> td_val (td_of v) = v"
  by (simp add: td_val_def td_of_def sint_of_int64)

lemma td_eq_iff: "a = b \<longleftrightarrow> td_val a = td_val b"
  by (cases a; cases b) (auto simp: td_val_def intro: signed_word_eqI)

lemma ts_val_plus:
  assumes "INT64_MIN \<le> ts_val t + td_val d" "ts_val t + td_val d \<le> INT64_MAX"
  shows "ts_val (ts_plus t d) = min (ts_val t + td_val d) (INT64_MAX - 3)"
  using assms sint_add_no_overflow [of "ts_raw t" "td_raw d"]
  by (simp add: ts_plus_def ts_val_def [of t] td_val_def ts_val_of min_def)

lemma ts_val_minus:
  assumes "INT64_MIN \<le> ts_val t - td_val d" "ts_val t - td_val d \<le> INT64_MAX"
  shows "ts_val (ts_minus t d) = max (ts_val t - td_val d) (INT64_MIN + 3)"
  using assms sint_sub_no_overflow [of "ts_raw t" "td_raw d"]
  by (simp add: ts_minus_def ts_val_def [of t] td_val_def ts_val_of max_def)

lemma td_val_diff:
  assumes "INT64_MIN \<le> ts_val a - ts_val b" "ts_val a - ts_val b \<le> INT64_MAX"
  shows "td_val (ts_diff a b) = ts_val a - ts_val b"
  using assms sint_sub_no_overflow [of "ts_raw a" "ts_raw b"]
  by (simp add: ts_diff_def td_val_def ts_val_def)

end
