(* ===== verification/Packets.thy ===== *)
theory Packets
  imports Timestamps
begin

text \<open>
  \<open>framework/stream/packet.{h,cc}\<close>: a packet is a shared, type-erased, immutable holder and
  a timestamp. The holder is its address (the identity \<open>operator==\<close> compares), the name of
  the held type (\<open>typeid(T).name()\<close>) and the value; copies of a packet share the holder.
  \<open>framework/public/side_packet.h\<close>: packets keyed by name.
\<close>

section \<open>Packets\<close>

record 'v holder =
  h_addr :: nat
  h_type :: string
  h_value :: 'v

record 'v packet =
  p_holder :: "'v holder option"
  p_ts :: timestamp

definition Packet0 :: "'v packet" where
  "Packet0 = \<lparr>p_holder = None, p_ts = ts_Unset\<rparr>"

definition MakePacket :: "nat \<Rightarrow> string \<Rightarrow> 'v \<Rightarrow> 'v packet" where
  "MakePacket addr ty v =
     Packet0\<lparr>p_holder := Some \<lparr>h_addr = addr, h_type = ty, h_value = v\<rparr>\<rparr>"

definition Adopt :: "nat \<Rightarrow> string \<Rightarrow> 'v \<Rightarrow> 'v packet" where
  "Adopt addr ty v =
     Packet0\<lparr>p_holder := Some \<lparr>h_addr = addr, h_type = ty, h_value = v\<rparr>\<rparr>"

definition p_At :: "timestamp \<Rightarrow> 'v packet \<Rightarrow> 'v packet" where
  "p_At ts p = p\<lparr>p_ts := ts\<rparr>"

definition p_IsEmpty :: "'v packet \<Rightarrow> bool" where
  "p_IsEmpty p \<longleftrightarrow> p_holder p = None"

text \<open>A packet that was moved from keeps its timestamp and loses its holder.\<close>

definition p_moved :: "'v packet \<Rightarrow> 'v packet" where
  "p_moved p = p\<lparr>p_holder := None\<rparr>"

definition type_mismatch :: "string \<Rightarrow> string \<Rightarrow> status" where
  "type_mismatch expected got =
     Status CInvalidArgument
       (''Packet type mismatch: expected '' @ expected @ '', got '' @ got)"

definition p_Get :: "string \<Rightarrow> 'v packet \<Rightarrow> 'v status_or" where
  "p_Get ty p =
     (case p_holder p of
        None \<Rightarrow> Inl (Status CInternal ''Packet is empty'')
      | Some h \<Rightarrow>
          if h_type h \<noteq> ty then Inl (type_mismatch ty (h_type h)) else Inr (h_value h))"

text \<open>\<open>Share\<close> hands out a pointer into the holder: its address and what it points to.\<close>

definition p_Share :: "string \<Rightarrow> 'v packet \<Rightarrow> (nat \<times> 'v) status_or" where
  "p_Share ty p =
     (case p_holder p of
        None \<Rightarrow> Inl (Status CInternal ''Packet is empty'')
      | Some h \<Rightarrow>
          if h_type h \<noteq> ty then Inl (type_mismatch ty (h_type h))
          else Inr (h_addr h, h_value h))"

definition p_ValidateAsType :: "string \<Rightarrow> 'v packet \<Rightarrow> status" where
  "p_ValidateAsType ty p =
     (case p_holder p of
        None \<Rightarrow> Status CInternal ''Packet is empty''
      | Some h \<Rightarrow>
          if h_type h \<noteq> ty then type_mismatch ty (h_type h) else ok_status)"

definition packet_eq :: "'v packet \<Rightarrow> 'v packet \<Rightarrow> bool" where
  "packet_eq a b \<longleftrightarrow> map_option h_addr (p_holder a) = map_option h_addr (p_holder b)"

definition packet_neq :: "'v packet \<Rightarrow> 'v packet \<Rightarrow> bool" where
  "packet_neq a b \<longleftrightarrow> map_option h_addr (p_holder a) \<noteq> map_option h_addr (p_holder b)"

definition p_DebugString :: "'v packet \<Rightarrow> string" where
  "p_DebugString p =
     (let result = ''Packet with timestamp: '' @ ts_DebugString (p_ts p)
      in case p_holder p of
           None \<Rightarrow> result @ '' and no data''
         | Some h \<Rightarrow> result @ '' and type: '' @ h_type h)"

definition p_DebugTypeName :: "'v packet \<Rightarrow> string" where
  "p_DebugTypeName p = (case p_holder p of None \<Rightarrow> ''{empty}'' | Some h \<Rightarrow> h_type h)"

lemma p_At_simps [simp]:
  "p_ts (p_At ts p) = ts" "p_holder (p_At ts p) = p_holder p"
  "p_IsEmpty (p_At ts p) = p_IsEmpty p"
  by (simp_all add: p_At_def p_IsEmpty_def)

lemma Packet0_simps [simp]:
  "p_ts Packet0 = ts_Unset" "p_holder Packet0 = None" "p_IsEmpty Packet0"
  by (simp_all add: Packet0_def p_IsEmpty_def)

lemma MakePacket_simps [simp]:
  "p_ts (MakePacket a ty v) = ts_Unset" "\<not> p_IsEmpty (MakePacket a ty v)"
  by (simp_all add: MakePacket_def p_IsEmpty_def)

text \<open>The three typed accessors agree on when they fail and with what.\<close>

lemma p_Get_ok_iff: "(\<exists>v. p_Get ty p = Inr v) \<longleftrightarrow> p_ValidateAsType ty p = ok_status"
  by (auto simp: p_Get_def p_ValidateAsType_def type_mismatch_def ok_status_def
      split: option.splits)

lemma p_Get_error_iff:
  "p_Get ty p = Inl e \<longleftrightarrow> p_ValidateAsType ty p = e \<and> \<not> st_ok e"
  by (auto simp: p_Get_def p_ValidateAsType_def type_mismatch_def split: option.splits)

lemma p_Share_Get:
  "p_Share ty p = Inr (a, v) \<longleftrightarrow>
     p_Get ty p = Inr v \<and> map_option h_addr (p_holder p) = Some a"
  by (auto simp: p_Get_def p_Share_def split: option.splits)

section \<open>Packets by name\<close>

type_synonym 'v packet_set = "(string, 'v packet) omap"

definition ps_Get :: "string \<Rightarrow> 'v packet_set \<Rightarrow> 'v packet" where
  "ps_Get name ps = (case omap_get ps name of Some p \<Rightarrow> p | None \<Rightarrow> Packet0)"

definition ps_Set :: "string \<Rightarrow> 'v packet \<Rightarrow> 'v packet_set \<Rightarrow> 'v packet_set" where
  "ps_Set name p ps = omap_put name p ps"

definition ps_NumEntries :: "'v packet_set \<Rightarrow> int" where
  "ps_NumEntries ps = int (length ps)"

definition ops_Set :: "string \<Rightarrow> 'v packet \<Rightarrow> 'v packet_set \<Rightarrow> 'v packet_set \<times> status" where
  "ops_Set name p ps = (omap_put name p ps, ok_status)"

definition ops_Get :: "string \<Rightarrow> 'v packet_set \<Rightarrow> 'v packet" where
  "ops_Get name ps = (case omap_get ps name of Some p \<Rightarrow> p | None \<Rightarrow> Packet0)"

interpretation packet_set: dict "[]" omap_get ps_Set omap_wf
  by unfold_locales (simp_all add: ps_Set_def omap_wf_put omap_get_put)

lemma ps_Get_Set:
  "omap_wf ps \<Longrightarrow> ps_Get n (ps_Set m p ps) = (if n = m then p else ps_Get n ps)"
  by (simp add: ps_Get_def packet_set.get_put)

end
