(* ===== verification/Channel_Contract.thy ===== *)
theory Channel_Contract
  imports GR_Prelude
begin

text \<open>
  The interface of a closable first-in first-out channel, as the users of a stream see it:
  a producer appends batches while the channel accepts them, a consumer removes the front
  element with one of several selectors, and control operations (closing, moving a bound,
  changing a limit) leave the contents alone. The laws are stated over the abstract contents;
  the client lemma is the conservation of a whole run: what was removed, followed by what is
  still buffered, is what was buffered at the start followed by what was accepted, in order.
  Input stream managers and the task deque of the thread pool are instances.
\<close>

datatype ('p, 'r, 'c) chan_op = Send "'p list" | Recv 'r | Control 'c

text \<open>
  A run over a list of operations; it returns the final state, what was accepted and what was
  removed, both in order.
\<close>

fun chan_run :: "('p list \<Rightarrow> 's \<Rightarrow> 's) \<Rightarrow> ('r \<Rightarrow> 's \<Rightarrow> 's) \<Rightarrow> ('r \<Rightarrow> 's \<Rightarrow> 'p option) \<Rightarrow>
    ('c \<Rightarrow> 's \<Rightarrow> 's) \<Rightarrow> ('s \<Rightarrow> bool) \<Rightarrow> ('p, 'r, 'c) chan_op list \<Rightarrow> 's \<Rightarrow>
    's \<times> 'p list \<times> 'p list" where
  "chan_run enq deq taken ctl accepts [] s = (s, [], [])"
| "chan_run enq deq taken ctl accepts (Send ps # ops) s =
     (let (s', acc, rcv) = chan_run enq deq taken ctl accepts ops (enq ps s)
      in (s', (if accepts s then ps @ acc else acc), rcv))"
| "chan_run enq deq taken ctl accepts (Recv r # ops) s =
     (let (s', acc, rcv) = chan_run enq deq taken ctl accepts ops (deq r s)
      in (s', acc, (case taken r s of Some p \<Rightarrow> p # rcv | None \<Rightarrow> rcv)))"
| "chan_run enq deq taken ctl accepts (Control c # ops) s =
     chan_run enq deq taken ctl accepts ops (ctl c s)"

locale fifo_channel =
  fixes enq :: "'p list \<Rightarrow> 's \<Rightarrow> 's"
    and deq :: "'r \<Rightarrow> 's \<Rightarrow> 's"
    and taken :: "'r \<Rightarrow> 's \<Rightarrow> 'p option"
    and ctl :: "'c \<Rightarrow> 's \<Rightarrow> 's"
    and accepts :: "'s \<Rightarrow> bool"
    and contents :: "'s \<Rightarrow> 'p list"
  assumes enq_open: "accepts s \<Longrightarrow> contents (enq ps s) = contents s @ ps"
    and enq_closed: "\<not> accepts s \<Longrightarrow> contents (enq ps s) = contents s"
    and deq_Some: "taken r s = Some p \<Longrightarrow> contents s = p # contents (deq r s)"
    and deq_None: "taken r s = None \<Longrightarrow> contents (deq r s) = contents s"
    and ctl_contents: "contents (ctl c s) = contents s"
begin

lemma taken_hd: "taken r s = Some p \<Longrightarrow> contents s \<noteq> [] \<and> hd (contents s) = p"
  using deq_Some by fastforce

lemma run_conserves:
  "chan_run enq deq taken ctl accepts ops s = (s', acc, rcv) \<Longrightarrow>
   rcv @ contents s' = contents s @ acc"
proof (induction ops arbitrary: s s' acc rcv)
  case Nil
  then show ?case by simp
next
  case (Cons x ops)
  show ?case
  proof (cases x)
    case (Send ps)
    obtain acc' where run: "chan_run enq deq taken ctl accepts ops (enq ps s) = (s', acc', rcv)"
      and acc: "acc = (if accepts s then ps @ acc' else acc')"
      using Cons.prems Send by (auto split: prod.splits)
    show ?thesis
      using Cons.IH [OF run] acc by (cases "accepts s") (simp_all add: enq_open enq_closed)
  next
    case (Recv r)
    obtain rcv' where run: "chan_run enq deq taken ctl accepts ops (deq r s) = (s', acc, rcv')"
      and rcv: "rcv = (case taken r s of Some p \<Rightarrow> p # rcv' | None \<Rightarrow> rcv')"
      using Cons.prems Recv by (auto split: prod.splits)
    show ?thesis
      using Cons.IH [OF run] rcv deq_Some [of r s] deq_None [of r s] by (cases "taken r s") auto
  next
    case (Control c)
    then show ?thesis
      using Cons.IH [of "ctl c s" s' acc rcv] Cons.prems by (simp add: ctl_contents)
  qed
qed

lemma run_no_loss:
  "chan_run enq deq taken ctl accepts ops s = (s', acc, rcv) \<Longrightarrow> contents s = [] \<Longrightarrow>
   contents s' = [] \<Longrightarrow> rcv = acc"
  using run_conserves by fastforce

end

end
