(* ===== verification/Input_Streams.thy ===== *)
theory Input_Streams
  imports Packets Channel_Contract
begin

text \<open>
  \<open>framework/stream/input_stream_manager.{h,cc}\<close>: the queue of one input edge. Every public
  operation runs under the manager's mutex and calls its callbacks after releasing it, so an
  operation is an atomic function from state to state which also returns the callbacks to run,
  in order, as events. A callback is a token (the runtime uses the index of the owning node or
  manager), \<open>None\<close> an empty \<open>std::function\<close>.
\<close>

section \<open>State\<close>

record 'v ism =
  ism_name :: string
  ism_queue :: "'v packet list"
  ism_num_added :: int
  ism_next_bound :: timestamp
  ism_last_select :: timestamp
  ism_closed :: bool
  ism_max_size :: int
  ism_enable_ts :: bool
  ism_arrival_cb :: "nat option"
  ism_full_cb :: "nat option"
  ism_not_full_cb :: "nat option"
  ism_last_full :: bool

datatype stream_event = PacketArrival nat | BecameFull nat | BecameNotFull nat

definition fire :: "(nat \<Rightarrow> stream_event) \<Rightarrow> nat option \<Rightarrow> stream_event list" where
  "fire ev cb = (case cb of Some t \<Rightarrow> [ev t] | None \<Rightarrow> [])"

definition ism_new :: "string \<Rightarrow> int \<Rightarrow> 'v ism" where
  "ism_new name max_queue_size =
     \<lparr>ism_name = name, ism_queue = [], ism_num_added = 0, ism_next_bound = ts_PreStream,
      ism_last_select = ts_Unstarted, ism_closed = False, ism_max_size = max_queue_size,
      ism_enable_ts = True, ism_arrival_cb = None, ism_full_cb = None,
      ism_not_full_cb = None, ism_last_full = False\<rparr>"

section \<open>Operations\<close>

definition CheckTimestamp :: "'v packet \<Rightarrow> bool" where
  "CheckTimestamp p \<longleftrightarrow> IsAllowedInStream (p_ts p) \<or> IsSpecialValue (p_ts p)"

definition ism_IsFull :: "'v ism \<Rightarrow> bool" where
  "ism_IsFull s \<longleftrightarrow> ism_max_size s \<noteq> -1 \<and> int (length (ism_queue s)) \<ge> ism_max_size s"

definition ism_IsEmpty :: "'v ism \<Rightarrow> bool" where
  "ism_IsEmpty s \<longleftrightarrow> ism_queue s = []"

definition ism_IsDone :: "'v ism \<Rightarrow> bool" where
  "ism_IsDone s \<longleftrightarrow> ism_queue s = [] \<and> ism_next_bound s = ts_Done"

definition ism_QueueSize :: "'v ism \<Rightarrow> int" where
  "ism_QueueSize s = int (length (ism_queue s))"

definition ism_QueueHead :: "'v ism \<Rightarrow> 'v packet" where
  "ism_QueueHead s = (case ism_queue s of [] \<Rightarrow> Packet0 | p # _ \<Rightarrow> p)"

text \<open>The loop of \<open>AddPackets\<close>; \<open>False\<close> is the early return on a bad timestamp.\<close>

fun ism_enqueue :: "'v packet list \<Rightarrow> 'v ism \<Rightarrow> 'v ism \<times> bool" where
  "ism_enqueue [] s = (s, True)"
| "ism_enqueue (p # ps) s =
     (if ism_enable_ts s \<and> \<not> CheckTimestamp p then (s, False)
      else ism_enqueue ps
        (s\<lparr>ism_next_bound := NextAllowedInStream (p_ts p),
           ism_num_added := ism_num_added s + 1,
           ism_queue := ism_queue s @ [p]\<rparr>))"

definition ism_AddPackets ::
  "'v packet list \<Rightarrow> 'v ism \<Rightarrow> 'v ism \<times> status \<times> bool \<times> stream_event list" where
  "ism_AddPackets ps s =
     (let was_queue_full = ism_IsFull s in
      if ism_closed s then (s, Status CFailedPrecondition ''Stream is closed'', False, [])
      else
        let queue_became_non_empty = (ism_queue s = [] \<and> ps \<noteq> []);
            (s', valid) = ism_enqueue ps s
        in if \<not> valid then (s', Status CInvalidArgument ''Invalid timestamp'', False, [])
           else (s', ok_status, queue_became_non_empty,
                 (if \<not> was_queue_full \<and> ism_IsFull s' then fire BecameFull (ism_full_cb s')
                  else []) @
                 (if queue_became_non_empty then fire PacketArrival (ism_arrival_cb s')
                  else [])))"

text \<open>
  The loop of \<open>MovePackets\<close> also leaves the caller's list with moved-from packets; on
  success the list is cleared.
\<close>

fun ism_enqueue_move :: "'v packet list \<Rightarrow> 'v ism \<Rightarrow> 'v ism \<times> bool \<times> 'v packet list" where
  "ism_enqueue_move [] s = (s, True, [])"
| "ism_enqueue_move (p # ps) s =
     (if ism_enable_ts s \<and> \<not> CheckTimestamp p then (s, False, p # ps)
      else
        let (s', valid, left) = ism_enqueue_move ps
              (s\<lparr>ism_next_bound := NextAllowedInStream (p_ts p),
                 ism_num_added := ism_num_added s + 1,
                 ism_queue := ism_queue s @ [p]\<rparr>)
        in (s', valid, p_moved p # left))"

definition ism_MovePackets ::
  "'v packet list \<Rightarrow> 'v ism \<Rightarrow>
     'v ism \<times> status \<times> bool \<times> 'v packet list \<times> stream_event list" where
  "ism_MovePackets ps s =
     (let was_queue_full = ism_IsFull s in
      if ism_closed s then (s, Status CFailedPrecondition ''Stream is closed'', False, ps, [])
      else
        let queue_became_non_empty = (ism_queue s = [] \<and> ps \<noteq> []);
            (s', valid, left) = ism_enqueue_move ps s
        in if \<not> valid then (s', Status CInvalidArgument ''Invalid timestamp'', False, left, [])
           else (s', ok_status, queue_became_non_empty, [],
                 (if \<not> was_queue_full \<and> ism_IsFull s' then fire BecameFull (ism_full_cb s')
                  else []) @
                 (if queue_became_non_empty then fire PacketArrival (ism_arrival_cb s')
                  else [])))"

definition ism_SetNextTimestampBound ::
  "timestamp \<Rightarrow> 'v ism \<Rightarrow> 'v ism \<times> stream_event list" where
  "ism_SetNextTimestampBound bound s =
     (if bound > ism_next_bound s
      then (s\<lparr>ism_next_bound := bound\<rparr>, fire PacketArrival (ism_arrival_cb s))
      else (s, []))"

definition ism_Close :: "'v ism \<Rightarrow> 'v ism \<times> stream_event list" where
  "ism_Close s =
     (if ism_closed s then (s, [])
      else (s\<lparr>ism_closed := True, ism_next_bound := ts_Done\<rparr>,
            fire PacketArrival (ism_arrival_cb s)))"

text \<open>Returns the packet, the number of dropped packets and the done flag.\<close>

definition ism_PopPacketAtTimestamp ::
  "timestamp \<Rightarrow> 'v ism \<Rightarrow> 'v ism \<times> 'v packet \<times> int \<times> bool \<times> stream_event list" where
  "ism_PopPacketAtTimestamp timestamp s =
     (let was_queue_full = ism_IsFull s;
          (s1, packet1, current, dropped1) =
            (case ism_queue s of
               p # rest \<Rightarrow>
                 if p_ts p \<le> timestamp
                 then (s\<lparr>ism_queue := rest\<rparr>, p, p_ts p, 0)
                 else (s, Packet0, ts_Unset, -1)
             | [] \<Rightarrow> (s, Packet0, ts_Unset, -1));
          (packet, dropped) =
            (if current \<noteq> timestamp
             then let bound = (case ism_queue s1 of p # _ \<Rightarrow> p_ts p | [] \<Rightarrow> ism_next_bound s1)
                  in (p_At (PreviousAllowedInStream bound) Packet0, dropped1 + 1)
             else (packet1, dropped1));
          s2 = s1\<lparr>ism_last_select := timestamp\<rparr>;
          s3 = (if ism_next_bound s2 \<le> timestamp
                then s2\<lparr>ism_next_bound := NextAllowedInStream timestamp\<rparr> else s2)
      in (s3, packet, dropped, ism_IsDone s3,
          if was_queue_full \<and> \<not> ism_IsFull s3 then fire BecameNotFull (ism_not_full_cb s3)
          else []))"

definition ism_PopQueueHead :: "'v ism \<Rightarrow> 'v ism \<times> 'v packet \<times> bool" where
  "ism_PopQueueHead s =
     (case ism_queue s of
        [] \<Rightarrow> (s, Packet0, ism_next_bound s = ts_Done)
      | p # rest \<Rightarrow> (s\<lparr>ism_queue := rest\<rparr>, p, False))"

text \<open>Returns the timestamp and the \<open>is_empty\<close> flag.\<close>

definition ism_MinTimestampOrBound :: "'v ism \<Rightarrow> timestamp \<times> bool" where
  "ism_MinTimestampOrBound s =
     (case ism_queue s of p # _ \<Rightarrow> (p_ts p, False) | [] \<Rightarrow> (ism_next_bound s, True))"

definition ism_SetMaxQueueSize :: "int \<Rightarrow> 'v ism \<Rightarrow> 'v ism" where
  "ism_SetMaxQueueSize n s = s\<lparr>ism_max_size := n\<rparr>"

definition ism_SetQueueSizeCallbacks :: "nat option \<Rightarrow> nat option \<Rightarrow> 'v ism \<Rightarrow> 'v ism" where
  "ism_SetQueueSizeCallbacks full_cb not_full_cb s =
     s\<lparr>ism_full_cb := full_cb, ism_not_full_cb := not_full_cb\<rparr>"

definition ism_SetArrivalCallback :: "nat option \<Rightarrow> 'v ism \<Rightarrow> 'v ism" where
  "ism_SetArrivalCallback cb s = s\<lparr>ism_arrival_cb := cb\<rparr>"

definition ism_PrepareForRun :: "'v ism \<Rightarrow> 'v ism" where
  "ism_PrepareForRun s =
     s\<lparr>ism_queue := [], ism_num_added := 0, ism_next_bound := ts_PreStream,
       ism_last_select := ts_Unstarted, ism_closed := False, ism_last_full := False\<rparr>"

definition ism_CleanupAfterRun :: "'v ism \<Rightarrow> 'v ism" where
  "ism_CleanupAfterRun s = s\<lparr>ism_queue := []\<rparr>"

section \<open>What the operations do\<close>

text \<open>
  The timestamp check accepts every packet: a timestamp is always allowed in a stream or
  special. So both enqueueing loops run to the end.
\<close>

lemma CheckTimestamp_always [simp]: "CheckTimestamp p"
  using allowed_or_special by (simp add: CheckTimestamp_def)

definition bound_after :: "'v packet list \<Rightarrow> timestamp \<Rightarrow> timestamp" where
  "bound_after ps b = (if ps = [] then b else NextAllowedInStream (p_ts (last ps)))"

definition appended :: "'v packet list \<Rightarrow> 'v ism \<Rightarrow> 'v ism" where
  "appended ps s =
     s\<lparr>ism_queue := ism_queue s @ ps,
       ism_num_added := ism_num_added s + int (length ps),
       ism_next_bound := bound_after ps (ism_next_bound s)\<rparr>"

lemma ism_enqueue_eq: "ism_enqueue ps s = (appended ps s, True)"
  by (induction ps s rule: ism_enqueue.induct) (auto simp: appended_def bound_after_def)

lemma ism_enqueue_move_eq:
  "ism_enqueue_move ps s = (appended ps s, True, map p_moved ps)"
  by (induction ps s rule: ism_enqueue_move.induct) (auto simp: appended_def bound_after_def)

lemma appended_simps [simp]:
  "ism_queue (appended ps s) = ism_queue s @ ps"
  "ism_num_added (appended ps s) = ism_num_added s + int (length ps)"
  "ism_next_bound (appended ps s) = bound_after ps (ism_next_bound s)"
  "ism_closed (appended ps s) = ism_closed s"
  "ism_max_size (appended ps s) = ism_max_size s"
  "ism_arrival_cb (appended ps s) = ism_arrival_cb s"
  "ism_full_cb (appended ps s) = ism_full_cb s"
  "ism_not_full_cb (appended ps s) = ism_not_full_cb s"
  "ism_name (appended ps s) = ism_name s"
  by (simp_all add: appended_def)

lemma appended_Nil [simp]: "appended [] s = s"
  by (simp add: appended_def bound_after_def)

lemma bound_after_simps [simp]:
  "bound_after [] b = b" "bound_after (ps @ [p]) b = NextAllowedInStream (p_ts p)"
  "ps \<noteq> [] \<Longrightarrow> bound_after ps b \<noteq> ts_Done"
  by (simp_all add: bound_after_def)

definition became_full :: "'v packet list \<Rightarrow> 'v ism \<Rightarrow> bool" where
  "became_full ps s \<longleftrightarrow> \<not> ism_IsFull s \<and> ism_IsFull (appended ps s)"

definition append_events :: "'v packet list \<Rightarrow> 'v ism \<Rightarrow> stream_event list" where
  "append_events ps s =
     (if became_full ps s then fire BecameFull (ism_full_cb s) else []) @
     (if ism_queue s = [] \<and> ps \<noteq> [] then fire PacketArrival (ism_arrival_cb s) else [])"

lemma ism_AddPackets_open:
  "\<not> ism_closed s \<Longrightarrow> ism_AddPackets ps s =
     (appended ps s, ok_status, ism_queue s = [] \<and> ps \<noteq> [], append_events ps s)"
  by (simp add: ism_AddPackets_def ism_enqueue_eq Let_def append_events_def became_full_def)

lemma ism_AddPackets_closed:
  "ism_closed s \<Longrightarrow> ism_AddPackets ps s =
     (s, Status CFailedPrecondition ''Stream is closed'', False, [])"
  by (simp add: ism_AddPackets_def Let_def)

lemma ism_MovePackets_open:
  "\<not> ism_closed s \<Longrightarrow> ism_MovePackets ps s =
     (appended ps s, ok_status, ism_queue s = [] \<and> ps \<noteq> [], [], append_events ps s)"
  by (simp add: ism_MovePackets_def ism_enqueue_move_eq Let_def append_events_def
      became_full_def)

lemma ism_MovePackets_closed:
  "ism_closed s \<Longrightarrow> ism_MovePackets ps s =
     (s, Status CFailedPrecondition ''Stream is closed'', False, ps, [])"
  by (simp add: ism_MovePackets_def Let_def)

lemma ism_PopQueueHead_Nil:
  "ism_queue s = [] \<Longrightarrow> ism_PopQueueHead s = (s, Packet0, ism_IsDone s)"
  by (simp add: ism_PopQueueHead_def ism_IsDone_def)

lemma ism_PopQueueHead_Cons:
  "ism_queue s = p # rest \<Longrightarrow> ism_PopQueueHead s = (s\<lparr>ism_queue := rest\<rparr>, p, False)"
  by (simp add: ism_PopQueueHead_def)

lemma ism_SetNextTimestampBound_le:
  "bound \<le> ism_next_bound s \<Longrightarrow> ism_SetNextTimestampBound bound s = (s, [])"
  by (auto simp: ism_SetNextTimestampBound_def dest: leD)

lemma ism_SetNextTimestampBound_simps [simp]:
  "ism_queue (fst (ism_SetNextTimestampBound b s)) = ism_queue s"
  "ism_closed (fst (ism_SetNextTimestampBound b s)) = ism_closed s"
  "ism_next_bound (fst (ism_SetNextTimestampBound b s)) = max b (ism_next_bound s)"
  "ism_max_size (fst (ism_SetNextTimestampBound b s)) = ism_max_size s"
  "ism_num_added (fst (ism_SetNextTimestampBound b s)) = ism_num_added s"
  by (auto simp: ism_SetNextTimestampBound_def max_def)

section \<open>The queue is a first-in first-out channel\<close>

datatype ism_recv = PopHead | PopAt timestamp

datatype ism_ctl =
    SetBound timestamp | CloseStream | SetMaxSize int | SetSizeCbs "nat option" "nat option"
  | SetArrivalCb "nat option"

definition ism_enq :: "'v packet list \<Rightarrow> 'v ism \<Rightarrow> 'v ism" where
  "ism_enq ps s = fst (ism_AddPackets ps s)"

fun ism_deq :: "ism_recv \<Rightarrow> 'v ism \<Rightarrow> 'v ism" where
  "ism_deq PopHead s = fst (ism_PopQueueHead s)"
| "ism_deq (PopAt t) s = fst (ism_PopPacketAtTimestamp t s)"

text \<open>The packet an operation removes from the queue, if any.\<close>

fun ism_taken :: "ism_recv \<Rightarrow> 'v ism \<Rightarrow> 'v packet option" where
  "ism_taken PopHead s = (case ism_queue s of [] \<Rightarrow> None | p # _ \<Rightarrow> Some p)"
| "ism_taken (PopAt t) s =
     (case ism_queue s of [] \<Rightarrow> None | p # _ \<Rightarrow> if p_ts p \<le> t then Some p else None)"

fun ism_control :: "ism_ctl \<Rightarrow> 'v ism \<Rightarrow> 'v ism" where
  "ism_control (SetBound b) s = fst (ism_SetNextTimestampBound b s)"
| "ism_control CloseStream s = fst (ism_Close s)"
| "ism_control (SetMaxSize n) s = ism_SetMaxQueueSize n s"
| "ism_control (SetSizeCbs f nf) s = ism_SetQueueSizeCallbacks f nf s"
| "ism_control (SetArrivalCb cb) s = ism_SetArrivalCallback cb s"

definition ism_accepts :: "'v ism \<Rightarrow> bool" where
  "ism_accepts s \<longleftrightarrow> \<not> ism_closed s"

definition ism_run ::
  "('v packet, ism_recv, ism_ctl) chan_op list \<Rightarrow> 'v ism \<Rightarrow>
     'v ism \<times> 'v packet list \<times> 'v packet list" where
  "ism_run = chan_run ism_enq ism_deq ism_taken ism_control ism_accepts"

lemma pop_at_queue:
  "ism_queue (fst (ism_PopPacketAtTimestamp t s)) =
     (case ism_queue s of p # rest \<Rightarrow> if p_ts p \<le> t then rest else p # rest | [] \<Rightarrow> [])"
  by (auto simp: ism_PopPacketAtTimestamp_def Let_def split: list.splits)

lemma ism_control_queue [simp]: "ism_queue (ism_control c s) = ism_queue s"
  by (cases c) (auto simp: ism_Close_def ism_SetMaxQueueSize_def
      ism_SetQueueSizeCallbacks_def ism_SetArrivalCallback_def)

interpretation ism_chan:
  fifo_channel ism_enq ism_deq ism_taken ism_control ism_accepts ism_queue
proof unfold_locales
  fix s :: "'v ism" and ps
  show "ism_accepts s \<Longrightarrow> ism_queue (ism_enq ps s) = ism_queue s @ ps"
    by (simp add: ism_accepts_def ism_enq_def ism_AddPackets_open)
  show "\<not> ism_accepts s \<Longrightarrow> ism_queue (ism_enq ps s) = ism_queue s"
    by (simp add: ism_accepts_def ism_enq_def ism_AddPackets_closed)
next
  fix r and s :: "'v ism" and p
  show "ism_taken r s = Some p \<Longrightarrow> ism_queue s = p # ism_queue (ism_deq r s)"
    by (cases r) (auto simp: pop_at_queue ism_PopQueueHead_Cons split: list.splits if_splits)
  show "ism_taken r s = None \<Longrightarrow> ism_queue (ism_deq r s) = ism_queue s"
    by (cases r) (auto simp: pop_at_queue ism_PopQueueHead_Nil split: list.splits if_splits)
qed simp

section \<open>Bounds and the done state\<close>

text \<open>
  A closed stream has bound Done. Only a pop at Done itself can move that bound away
  (\<open>NextAllowedInStream\<close> of Done is not Done), so a run is taken without such pops.
\<close>

definition ism_ok :: "'v ism \<Rightarrow> bool" where
  "ism_ok s \<longleftrightarrow> (ism_closed s \<longrightarrow> ism_next_bound s = ts_Done)"

fun below_done :: "('p, ism_recv, 'c) chan_op \<Rightarrow> bool" where
  "below_done (Recv (PopAt t)) \<longleftrightarrow> t \<noteq> ts_Done"
| "below_done _ \<longleftrightarrow> True"

lemma pop_at_closed [simp]:
  "ism_closed (fst (ism_PopPacketAtTimestamp t s)) = ism_closed s"
  by (auto simp: ism_PopPacketAtTimestamp_def Let_def split: list.splits)

lemma pop_at_bound [simp]:
  "ism_next_bound (fst (ism_PopPacketAtTimestamp t s)) =
     (if ism_next_bound s \<le> t then NextAllowedInStream t else ism_next_bound s)"
  by (auto simp: ism_PopPacketAtTimestamp_def Let_def split: list.splits)

lemma pop_head_simps [simp]:
  "ism_closed (fst (ism_PopQueueHead s)) = ism_closed s"
  "ism_next_bound (fst (ism_PopQueueHead s)) = ism_next_bound s"
  by (auto simp: ism_PopQueueHead_def split: list.splits)

lemma ism_ok_enq: "ism_ok s \<Longrightarrow> ism_ok (ism_enq ps s)"
  by (cases "ism_closed s")
     (auto simp: ism_ok_def ism_enq_def ism_AddPackets_open ism_AddPackets_closed)

lemma ism_ok_deq: "ism_ok s \<Longrightarrow> below_done (Recv r) \<Longrightarrow> ism_ok (ism_deq r s)"
  by (cases r) (auto simp: ism_ok_def ism_accepts_def top.extremum_unique dest: antisym)

lemma ism_ok_control: "ism_ok s \<Longrightarrow> ism_ok (ism_control c s)"
  by (cases c) (auto simp: ism_ok_def ism_Close_def ism_SetMaxQueueSize_def max_def
      ism_SetQueueSizeCallbacks_def ism_SetArrivalCallback_def dest: antisym)

lemma closed_enq [simp]: "ism_closed (ism_enq ps s) = ism_closed s"
  by (cases "ism_closed s") (auto simp: ism_enq_def ism_AddPackets_open ism_AddPackets_closed)

lemma closed_deq [simp]: "ism_closed (ism_deq r s) = ism_closed s"
  by (cases r) auto

lemma closed_control: "ism_closed s \<Longrightarrow> ism_closed (ism_control c s)"
  by (cases c) (auto simp: ism_Close_def ism_SetMaxQueueSize_def
      ism_SetQueueSizeCallbacks_def ism_SetArrivalCallback_def)

lemma ism_run_Nil [simp]: "ism_run [] s = (s, [], [])"
  by (simp add: ism_run_def)

lemma ism_run_closed:
  "ism_run ops s = (s', acc, rcv) \<Longrightarrow> ism_ok s \<Longrightarrow> ism_closed s \<Longrightarrow>
   (\<forall>x\<in>set ops. below_done x) \<Longrightarrow> ism_ok s' \<and> ism_closed s' \<and> acc = []"
proof (induction ops arbitrary: s s' acc rcv)
  case Nil
  then show ?case by simp
next
  case (Cons x ops)
  show ?case
  proof (cases x)
    case (Send ps)
    obtain acc' where "ism_run ops (ism_enq ps s) = (s', acc', rcv)" and "acc = acc'"
      using Cons.prems Send by (auto simp: ism_run_def ism_accepts_def split: prod.splits)
    then show ?thesis using Cons.IH Cons.prems by (auto simp: ism_ok_enq)
  next
    case (Recv r)
    obtain rcv' where "ism_run ops (ism_deq r s) = (s', acc, rcv')"
      using Cons.prems Recv by (auto simp: ism_run_def split: prod.splits)
    then show ?thesis using Cons.IH Cons.prems Recv by (auto simp: ism_ok_deq)
  next
    case (Control c)
    then have "ism_run ops (ism_control c s) = (s', acc, rcv)"
      using Cons.prems by (simp add: ism_run_def)
    then show ?thesis
      using Cons.IH Cons.prems by (auto simp: ism_ok_control closed_control)
  qed
qed

section \<open>Properties\<close>

text \<open>
  C20: \<open>AddPackets\<close> on an open stream appends the whole batch in order, counts it, sets the
  bound to the successor of the last timestamp, notifies exactly when an empty queue became
  non-empty, and fires the full callback exactly when the batch crosses the limit, before the
  arrival callback; on a closed stream it changes nothing and fails with FailedPrecondition.
  The \<open>Invalid timestamp\<close> error of the code is never returned.
\<close>

theorem AddPackets_spec:
  "ism_AddPackets ps s =
     (if ism_closed s
      then (s, Status CFailedPrecondition ''Stream is closed'', False, [])
      else (s\<lparr>ism_queue := ism_queue s @ ps,
              ism_num_added := ism_num_added s + int (length ps),
              ism_next_bound :=
                (if ps = [] then ism_next_bound s else NextAllowedInStream (p_ts (last ps)))\<rparr>,
            ok_status,
            ism_queue s = [] \<and> ps \<noteq> [],
            (if \<not> ism_IsFull s \<and> ism_max_size s \<noteq> -1 \<and>
                int (length (ism_queue s) + length ps) \<ge> ism_max_size s
             then fire BecameFull (ism_full_cb s) else []) @
            (if ism_queue s = [] \<and> ps \<noteq> [] then fire PacketArrival (ism_arrival_cb s)
             else [])))"
  by (simp add: ism_AddPackets_closed ism_AddPackets_open append_events_def became_full_def
      ism_IsFull_def appended_def bound_after_def)

text \<open>
  \<open>MovePackets\<close> has the same effect, status, notification and callbacks as
  \<open>AddPackets\<close>; it differs only in the caller's list, which it empties on success and
  leaves untouched when the stream is closed.
\<close>

lemma MovePackets_equiv:
  "ism_MovePackets ps s =
     (let (s', st, notify, evs) = ism_AddPackets ps s
      in (s', st, notify, if st_ok st then [] else ps, evs))"
  by (cases "ism_closed s")
     (simp_all add: ism_AddPackets_open ism_AddPackets_closed ism_MovePackets_open
       ism_MovePackets_closed)

text \<open>
  C11: first in, first out, nothing lost and nothing invented: over any sequence of batch
  additions, pops (at the head or at a timestamp), bound changes, closing and callback or
  limit changes, the packets removed followed by those still queued are the packets queued at
  the start followed by the accepted ones, in order.
\<close>

theorem stream_conservation:
  "case ism_run ops s of (s', acc, rcv) \<Rightarrow> rcv @ ism_queue s' = ism_queue s @ acc"
  by (auto simp: ism_run_def dest: ism_chan.run_conserves)

text \<open>
  Closing is final: from a closed stream whose bound is Done, no run of operations (with
  pops below Done) accepts another packet, the stream stays closed with bound Done, and it is
  done as soon as the queue is empty.
\<close>

lemma closed_stays_done:
  assumes "ism_closed s" "ism_next_bound s = ts_Done" "\<forall>x\<in>set ops. below_done x"
    and "ism_run ops s = (s', acc, rcv)"
  shows "acc = [] \<and> ism_closed s' \<and> ism_next_bound s' = ts_Done \<and>
    (ism_IsDone s' \<longleftrightarrow> ism_queue s' = [])"
  using ism_run_closed [OF assms(4)] assms(1-3) by (auto simp: ism_ok_def ism_IsDone_def)

lemma closed_stays_done_witness:
  "fst (snd (ism_run [Send [MakePacket 1 ''i'' (7::int)], Recv PopHead]
     (fst (ism_Close (ism_new ''in'' 2))))) = []"
proof -
  let ?s = "fst (ism_Close (ism_new ''in'' 2)) :: int ism"
  let ?ops = "[Send [MakePacket 1 ''i'' (7::int)], Recv PopHead]
    :: (int packet, ism_recv, ism_ctl) chan_op list"
  obtain s' acc rcv where run: "ism_run ?ops ?s = (s', acc, rcv)"
    by (cases "ism_run ?ops ?s") auto
  have "acc = []"
    using closed_stays_done [OF _ _ _ run] by (simp add: ism_Close_def ism_new_def)
  then show ?thesis using run by simp
qed

text \<open>
  Data and end of stream are separate signals: \<open>PopQueueHead\<close> reports done exactly when
  the stream was done before the call, and then it delivers no packet and changes nothing;
  popping a packet, even the last one of a finished stream, never reports done.
\<close>

lemma PopQueueHead_done_separate:
  "case ism_PopQueueHead s of (s', p, done) \<Rightarrow>
     (done \<longleftrightarrow> ism_IsDone s) \<and>
     (if ism_queue s = [] then s' = s \<and> p = Packet0
      else \<not> done \<and> ism_queue s = p # ism_queue s' \<and> ism_next_bound s' = ism_next_bound s)"
  by (auto simp: ism_PopQueueHead_def ism_IsDone_def split: list.splits)

text \<open>
  C36: \<open>PopPacketAtTimestamp\<close> looks at the front of the queue only: an exact match is
  delivered with no drop, a front packet older than the requested timestamp is discarded and
  counted, a newer one stays; without a match the result is an empty packet stamped just
  before the next packet or bound. At most one packet leaves the queue per call, even if the
  packet behind a stale one has exactly the requested timestamp.
\<close>

theorem PopPacketAtTimestamp_spec:
  assumes "t \<noteq> ts_Unset"
  shows "case ism_PopPacketAtTimestamp t s of (s', p, dropped, done, evs) \<Rightarrow>
    (case ism_queue s of
       [] \<Rightarrow> p = p_At (PreviousAllowedInStream (ism_next_bound s)) Packet0 \<and> dropped = 0 \<and>
             ism_queue s' = []
     | q # rest \<Rightarrow>
         if p_ts q = t then p = q \<and> dropped = 0 \<and> ism_queue s' = rest
         else if p_ts q < t then
           p = p_At (PreviousAllowedInStream
                 (case rest of r # _ \<Rightarrow> p_ts r | [] \<Rightarrow> ism_next_bound s)) Packet0 \<and>
           dropped = 1 \<and> ism_queue s' = rest
         else p = p_At (PreviousAllowedInStream (p_ts q)) Packet0 \<and> dropped = 0 \<and>
              ism_queue s' = q # rest) \<and>
    ism_next_bound s' =
      (if ism_next_bound s \<le> t then NextAllowedInStream t else ism_next_bound s) \<and>
    done = ism_IsDone s' \<and>
    evs = (if ism_IsFull s \<and> \<not> ism_IsFull s' then fire BecameNotFull (ism_not_full_cb s) else [])"
  using assms
  by (auto simp: ism_PopPacketAtTimestamp_def Let_def split: list.splits)

theorem PopPacketAtTimestamp_spec_witness:
  "let s = fst (ism_AddPackets [p_At (ts_of 1) (MakePacket 1 ''i'' (7::int)),
             p_At (ts_of 2) (MakePacket 2 ''i'' 8)] (ism_new ''in'' (-1)))
   in fst (snd (snd (ism_PopPacketAtTimestamp (ts_of 2) s))) = 1"
proof -
  let ?s = "fst (ism_AddPackets [p_At (ts_of 1) (MakePacket 1 ''i'' (7::int)),
             p_At (ts_of 2) (MakePacket 2 ''i'' 8)] (ism_new ''in'' (-1)))"
  have t: "ts_of 2 \<noteq> ts_Unset" "ts_of 1 \<noteq> ts_of 2" "ts_of 1 < ts_of 2"
    by (simp_all add: ts_eq_iff ts_less_iff ts_val_of)
  show ?thesis
    using PopPacketAtTimestamp_spec [OF t(1), of ?s] t
    by (auto simp: ism_AddPackets_open ism_new_def appended_def split: prod.splits)
qed

end
