(* ===== verification/Input_Handlers.thy ===== *)
theory Input_Handlers
  imports Input_Streams
begin

text \<open>
  \<open>framework/scheduler/input_stream_handler.{h,cc}\<close>: \<open>SyncSet\<close> and the three input
  policies. A handler refers to its node's managers by index into the list of all input stream
  managers; its virtual methods dispatch on the class (\<open>ih_kind\<close>). Callbacks of the
  managers it calls are returned as events, in order.
\<close>

section \<open>State\<close>

datatype ih_class = DefaultIH | ImmediateIH | FixedSizeIH int

record ih =
  ih_kind :: ih_class
  ih_managers :: "nat list"
  ih_sync_set :: "nat list option"
  ih_schedule_cb :: bool
  ih_notified :: bool

datatype readiness = NotReady | ReadyForProcess | ReadyForClose

definition ih_new :: "ih_class \<Rightarrow> ih" where
  "ih_new k = \<lparr>ih_kind = k, ih_managers = [], ih_sync_set = None, ih_schedule_cb = False,
                ih_notified = False\<rparr>"

text \<open>The factory: any unknown name gives the default handler.\<close>

definition CreateInputStreamHandler :: "string \<Rightarrow> int \<Rightarrow> ih" where
  "CreateInputStreamHandler name max_queue_size =
     (if name = ''immediate'' then ih_new ImmediateIH
      else if name = ''fixed_size'' then ih_new (FixedSizeIH max_queue_size)
      else ih_new DefaultIH)"

section \<open>SyncSet\<close>

fun sync_scan :: "'v ism list \<Rightarrow> nat list \<Rightarrow> timestamp \<times> timestamp \<times> bool \<Rightarrow>
    timestamp \<times> timestamp \<times> bool" where
  "sync_scan ims [] acc = acc"
| "sync_scan ims (m # ms) (min_bound, min_packet, any_bound_empty) =
     (let (ts, empty) = ism_MinTimestampOrBound (ims ! m)
      in if empty then sync_scan ims ms (min min_bound ts, min_packet, True)
         else sync_scan ims ms (min_bound, min min_packet ts, any_bound_empty))"

definition SyncSet_GetReadiness :: "'v ism list \<Rightarrow> nat list \<Rightarrow> readiness \<times> timestamp" where
  "SyncSet_GetReadiness ims managers =
     (let (min_bound, min_packet, any_bound_empty) =
            sync_scan ims managers (ts_Done, ts_Done, False);
          min_stream_timestamp = min min_packet min_bound
      in if min_stream_timestamp \<ge> ts_OneOverPostStream
         then (ReadyForClose, min_stream_timestamp)
         else if \<not> any_bound_empty then (ReadyForProcess, min_stream_timestamp)
         else if min_bound > min_packet then (ReadyForProcess, min_stream_timestamp)
         else (NotReady, min_stream_timestamp))"

text \<open>Pops every stream at the timestamp; the popped packets are dropped here.\<close>

fun pop_all_at :: "timestamp \<Rightarrow> nat list \<Rightarrow> 'v ism list \<Rightarrow> 'v ism list \<times> stream_event list" where
  "pop_all_at t [] ims = (ims, [])"
| "pop_all_at t (m # ms) ims =
     (let (s, _, _, _, evs) = ism_PopPacketAtTimestamp t (ims ! m);
          (ims', evs') = pop_all_at t ms (ims[m := s])
      in (ims', evs @ evs'))"

definition SyncSet_FillInputSet ::
  "timestamp \<Rightarrow> nat list \<Rightarrow> 'v ism list \<Rightarrow> 'v ism list \<times> stream_event list" where
  "SyncSet_FillInputSet t managers ims = pop_all_at t managers ims"

text \<open>Reads every bound and discards it.\<close>

definition SyncSet_FillInputBounds :: "nat list \<Rightarrow> 'v ism list \<Rightarrow> 'v ism list" where
  "SyncSet_FillInputBounds managers ims = ims"

section \<open>Readiness of the three policies\<close>

text \<open>
  \<open>old\<close> is the value of \<open>*min_stream_timestamp\<close> before the call; a default handler whose
  managers were never set leaves it.
\<close>

definition default_GetNodeReadiness ::
  "ih \<Rightarrow> 'v ism list \<Rightarrow> timestamp \<Rightarrow> readiness \<times> timestamp" where
  "default_GetNodeReadiness h ims old =
     (case ih_sync_set h of
        None \<Rightarrow> (NotReady, old)
      | Some managers \<Rightarrow> SyncSet_GetReadiness ims managers)"

fun immediate_scan :: "'v ism list \<Rightarrow> nat list \<Rightarrow> timestamp \<Rightarrow> readiness \<times> timestamp" where
  "immediate_scan ims [] mts = (NotReady, mts)"
| "immediate_scan ims (m # ms) mts =
     (let (ts, empty) = ism_MinTimestampOrBound (ims ! m)
      in if \<not> empty then (ReadyForProcess, min mts ts)
         else immediate_scan ims ms (min mts ts))"

definition immediate_GetNodeReadiness ::
  "ih \<Rightarrow> 'v ism list \<Rightarrow> timestamp \<Rightarrow> readiness \<times> timestamp" where
  "immediate_GetNodeReadiness h ims old = immediate_scan ims (ih_managers h) ts_Done"

fun fixed_scan :: "'v ism list \<Rightarrow> nat list \<Rightarrow> timestamp \<Rightarrow> bool \<Rightarrow> readiness \<times> timestamp" where
  "fixed_scan ims [] mts any_has_data =
     (if any_has_data then ReadyForProcess else NotReady, mts)"
| "fixed_scan ims (m # ms) mts any_has_data =
     (if ism_IsFull (ims ! m) then (NotReady, mts)
      else let (ts, empty) = ism_MinTimestampOrBound (ims ! m)
           in fixed_scan ims ms (min mts ts) (any_has_data \<or> \<not> empty))"

definition fixed_GetNodeReadiness ::
  "ih \<Rightarrow> 'v ism list \<Rightarrow> timestamp \<Rightarrow> readiness \<times> timestamp" where
  "fixed_GetNodeReadiness h ims old = fixed_scan ims (ih_managers h) ts_Done False"

section \<open>ScheduleInvocations\<close>

text \<open>
  The loop of the three classes is the same text over the class's own \<open>GetNodeReadiness\<close>.
  \<open>ready\<close> is that method applied to the current state (its argument is the freshly
  default-constructed \<open>min_ts\<close>), \<open>cb\<close> the schedule callback on the node, an arbitrary
  state change, run when it is set. The first argument counts the invocations still allowed.
  The result is the number scheduled, the final state and \<open>*input_bound\<close>.
\<close>

fun schedule_loop :: "nat \<Rightarrow> ('s \<Rightarrow> timestamp \<Rightarrow> readiness \<times> timestamp) \<Rightarrow> ('s \<Rightarrow> 's) \<Rightarrow> bool \<Rightarrow>
    's \<Rightarrow> timestamp \<Rightarrow> nat \<times> 's \<times> timestamp" where
  "schedule_loop 0 ready cb has_cb st input_bound = (0, st, input_bound)"
| "schedule_loop (Suc n) ready cb has_cb st input_bound =
     (case ready st ts_Unset of
        (ReadyForProcess, _) \<Rightarrow>
          let (k, st', b) =
            schedule_loop n ready cb has_cb (if has_cb then cb st else st) input_bound
          in (Suc k, st', b)
      | (ReadyForClose, _) \<Rightarrow> (0, if has_cb then cb st else st, input_bound)
      | (NotReady, min_ts) \<Rightarrow> (0, st, min_ts))"

definition default_ScheduleInvocations ::
  "int \<Rightarrow> timestamp \<Rightarrow> ih \<Rightarrow> ('v ism list \<Rightarrow> 'v ism list) \<Rightarrow> 'v ism list \<Rightarrow>
     bool \<times> 'v ism list \<times> timestamp" where
  "default_ScheduleInvocations max_allowance input_bound h cb ims =
     (let (scheduled, ims', b) =
        schedule_loop (nat max_allowance) (default_GetNodeReadiness h) cb (ih_schedule_cb h)
          ims input_bound
      in (scheduled > 0, ims', b))"

definition immediate_ScheduleInvocations ::
  "int \<Rightarrow> timestamp \<Rightarrow> ih \<Rightarrow> ('v ism list \<Rightarrow> 'v ism list) \<Rightarrow> 'v ism list \<Rightarrow>
     bool \<times> 'v ism list \<times> timestamp" where
  "immediate_ScheduleInvocations max_allowance input_bound h cb ims =
     (let (scheduled, ims', b) =
        schedule_loop (nat max_allowance) (immediate_GetNodeReadiness h) cb (ih_schedule_cb h)
          ims input_bound
      in (scheduled > 0, ims', b))"

definition fixed_ScheduleInvocations ::
  "int \<Rightarrow> timestamp \<Rightarrow> ih \<Rightarrow> ('v ism list \<Rightarrow> 'v ism list) \<Rightarrow> 'v ism list \<Rightarrow>
     bool \<times> 'v ism list \<times> timestamp" where
  "fixed_ScheduleInvocations max_allowance input_bound h cb ims =
     (let (scheduled, ims', b) =
        schedule_loop (nat max_allowance) (fixed_GetNodeReadiness h) cb (ih_schedule_cb h)
          ims input_bound
      in (scheduled > 0, ims', b))"

section \<open>The remaining virtual methods\<close>

fun set_max_sizes :: "int \<Rightarrow> nat list \<Rightarrow> 'v ism list \<Rightarrow> 'v ism list" where
  "set_max_sizes n [] ims = ims"
| "set_max_sizes n (m # ms) ims =
     set_max_sizes n ms (if n > 0 then ims[m := ism_SetMaxQueueSize n (ims ! m)] else ims)"

definition default_SetInputStreamManagers :: "nat list \<Rightarrow> ih \<Rightarrow> ih" where
  "default_SetInputStreamManagers managers h = h\<lparr>ih_managers := managers, ih_sync_set := Some managers\<rparr>"

definition immediate_SetInputStreamManagers :: "nat list \<Rightarrow> ih \<Rightarrow> ih" where
  "immediate_SetInputStreamManagers managers h = h\<lparr>ih_managers := managers\<rparr>"

definition fixed_SetInputStreamManagers ::
  "int \<Rightarrow> nat list \<Rightarrow> ih \<Rightarrow> 'v ism list \<Rightarrow> ih \<times> 'v ism list" where
  "fixed_SetInputStreamManagers max_queue_size managers h ims =
     (h\<lparr>ih_managers := managers\<rparr>, set_max_sizes max_queue_size managers ims)"

definition ih_SetInputStreamManagers ::
  "nat list \<Rightarrow> ih \<Rightarrow> 'v ism list \<Rightarrow> ih \<times> 'v ism list" where
  "ih_SetInputStreamManagers managers h ims =
     (case ih_kind h of
        DefaultIH \<Rightarrow> (default_SetInputStreamManagers managers h, ims)
      | ImmediateIH \<Rightarrow> (immediate_SetInputStreamManagers managers h, ims)
      | FixedSizeIH n \<Rightarrow> fixed_SetInputStreamManagers n managers h ims)"

definition ih_SetScheduleCallback :: "bool \<Rightarrow> ih \<Rightarrow> ih" where
  "ih_SetScheduleCallback cb h = h\<lparr>ih_schedule_cb := cb\<rparr>"

definition ih_GetNodeReadiness ::
  "ih \<Rightarrow> 'v ism list \<Rightarrow> timestamp \<Rightarrow> readiness \<times> timestamp" where
  "ih_GetNodeReadiness h =
     (case ih_kind h of
        DefaultIH \<Rightarrow> default_GetNodeReadiness h
      | ImmediateIH \<Rightarrow> immediate_GetNodeReadiness h
      | FixedSizeIH _ \<Rightarrow> fixed_GetNodeReadiness h)"

definition ih_ScheduleInvocations ::
  "int \<Rightarrow> timestamp \<Rightarrow> ih \<Rightarrow> ('v ism list \<Rightarrow> 'v ism list) \<Rightarrow> 'v ism list \<Rightarrow>
     bool \<times> 'v ism list \<times> timestamp" where
  "ih_ScheduleInvocations max_allowance input_bound h =
     (case ih_kind h of
        DefaultIH \<Rightarrow> default_ScheduleInvocations max_allowance input_bound h
      | ImmediateIH \<Rightarrow> immediate_ScheduleInvocations max_allowance input_bound h
      | FixedSizeIH _ \<Rightarrow> fixed_ScheduleInvocations max_allowance input_bound h)"

definition default_FillInputSet ::
  "timestamp \<Rightarrow> ih \<Rightarrow> 'v ism list \<Rightarrow> 'v ism list \<times> stream_event list" where
  "default_FillInputSet t h ims =
     (case ih_sync_set h of
        Some managers \<Rightarrow> SyncSet_FillInputSet t managers ims
      | None \<Rightarrow> (ims, []))"

definition immediate_FillInputSet ::
  "timestamp \<Rightarrow> ih \<Rightarrow> 'v ism list \<Rightarrow> 'v ism list \<times> stream_event list" where
  "immediate_FillInputSet t h ims = pop_all_at t (ih_managers h) ims"

definition fixed_FillInputSet ::
  "timestamp \<Rightarrow> ih \<Rightarrow> 'v ism list \<Rightarrow> 'v ism list \<times> stream_event list" where
  "fixed_FillInputSet t h ims = pop_all_at t (ih_managers h) ims"

definition ih_FillInputSet ::
  "timestamp \<Rightarrow> ih \<Rightarrow> 'v ism list \<Rightarrow> 'v ism list \<times> stream_event list" where
  "ih_FillInputSet t h =
     (case ih_kind h of
        DefaultIH \<Rightarrow> default_FillInputSet t h
      | ImmediateIH \<Rightarrow> immediate_FillInputSet t h
      | FixedSizeIH _ \<Rightarrow> fixed_FillInputSet t h)"

definition ih_NotifyPacketArrival :: "ih \<Rightarrow> ih" where
  "ih_NotifyPacketArrival h = h\<lparr>ih_notified := True\<rparr>"

text \<open>
  The stream an id names: the ids are checked, so an id outside the node's managers never
  touches a queue.
\<close>

definition valid_id :: "ih \<Rightarrow> int \<Rightarrow> bool" where
  "valid_id h sid \<longleftrightarrow> 0 \<le> sid \<and> sid < int (length (ih_managers h))"

definition default_SetNextTimestampBound ::
  "int \<Rightarrow> timestamp \<Rightarrow> ih \<Rightarrow> 'v ism list \<Rightarrow> 'v ism list \<times> stream_event list" where
  "default_SetNextTimestampBound sid bound h ims =
     (if sid \<ge> 0 \<and> sid < int (length (ih_managers h))
      then let m = ih_managers h ! nat sid;
               (s, evs) = ism_SetNextTimestampBound bound (ims ! m)
           in (ims[m := s], evs)
      else (ims, []))"

definition immediate_SetNextTimestampBound ::
  "int \<Rightarrow> timestamp \<Rightarrow> ih \<Rightarrow> 'v ism list \<Rightarrow> 'v ism list \<times> stream_event list" where
  "immediate_SetNextTimestampBound sid bound h ims =
     (if sid \<ge> 0 \<and> sid < int (length (ih_managers h))
      then let m = ih_managers h ! nat sid;
               (s, evs) = ism_SetNextTimestampBound bound (ims ! m)
           in (ims[m := s], evs)
      else (ims, []))"

definition fixed_SetNextTimestampBound ::
  "int \<Rightarrow> timestamp \<Rightarrow> ih \<Rightarrow> 'v ism list \<Rightarrow> 'v ism list \<times> stream_event list" where
  "fixed_SetNextTimestampBound sid bound h ims =
     (if sid \<ge> 0 \<and> sid < int (length (ih_managers h))
      then let m = ih_managers h ! nat sid;
               (s, evs) = ism_SetNextTimestampBound bound (ims ! m)
           in (ims[m := s], evs)
      else (ims, []))"

definition ih_SetNextTimestampBound ::
  "int \<Rightarrow> timestamp \<Rightarrow> ih \<Rightarrow> 'v ism list \<Rightarrow> 'v ism list \<times> stream_event list" where
  "ih_SetNextTimestampBound sid bound h =
     (case ih_kind h of
        DefaultIH \<Rightarrow> default_SetNextTimestampBound sid bound h
      | ImmediateIH \<Rightarrow> immediate_SetNextTimestampBound sid bound h
      | FixedSizeIH _ \<Rightarrow> fixed_SetNextTimestampBound sid bound h)"

definition default_AddPacketsToStream ::
  "int \<Rightarrow> 'v packet list \<Rightarrow> ih \<Rightarrow> 'v ism list \<Rightarrow>
     'v ism list \<times> status \<times> bool \<times> stream_event list" where
  "default_AddPacketsToStream sid packets h ims =
     (if sid < 0 \<or> sid \<ge> int (length (ih_managers h))
      then (ims, Status CInvalidArgument ''Invalid stream id'', False, [])
      else let m = ih_managers h ! nat sid;
               (s, st, notify, evs) = ism_AddPackets packets (ims ! m)
           in (ims[m := s], st, notify, evs))"

definition immediate_AddPacketsToStream ::
  "int \<Rightarrow> 'v packet list \<Rightarrow> ih \<Rightarrow> 'v ism list \<Rightarrow>
     'v ism list \<times> status \<times> bool \<times> stream_event list" where
  "immediate_AddPacketsToStream sid packets h ims =
     (if sid < 0 \<or> sid \<ge> int (length (ih_managers h))
      then (ims, Status CInvalidArgument ''Invalid stream id'', False, [])
      else let m = ih_managers h ! nat sid;
               (s, st, notify, evs) = ism_AddPackets packets (ims ! m)
           in (ims[m := s], st, notify, evs))"

definition fixed_AddPacketsToStream ::
  "int \<Rightarrow> 'v packet list \<Rightarrow> ih \<Rightarrow> 'v ism list \<Rightarrow>
     'v ism list \<times> status \<times> bool \<times> stream_event list" where
  "fixed_AddPacketsToStream sid packets h ims =
     (if sid < 0 \<or> sid \<ge> int (length (ih_managers h))
      then (ims, Status CInvalidArgument ''Invalid stream id'', False, [])
      else let m = ih_managers h ! nat sid;
               (s, st, notify, evs) = ism_AddPackets packets (ims ! m)
           in (ims[m := s], st, notify, evs))"

definition ih_AddPacketsToStream ::
  "int \<Rightarrow> 'v packet list \<Rightarrow> ih \<Rightarrow> 'v ism list \<Rightarrow>
     'v ism list \<times> status \<times> bool \<times> stream_event list" where
  "ih_AddPacketsToStream sid packets h =
     (case ih_kind h of
        DefaultIH \<Rightarrow> default_AddPacketsToStream sid packets h
      | ImmediateIH \<Rightarrow> immediate_AddPacketsToStream sid packets h
      | FixedSizeIH _ \<Rightarrow> fixed_AddPacketsToStream sid packets h)"

definition default_MovePacketsToStream ::
  "int \<Rightarrow> 'v packet list \<Rightarrow> ih \<Rightarrow> 'v ism list \<Rightarrow>
     'v ism list \<times> status \<times> bool \<times> 'v packet list \<times> stream_event list" where
  "default_MovePacketsToStream sid packets h ims =
     (if sid < 0 \<or> sid \<ge> int (length (ih_managers h))
      then (ims, Status CInvalidArgument ''Invalid stream id'', False, packets, [])
      else let m = ih_managers h ! nat sid;
               (s, st, notify, left, evs) = ism_MovePackets packets (ims ! m)
           in (ims[m := s], st, notify, left, evs))"

definition immediate_MovePacketsToStream ::
  "int \<Rightarrow> 'v packet list \<Rightarrow> ih \<Rightarrow> 'v ism list \<Rightarrow>
     'v ism list \<times> status \<times> bool \<times> 'v packet list \<times> stream_event list" where
  "immediate_MovePacketsToStream sid packets h ims =
     (if sid < 0 \<or> sid \<ge> int (length (ih_managers h))
      then (ims, Status CInvalidArgument ''Invalid stream id'', False, packets, [])
      else let m = ih_managers h ! nat sid;
               (s, st, notify, left, evs) = ism_MovePackets packets (ims ! m)
           in (ims[m := s], st, notify, left, evs))"

definition fixed_MovePacketsToStream ::
  "int \<Rightarrow> 'v packet list \<Rightarrow> ih \<Rightarrow> 'v ism list \<Rightarrow>
     'v ism list \<times> status \<times> bool \<times> 'v packet list \<times> stream_event list" where
  "fixed_MovePacketsToStream sid packets h ims =
     (if sid < 0 \<or> sid \<ge> int (length (ih_managers h))
      then (ims, Status CInvalidArgument ''Invalid stream id'', False, packets, [])
      else let m = ih_managers h ! nat sid;
               (s, st, notify, left, evs) = ism_MovePackets packets (ims ! m)
           in (ims[m := s], st, notify, left, evs))"

definition ih_MovePacketsToStream ::
  "int \<Rightarrow> 'v packet list \<Rightarrow> ih \<Rightarrow> 'v ism list \<Rightarrow>
     'v ism list \<times> status \<times> bool \<times> 'v packet list \<times> stream_event list" where
  "ih_MovePacketsToStream sid packets h =
     (case ih_kind h of
        DefaultIH \<Rightarrow> default_MovePacketsToStream sid packets h
      | ImmediateIH \<Rightarrow> immediate_MovePacketsToStream sid packets h
      | FixedSizeIH _ \<Rightarrow> fixed_MovePacketsToStream sid packets h)"

fun close_all :: "nat list \<Rightarrow> 'v ism list \<Rightarrow> 'v ism list \<times> stream_event list" where
  "close_all [] ims = (ims, [])"
| "close_all (m # ms) ims =
     (let (s, evs) = ism_Close (ims ! m); (ims', evs') = close_all ms (ims[m := s])
      in (ims', evs @ evs'))"

definition default_Close :: "ih \<Rightarrow> 'v ism list \<Rightarrow> 'v ism list \<times> stream_event list" where
  "default_Close h ims = close_all (ih_managers h) ims"

definition immediate_Close :: "ih \<Rightarrow> 'v ism list \<Rightarrow> 'v ism list \<times> stream_event list" where
  "immediate_Close h ims = close_all (ih_managers h) ims"

definition fixed_Close :: "ih \<Rightarrow> 'v ism list \<Rightarrow> 'v ism list \<times> stream_event list" where
  "fixed_Close h ims = close_all (ih_managers h) ims"

definition ih_Close ::
  "ih \<Rightarrow> 'v ism list \<Rightarrow> 'v ism list \<times> stream_event list" where
  "ih_Close h =
     (case ih_kind h of
        DefaultIH \<Rightarrow> default_Close h
      | ImmediateIH \<Rightarrow> immediate_Close h
      | FixedSizeIH _ \<Rightarrow> fixed_Close h)"

section \<open>Lemmas on the scans\<close>

lemmas SetNextTimestampBound_defs = ih_SetNextTimestampBound_def default_SetNextTimestampBound_def immediate_SetNextTimestampBound_def fixed_SetNextTimestampBound_def

lemmas AddPacketsToStream_defs = ih_AddPacketsToStream_def default_AddPacketsToStream_def immediate_AddPacketsToStream_def fixed_AddPacketsToStream_def

lemmas MovePacketsToStream_defs = ih_MovePacketsToStream_def default_MovePacketsToStream_def immediate_MovePacketsToStream_def fixed_MovePacketsToStream_def

lemmas Close_defs = ih_Close_def default_Close_def immediate_Close_def fixed_Close_def

lemmas SetInputStreamManagers_defs = ih_SetInputStreamManagers_def default_SetInputStreamManagers_def
  immediate_SetInputStreamManagers_def fixed_SetInputStreamManagers_def

definition ism_front_ts :: "'v ism \<Rightarrow> timestamp" where
  "ism_front_ts s = fst (ism_MinTimestampOrBound s)"

lemma ism_front_ts_simps [simp]:
  "ism_queue s = [] \<Longrightarrow> ism_front_ts s = ism_next_bound s"
  "ism_queue s = p # ps \<Longrightarrow> ism_front_ts s = p_ts p"
  by (simp_all add: ism_front_ts_def ism_MinTimestampOrBound_def)

lemma ism_MinTimestampOrBound_eq:
  "ism_MinTimestampOrBound s = (ism_front_ts s, ism_queue s = [])"
  by (simp add: ism_front_ts_def ism_MinTimestampOrBound_def split: list.splits)

text \<open>The timestamps of the streams with a packet, and the bounds of those without.\<close>

definition packet_fronts :: "'v ism list \<Rightarrow> nat list \<Rightarrow> timestamp list" where
  "packet_fronts ims ms =
     map (\<lambda>m. ism_front_ts (ims ! m)) (filter (\<lambda>m. ism_queue (ims ! m) \<noteq> []) ms)"

definition empty_bounds :: "'v ism list \<Rightarrow> nat list \<Rightarrow> timestamp list" where
  "empty_bounds ims ms =
     map (\<lambda>m. ism_next_bound (ims ! m)) (filter (\<lambda>m. ism_queue (ims ! m) = []) ms)"

definition min_from :: "timestamp \<Rightarrow> timestamp list \<Rightarrow> timestamp" where
  "min_from a ts = fold min ts a"

lemma min_from_simps [simp]:
  "min_from a [] = a" "min_from a (t # ts) = min_from (min a t) ts"
  by (simp_all add: min_from_def min.commute)

lemma min_from_ge_iff: "b \<le> min_from a ts \<longleftrightarrow> b \<le> a \<and> (\<forall>t\<in>set ts. b \<le> t)"
  by (induction ts arbitrary: a) auto

lemma min_from_gt_iff: "b < min_from a ts \<longleftrightarrow> b < a \<and> (\<forall>t\<in>set ts. b < t)"
  by (induction ts arbitrary: a) auto

lemma min_from_in: "min_from a ts \<in> insert a (set ts)"
proof (induction ts arbitrary: a)
  case (Cons t ts)
  then show ?case using Cons.IH [of "min a t"] by (auto simp: min_def split: if_splits)
qed simp

lemma min_from_Done_in: "ts \<noteq> [] \<Longrightarrow> min_from ts_Done ts \<in> set ts"
proof -
  assume "ts \<noteq> []"
  then obtain t where t: "t \<in> set ts" by (cases ts) auto
  have "min_from ts_Done ts \<le> t"
    using t min_from_ge_iff [of "min_from ts_Done ts" ts_Done ts] by auto
  then show ?thesis
    using t min_from_in [of ts_Done ts] by (auto dest: antisym [OF ts_le_Done])
qed

lemma sync_scan_eq:
  "sync_scan ims ms (b, p, e) =
     (min_from b (empty_bounds ims ms), min_from p (packet_fronts ims ms),
      e \<or> empty_bounds ims ms \<noteq> [])"
  by (induction ms arbitrary: b p e)
     (auto simp: ism_MinTimestampOrBound_eq empty_bounds_def packet_fronts_def)

lemma all_fronts_iff:
  "(\<forall>m\<in>set ms. b \<le> ism_front_ts (ims ! m)) \<longleftrightarrow>
     (\<forall>t\<in>set (packet_fronts ims ms). b \<le> t) \<and> (\<forall>t\<in>set (empty_bounds ims ms). b \<le> t)"
  by (auto simp: packet_fronts_def empty_bounds_def)

lemma pop_all_at_length [simp]: "length (fst (pop_all_at t ms ims)) = length ims"
  by (induction ms arbitrary: ims) (auto simp: split_beta)

lemma pop_all_at_other:
  "j \<notin> set ms \<Longrightarrow> fst (pop_all_at t ms ims) ! j = ims ! j"
  by (induction ms arbitrary: ims) (auto simp: split_beta)

lemma pop_all_at_nth:
  "distinct ms \<Longrightarrow> j \<in> set ms \<Longrightarrow> j < length ims \<Longrightarrow>
   fst (pop_all_at t ms ims) ! j = ism_deq (PopAt t) (ims ! j)"
proof (induction ms arbitrary: ims)
  case (Cons m ms)
  show ?case
  proof (cases "j = m")
    case True
    with Cons.prems show ?thesis by (simp add: split_beta pop_all_at_other)
  next
    case False
    with Cons show ?thesis by (simp add: split_beta)
  qed
qed simp

section \<open>Properties\<close>

lemma SyncSet_readiness:
  "case SyncSet_GetReadiness ims ms of (r, t) \<Rightarrow>
     (r = ReadyForClose \<longleftrightarrow> (\<forall>m\<in>set ms. ts_OneOverPostStream \<le> ism_front_ts (ims ! m))) \<and>
     (r = ReadyForProcess \<longleftrightarrow> r \<noteq> ReadyForClose \<and>
        (\<exists>p\<in>set (packet_fronts ims ms). \<forall>b\<in>set (empty_bounds ims ms). p < b)) \<and>
     (r = ReadyForProcess \<longrightarrow> t \<in> set (packet_fronts ims ms) \<and>
        (\<forall>p\<in>set (packet_fronts ims ms). t \<le> p) \<and> (\<forall>b\<in>set (empty_bounds ims ms). t < b))"
proof -
  let ?B = "empty_bounds ims ms" and ?P = "packet_fronts ims ms"
  let ?b = "min_from ts_Done ?B" and ?p = "min_from ts_Done ?P"
  have close: "ts_OneOverPostStream \<le> min ?p ?b \<longleftrightarrow>
      (\<forall>m\<in>set ms. ts_OneOverPostStream \<le> ism_front_ts (ims ! m))"
    unfolding all_fronts_iff by (auto simp: min_from_ge_iff)
  have p_in: "?p \<in> set ?P" if "\<not> ts_OneOverPostStream \<le> min ?p ?b" "?B = [] \<or> ?p < ?b"
    using that min_from_in [of ts_Done ?P] by auto
  have p_least: "\<forall>p\<in>set ?P. ?p \<le> p" and b_least: "\<forall>b\<in>set ?B. ?b \<le> b"
    using min_from_ge_iff [of ?p ts_Done ?P] min_from_ge_iff [of ?b ts_Done ?B] by auto
  have ex: "(\<exists>p\<in>set ?P. \<forall>b\<in>set ?B. p < b) \<longleftrightarrow> ?p \<in> set ?P \<and> (\<forall>b\<in>set ?B. ?p < b)"
    using p_least min_from_Done_in [of ?P] by (fastforce dest: order_le_less_trans)
  have lt: "?B = [] \<or> ?p < ?b" if "\<forall>b\<in>set ?B. ?p < b"
    using that min_from_in [of ts_Done ?B] by (cases ?B) (auto simp: min_from_gt_iff)
  show ?thesis
    using close p_in p_least b_least ex lt
    by (auto simp: SyncSet_GetReadiness_def sync_scan_eq Let_def min_def not_le
        dest: order_less_le_trans)
qed

text \<open>
  C14: the synchronised policy is ready to close exactly when every stream has run past
  PostStream, and ready to process exactly when it is not and some stream holds a packet
  whose timestamp lies strictly before the bound of every stream without one; the timestamp
  it reports is then that of the earliest packet, so no stream can still deliver anything at
  or before it.
\<close>

theorem SyncSet_readiness_settled:
  "case SyncSet_GetReadiness ims ms of (r, t) \<Rightarrow>
     (r = ReadyForClose \<longleftrightarrow> (\<forall>m\<in>set ms. ts_OneOverPostStream \<le> ism_front_ts (ims ! m))) \<and>
     (r = ReadyForProcess \<longleftrightarrow> r \<noteq> ReadyForClose \<and>
        (\<exists>p\<in>set (packet_fronts ims ms). \<forall>b\<in>set (empty_bounds ims ms). p < b)) \<and>
     (r = ReadyForProcess \<longrightarrow> t \<in> set (packet_fronts ims ms) \<and>
        (\<forall>p\<in>set (packet_fronts ims ms). t \<le> p) \<and> (\<forall>b\<in>set (empty_bounds ims ms). t < b))"
  by (rule SyncSet_readiness)

theorem SyncSet_readiness_settled_witness:
  "let p = p_At (ts_of 5) (MakePacket 1 ''i'' (7::int));
       ims = [fst (ism_AddPackets [p] (ism_new ''a'' (-1))),
              fst (ism_SetNextTimestampBound (ts_of 9) (ism_new ''b'' (-1)))]
   in (\<forall>q\<in>set (packet_fronts ims [0, 1]). \<forall>b\<in>set (empty_bounds ims [0, 1]). q < b) \<and>
      fst (SyncSet_GetReadiness ims [0, 1]) = ReadyForProcess"
proof -
  let ?p = "p_At (ts_of 5) (MakePacket 1 ''i'' (7::int))"
  let ?ims = "[fst (ism_AddPackets [?p] (ism_new ''a'' (-1))),
              fst (ism_SetNextTimestampBound (ts_of 9) (ism_new ''b'' (-1)))]"
  have q: "ism_queue (?ims ! 0) = [?p]" "ism_queue (?ims ! 1) = []"
      "ism_next_bound (?ims ! 1) = ts_of 9"
    by (simp_all add: ism_AddPackets_open ism_new_def appended_def max_def ts_le_iff ts_val_of)
  then have fronts: "packet_fronts ?ims [0, 1] = [ts_of 5]" "empty_bounds ?ims [0, 1] = [ts_of 9]"
    by (simp_all add: packet_fronts_def empty_bounds_def)
  have "\<not> ts_OneOverPostStream \<le> ism_front_ts (?ims ! 0)"
    using q by (simp add: ts_le_iff ts_val_of)
  then show ?thesis
    using SyncSet_readiness_settled [where ims = ?ims and ms = "[0, 1]"] fronts
    by (auto simp: Let_def ts_less_iff ts_val_of split: prod.splits)
qed



lemma immediate_readiness:
  "fst (immediate_GetNodeReadiness h ims old) =
     (if \<exists>m\<in>set (ih_managers h). ism_queue (ims ! m) \<noteq> [] then ReadyForProcess else NotReady)"
proof -
  have "fst (immediate_scan ims ms mts) =
      (if \<exists>m\<in>set ms. ism_queue (ims ! m) \<noteq> [] then ReadyForProcess else NotReady)" for ms mts
    by (induction ms arbitrary: mts) (auto simp: ism_MinTimestampOrBound_eq)
  then show ?thesis by (simp add: immediate_GetNodeReadiness_def)
qed

lemma fixed_readiness:
  "fst (fixed_GetNodeReadiness h ims old) =
     (if (\<exists>m\<in>set (ih_managers h). ism_queue (ims ! m) \<noteq> []) \<and>
         \<not> (\<exists>m\<in>set (ih_managers h). ism_IsFull (ims ! m))
      then ReadyForProcess else NotReady)"
proof -
  have "fst (fixed_scan ims ms mts d) =
      (if (d \<or> (\<exists>m\<in>set ms. ism_queue (ims ! m) \<noteq> [])) \<and> \<not> (\<exists>m\<in>set ms. ism_IsFull (ims ! m))
       then ReadyForProcess else NotReady)" for ms mts d
    by (induction ms arbitrary: mts d) (auto simp: ism_MinTimestampOrBound_eq)
  then show ?thesis by (simp add: fixed_GetNodeReadiness_def)
qed

text \<open>
  The policies without synchronisation: the immediate one is ready to process exactly when
  some stream holds a packet; the fixed-size one needs in addition that no stream is full, so a
  full input queue blocks the very node that would drain it. Neither ever reports a node ready
  to close.
\<close>

lemma unsynchronised_readiness:
  "fst (immediate_GetNodeReadiness h ims old) =
     (if \<exists>m\<in>set (ih_managers h). ism_queue (ims ! m) \<noteq> [] then ReadyForProcess else NotReady) \<and>
   fst (fixed_GetNodeReadiness h ims old) =
     (if (\<exists>m\<in>set (ih_managers h). ism_queue (ims ! m) \<noteq> []) \<and>
         \<not> (\<exists>m\<in>set (ih_managers h). ism_IsFull (ims ! m))
      then ReadyForProcess else NotReady)"
  by (rule conjI [OF immediate_readiness fixed_readiness])

lemma schedule_loop_bound: "fst (schedule_loop n ready cb has_cb st b) \<le> n"
proof (induction n arbitrary: st)
  case (Suc n)
  show ?case
    using Suc.IH [of "if has_cb then cb st else st"]
    by (auto split: prod.splits readiness.splits simp del: if_split)
qed simp

lemma schedule_loop_fixpoint:
  "fst (ready st ts_Unset) = ReadyForProcess \<Longrightarrow> (has_cb \<Longrightarrow> cb st = st) \<Longrightarrow>
   schedule_loop n ready cb has_cb st b = (n, st, b)"
  by (induction n) (auto split: prod.splits readiness.splits)

lemma schedule_loop_not_ready:
  "ready st ts_Unset = (NotReady, m) \<Longrightarrow>
   schedule_loop (Suc n) ready cb has_cb st b = (0, st, m)"
  by simp

section \<open>Routing\<close>

lemma ih_SetNextTimestampBound_length [simp]:
  "length (fst (ih_SetNextTimestampBound sid b h ims)) = length ims"
  by (auto simp: SetNextTimestampBound_defs split_beta Let_def split: ih_class.splits)

lemma ih_AddPacketsToStream_length [simp]:
  "length (fst (ih_AddPacketsToStream sid ps h ims)) = length ims"
  by (auto simp: AddPacketsToStream_defs split_beta Let_def split: ih_class.splits)

lemma ih_MovePacketsToStream_length [simp]:
  "length (fst (ih_MovePacketsToStream sid ps h ims)) = length ims"
  by (auto simp: MovePacketsToStream_defs split_beta Let_def split: ih_class.splits)

text \<open>The list cell a valid id addresses.\<close>

definition ih_target :: "ih \<Rightarrow> int \<Rightarrow> nat" where
  "ih_target h sid = ih_managers h ! nat sid"

lemma ih_SetNextTimestampBound_eq:
  "fst (ih_SetNextTimestampBound sid b h ims) =
     (if valid_id h sid
      then ims[ih_target h sid := fst (ism_SetNextTimestampBound b (ims ! ih_target h sid))]
      else ims)"
  by (auto simp: SetNextTimestampBound_defs valid_id_def ih_target_def split_beta Let_def split: ih_class.splits)

lemma ih_AddPacketsToStream_eq:
  "fst (ih_AddPacketsToStream sid ps h ims) =
     (if valid_id h sid then ims[ih_target h sid := ism_enq ps (ims ! ih_target h sid)]
      else ims)"
  by (auto simp: AddPacketsToStream_defs valid_id_def ih_target_def ism_enq_def split_beta
      Let_def split: ih_class.splits)

lemma ih_MovePacketsToStream_eq:
  "fst (ih_MovePacketsToStream sid ps h ims) =
     (if valid_id h sid then ims[ih_target h sid := ism_enq ps (ims ! ih_target h sid)]
      else ims)"
  by (cases "ism_closed (ims ! (ih_managers h ! nat sid))")
     (auto simp: MovePacketsToStream_defs valid_id_def ih_target_def ism_enq_def split_beta
      Let_def ism_MovePackets_open ism_MovePackets_closed ism_AddPackets_open
      ism_AddPackets_closed split: ih_class.splits)

end
