(* ===== verification/Output_Streams.thy ===== *)
theory Output_Streams
  imports Input_Handlers
begin

text \<open>
  \<open>framework/stream/output_stream_shard.{h,cc}\<close> and
  \<open>framework/stream/output_stream_manager.{h,cc}\<close>: the per-invocation shard a node writes
  to, and the manager of one output stream that fans its packets and bounds out to the mirrors
  (consumer handler, input index). A shard points to the spec of its manager by index
  (\<open>None\<close> is the null pointer of a default-constructed shard).
\<close>

section \<open>State\<close>

record 'v ospec =
  os_name :: string
  os_locked :: bool
  os_offset_enabled :: bool
  os_offset :: tsdiff
  os_header :: "'v packet"

record mirror =
  mi_handler :: "nat option"
  mi_id :: int

record 'v osm =
  om_spec :: "'v ospec"
  om_mirrors :: "mirror list"
  om_next_bound :: timestamp
  om_closed :: bool
  om_num_added :: int

record 'v oshard =
  sh_spec :: "nat option"
  sh_queue :: "'v packet list"
  sh_closed :: bool
  sh_next_bound :: timestamp
  sh_updated_bound :: timestamp

section \<open>Shards\<close>

definition oshard0 :: "'v oshard" where
  "oshard0 = \<lparr>sh_spec = None, sh_queue = [], sh_closed = False, sh_next_bound = ts_Unset,
              sh_updated_bound = ts_Unset\<rparr>"

definition oshard_new :: "nat option \<Rightarrow> 'v oshard" where
  "oshard_new spec = oshard0\<lparr>sh_spec := spec\<rparr>"

definition shard_SetSpec :: "nat option \<Rightarrow> 'v oshard \<Rightarrow> 'v oshard" where
  "shard_SetSpec spec s = s\<lparr>sh_spec := spec\<rparr>"

definition shard_Reset :: "timestamp \<Rightarrow> bool \<Rightarrow> 'v oshard \<Rightarrow> 'v oshard" where
  "shard_Reset next_timestamp_bound close s =
     s\<lparr>sh_queue := [], sh_next_bound := next_timestamp_bound, sh_updated_bound := ts_Unset,
       sh_closed := close\<rparr>"

definition shard_SetNextTimestampBound :: "timestamp \<Rightarrow> 'v oshard \<Rightarrow> 'v oshard" where
  "shard_SetNextTimestampBound bound s =
     s\<lparr>sh_next_bound := bound, sh_updated_bound := bound\<rparr>"

definition shard_AddPacket :: "'v packet \<Rightarrow> 'v oshard \<Rightarrow> 'v oshard" where
  "shard_AddPacket packet s =
     (if sh_closed s then s
      else if p_IsEmpty packet
      then shard_SetNextTimestampBound (NextAllowedInStream (p_ts packet)) s
      else s\<lparr>sh_next_bound := NextAllowedInStream (p_ts packet),
             sh_updated_bound := NextAllowedInStream (p_ts packet),
             sh_queue := sh_queue s @ [packet]\<rparr>)"

definition shard_Close :: "'v oshard \<Rightarrow> 'v oshard" where
  "shard_Close s = s\<lparr>sh_closed := True, sh_next_bound := ts_Done, sh_updated_bound := ts_Done\<rparr>"

text \<open>The accessors that go through the spec pointer read and write the managers.\<close>

definition shard_Name :: "'v oshard \<Rightarrow> 'v osm list \<Rightarrow> string" where
  "shard_Name s oms =
     (case sh_spec s of Some i \<Rightarrow> os_name (om_spec (oms ! i)) | None \<Rightarrow> [])"

definition shard_SetOffset :: "tsdiff \<Rightarrow> 'v oshard \<Rightarrow> 'v osm list \<Rightarrow> 'v osm list" where
  "shard_SetOffset offset s oms =
     (case sh_spec s of
        None \<Rightarrow> oms
      | Some i \<Rightarrow>
          if os_locked (om_spec (oms ! i)) then oms
          else oms[i := (oms ! i)\<lparr>om_spec :=
                 (om_spec (oms ! i))\<lparr>os_offset := offset, os_offset_enabled := True\<rparr>\<rparr>])"

definition shard_OffsetEnabled :: "'v oshard \<Rightarrow> 'v osm list \<Rightarrow> bool" where
  "shard_OffsetEnabled s oms =
     (case sh_spec s of Some i \<Rightarrow> os_offset_enabled (om_spec (oms ! i)) | None \<Rightarrow> False)"

definition shard_Offset :: "'v oshard \<Rightarrow> 'v osm list \<Rightarrow> tsdiff" where
  "shard_Offset s oms =
     (case sh_spec s of Some i \<Rightarrow> os_offset (om_spec (oms ! i)) | None \<Rightarrow> td_of 0)"

definition shard_SetHeader :: "'v packet \<Rightarrow> 'v oshard \<Rightarrow> 'v osm list \<Rightarrow> 'v osm list" where
  "shard_SetHeader packet s oms =
     (case sh_spec s of
        None \<Rightarrow> oms
      | Some i \<Rightarrow>
          if os_locked (om_spec (oms ! i)) then oms
          else oms[i := (oms ! i)\<lparr>om_spec := (om_spec (oms ! i))\<lparr>os_header := packet\<rparr>\<rparr>])"

definition shard_Header :: "'v oshard \<Rightarrow> 'v osm list \<Rightarrow> 'v packet" where
  "shard_Header s oms =
     (case sh_spec s of Some i \<Rightarrow> os_header (om_spec (oms ! i)) | None \<Rightarrow> Packet0)"

definition shard_LastAddedPacketTimestamp :: "'v oshard \<Rightarrow> timestamp" where
  "shard_LastAddedPacketTimestamp s =
     (if sh_queue s = [] then ts_Unset else p_ts (last (sh_queue s)))"

section \<open>Managers\<close>

definition osm_new :: "string \<Rightarrow> 'v osm" where
  "osm_new name =
     \<lparr>om_spec = \<lparr>os_name = name, os_locked = False, os_offset_enabled = False,
                 os_offset = td_of 0, os_header = Packet0\<rparr>,
      om_mirrors = [], om_next_bound = ts_Unset, om_closed = False, om_num_added = 0\<rparr>"

definition osm_Name :: "'v osm \<Rightarrow> string" where
  "osm_Name o' = os_name (om_spec o')"

definition osm_AddMirror :: "nat option \<Rightarrow> int \<Rightarrow> 'v osm \<Rightarrow> 'v osm" where
  "osm_AddMirror handler sid o' =
     o'\<lparr>om_mirrors := om_mirrors o' @ [\<lparr>mi_handler = handler, mi_id = sid\<rparr>]\<rparr>"

definition osm_PrepareForRun :: "'v osm \<Rightarrow> 'v osm" where
  "osm_PrepareForRun o' = o'\<lparr>om_next_bound := ts_Unset, om_closed := False\<rparr>"

definition osm_ComputeOutputTimestampBound ::
  "'v oshard \<Rightarrow> timestamp \<Rightarrow> 'v osm \<Rightarrow> timestamp" where
  "osm_ComputeOutputTimestampBound shard input_timestamp o' =
     (let new_bound0 = om_next_bound o';
          new_bound1 =
            (if os_offset_enabled (om_spec o')
             then let input_bound =
                        (if td_val (os_offset (om_spec o')) > 0
                         then ts_plus input_timestamp (os_offset (om_spec o'))
                         else NextAllowedInStream input_timestamp)
                  in if input_bound > new_bound0 then input_bound else new_bound0
             else new_bound0);
          new_bound2 =
            (if sh_queue shard \<noteq> []
             then let packet_bound =
                        NextAllowedInStream (shard_LastAddedPacketTimestamp shard)
                  in if packet_bound > new_bound1 then packet_bound else new_bound1
             else new_bound1)
      in if sh_updated_bound shard > new_bound2 then sh_updated_bound shard else new_bound2)"

text \<open>
  The loop over the mirrors. \<open>packets\<close> is the shard's list: every mirror but the last gets a
  copy, the last one takes the packets; results of the handler calls are ignored, as in the
  code.
\<close>

fun mirror_loop :: "ih list \<Rightarrow> timestamp \<Rightarrow> bool \<Rightarrow> mirror list \<Rightarrow> 'v packet list \<Rightarrow>
    'v ism list \<Rightarrow> 'v ism list \<times> stream_event list" where
  "mirror_loop ihs next_bound set_bound [] packets ims = (ims, [])"
| "mirror_loop ihs next_bound set_bound (m # ms) packets ims =
     (case mi_handler m of
        None \<Rightarrow> mirror_loop ihs next_bound set_bound ms packets ims
      | Some h \<Rightarrow>
          let (packets1, ims1, ev1) =
                (if packets \<noteq> []
                 then if ms = []
                      then let (ims', _, _, left, evs) =
                                 ih_MovePacketsToStream (mi_id m) packets (ihs ! h) ims
                           in (left, ims', evs)
                      else let (ims', _, _, evs) =
                                 ih_AddPacketsToStream (mi_id m) packets (ihs ! h) ims
                           in (packets, ims', evs)
                 else (packets, ims, []));
              (ims2, ev2) =
                (if set_bound
                 then ih_SetNextTimestampBound (mi_id m) next_bound (ihs ! h) ims1
                 else (ims1, []));
              (ims3, ev3) = mirror_loop ihs next_bound set_bound ms packets1 ims2
          in (ims3, ev1 @ ev2 @ ev3))"

definition osm_PropagateUpdatesToMirrors ::
  "ih list \<Rightarrow> timestamp \<Rightarrow> 'v oshard \<Rightarrow> 'v osm \<Rightarrow> 'v ism list \<Rightarrow>
     'v osm \<times> 'v oshard \<times> 'v ism list \<times> stream_event list" where
  "osm_PropagateUpdatesToMirrors ihs next_bound shard o' ims =
     (let packets = sh_queue shard;
          o1 = (if next_bound \<noteq> ts_Unset
                then o'\<lparr>om_next_bound := next_bound,
                        om_num_added := om_num_added o' + int (length packets)\<rparr>
                else o');
          set_bound =
            (next_bound \<noteq> ts_Unset \<and>
             (if packets \<noteq> []
              then NextAllowedInStream (shard_LastAddedPacketTimestamp shard) \<noteq> next_bound
              else True));
          (ims', evs) = mirror_loop ihs next_bound set_bound (om_mirrors o') packets ims
      in (o1, shard\<lparr>sh_queue := []\<rparr>, ims', evs))"

text \<open>Bound updates sent to every mirror that has a handler.\<close>

fun bound_to_mirrors :: "ih list \<Rightarrow> timestamp \<Rightarrow> mirror list \<Rightarrow> 'v ism list \<Rightarrow>
    'v ism list \<times> stream_event list" where
  "bound_to_mirrors ihs b [] ims = (ims, [])"
| "bound_to_mirrors ihs b (m # ms) ims =
     (case mi_handler m of
        None \<Rightarrow> bound_to_mirrors ihs b ms ims
      | Some h \<Rightarrow>
          let (ims1, ev1) = ih_SetNextTimestampBound (mi_id m) b (ihs ! h) ims;
              (ims2, ev2) = bound_to_mirrors ihs b ms ims1
          in (ims2, ev1 @ ev2))"

definition osm_PropagateHeader ::
  "ih list \<Rightarrow> 'v osm \<Rightarrow> 'v ism list \<Rightarrow> 'v ism list \<times> stream_event list" where
  "osm_PropagateHeader ihs o' ims =
     (if p_IsEmpty (os_header (om_spec o')) then (ims, [])
      else bound_to_mirrors ihs ts_PreStream (om_mirrors o') ims)"

definition osm_LockIntroData :: "'v osm \<Rightarrow> 'v osm" where
  "osm_LockIntroData o' = o'\<lparr>om_spec := (om_spec o')\<lparr>os_locked := True\<rparr>\<rparr>"

definition osm_Close ::
  "ih list \<Rightarrow> 'v osm \<Rightarrow> 'v ism list \<Rightarrow> 'v osm \<times> 'v ism list \<times> stream_event list" where
  "osm_Close ihs o' ims =
     (if om_closed o' then (o', ims, [])
      else let (ims', evs) = bound_to_mirrors ihs ts_Done (om_mirrors o') ims
           in (o'\<lparr>om_closed := True, om_next_bound := ts_Done\<rparr>, ims', evs))"

definition osm_ResetShard :: "'v osm \<Rightarrow> 'v oshard \<Rightarrow> 'v oshard" where
  "osm_ResetShard o' shard = shard_Reset (om_next_bound o') (om_closed o') shard"

definition osm_CleanupAfterRun :: "'v osm \<Rightarrow> 'v osm" where
  "osm_CleanupAfterRun o' =
     o'\<lparr>om_next_bound := ts_Unset, om_closed := False, om_num_added := 0,
        om_spec := (om_spec o')\<lparr>os_locked := False, os_header := Packet0\<rparr>\<rparr>"

section \<open>Fan-out\<close>

text \<open>The queues the mirrors reach, and what one delivery does to a queue.\<close>

definition mirror_targets :: "ih list \<Rightarrow> mirror list \<Rightarrow> nat list" where
  "mirror_targets ihs ms =
     concat (map (\<lambda>m. case mi_handler m of
                        None \<Rightarrow> []
                      | Some h \<Rightarrow> if valid_id (ihs ! h) (mi_id m)
                                  then [ih_target (ihs ! h) (mi_id m)] else []) ms)"

lemma mirror_targets_simps [simp]:
  "mirror_targets ihs [] = []"
  "mirror_targets ihs (m # ms) =
     (case mi_handler m of
        None \<Rightarrow> []
      | Some h \<Rightarrow> if valid_id (ihs ! h) (mi_id m) then [ih_target (ihs ! h) (mi_id m)] else [])
     @ mirror_targets ihs ms"
  by (simp_all add: mirror_targets_def)

definition deliver :: "timestamp \<Rightarrow> bool \<Rightarrow> 'v packet list \<Rightarrow> 'v ism \<Rightarrow> 'v ism" where
  "deliver next_bound set_bound ps s =
     (let s1 = (if ps \<noteq> [] then ism_enq ps s else s)
      in if set_bound then fst (ism_SetNextTimestampBound next_bound s1) else s1)"

lemma move_left_irrelevant:
  "fst (mirror_loop ihs nb sb [] ps ims) = fst (mirror_loop ihs nb sb [] qs ims)"
  by simp

text \<open>One step of the loop, as an update of the single target.\<close>

lemma mirror_loop_Cons:
  "fst (mirror_loop ihs nb sb (m # ms) ps ims) =
     (case mi_handler m of
        None \<Rightarrow> fst (mirror_loop ihs nb sb ms ps ims)
      | Some h \<Rightarrow>
          fst (mirror_loop ihs nb sb ms (if ms = [] then [] else ps)
            (if valid_id (ihs ! h) (mi_id m)
             then ims[ih_target (ihs ! h) (mi_id m) :=
                    deliver nb sb ps (ims ! ih_target (ihs ! h) (mi_id m))]
             else ims)))"
proof (cases "mi_handler m")
  case (Some h)
  let ?t = "ih_target (ihs ! h) (mi_id m)"
  have upd: "xs[?t := f (xs[?t := a] ! ?t)] = xs[?t := f a]" for f a and xs :: "'a ism list"
    by (cases "?t < length xs") (auto simp: list_update_beyond)
  show ?thesis
    using Some
    by (subst mirror_loop.simps(2))
       (simp add: split_beta Let_def deliver_def ih_AddPacketsToStream_eq
        ih_MovePacketsToStream_eq ih_SetNextTimestampBound_eq
        upd [where f = "\<lambda>s. fst (ism_SetNextTimestampBound nb s)"] del: mirror_loop.simps(2))
qed simp

lemma mirror_loop_length [simp]: "length (fst (mirror_loop ihs nb sb ms ps ims)) = length ims"
  by (induction ms arbitrary: ps ims)
     (simp_all add: mirror_loop_Cons split: option.splits del: mirror_loop.simps(2))

lemma mirror_loop_nth:
  "distinct (mirror_targets ihs ms) \<Longrightarrow> j < length ims \<Longrightarrow>
   fst (mirror_loop ihs nb sb ms ps ims) ! j =
     (if j \<in> set (mirror_targets ihs ms) then deliver nb sb ps (ims ! j) else ims ! j)"
proof (induction ms arbitrary: ims)
  case (Cons m ms)
  show ?case
  proof (cases "mi_handler m")
    case None
    with Cons show ?thesis by (simp add: mirror_loop_Cons del: mirror_loop.simps)
  next
    case (Some h)
    with Cons show ?thesis
      by (cases "ms = []") (auto simp: mirror_loop_Cons nth_list_update_in simp del: mirror_loop.simps(2))
  qed
qed simp

lemma bound_to_mirrors_length [simp]: "length (fst (bound_to_mirrors ihs b ms ims)) = length ims"
  by (induction ms arbitrary: ims) (auto simp: split_beta Let_def split: option.splits)

lemma bound_to_mirrors_nth:
  "j < length ims \<Longrightarrow>
   fst (bound_to_mirrors ihs b ms ims) ! j =
     (if j \<in> set (mirror_targets ihs ms)
      then fst (ism_SetNextTimestampBound b (ims ! j)) else ims ! j)"
proof (induction ms arbitrary: ims)
  case (Cons m ms)
  have idem: "fst (ism_SetNextTimestampBound b (fst (ism_SetNextTimestampBound b s))) =
      fst (ism_SetNextTimestampBound b s)" for s :: "'a ism"
    by (auto simp: ism_SetNextTimestampBound_def)
  show ?case
    using Cons idem
    by (cases "mi_handler m") (auto simp: split_beta Let_def ih_SetNextTimestampBound_eq
        nth_list_update_in split: if_splits)
qed simp

section \<open>Properties\<close>

lemma enq_bound:
  "ism_next_bound (ism_enq ps s) =
     (if ism_closed s \<or> ps = [] then ism_next_bound s else NextAllowedInStream (p_ts (last ps)))"
  by (cases "ism_closed s")
     (simp_all add: ism_enq_def ism_AddPackets_open ism_AddPackets_closed appended_def
       bound_after_def)

lemma enq_queue:
  "ism_queue (ism_enq ps s) = (if ism_closed s then ism_queue s else ism_queue s @ ps)"
  by (cases "ism_closed s")
     (simp_all add: ism_enq_def ism_AddPackets_open ism_AddPackets_closed appended_def)

lemma deliver_simps [simp]:
  "ism_queue (deliver nb sb ps s) = (if ism_closed s then ism_queue s else ism_queue s @ ps)"
  "ism_closed (deliver nb sb ps s) = ism_closed s"
  by (auto simp: deliver_def Let_def enq_queue)

text \<open>
  C12: fan-out: when the mirrors of a manager reach pairwise different queues, propagating a
  shard appends exactly its packets, in order, to every open queue among them, touches no
  other queue, and empties the shard; the last mirror, which is handed the packets instead of
  a copy, receives the same. The bound every open mirror ends with is the manager's new bound
  if packets were sent, and never smaller than it otherwise.
\<close>

theorem fan_out:
  assumes "distinct (mirror_targets ihs (om_mirrors o'))" "j < length ims"
    and "osm_PropagateUpdatesToMirrors ihs b shard o' ims = (o1, shard1, ims1, evs)"
  shows "ism_queue (ims1 ! j) =
      (if j \<in> set (mirror_targets ihs (om_mirrors o')) \<and> \<not> ism_closed (ims ! j)
       then ism_queue (ims ! j) @ sh_queue shard else ism_queue (ims ! j)) \<and>
    sh_queue shard1 = [] \<and>
    (j \<notin> set (mirror_targets ihs (om_mirrors o')) \<longrightarrow> ims1 ! j = ims ! j) \<and>
    (j \<in> set (mirror_targets ihs (om_mirrors o')) \<and> \<not> ism_closed (ims ! j) \<and> b \<noteq> ts_Unset \<longrightarrow>
       om_next_bound o1 = b \<and>
       ism_next_bound (ims1 ! j) =
         (if sh_queue shard = [] then max b (ism_next_bound (ims ! j))
          else max b (NextAllowedInStream (p_ts (last (sh_queue shard))))))"
proof -
  have ims1: "ims1 = fst (mirror_loop ihs b (b \<noteq> ts_Unset \<and> (sh_queue shard \<noteq> [] \<longrightarrow>
      NextAllowedInStream (shard_LastAddedPacketTimestamp shard) \<noteq> b))
      (om_mirrors o') (sh_queue shard) ims)" and o1: "b \<noteq> ts_Unset \<Longrightarrow> om_next_bound o1 = b"
    and sh1: "sh_queue shard1 = []"
    using assms(3)
    by (auto simp: osm_PropagateUpdatesToMirrors_def Let_def split: prod.splits if_splits)
  show ?thesis
    using o1 sh1 by (auto simp: ims1 mirror_loop_nth [OF assms(1,2)] deliver_def Let_def enq_bound enq_queue
        shard_LastAddedPacketTimestamp_def)
qed

theorem fan_out_witness:
  "let ih = (ih_new DefaultIH)\<lparr>ih_managers := [0, 1]\<rparr>;
       o' = osm_AddMirror (Some 0) 1 (osm_AddMirror (Some 0) 0 (osm_new ''out''));
       sh = shard_AddPacket (p_At (ts_of 5) (MakePacket 1 ''i'' (7::int))) oshard0;
       ims = [ism_new ''a'' 3, ism_new ''b'' 3]
   in ism_queue (fst (snd (snd (osm_PropagateUpdatesToMirrors [ih] (ts_of 6) sh o' ims))) ! 0) =
        sh_queue sh"
proof -
  let ?ih = "(ih_new DefaultIH)\<lparr>ih_managers := [0, 1]\<rparr>"
  let ?o = "osm_AddMirror (Some 0) 1 (osm_AddMirror (Some 0) 0 (osm_new ''out'')) :: int osm"
  let ?sh = "shard_AddPacket (p_At (ts_of 5) (MakePacket 1 ''i'' (7::int))) oshard0"
  let ?ims = "[ism_new ''a'' 3, ism_new ''b'' 3]"
  obtain o1 sh1 ims1 evs where
    run: "osm_PropagateUpdatesToMirrors [?ih] (ts_of 6) ?sh ?o ?ims = (o1, sh1, ims1, evs)"
    by (cases "osm_PropagateUpdatesToMirrors [?ih] (ts_of 6) ?sh ?o ?ims") auto
  have t: "mirror_targets [?ih] (om_mirrors ?o) = [0, 1]"
    by (simp add: osm_AddMirror_def osm_new_def valid_id_def ih_target_def)
  have "ism_queue (ims1 ! 0) = ism_queue (?ims ! 0) @ sh_queue ?sh"
    using fan_out [OF _ _ run, of 0, unfolded t] by (simp add: ism_new_def)
  then show ?thesis using run by (simp add: ism_new_def)
qed

text \<open>
  The bound a manager computes after an invocation is the largest of its previous bound,
  the bound the offset declares for the input timestamp (when the offset is enabled), the
  successor of the last packet written, and the bound the node set explicitly: so a manager's
  bounds never decrease and always lie beyond every packet it sends.
\<close>

lemma ComputeOutputTimestampBound_max:
  "osm_ComputeOutputTimestampBound shard t o' =
     Max (set ([om_next_bound o', sh_updated_bound shard] @
       (if os_offset_enabled (om_spec o')
        then [if td_val (os_offset (om_spec o')) > 0 then ts_plus t (os_offset (om_spec o'))
              else NextAllowedInStream t] else []) @
       (if sh_queue shard \<noteq> [] then [NextAllowedInStream (p_ts (last (sh_queue shard)))]
        else [])))"
proof -
  have gt: "(if b > a then b else a) = max a b" for a b :: timestamp
    by (auto simp: max_def)
  show ?thesis
    by (auto simp: osm_ComputeOutputTimestampBound_def Let_def gt
        shard_LastAddedPacketTimestamp_def max.commute max.left_commute)
qed

text \<open>
  Closing a manager closes it for good and sends Done to every queue its mirrors reach
  (which makes an empty one done), changes no queue's contents, and a second close does
  nothing.
\<close>

lemma osm_Close_broadcast:
  assumes "osm_Close ihs o' ims = (o1, ims1, evs)"
  shows "om_closed o1 \<and> osm_Close ihs o1 ims1 = (o1, ims1, []) \<and>
    (\<forall>j < length ims. ism_queue (ims1 ! j) = ism_queue (ims ! j)) \<and>
    (\<not> om_closed o' \<longrightarrow> om_next_bound o1 = ts_Done \<and>
       (\<forall>j < length ims. ism_next_bound (ims1 ! j) =
          (if j \<in> set (mirror_targets ihs (om_mirrors o')) then ts_Done
           else ism_next_bound (ims ! j))))"
proof (cases "om_closed o'")
  case True
  then show ?thesis using assms by (auto simp: osm_Close_def)
next
  case False
  then have o1: "o1 = o'\<lparr>om_closed := True, om_next_bound := ts_Done\<rparr>"
    and ims1: "ims1 = fst (bound_to_mirrors ihs ts_Done (om_mirrors o') ims)"
    using assms by (auto simp: osm_Close_def split: prod.splits)
  have Done: "max ts_Done t = ts_Done" for t by (rule max.absorb1) simp
  show ?thesis
    using False by (simp add: o1 ims1 bound_to_mirrors_nth Done) (simp add: osm_Close_def)
qed

lemma osm_Close_broadcast_witness:
  "let ih = (ih_new DefaultIH)\<lparr>ih_managers := [0]\<rparr>;
       o' = osm_AddMirror (Some 0) 0 (osm_new ''out'')
   in ism_next_bound (fst (snd (osm_Close [ih] o' [ism_new ''a'' 3 :: int ism])) ! 0) = ts_Done"
proof -
  let ?ih = "(ih_new DefaultIH)\<lparr>ih_managers := [0]\<rparr>"
  let ?o = "osm_AddMirror (Some 0) 0 (osm_new ''out'') :: int osm"
  let ?ims = "[ism_new ''a'' 3 :: int ism]"
  obtain o1 ims1 evs where run: "osm_Close [?ih] ?o ?ims = (o1, ims1, evs)"
    by (cases "osm_Close [?ih] ?o ?ims") auto
  have "ism_next_bound (ims1 ! 0) = ts_Done"
    using osm_Close_broadcast [OF run]
    by (simp add: osm_AddMirror_def osm_new_def valid_id_def ih_target_def)
  then show ?thesis using run by simp
qed

end
