(* ===== verification/Stream_Names.thy ===== *)
theory Stream_Names
  imports GR_Prelude
begin

text \<open>
  \<open>framework/config/stream_name.h\<close>: the port and the stream part of a \<open>port:stream\<close>
  string. \<open>std::string::find\<close> is \<open>find_char\<close>, \<open>npos\<close> is \<open>None\<close>, \<open>substr\<close> is
  \<open>take\<close> and \<open>drop\<close>.
\<close>

fun find_char :: "char \<Rightarrow> string \<Rightarrow> nat option" where
  "find_char c [] = None"
| "find_char c (x # xs) = (if x = c then Some 0 else map_option Suc (find_char c xs))"

lemma find_char_None_iff: "find_char c s = None \<longleftrightarrow> c \<notin> set s"
  by (induction s) auto

lemma find_char_append: "c \<notin> set s \<Longrightarrow> find_char c (s @ c # t) = Some (length s)"
  by (induction s) auto

lemma find_char_Some: "find_char c s = Some n \<Longrightarrow> n < length s \<and> s ! n = c \<and> c \<notin> set (take n s)"
  by (induction s arbitrary: n) (auto split: if_splits)

definition PortName :: "string \<Rightarrow> string" where
  "PortName port_stream =
     (case find_char CHR '':'' port_stream of
        None \<Rightarrow> port_stream
      | Some pos \<Rightarrow> take pos port_stream)"

definition StreamName :: "string \<Rightarrow> string" where
  "StreamName port_stream =
     (case find_char CHR '':'' port_stream of
        None \<Rightarrow> port_stream
      | Some pos \<Rightarrow> drop (pos + 1) port_stream)"

lemma PortName_plain [simp]: "CHR '':'' \<notin> set s \<Longrightarrow> PortName s = s"
  by (simp add: PortName_def find_char_None_iff [THEN iffD2])

lemma StreamName_plain [simp]: "CHR '':'' \<notin> set s \<Longrightarrow> StreamName s = s"
  by (simp add: StreamName_def find_char_None_iff [THEN iffD2])

lemma PortName_join: "CHR '':'' \<notin> set p \<Longrightarrow> PortName (p @ '':'' @ s) = p"
  by (simp add: PortName_def find_char_append)

lemma StreamName_join: "CHR '':'' \<notin> set p \<Longrightarrow> StreamName (p @ '':'' @ s) = s"
  by (simp add: StreamName_def find_char_append)

text \<open>
  The two parts and the colon rebuild a name that has one, a name without a colon is its
  own port and stream, and the port never holds a colon.
\<close>

lemma port_stream_split:
  "CHR '':'' \<notin> set (PortName s) \<and>
   (if CHR '':'' \<in> set s then PortName s @ '':'' @ StreamName s = s
    else PortName s = s \<and> StreamName s = s)"
proof (cases "find_char CHR '':'' s")
  case None
  then show ?thesis by (auto simp: find_char_None_iff)
next
  case (Some n)
  then have "CHR '':'' \<in> set s"
    by (metis find_char_None_iff option.distinct(1))
  with Some show ?thesis
    using id_take_nth_drop [of n s] find_char_Some [OF Some]
    by (auto simp: PortName_def StreamName_def)
qed

end
