(* ===== verification/Output_Handlers.thy ===== *)
theory Output_Handlers
  imports Output_Streams Stream_Names
begin

text \<open>
  \<open>framework/stream/output_stream_handler.{h,cc}\<close> and the shard sets of
  \<open>framework/node/graph_context.h\<close>: a node's output side for one invocation. The shards of
  an invocation are a map from port name to shard; indexing creates a default shard, whose spec
  pointer is null. The stream objects a handler reaches (input queues, input handlers, output
  managers) are the record \<open>net\<close>; packet callbacks and stream callbacks come back as one
  list of events, in the order the code fires them.
\<close>

section \<open>State\<close>

record 'v net =
  nt_ims :: "'v ism list"
  nt_ihs :: "ih list"
  nt_oms :: "'v osm list"

datatype 'v out_event = StreamEv stream_event | OutputCb nat "'v packet"

record oh =
  oh_managers :: "nat list"
  oh_task_bound :: timestamp
  oh_callbacks :: "(string, nat) omap"

definition oh_new :: "nat list \<Rightarrow> oh" where
  "oh_new managers = \<lparr>oh_managers = managers, oh_task_bound = ts_Unset, oh_callbacks = []\<rparr>"

type_synonym 'v oshards = "(string, 'v oshard) omap"

definition oss_Get :: "string \<Rightarrow> 'v oshards \<Rightarrow> 'v oshard \<times> 'v oshards" where
  "oss_Get port ss =
     (case omap_get ss port of
        Some s \<Rightarrow> (s, ss)
      | None \<Rightarrow> (oshard0, omap_put port oshard0 ss))"

definition oss_GetTag :: "string \<Rightarrow> int \<Rightarrow> 'v oshards \<Rightarrow> 'v oshard \<times> 'v oshards" where
  "oss_GetTag tag index ss = oss_Get (tag @ '':'' @ dec_of_int index) ss"

definition oss_NumEntries :: "'v oshards \<Rightarrow> int" where
  "oss_NumEntries ss = int (length ss)"

text \<open>\<open>Get(port)\<close> used as an lvalue: \<open>f\<close> runs on the (possibly created) shard.\<close>

definition oss_update :: "string \<Rightarrow> ('v oshard \<Rightarrow> 'v oshard) \<Rightarrow> 'v oshards \<Rightarrow> 'v oshards" where
  "oss_update port f ss = (let (s, ss1) = oss_Get port ss in omap_put port (f s) ss1)"

section \<open>Operations\<close>

definition oh_PrepareOutputs :: "oh \<Rightarrow> 'v net \<Rightarrow> 'v oshards \<Rightarrow> 'v oshards" where
  "oh_PrepareOutputs h net ss =
     fold (\<lambda>i ss. oss_update (PortName (osm_Name (nt_oms net ! i))) (osm_ResetShard (nt_oms net ! i)) ss)
       (oh_managers h) ss"

text \<open>One iteration of \<open>PropagateOutputPackets\<close>.\<close>

definition oh_propagate_one ::
  "oh \<Rightarrow> timestamp \<Rightarrow> nat \<Rightarrow> 'v oshards \<times> 'v net \<times> 'v out_event list \<Rightarrow>
     'v oshards \<times> 'v net \<times> 'v out_event list" where
  "oh_propagate_one h input_timestamp i st =
     (let (ss, net, evs) = st; mgr = nt_oms net ! i
      in if om_closed mgr then (ss, net, evs)
         else
           let (shard, ss1) = oss_Get (PortName (osm_Name mgr)) ss;
               output_bound = osm_ComputeOutputTimestampBound shard input_timestamp mgr;
               cbs = (case omap_get (oh_callbacks h) (osm_Name mgr) of
                        Some cb \<Rightarrow> map (OutputCb cb) (sh_queue shard) | None \<Rightarrow> []);
               (mgr1, shard1, ims1, ev1) =
                 osm_PropagateUpdatesToMirrors (nt_ihs net) output_bound shard mgr (nt_ims net);
               (mgr2, ims2, ev2) =
                 (if sh_closed shard1 then osm_Close (nt_ihs net) mgr1 ims1
                  else (mgr1, ims1, []))
           in (omap_put (PortName (osm_Name mgr)) shard1 ss1,
               net\<lparr>nt_ims := ims2, nt_oms := (nt_oms net)[i := mgr2]\<rparr>,
               evs @ cbs @ map StreamEv ev1 @ map StreamEv ev2))"

definition oh_PropagateOutputPackets ::
  "oh \<Rightarrow> timestamp \<Rightarrow> 'v oshards \<Rightarrow> 'v net \<Rightarrow> 'v oshards \<times> 'v net \<times> 'v out_event list" where
  "oh_PropagateOutputPackets h input_timestamp ss net =
     fold (oh_propagate_one h input_timestamp) (oh_managers h) (ss, net, [])"

definition oh_PostProcess ::
  "oh \<Rightarrow> timestamp \<Rightarrow> 'v oshards \<Rightarrow> 'v net \<Rightarrow> 'v oshards \<times> 'v net \<times> 'v out_event list" where
  "oh_PostProcess h input_timestamp ss net =
     oh_PropagateOutputPackets h input_timestamp ss net"

definition oh_open_one :: "nat \<Rightarrow> 'v net \<times> 'v out_event list \<Rightarrow> 'v net \<times> 'v out_event list" where
  "oh_open_one i st =
     (let (net, evs) = st;
          (ims1, ev1) = osm_PropagateHeader (nt_ihs net) (nt_oms net ! i) (nt_ims net)
      in (net\<lparr>nt_ims := ims1, nt_oms := (nt_oms net)[i := osm_LockIntroData (nt_oms net ! i)]\<rparr>,
          evs @ map StreamEv ev1))"

definition oh_Open ::
  "oh \<Rightarrow> 'v oshards \<Rightarrow> 'v net \<Rightarrow> 'v oshards \<times> 'v net \<times> 'v out_event list" where
  "oh_Open h ss net =
     (let (ss1, net1, ev1) = oh_PropagateOutputPackets h ts_Unstarted ss net;
          (net2, ev2) = fold oh_open_one (oh_managers h) (net1, [])
      in (ss1, net2, ev1 @ ev2))"

text \<open>One iteration of \<open>Close\<close>; the shard set may be a null pointer.\<close>

definition oh_close_one ::
  "nat \<Rightarrow> 'v oshards option \<times> 'v net \<times> 'v out_event list \<Rightarrow>
     'v oshards option \<times> 'v net \<times> 'v out_event list" where
  "oh_close_one i st =
     (let (shards, net, evs) = st; mgr = nt_oms net ! i;
          (shards1, mgr1, ims1, ev1) =
            (case shards of
               None \<Rightarrow> (None, mgr, nt_ims net, [])
             | Some ss \<Rightarrow>
                 let (shard, ss1) = oss_Get (PortName (osm_Name mgr)) ss;
                     (mgr1, shard1, ims1, ev1) =
                       osm_PropagateUpdatesToMirrors (nt_ihs net) ts_Done shard mgr (nt_ims net)
                 in (Some (omap_put (PortName (osm_Name mgr)) shard1 ss1), mgr1, ims1, ev1));
          (mgr2, ims2, ev2) = osm_Close (nt_ihs net) mgr1 ims1
      in (shards1, net\<lparr>nt_ims := ims2, nt_oms := (nt_oms net)[i := mgr2]\<rparr>,
          evs @ map StreamEv ev1 @ map StreamEv ev2))"

definition oh_Close ::
  "oh \<Rightarrow> 'v oshards option \<Rightarrow> 'v net \<Rightarrow> 'v oshards option \<times> 'v net \<times> 'v out_event list" where
  "oh_Close h shards net = fold oh_close_one (oh_managers h) (shards, net, [])"

definition oh_try_bound_one ::
  "timestamp \<Rightarrow> nat \<Rightarrow> 'v net \<times> 'v out_event list \<Rightarrow> 'v net \<times> 'v out_event list" where
  "oh_try_bound_one input_bound i st =
     (let (net, evs) = st; mgr = nt_oms net ! i;
          b = ts_plus input_bound (os_offset (om_spec mgr))
      in if os_offset_enabled (om_spec mgr) \<and> \<not> om_closed mgr \<and> b > om_next_bound mgr
         then let (mgr1, _, ims1, ev1) =
                    osm_PropagateUpdatesToMirrors (nt_ihs net) b oshard0 mgr (nt_ims net)
              in (net\<lparr>nt_ims := ims1, nt_oms := (nt_oms net)[i := mgr1]\<rparr>, evs @ map StreamEv ev1)
         else (net, evs))"

definition oh_TryPropagateTimestampBound ::
  "oh \<Rightarrow> timestamp \<Rightarrow> 'v net \<Rightarrow> 'v net \<times> 'v out_event list" where
  "oh_TryPropagateTimestampBound h input_bound net =
     (if \<not> IsRangeValue input_bound then (net, [])
      else fold (oh_try_bound_one input_bound) (oh_managers h) (net, []))"

definition oh_UpdateTaskTimestampBound ::
  "timestamp \<Rightarrow> oh \<Rightarrow> 'v net \<Rightarrow> oh \<times> 'v net \<times> 'v out_event list" where
  "oh_UpdateTaskTimestampBound bound h net =
     (let (net1, evs) = oh_TryPropagateTimestampBound h bound net
      in (h\<lparr>oh_task_bound := bound\<rparr>, net1, evs))"

definition oh_SetOutputStreamCallback :: "string \<Rightarrow> nat \<Rightarrow> oh \<Rightarrow> oh" where
  "oh_SetOutputStreamCallback stream_name cb h =
     h\<lparr>oh_callbacks := omap_put stream_name cb (oh_callbacks h)\<rparr>"

definition oh_ClearOutputStreamCallback :: "string \<Rightarrow> oh \<Rightarrow> oh" where
  "oh_ClearOutputStreamCallback stream_name h =
     h\<lparr>oh_callbacks := omap_erase stream_name (oh_callbacks h)\<rparr>"

section \<open>Shard sets\<close>

lemma oss_update_get:
  "omap_wf ss \<Longrightarrow> omap_get (oss_update port f ss) p =
     (if p = port then Some (f (case omap_get ss port of Some s \<Rightarrow> s | None \<Rightarrow> oshard0))
      else omap_get ss p)"
  by (auto simp: oss_update_def oss_Get_def omap_get_put omap_wf_put split: option.splits)

lemma oss_update_wf: "omap_wf ss \<Longrightarrow> omap_wf (oss_update port f ss)"
  by (auto simp: oss_update_def oss_Get_def omap_wf_put split: option.splits prod.splits)

lemma oss_Get_wf: "omap_wf ss \<Longrightarrow> oss_Get port ss = (s, ss1) \<Longrightarrow> omap_wf ss1"
  by (auto simp: oss_Get_def omap_wf_put split: option.splits)

text \<open>What the handler finds in the shard set for a manager.\<close>

definition shard_of :: "'v oshards \<Rightarrow> 'v osm \<Rightarrow> 'v oshard" where
  "shard_of ss o' =
     (case omap_get ss (PortName (osm_Name o')) of Some s \<Rightarrow> s | None \<Rightarrow> oshard0)"

lemma oss_Get_shard_of: "fst (oss_Get (PortName (osm_Name o')) ss) = shard_of ss o'"
  by (simp add: oss_Get_def shard_of_def split: option.splits)

lemma omap_get_oss_Get:
  "omap_wf ss \<Longrightarrow> p \<noteq> port \<Longrightarrow> omap_get (snd (oss_Get port ss)) p = omap_get ss p"
  by (simp add: oss_Get_def omap_get_put split: option.splits)

lemma oss_Get_wf2: "omap_wf ss \<Longrightarrow> omap_wf (snd (oss_Get port ss))"
  by (auto simp: oss_Get_def omap_wf_put split: option.splits)

text \<open>What a round of updates keeps of a manager.\<close>

lemma Propagate_spec [simp]:
  "om_spec (fst (osm_PropagateUpdatesToMirrors ihs b sh o' ims)) = om_spec o'"
  by (simp add: osm_PropagateUpdatesToMirrors_def Let_def split: prod.splits)

lemma osm_Close_spec [simp]: "om_spec (fst (osm_Close ihs o' ims)) = om_spec o'"
  by (simp add: osm_Close_def split: prod.splits)

lemma osm_Close_closed [simp]: "om_closed (fst (osm_Close ihs o' ims))"
  by (simp add: osm_Close_def split: prod.splits)

definition is_cb :: "'v out_event \<Rightarrow> bool" where
  "is_cb e = (case e of OutputCb _ _ \<Rightarrow> True | StreamEv _ \<Rightarrow> False)"

lemma is_cb_simps [simp]: "is_cb (OutputCb c p)" "\<not> is_cb (StreamEv e)"
  by (simp_all add: is_cb_def)

lemma filter_is_cb [simp]:
  "filter is_cb (map StreamEv es) = []" "filter is_cb (map (OutputCb c) ps) = map (OutputCb c) ps"
  by (induction es; simp) (induction ps; simp)

text \<open>The callbacks one manager's packets are shown to.\<close>

definition manager_cbs :: "oh \<Rightarrow> 'v oshards \<Rightarrow> 'v osm \<Rightarrow> 'v out_event list" where
  "manager_cbs h ss o' =
     (if om_closed o' then []
      else case omap_get (oh_callbacks h) (osm_Name o') of
             Some cb \<Rightarrow> map (OutputCb cb) (sh_queue (shard_of ss o')) | None \<Rightarrow> [])"

lemma propagate_one_frame:
  assumes "oh_propagate_one h t i (ss, net, evs) = (ss', net', evs')" "omap_wf ss"
  shows "omap_wf ss' \<and> length (nt_oms net') = length (nt_oms net) \<and>
    (\<forall>j. j \<noteq> i \<longrightarrow> nt_oms net' ! j = nt_oms net ! j) \<and>
    (\<forall>p. p \<noteq> PortName (osm_Name (nt_oms net ! i)) \<longrightarrow> omap_get ss' p = omap_get ss p) \<and>
    filter is_cb evs' = filter is_cb evs @ manager_cbs h ss (nt_oms net ! i)"
  using assms oss_Get_shard_of [of "nt_oms net ! i" ss]
    oss_Get_wf2 [OF assms(2)] omap_get_oss_Get [OF assms(2)]
  by (auto simp: oh_propagate_one_def Let_def split_beta omap_wf_put omap_get_put manager_cbs_def
      split: if_splits option.splits)

lemma propagate_all_cbs:
  "fold (oh_propagate_one h t) is (ss, net, evs) = (ss', net', evs') \<Longrightarrow> omap_wf ss \<Longrightarrow>
   distinct is \<Longrightarrow> distinct (map (\<lambda>i. PortName (osm_Name (nt_oms net ! i))) is) \<Longrightarrow>
   filter is_cb evs' = filter is_cb evs @ concat (map (\<lambda>i. manager_cbs h ss (nt_oms net ! i)) is)"
proof (induction "is" arbitrary: ss net evs)
  case (Cons i "is")
  obtain ss1 net1 evs1 where one: "oh_propagate_one h t i (ss, net, evs) = (ss1, net1, evs1)"
    by (cases "oh_propagate_one h t i (ss, net, evs)") auto
  note frame = propagate_one_frame [OF one Cons.prems(2)]
  have same: "nt_oms net1 ! j = nt_oms net ! j \<and>
      manager_cbs h ss1 (nt_oms net ! j) = manager_cbs h ss (nt_oms net ! j)" if "j \<in> set is" for j
  proof -
    have "j \<noteq> i" using that Cons.prems(3) by auto
    moreover have "PortName (osm_Name (nt_oms net ! j)) \<noteq> PortName (osm_Name (nt_oms net ! i))"
      using that Cons.prems(4) by (auto simp: image_iff)
    ultimately show ?thesis
      using frame by (simp add: manager_cbs_def shard_of_def split: option.split)
  qed
  have "map (\<lambda>i. PortName (osm_Name (nt_oms net1 ! i))) is =
      map (\<lambda>i. PortName (osm_Name (nt_oms net ! i))) is"
    using same by simp
  then have "distinct (map (\<lambda>i. PortName (osm_Name (nt_oms net1 ! i))) is)"
    using Cons.prems(4) by (simp only: list.map distinct.simps)
  then have "filter is_cb evs' =
      filter is_cb evs1 @ concat (map (\<lambda>i. manager_cbs h ss1 (nt_oms net1 ! i)) is)"
    using Cons.IH [of ss1 net1 evs1] Cons.prems(1,3) one frame by simp
  also have "map (\<lambda>i. manager_cbs h ss1 (nt_oms net1 ! i)) is =
      map (\<lambda>i. manager_cbs h ss (nt_oms net ! i)) is"
    using same by simp
  finally show ?case using frame by simp
qed simp



section \<open>Closing\<close>

lemma close_one_frame:
  assumes "oh_close_one i (sh, net, evs) = (sh', net', evs')"
  shows "length (nt_oms net') = length (nt_oms net) \<and>
    (\<forall>j. j \<noteq> i \<longrightarrow> nt_oms net' ! j = nt_oms net ! j) \<and>
    (i < length (nt_oms net) \<longrightarrow> om_closed (nt_oms net' ! i)) \<and> filter is_cb evs' = filter is_cb evs"
  using assms by (auto simp: oh_close_one_def Let_def split_beta)

lemma close_all_managers:
  "fold oh_close_one is (sh, net, evs) = (sh', net', evs') \<Longrightarrow>
   \<forall>i\<in>set is. i < length (nt_oms net) \<Longrightarrow>
   length (nt_oms net') = length (nt_oms net) \<and> filter is_cb evs' = filter is_cb evs \<and>
   (\<forall>i < length (nt_oms net). i \<in> set is \<or> om_closed (nt_oms net ! i) \<longrightarrow>
      om_closed (nt_oms net' ! i)) \<and>
   (\<forall>i. i \<notin> set is \<longrightarrow> nt_oms net' ! i = nt_oms net ! i)"
proof (induction "is" arbitrary: sh net evs)
  case (Cons i "is")
  obtain sh1 net1 evs1 where one: "oh_close_one i (sh, net, evs) = (sh1, net1, evs1)"
    by (cases "oh_close_one i (sh, net, evs)") auto
  note frame = close_one_frame [OF one]
  have "length (nt_oms net') = length (nt_oms net1) \<and> filter is_cb evs' = filter is_cb evs1 \<and>
     (\<forall>i < length (nt_oms net1). i \<in> set is \<or> om_closed (nt_oms net1 ! i) \<longrightarrow>
        om_closed (nt_oms net' ! i)) \<and>
     (\<forall>i. i \<notin> set is \<longrightarrow> nt_oms net' ! i = nt_oms net1 ! i)"
    using Cons one frame by (intro Cons.IH) auto
  then show ?case using frame Cons.prems(2) by (metis (no_types, lifting) insert_iff list.set(2))
qed simp

lemma close_one_closed:
  "om_closed (nt_oms net ! i) \<Longrightarrow> oh_close_one i (None, net, evs) = (None, net, evs)"
  by (simp add: oh_close_one_def osm_Close_def Let_def)

lemma close_again:
  "\<forall>i\<in>set is. om_closed (nt_oms net ! i) \<Longrightarrow> fold oh_close_one is (None, net, evs) = (None, net, evs)"
  by (induction "is") (simp_all add: close_one_closed)

text \<open>
  C35: closing the output side of a node closes every one of its streams, shows no packet to
  any callback (packets still in the shards go to the mirrors only), leaves the managers of
  other nodes alone, and is final: a second close without shards changes nothing and sends
  nothing.
\<close>

theorem oh_Close_final:
  assumes "oh_Close h shards net = (shards', net', evs)"
    and "\<forall>i\<in>set (oh_managers h). i < length (nt_oms net)"
  shows "(\<forall>i\<in>set (oh_managers h). om_closed (nt_oms net' ! i)) \<and>
    filter is_cb evs = [] \<and>
    (\<forall>i. i \<notin> set (oh_managers h) \<longrightarrow> nt_oms net' ! i = nt_oms net ! i) \<and>
    oh_Close h None net' = (None, net', [])"
  using close_all_managers [OF assms(1) [unfolded oh_Close_def] assms(2)] assms(2)
  by (auto simp: oh_Close_def close_again)

theorem oh_Close_final_witness:
  "om_closed (nt_oms (fst (snd (oh_Close (oh_new [0]) (Some [])
     \<lparr>nt_ims = [], nt_ihs = [], nt_oms = [osm_new ''out'' :: int osm]\<rparr>))) ! 0)"
proof -
  let ?net = "\<lparr>nt_ims = [], nt_ihs = [], nt_oms = [osm_new ''out'' :: int osm]\<rparr>"
  obtain sh' net' evs where run: "oh_Close (oh_new [0]) (Some []) ?net = (sh', net', evs)"
    by (cases "oh_Close (oh_new [0]) (Some []) ?net") auto
  show ?thesis
    using oh_Close_final [OF run] run by (simp add: oh_new_def)
qed

end
