(* ===== verification/Graph_Config.thy ===== *)
theory Graph_Config
  imports Stream_Names Complex_Main
begin

text \<open>
  \<open>framework/node/node_options.h\<close>, \<open>framework/config/graph_config.h\<close>,
  \<open>framework/profiler/profiler_config.h\<close> and \<open>GraphRuntime::Options\<close>: the configuration of a
  graph as data. An option is a \<open>std::any\<close>: empty (\<open>None\<close>) or a typed value; the scalar types
  are those a JSON config can produce, every other C++ type is a named opaque value. A finite
  double is the rational it stands for.
\<close>

section \<open>Options\<close>

datatype any_val =
  AnyString string | AnyBool bool | AnyInt int | AnyDouble rat | AnyOther string nat

type_synonym any = "any_val option"

text \<open>\<open>typeid\<close> of the held value.\<close>

fun any_type :: "any_val \<Rightarrow> string" where
  "any_type (AnyString _) = ''std::string''"
| "any_type (AnyBool _) = ''bool''"
| "any_type (AnyInt _) = ''int''"
| "any_type (AnyDouble _) = ''double''"
| "any_type (AnyOther ty _) = ty"

type_synonym node_options = "(string, any) omap"

definition no_Set :: "string \<Rightarrow> any_val \<Rightarrow> node_options \<Rightarrow> node_options" where
  "no_Set key value opts = omap_put key (Some value) opts"

definition no_Get :: "string \<Rightarrow> string \<Rightarrow> node_options \<Rightarrow> any_val option" where
  "no_Get ty key opts =
     (case omap_get opts key of
        None \<Rightarrow> None
      | Some a \<Rightarrow>
          (case a of
             Some v \<Rightarrow> if any_type v = ty then Some v else None
           | None \<Rightarrow> None))"

definition no_Has :: "string \<Rightarrow> node_options \<Rightarrow> bool" where
  "no_Has key opts \<longleftrightarrow> omap_get opts key \<noteq> None"

definition no_Keys :: "node_options \<Rightarrow> string list" where
  "no_Keys opts = map fst opts"

definition no_GetRaw :: "string \<Rightarrow> node_options \<Rightarrow> any" where
  "no_GetRaw key opts = (case omap_get opts key of Some a \<Rightarrow> a | None \<Rightarrow> None)"

definition no_SetRaw :: "string \<Rightarrow> any \<Rightarrow> node_options \<Rightarrow> node_options" where
  "no_SetRaw key value opts = omap_put key value opts"

interpretation node_options: dict "[]" omap_get no_SetRaw omap_wf
  by unfold_locales (simp_all add: no_SetRaw_def omap_wf_put omap_get_put)

section \<open>Configuration records\<close>

record profiler_config =
  pc_enable_profiler :: bool
  pc_histogram_interval_size_usec :: int
  pc_num_histogram_intervals :: int
  pc_trace_log_path :: string

definition profiler_config0 :: profiler_config where
  "profiler_config0 =
     \<lparr>pc_enable_profiler = False, pc_histogram_interval_size_usec = 1000000,
      pc_num_histogram_intervals = 5, pc_trace_log_path = []\<rparr>"

record node_def =
  nd_name :: string
  nd_type :: string
  nd_input_streams :: "string list"
  nd_output_streams :: "string list"
  nd_input_side_packets :: "string list"
  nd_output_side_packets :: "string list"
  nd_options :: node_options
  nd_executor :: string
  nd_input_stream_handler :: string
  nd_max_in_flight :: int
  nd_source_layer :: int

definition node_def0 :: node_def where
  "node_def0 =
     \<lparr>nd_name = [], nd_type = [], nd_input_streams = [], nd_output_streams = [],
      nd_input_side_packets = [], nd_output_side_packets = [], nd_options = [],
      nd_executor = [], nd_input_stream_handler = [], nd_max_in_flight = 1,
      nd_source_layer = 0\<rparr>"

record executor_def =
  ed_name :: string
  ed_type :: string
  ed_num_threads :: int

record graph_config =
  gc_max_queue_size :: int
  gc_report_deadlock :: bool
  gc_profiler_config :: profiler_config
  gc_nodes :: "node_def list"
  gc_executors :: "executor_def list"
  gc_input_streams :: "string list"
  gc_output_streams :: "string list"

definition graph_config0 :: graph_config where
  "graph_config0 =
     \<lparr>gc_max_queue_size = 100, gc_report_deadlock = False,
      gc_profiler_config = profiler_config0, gc_nodes = [], gc_executors = [],
      gc_input_streams = [], gc_output_streams = []\<rparr>"

fun get_node_option :: "node_def list \<Rightarrow> string \<Rightarrow> string \<Rightarrow> string \<Rightarrow> any_val \<Rightarrow> any_val" where
  "get_node_option [] ty node_type key default_value = default_value"
| "get_node_option (d # ds) ty node_type key default_value =
     (if nd_type d \<noteq> node_type then get_node_option ds ty node_type key default_value
      else case no_Get ty key (nd_options d) of
             Some v \<Rightarrow> v
           | None \<Rightarrow> get_node_option ds ty node_type key default_value)"

definition GetNodeOption :: "string \<Rightarrow> string \<Rightarrow> string \<Rightarrow> any_val \<Rightarrow> graph_config \<Rightarrow> any_val" where
  "GetNodeOption ty node_type key default_value c =
     get_node_option (gc_nodes c) ty node_type key default_value"

section \<open>Overrides\<close>

type_synonym runtime_options = "(string, node_options) omap"

definition apply_overrides :: "runtime_options \<Rightarrow> node_def \<Rightarrow> node_def" where
  "apply_overrides nodes d =
     (case omap_get nodes (nd_type d) of
        None \<Rightarrow> d
      | Some o' \<Rightarrow>
          d\<lparr>nd_options := fold (\<lambda>key opts. no_SetRaw key (no_GetRaw key o') opts) (no_Keys o')
             (nd_options d)\<rparr>)"

definition Options_Apply :: "runtime_options \<Rightarrow> graph_config \<Rightarrow> graph_config" where
  "Options_Apply nodes config =
     (if nodes = [] then config
      else config\<lparr>gc_nodes := map (apply_overrides nodes) (gc_nodes config)\<rparr>)"

lemma override_fold:
  "fold (\<lambda>key opts. no_SetRaw key (no_GetRaw key o') opts) ks opts =
     fold (\<lambda>(k, v). no_SetRaw k v) (map (\<lambda>k. (k, no_GetRaw k o')) ks) opts"
  by (induction ks arbitrary: opts) auto

lemma map_of_keys:
  "map_of (rev (map (\<lambda>k. (k, f k)) ks)) k = (if k \<in> set ks then Some (f k) else None)"
  by (induction ks) (auto simp: map_add_def split: option.splits)

lemma apply_overrides_get:
  assumes "omap_wf (nd_options d)"
  shows "omap_get (nd_options (apply_overrides nodes d)) k =
    (case omap_get nodes (nd_type d) of
       None \<Rightarrow> omap_get (nd_options d) k
     | Some o' \<Rightarrow> (case omap_get o' k of Some v \<Rightarrow> Some v | None \<Rightarrow> omap_get (nd_options d) k))"
proof (cases "omap_get nodes (nd_type d)")
  case (Some o')
  have "omap_get (nd_options (apply_overrides nodes d)) k =
      (if k \<in> set (no_Keys o') then Some (no_GetRaw k o') else omap_get (nd_options d) k)"
    using assms Some
    by (simp add: apply_overrides_def override_fold node_options.get_put_all map_of_keys)
  then show ?thesis
    using Some omap_get_None_iff [of o' k]
    by (cases "omap_get o' k") (simp_all add: no_Keys_def no_GetRaw_def)
qed (simp add: apply_overrides_def)

text \<open>
  Overriding patches a config key by key and nothing else: with an override for its type,
  a node's option is the override's value where the override has the key and the node's own
  value elsewhere; nodes of other types keep theirs; no node is added, removed or reordered,
  and no field but the options changes.
\<close>

lemma Options_Apply_spec:
  assumes "\<forall>d\<in>set (gc_nodes c). omap_wf (nd_options d)"
  shows "length (gc_nodes (Options_Apply os c)) = length (gc_nodes c) \<and>
    (Options_Apply os c)\<lparr>gc_nodes := gc_nodes c\<rparr> = c \<and>
    (\<forall>i < length (gc_nodes c).
       (gc_nodes (Options_Apply os c) ! i)\<lparr>nd_options := nd_options (gc_nodes c ! i)\<rparr> =
         gc_nodes c ! i \<and>
       (\<forall>k. omap_get (nd_options (gc_nodes (Options_Apply os c) ! i)) k =
         (case omap_get os (nd_type (gc_nodes c ! i)) of
            None \<Rightarrow> omap_get (nd_options (gc_nodes c ! i)) k
          | Some o' \<Rightarrow>
              (case omap_get o' k of
                 Some v \<Rightarrow> Some v | None \<Rightarrow> omap_get (nd_options (gc_nodes c ! i)) k))))"
proof -
  have other: "(apply_overrides os d)\<lparr>nd_options := nd_options d\<rparr> = d" for d
    by (simp add: apply_overrides_def split: option.splits)
  show ?thesis
    using assms other by (auto simp: Options_Apply_def apply_overrides_get)
qed

lemma Options_Apply_spec_witness:
  "let d = node_def0\<lparr>nd_type := ''In'', nd_options := [(''fps'', Some (AnyInt 5))]\<rparr>;
       c = graph_config0\<lparr>gc_nodes := [d]\<rparr>;
       os = [(''In'', [(''fps'', Some (AnyInt 30))])]
   in omap_get (nd_options (gc_nodes (Options_Apply os c) ! 0)) ''fps'' = Some (Some (AnyInt 30))"
proof -
  let ?d = "node_def0\<lparr>nd_type := ''In'', nd_options := [(''fps'', Some (AnyInt 5))]\<rparr>"
  let ?c = "graph_config0\<lparr>gc_nodes := [?d]\<rparr>"
  let ?os = "[(''In'', [(''fps'', Some (AnyInt 30))])]"
  show ?thesis
    using Options_Apply_spec [of ?c ?os] by (simp add: omap_wf_def graph_config0_def)
qed

end
