(* ===== verification/Config_Validator.thy ===== *)
theory Config_Validator
  imports Graph_Config
begin

text \<open>
  \<open>framework/config/config_validator.{h,cc}\<close>: the checks a configuration passes before a graph
  is built. \<open>std::set\<close> and \<open>std::map\<close> keys that are only tested for membership are HOL sets
  and functions. The cycle check is the code's non-recursive depth-first search, with its
  explicit stack (top first), colours and current path; it is shown to decide acyclicity of
  the dependency relation, and a cycle it reports is shown to be one.
\<close>

section \<open>The checks\<close>

definition InvalidArgument :: "string \<Rightarrow> status" where
  "InvalidArgument msg = Status CInvalidArgument msg"

fun check_unique :: "string \<Rightarrow> string set \<Rightarrow> string list \<Rightarrow> status" where
  "check_unique what seen [] = ok_status"
| "check_unique what seen (x # xs) =
     (if x \<in> seen then InvalidArgument (what @ x) else check_unique what (insert x seen) xs)"

definition ValidateUniqueNames :: "graph_config \<Rightarrow> status" where
  "ValidateUniqueNames config =
     check_unique ''duplicate node name: '' {} (map nd_name (gc_nodes config))"

definition ValidateUniqueExecutors :: "graph_config \<Rightarrow> status" where
  "ValidateUniqueExecutors config =
     check_unique ''duplicate executor name: '' {} (map ed_name (gc_executors config))"

definition quote :: string where "quote = [char_of (39 :: nat)]"

fun check_inputs :: "string \<Rightarrow> string set \<Rightarrow> string list \<Rightarrow> status" where
  "check_inputs node seen [] = ok_status"
| "check_inputs node seen (x # xs) =
     (let stream = StreamName x
      in if stream \<in> seen
         then InvalidArgument (''node '' @ quote @ node @ quote @ '': consumes stream '' @ quote @
                stream @ quote @ '' more than once (duplicate input edge)'')
         else check_inputs node (insert stream seen) xs)"

fun check_node_inputs :: "node_def list \<Rightarrow> status" where
  "check_node_inputs [] = ok_status"
| "check_node_inputs (d # ds) =
     (let st = check_inputs (nd_name d) {} (nd_input_streams d)
      in if \<not> st_ok st then st else check_node_inputs ds)"

definition ValidateNoDuplicateNodeInputs :: "graph_config \<Rightarrow> status" where
  "ValidateNoDuplicateNodeInputs config = check_node_inputs (gc_nodes config)"

definition CollectOutputStreams :: "graph_config \<Rightarrow> string set" where
  "CollectOutputStreams config =
     set (map StreamName (concat (map nd_output_streams (gc_nodes config)))) \<union>
     set (map StreamName (gc_output_streams config))"

definition CollectGraphInputStreams :: "graph_config \<Rightarrow> string set" where
  "CollectGraphInputStreams config = set (gc_input_streams config)"

fun check_connected :: "string set \<Rightarrow> string set \<Rightarrow> string \<Rightarrow> string list \<Rightarrow> status" where
  "check_connected graph_inputs outputs node [] = ok_status"
| "check_connected graph_inputs outputs node (x # xs) =
     (let stream = StreamName x
      in if stream \<in> graph_inputs then check_connected graph_inputs outputs node xs
         else if stream \<notin> outputs
         then InvalidArgument (''node '' @ quote @ node @ quote @ '': input stream '' @ quote @
                stream @ quote @ '' has no matching output stream in any node'')
         else check_connected graph_inputs outputs node xs)"

fun check_all_connected :: "string set \<Rightarrow> string set \<Rightarrow> node_def list \<Rightarrow> status" where
  "check_all_connected graph_inputs outputs [] = ok_status"
| "check_all_connected graph_inputs outputs (d # ds) =
     (let st = check_connected graph_inputs outputs (nd_name d) (nd_input_streams d)
      in if \<not> st_ok st then st else check_all_connected graph_inputs outputs ds)"

definition ValidateConnectivity :: "graph_config \<Rightarrow> status" where
  "ValidateConnectivity config =
     check_all_connected (CollectGraphInputStreams config) (CollectOutputStreams config)
       (gc_nodes config)"

section \<open>The dependency graph\<close>

text \<open>\<open>producers[stream]\<close>: the indices pushed while scanning the nodes, once per output.\<close>

fun producers_from :: "nat \<Rightarrow> node_def list \<Rightarrow> string \<Rightarrow> nat list" where
  "producers_from i [] stream = []"
| "producers_from i (d # ds) stream =
     map (\<lambda>_. i) (filter (\<lambda>os. StreamName os = stream) (nd_output_streams d)) @
     producers_from (i + 1) ds stream"

definition BuildDependencyGraph :: "graph_config \<Rightarrow> nat list list" where
  "BuildDependencyGraph config =
     map (\<lambda>d. concat (map (\<lambda>is. producers_from 0 (gc_nodes config) (StreamName is))
                (nd_input_streams d))) (gc_nodes config)"

section \<open>Depth-first search\<close>

text \<open>
  Colours: 0 unvisited, 1 in progress, 2 done. \<open>kids\<close> totalises the vector access; every
  index the search uses is in range. The result is the colours, the path and the cycle found.
\<close>

definition kids :: "nat list list \<Rightarrow> nat \<Rightarrow> nat list" where
  "kids deps v = (if v < length deps then deps ! v else [])"

lemma filter_update_le:
  "length (filter (\<lambda>c. c = (0::nat)) (st[v := Suc n])) \<le> length (filter (\<lambda>c. c = 0) st)"
  by (induction st arbitrary: v) (auto split: nat.splits)

lemma filter_update_less:
  "v < length st \<Longrightarrow> st ! v = 0 \<Longrightarrow>
   length (filter (\<lambda>c. c = (0::nat)) (st[v := Suc n])) < length (filter (\<lambda>c. c = 0) st)"
proof (induction st arbitrary: v)
  case (Cons a st)
  then show ?case by (cases v) auto
qed simp

function dfs_loop :: "nat list list \<Rightarrow> (nat \<times> nat) list \<Rightarrow> nat list \<Rightarrow> nat list \<Rightarrow>
    nat list \<times> nat list \<times> nat list option" where
  "dfs_loop deps [] st path = (st, path, None)"
| "dfs_loop deps ((v, c) # stack) st path =
     (if c \<ge> length (kids deps v) then dfs_loop deps stack (st[v := 2]) (butlast path)
      else
        let child = kids deps v ! c
        in if child < length st \<and> st ! child = 1
           then (st, path, Some (dropWhile (\<lambda>x. x \<noteq> child) path @ [child]))
           else if child < length st \<and> st ! child = 0
           then dfs_loop deps ((child, 0) # (v, c + 1) # stack) (st[child := 1]) (path @ [child])
           else dfs_loop deps ((v, c + 1) # stack) st path)"
  by pat_completeness auto

termination
proof (relation "measures [\<lambda>(deps, stack, st, path). length (filter (\<lambda>c. c = 0) st),
    \<lambda>(deps, stack, st, path). sum_list (map (\<lambda>(v, c). length (kids deps v) - c) stack),
    \<lambda>(deps, stack, st, path). length stack]", goal_cases)
  case (2 deps v c stack st path)
  then show ?case
    using filter_update_le [of st v 1] by (auto simp: numeral_2_eq_2 order_le_less)
next
  case (3 deps v c stack st path child)
  then show ?case using filter_update_less [of child st 0] by auto
qed auto

fun dfs_starts :: "nat list list \<Rightarrow> nat list \<Rightarrow> nat list \<Rightarrow> nat list \<times> nat list option" where
  "dfs_starts deps [] st = (st, None)"
| "dfs_starts deps (start # rest) st =
     (if st ! start \<noteq> 0 then dfs_starts deps rest st
      else case dfs_loop deps [(start, 0)] (st[start := 1]) [start] of
             (st', _, Some cyc) \<Rightarrow> (st', Some cyc)
           | (st', _, None) \<Rightarrow> dfs_starts deps rest st')"

text \<open>The separator of the message is the UTF-8 encoding of an arrow between two spaces.\<close>

definition arrow :: string where
  "arrow = map char_of [32 :: nat, 226, 134, 146, 32]"

fun cycle_string :: "node_def list \<Rightarrow> string \<Rightarrow> nat list \<Rightarrow> string" where
  "cycle_string nodes acc [] = acc"
| "cycle_string nodes acc (i # is) =
     cycle_string nodes
       (acc @ (if acc \<noteq> [] then arrow else []) @ quote @ nd_name (nodes ! i) @ quote) is"

definition ValidateNoCycles :: "graph_config \<Rightarrow> status" where
  "ValidateNoCycles config =
     (let n = length (gc_nodes config)
      in case snd (dfs_starts (BuildDependencyGraph config) [0..<n] (replicate n 0)) of
           None \<Rightarrow> ok_status
         | Some cycle_nodes \<Rightarrow>
             if cycle_nodes = [] then ok_status
             else InvalidArgument (''cycle detected: '' @
                    cycle_string (gc_nodes config) [] cycle_nodes))"

definition Validate :: "graph_config \<Rightarrow> status" where
  "Validate config =
     (let s1 = ValidateUniqueNames config in if \<not> st_ok s1 then s1
      else let s2 = ValidateUniqueExecutors config in if \<not> st_ok s2 then s2
      else let s3 = ValidateNoDuplicateNodeInputs config in if \<not> st_ok s3 then s3
      else let s4 = ValidateConnectivity config in if \<not> st_ok s4 then s4
      else let s5 = ValidateNoCycles config in if \<not> st_ok s5 then s5
      else ok_status)"

section \<open>Correctness of the search\<close>

definition edges :: "nat list list \<Rightarrow> (nat \<times> nat) set" where
  "edges deps = {(i, j). j \<in> set (kids deps i)}"

definition closed_walk :: "nat list list \<Rightarrow> nat list \<Rightarrow> bool" where
  "closed_walk deps xs \<longleftrightarrow> length xs \<ge> 2 \<and> hd xs = last xs \<and>
     successively (\<lambda>i j. j \<in> set (kids deps i)) xs"

lemma walk_trancl:
  "successively (\<lambda>i j. j \<in> set (kids deps i)) (x # xs) \<Longrightarrow> xs \<noteq> [] \<Longrightarrow>
   (x, last xs) \<in> (edges deps)\<^sup>+"
proof (induction xs arbitrary: x)
  case (Cons y ys)
  then have xy: "(x, y) \<in> edges deps" by (simp add: edges_def)
  show ?case
  proof (cases "ys = []")
    case True
    then show ?thesis using xy by auto
  next
    case False
    then have "(y, last ys) \<in> (edges deps)\<^sup>+" using Cons by auto
    then show ?thesis using xy False by (auto intro: trancl_into_trancl2)
  qed
qed simp

lemma closed_walk_not_acyclic: "closed_walk deps xs \<Longrightarrow> \<not> acyclic (edges deps)"
proof -
  assume cw: "closed_walk deps xs"
  then obtain x ys where xs: "xs = x # ys" "ys \<noteq> []"
    by (cases xs; cases "tl xs") (auto simp: closed_walk_def)
  with cw show ?thesis
    using walk_trancl [of deps x ys] by (auto simp: closed_walk_def acyclic_def)
qed

text \<open>
  The invariant of the search. In the top frame every child before \<open>c\<close> is done; in a frame
  below, the child at \<open>c - 1\<close> is the frame above, and those before it are done.
\<close>

fun stack_ok :: "nat list list \<Rightarrow> nat list \<Rightarrow> nat option \<Rightarrow> (nat \<times> nat) list \<Rightarrow> bool" where
  "stack_ok deps st upper [] \<longleftrightarrow> True"
| "stack_ok deps st upper ((v, c) # stack) \<longleftrightarrow>
     c \<le> length (kids deps v) \<and>
     (case upper of
        None \<Rightarrow> (\<forall>i<c. st ! (kids deps v ! i) = 2)
      | Some u \<Rightarrow> 0 < c \<and> kids deps v ! (c - 1) = u \<and> (\<forall>i<c - 1. st ! (kids deps v ! i) = 2)) \<and>
     stack_ok deps st (Some v) stack"

definition colours_ok :: "nat list list \<Rightarrow> nat list \<Rightarrow> nat set \<Rightarrow> bool" where
  "colours_ok deps st grey \<longleftrightarrow>
     length st = length deps \<and> grey \<subseteq> {..<length deps} \<and>
     (\<forall>v<length deps. st ! v = 0 \<or> st ! v = 1 \<or> st ! v = 2) \<and>
     (\<forall>v<length deps. st ! v = 1 \<longleftrightarrow> v \<in> grey) \<and>
     (\<forall>v<length deps. st ! v = 2 \<longrightarrow>
        (\<forall>j\<in>set (kids deps v). st ! j = 2) \<and> (v, v) \<notin> (edges deps)\<^sup>+)"

definition in_range :: "nat list list \<Rightarrow> bool" where
  "in_range deps \<longleftrightarrow> (\<forall>v. \<forall>j\<in>set (kids deps v). j < length deps)"

definition dfs_inv :: "nat list list \<Rightarrow> (nat \<times> nat) list \<Rightarrow> nat list \<Rightarrow> nat list \<Rightarrow> bool" where
  "dfs_inv deps stack st path \<longleftrightarrow>
     path = rev (map fst stack) \<and> distinct path \<and> colours_ok deps st (set path) \<and>
     stack_ok deps st None stack"

lemma colours_okD:
  assumes "colours_ok deps st grey"
  shows "length st = length deps" "v \<in> grey \<Longrightarrow> v < length deps"
    "v < length deps \<Longrightarrow> st ! v = 0 \<or> st ! v = 1 \<or> st ! v = 2"
    "v < length deps \<Longrightarrow> st ! v = 1 \<longleftrightarrow> v \<in> grey"
    "v < length deps \<Longrightarrow> st ! v = 2 \<Longrightarrow> (v, v) \<notin> (edges deps)\<^sup>+"
  using assms unfolding colours_ok_def by blast+

lemma stack_ok_mono:
  "stack_ok deps st upper stack \<Longrightarrow>
   (\<And>j. st ! j = 2 \<Longrightarrow> st' ! j = 2) \<Longrightarrow>
   stack_ok deps st' upper stack"
  by (induction deps st upper stack rule: stack_ok.induct) (auto split: option.splits)

lemma stack_ok_walk:
  "stack_ok deps st (Some u) stack \<Longrightarrow>
   successively (\<lambda>i j. i \<in> set (kids deps j)) (u # map fst stack)"
proof (induction stack arbitrary: u)
  case (Cons f stack)
  obtain v c where f: "f = (v, c)" by (cases f)
  then have "u = kids deps v ! (c - 1)" "c - 1 < length (kids deps v)"
    using Cons.prems by auto
  then have "u \<in> set (kids deps v)" using nth_mem by simp
  then show ?case using Cons f by auto
qed simp

lemma stack_top_walk:
  "stack_ok deps st None ((v, c) # stack) \<Longrightarrow>
   successively (\<lambda>i j. j \<in> set (kids deps i)) (rev (map fst ((v, c) # stack)))"
  unfolding successively_rev using stack_ok_walk [of deps st v stack] by simp

lemma black_closed:
  assumes "(u, w) \<in> (edges deps)\<^sup>*" "colours_ok deps st g" "in_range deps" "u < length deps"
    "st ! u = 2"
  shows "w < length deps \<and> st ! w = 2"
  using assms(1,4,5)
proof (induction rule: rtrancl_induct)
  case (step y z)
  then show ?case using assms(2,3) by (auto simp: colours_ok_def in_range_def edges_def)
qed simp

lemma finish_colours:
  assumes "colours_ok deps st g" "in_range deps" "v \<in> g"
    and "\<forall>j\<in>set (kids deps v). st ! j = 2"
  shows "colours_ok deps (st[v := 2]) (g - {v})"
proof -
  have v: "v < length deps" "st ! v = 1"
    using assms by (auto simp: colours_ok_def)
  have no: "(v, v) \<notin> (edges deps)\<^sup>+"
  proof
    assume "(v, v) \<in> (edges deps)\<^sup>+"
    then obtain j where j: "(v, j) \<in> edges deps" "(j, v) \<in> (edges deps)\<^sup>*"
      by (meson tranclD)
    then have "j < length deps" "st ! j = 2"
      using assms(2,4) by (auto simp: edges_def in_range_def)
    then have "st ! v = 2" using black_closed [OF j(2) assms(1,2)] by simp
    then show False using v by simp
  qed
  have black: "st[v := 2] ! j = 2 \<longleftrightarrow> j = v \<or> st ! j = 2" for j
    using v assms(1) by (cases "j = v") (auto simp: colours_ok_def)
  have grey: "st[v := 2] ! j = 1 \<longleftrightarrow> j \<noteq> v \<and> st ! j = 1" for j
    using v assms(1) by (cases "j = v") (auto simp: colours_ok_def)
  have white: "st[v := 2] ! j = 0 \<longleftrightarrow> j \<noteq> v \<and> st ! j = 0" for j
    using v assms(1) by (cases "j = v") (auto simp: colours_ok_def)
  show ?thesis
    unfolding colours_ok_def black grey white length_list_update
    using assms(1) [unfolded colours_ok_def] assms(4) no by (intro conjI) (blast | simp)+
qed

lemma visit_colours:
  assumes "colours_ok deps st g" "child < length deps" "st ! child = 0"
  shows "colours_ok deps (st[child := 1]) (insert child g)"
proof -
  have black: "st[child := 1] ! j = 2 \<longleftrightarrow> st ! j = 2" for j
    using assms by (cases "j = child") (auto simp: colours_ok_def)
  have grey: "st[child := 1] ! j = 1 \<longleftrightarrow> j = child \<or> st ! j = 1" for j
    using assms by (cases "j = child") (auto simp: colours_ok_def)
  have white: "st[child := 1] ! j = 0 \<longleftrightarrow> j \<noteq> child \<and> st ! j = 0" for j
    using assms by (cases "j = child") (auto simp: colours_ok_def)
  show ?thesis
    unfolding colours_ok_def black grey white length_list_update
    using assms [unfolded colours_ok_def] by (intro conjI) (blast | simp)+
qed

lemma black_mono:
  "st ! j = 2 \<Longrightarrow> st[v := 2] ! j = (2 :: nat)"
  "st ! child = 0 \<Longrightarrow> st ! j = 2 \<Longrightarrow> st[child := 1] ! j = (2 :: nat)"
proof -
  show "st ! j = 2 \<Longrightarrow> st[v := 2] ! j = (2 :: nat)"
    by (cases "j = v \<and> v < length st") (auto simp: list_update_beyond not_less)
  show "st ! child = 0 \<Longrightarrow> st ! j = 2 \<Longrightarrow> st[child := 1] ! j = (2 :: nat)"
    by (cases "child = j") auto
qed

lemma dfs_inv_Cons:
  "dfs_inv deps ((v, c) # stack) st path \<longleftrightarrow>
     path = rev (map fst stack) @ [v] \<and> distinct path \<and> colours_ok deps st (set path) \<and>
     c \<le> length (kids deps v) \<and> (\<forall>i<c. st ! (kids deps v ! i) = 2) \<and>
     stack_ok deps st (Some v) stack"
  by (simp add: dfs_inv_def)

lemma dfs_inv_ConsI:
  assumes "path = rev (map fst stack) @ [v]" "distinct path" "colours_ok deps st (set path)"
    and "c \<le> length (kids deps v)" "\<And>i. i < c \<Longrightarrow> st ! (kids deps v ! i) = 2"
    and "stack_ok deps st (Some v) stack"
  shows "dfs_inv deps ((v, c) # stack) st path"
  unfolding dfs_inv_Cons using assms by blast

lemma inv_pop:
  assumes "dfs_inv deps ((v, c) # stack) st path" "in_range deps" "length (kids deps v) \<le> c"
  shows "dfs_inv deps stack (st[v := 2]) (butlast path)"
proof -
  have path: "path = rev (map fst stack) @ [v]" and dist: "distinct path"
    and col: "colours_ok deps st (set path)" and top: "\<forall>i<c. st ! (kids deps v ! i) = 2"
    and stk: "stack_ok deps st (Some v) stack" and c: "c \<le> length (kids deps v)"
    using assms(1) unfolding dfs_inv_Cons by blast+
  have v: "v < length st" using col path by (auto simp: colours_ok_def)
  have "\<forall>j\<in>set (kids deps v). st ! j = 2"
    using top c assms(3) by (auto simp: in_set_conv_nth)
  then have col': "colours_ok deps (st[v := 2]) (set path - {v})"
    by (intro finish_colours [OF col assms(2)]) (simp_all add: path)
  have stk': "stack_ok deps (st[v := 2]) None stack"
  proof (cases stack)
    case (Cons f s)
    obtain w d where f: "f = (w, d)" by (cases f)
    have d: "0 < d" "d \<le> length (kids deps w)" "kids deps w ! (d - 1) = v"
      "\<forall>i<d - 1. st ! (kids deps w ! i) = 2" "stack_ok deps st (Some w) s"
      using stk Cons f by auto
    have "st[v := 2] ! (kids deps w ! i) = 2" if "i < d" for i
    proof (cases "i = d - 1")
      case True
      then show ?thesis using d v by simp
    next
      case False
      then show ?thesis using that d by (intro black_mono) auto
    qed
    then show ?thesis
      using Cons f d stack_ok_mono [OF d(5), of "st[v := 2]"] black_mono by simp
  qed simp
  have "set path - {v} = set (butlast path)"
    using path dist by auto
  then show ?thesis
    using path dist col' stk' by (auto simp: dfs_inv_def)
qed

lemma inv_push:
  assumes "dfs_inv deps ((v, c) # stack) st path" "c < length (kids deps v)"
    and "child = kids deps v ! c" "child < length st" "st ! child = 0"
  shows "dfs_inv deps ((child, 0) # (v, c + 1) # stack) (st[child := 1]) (path @ [child])"
proof -
  have path: "path = rev (map fst stack) @ [v]" and dist: "distinct path"
    and col: "colours_ok deps st (set path)" and top: "\<forall>i<c. st ! (kids deps v ! i) = 2"
    and stk: "stack_ok deps st (Some v) stack"
    using assms(1) unfolding dfs_inv_Cons by blast+
  have new: "child \<notin> set path"
    using colours_okD(1) [OF col] colours_okD(4) [OF col, of child] assms(4,5) by auto
  have col': "colours_ok deps (st[child := 1]) (insert child (set path))"
    using visit_colours [OF col _ assms(5)] assms(4) colours_okD(1) [OF col] by simp
  have mono: "st[child := 1] ! j = 2" if "st ! j = 2" for j
    using black_mono(2) [OF assms(5) that] .
  have "stack_ok deps (st[child := 1]) (Some v) stack"
    by (rule stack_ok_mono [OF stk mono])
  then have "stack_ok deps (st[child := 1]) (Some child) ((v, c + 1) # stack)"
    using top mono assms(2,3) by simp
  then show ?thesis
    using path dist new col' by (intro dfs_inv_ConsI) (simp_all add: insert_commute)
qed

lemma inv_skip:
  assumes "dfs_inv deps ((v, c) # stack) st path" "c < length (kids deps v)"
    and "st ! (kids deps v ! c) = 2"
  shows "dfs_inv deps ((v, c + 1) # stack) st path"
proof (rule dfs_inv_ConsI)
  note inv = assms(1) [unfolded dfs_inv_Cons]
  show "path = rev (map fst stack) @ [v]" "distinct path" "colours_ok deps st (set path)"
    "stack_ok deps st (Some v) stack"
    using inv by blast+
  show "c + 1 \<le> length (kids deps v)" using assms(2) by simp
  show "st ! (kids deps v ! i) = 2" if "i < c + 1" for i
    using inv that assms(3) by (cases "i = c") simp_all
qed

lemma inv_found:
  assumes "dfs_inv deps ((v, c) # stack) st path" "c < length (kids deps v)"
    and "child = kids deps v ! c" "child < length st" "st ! child = 1"
  shows "closed_walk deps (dropWhile (\<lambda>x. x \<noteq> child) path @ [child])"
proof -
  have path: "path = rev (map fst stack) @ [v]" and col: "colours_ok deps st (set path)"
    and walk: "successively (\<lambda>i j. j \<in> set (kids deps i)) path"
    using assms(1) stack_top_walk [of deps st v c stack] by (auto simp: dfs_inv_def)
  let ?d = "dropWhile (\<lambda>x. x \<noteq> child) path"
  have "child \<in> set path" using col assms(4,5) by (auto simp: colours_ok_def)
  then have d: "?d \<noteq> []" "hd ?d = child"
    using hd_dropWhile [of "\<lambda>x. x \<noteq> child" path] by (auto simp: dropWhile_eq_Nil_conv)
  have split: "path = takeWhile (\<lambda>x. x \<noteq> child) path @ ?d" by simp
  have "successively (\<lambda>i j. j \<in> set (kids deps i)) ?d"
    using walk by (subst (asm) split, subst (asm) successively_append_iff) simp
  moreover have "last ?d = v"
    using d(1) path split last_appendR [of ?d "takeWhile (\<lambda>x. x \<noteq> child) path"] by simp
  moreover have "child \<in> set (kids deps v)" using assms(2,3) by simp
  ultimately show ?thesis
    using d by (simp add: closed_walk_def successively_append_iff hd_append Suc_le_eq)
qed

lemma nonzero_mono: "0 < st ! v \<Longrightarrow> 0 < n \<Longrightarrow> 0 < st[u := n] ! (v :: nat)" for n :: nat
  by (cases "u = v"; cases "u < length st") (auto simp: list_update_beyond not_less)

lemma dfs_step:
  assumes "c < length (kids deps v)" "kids deps v ! c < length st"
  shows "st ! (kids deps v ! c) = 0 \<Longrightarrow> dfs_loop deps ((v, c) # stack) st path =
      dfs_loop deps ((kids deps v ! c, 0) # (v, c + 1) # stack) (st[kids deps v ! c := 1])
        (path @ [kids deps v ! c])"
    and "st ! (kids deps v ! c) = 2 \<Longrightarrow> dfs_loop deps ((v, c) # stack) st path =
      dfs_loop deps ((v, c + 1) # stack) st path"
  using assms by (simp_all add: dfs_loop.simps(2) [of deps v c] Let_def del: dfs_loop.simps(2))

lemma dfs_loop_correct:
  "dfs_inv deps stack st path \<Longrightarrow> in_range deps \<Longrightarrow> dfs_loop deps stack st path = (st', path', r) \<Longrightarrow>
   case r of
     None \<Rightarrow> dfs_inv deps [] st' [] \<and> (\<forall>v. st ! v \<noteq> 0 \<longrightarrow> st' ! v \<noteq> 0)
   | Some cyc \<Rightarrow> closed_walk deps cyc"
proof (induction deps stack st path arbitrary: st' path' r rule: dfs_loop.induct)
  case (1 deps st path)
  then show ?case by (auto simp: dfs_inv_def)
next
  case (2 deps v c stack st path)
  note IH = "2.IH" and inv = "2.prems"(1) and rng = "2.prems"(2) and run = "2.prems"(3)
  have col: "colours_ok deps st (set path)" using inv unfolding dfs_inv_Cons by blast
  let ?child = "kids deps v ! c"
  show ?case
  proof (cases "length (kids deps v) \<le> c")
    case True
    then have "dfs_loop deps stack (st[v := 2]) (butlast path) = (st', path', r)"
      using run by simp
    note rec = IH(1) [OF True inv_pop [OF inv rng True] rng this]
    show ?thesis
    proof (cases r)
      case None
      then show ?thesis using rec nonzero_mono [of st _ 2 v] by auto
    next
      case (Some cyc)
      then show ?thesis using rec by simp
    qed
  next
    case c: False
    then have c': "c < length (kids deps v)" by simp
    then have lt: "?child < length st"
      using colours_okD(1) [OF col] rng nth_mem [OF c'] unfolding in_range_def by metis
    consider (grey) "st ! ?child = 1" | (white) "st ! ?child = 0" | (black) "st ! ?child = 2"
      using colours_okD(1) [OF col] colours_okD(3) [OF col, of ?child] lt by auto
    then show ?thesis
    proof cases
      case grey
      then show ?thesis using run c lt inv_found [OF inv c' refl lt] by (auto simp: Let_def)
    next
      case white
      then have "dfs_loop deps ((?child, 0) # (v, c + 1) # stack) (st[?child := 1])
          (path @ [?child]) = (st', path', r)"
        using run dfs_step(1) [OF c' lt] by simp
      from IH(2) [OF c refl _ _ inv_push [OF inv c' refl lt white] rng this] white lt
      show ?thesis by (cases r) (simp_all add: nonzero_mono)
    next
      case black
      then have "dfs_loop deps ((v, c + 1) # stack) st path = (st', path', r)"
        using run dfs_step(2) [OF c' lt] by simp
      from IH(3) [OF c refl _ _ inv_skip [OF inv c' black] rng this] black lt
      show ?thesis by simp
    qed
  qed
qed

lemma dfs_starts_correct:
  "dfs_inv deps [] st [] \<Longrightarrow> in_range deps \<Longrightarrow> \<forall>v\<in>set starts. v < length deps \<Longrightarrow>
   dfs_starts deps starts st = (st', r) \<Longrightarrow>
   case r of
     None \<Rightarrow> dfs_inv deps [] st' [] \<and> (\<forall>v. st ! v \<noteq> 0 \<longrightarrow> st' ! v \<noteq> 0) \<and>
       (\<forall>v\<in>set starts. st' ! v \<noteq> 0)
   | Some cyc \<Rightarrow> closed_walk deps cyc"
proof (induction starts arbitrary: st)
  case (Cons v starts)
  show ?case
  proof (cases "st ! v = 0")
    case False
    then show ?thesis using Cons.IH [of st] Cons.prems by (auto split: option.splits)
  next
    case True
    obtain st1 p1 r1 where run: "dfs_loop deps [(v, 0)] (st[v := 1]) [v] = (st1, p1, r1)"
      by (cases "dfs_loop deps [(v, 0)] (st[v := 1]) [v]") auto
    have v: "v < length deps" "v < length st"
      using Cons.prems by (auto simp: dfs_inv_def colours_ok_def)
    have "dfs_inv deps [(v, 0)] (st[v := 1]) [v]"
      using visit_colours [of deps st "{}" v] True v Cons.prems(1) by (simp add: dfs_inv_def)
    note one = dfs_loop_correct [OF this Cons.prems(2) run]
    show ?thesis
    proof (cases r1)
      case None
      then have "dfs_inv deps [] st1 []" "\<forall>u. st[v := 1] ! u \<noteq> 0 \<longrightarrow> st1 ! u \<noteq> 0"
        using one by auto
      moreover have "st1 ! v \<noteq> 0"
        using calculation(2) v by auto
      moreover have "\<forall>u. st ! u \<noteq> 0 \<longrightarrow> st1 ! u \<noteq> 0"
        using calculation(2) nonzero_mono [of st _ 1 v] by simp
      ultimately show ?thesis
        using Cons.IH [of st1] Cons.prems True run None by (auto split: option.splits)
    next
      case (Some cyc)
      then show ?thesis using one run True Cons.prems(4) by auto
    qed
  qed
qed simp

lemma search_decides:
  assumes "in_range deps"
    and "dfs_starts deps [0..<length deps] (replicate (length deps) 0) = (st', r)"
  shows "(r = None \<longleftrightarrow> acyclic (edges deps)) \<and> (\<forall>cyc. r = Some cyc \<longrightarrow> closed_walk deps cyc)"
proof (cases r)
  case None
  have "dfs_inv deps [] (replicate (length deps) 0) []"
    by (simp add: dfs_inv_def colours_ok_def)
  from dfs_starts_correct [OF this assms(1) _ assms(2)] None
  have inv: "colours_ok deps st' {}" and all: "\<forall>v<length deps. st' ! v \<noteq> 0"
    by (auto simp: dfs_inv_def)
  have "(v, v) \<notin> (edges deps)\<^sup>+" for v
  proof (cases "v < length deps")
    case True
    then show ?thesis
      using all colours_okD(3,4,5) [OF inv, of v] by auto
  next
    case False
    then have "(v, w) \<notin> edges deps" for w by (simp add: edges_def kids_def)
    then show ?thesis by (meson tranclD)
  qed
  then show ?thesis using None by (simp add: acyclic_def)
next
  case (Some cyc)
  have "dfs_inv deps [] (replicate (length deps) 0) []"
    by (simp add: dfs_inv_def colours_ok_def)
  from dfs_starts_correct [OF this assms(1) _ assms(2)] Some
  have "closed_walk deps cyc" by auto
  then show ?thesis using Some closed_walk_not_acyclic by auto
qed

section \<open>What a valid configuration is\<close>

text \<open>Node \<open>i\<close> depends on node \<open>j\<close> when an input of \<open>i\<close> names a stream that \<open>j\<close> produces.\<close>

definition depends_on :: "graph_config \<Rightarrow> (nat \<times> nat) set" where
  "depends_on config =
     {(i, j). i < length (gc_nodes config) \<and> j < length (gc_nodes config) \<and>
        (\<exists>x \<in> set (nd_input_streams (gc_nodes config ! i)).
           \<exists>y \<in> set (nd_output_streams (gc_nodes config ! j)). StreamName x = StreamName y)}"

definition connected :: "graph_config \<Rightarrow> bool" where
  "connected config \<longleftrightarrow>
     (\<forall>d \<in> set (gc_nodes config). \<forall>x \<in> set (nd_input_streams d).
        StreamName x \<in> set (gc_input_streams config) \<or>
        (\<exists>e \<in> set (gc_nodes config). \<exists>y \<in> set (nd_output_streams e). StreamName y = StreamName x) \<or>
        (\<exists>y \<in> set (gc_output_streams config). StreamName y = StreamName x))"

lemma InvalidArgument_not_ok [simp]: "\<not> st_ok (InvalidArgument m)"
  by (simp add: InvalidArgument_def)

lemma check_unique_ok:
  "st_ok (check_unique what seen xs) \<longleftrightarrow> distinct xs \<and> set xs \<inter> seen = {}"
  by (induction what seen xs rule: check_unique.induct) auto

lemma check_inputs_ok:
  "st_ok (check_inputs node seen xs) \<longleftrightarrow>
     distinct (map StreamName xs) \<and> StreamName ` set xs \<inter> seen = {}"
  by (induction node seen xs rule: check_inputs.induct) (auto simp: Let_def)

lemma check_node_inputs_ok:
  "st_ok (check_node_inputs ds) \<longleftrightarrow> (\<forall>d\<in>set ds. distinct (map StreamName (nd_input_streams d)))"
  by (induction ds) (auto simp: Let_def check_inputs_ok)

lemma check_connected_ok:
  "st_ok (check_connected gi os node xs) \<longleftrightarrow> (\<forall>x\<in>set xs. StreamName x \<in> gi \<or> StreamName x \<in> os)"
  by (induction gi os node xs rule: check_connected.induct) (auto simp: Let_def)

lemma check_all_connected_ok:
  "st_ok (check_all_connected gi os ds) \<longleftrightarrow>
     (\<forall>d\<in>set ds. \<forall>x\<in>set (nd_input_streams d). StreamName x \<in> gi \<or> StreamName x \<in> os)"
  by (induction ds) (auto simp: Let_def check_connected_ok)

lemma ValidateConnectivity_ok: "st_ok (ValidateConnectivity config) \<longleftrightarrow> connected config"
proof -
  have out: "s \<in> CollectOutputStreams config \<longleftrightarrow>
      (\<exists>e\<in>set (gc_nodes config). \<exists>y\<in>set (nd_output_streams e). StreamName y = s) \<or>
      (\<exists>y\<in>set (gc_output_streams config). StreamName y = s)" for s
    by (auto simp: CollectOutputStreams_def)
  show ?thesis
    by (simp add: ValidateConnectivity_def check_all_connected_ok connected_def
        CollectGraphInputStreams_def out)
qed

lemma in_producers_from:
  "x \<in> set (producers_from k ds s) \<longleftrightarrow>
     k \<le> x \<and> x < k + length ds \<and> s \<in> StreamName ` set (nd_output_streams (ds ! (x - k)))"
proof (induction ds arbitrary: k)
  case (Cons d ds)
  consider "x < k" | "x = k" | "k < x" by linarith
  then show ?case
  proof cases
    case 2
    then show ?thesis using Cons.IH [of "k + 1"] by (auto simp: image_iff)
  next
    case 3
    then have "x - k = Suc (x - (k + 1))" by simp
    then show ?thesis using 3 Cons.IH [of "k + 1"] by auto
  qed (use Cons.IH [of "k + 1"] in auto)
qed simp

lemma edges_depends_on: "edges (BuildDependencyGraph config) = depends_on config"
proof -
  have "set (kids (BuildDependencyGraph config) i) =
      (if i < length (gc_nodes config)
       then {j. j < length (gc_nodes config) \<and>
         (\<exists>x \<in> set (nd_input_streams (gc_nodes config ! i)).
            \<exists>y \<in> set (nd_output_streams (gc_nodes config ! j)). StreamName x = StreamName y)}
       else {})" for i
    by (auto simp: kids_def BuildDependencyGraph_def in_producers_from)
  then show ?thesis
    by (simp add: edges_def depends_on_def set_eq_iff)
qed

lemma kids_depends_on:
  "j \<in> set (kids (BuildDependencyGraph config) i) \<longleftrightarrow> (i, j) \<in> depends_on config"
  by (simp add: edges_depends_on [symmetric] edges_def)

lemma in_range_deps: "in_range (BuildDependencyGraph config)"
  by (auto simp: in_range_def kids_depends_on) (simp add: depends_on_def BuildDependencyGraph_def)

lemma cycle_search:
  fixes config
  defines "r \<equiv> snd (dfs_starts (BuildDependencyGraph config) [0..<length (gc_nodes config)]
      (replicate (length (gc_nodes config)) 0))"
  shows "(r = None \<longleftrightarrow> acyclic (depends_on config)) \<and>
    (\<forall>cyc. r = Some cyc \<longrightarrow> closed_walk (BuildDependencyGraph config) cyc)"
proof -
  have len: "length (BuildDependencyGraph config) = length (gc_nodes config)"
    by (simp add: BuildDependencyGraph_def)
  show ?thesis
    using search_decides [OF in_range_deps prod.collapse [symmetric], of config]
    unfolding r_def len edges_depends_on by simp
qed

lemma closed_walk_not_Nil: "closed_walk deps cyc \<Longrightarrow> cyc \<noteq> []"
  by (auto simp: closed_walk_def)

lemma ValidateNoCycles_ok: "st_ok (ValidateNoCycles config) \<longleftrightarrow> acyclic (depends_on config)"
  using cycle_search [of config] closed_walk_not_Nil
  by (cases "snd (dfs_starts (BuildDependencyGraph config) [0..<length (gc_nodes config)]
        (replicate (length (gc_nodes config)) 0))") (auto simp: ValidateNoCycles_def Let_def)



text \<open>
  C19: a cycle the validator reports is a real one: the node indices it names start and end
  with the same node, and each consumes a stream the next one produces.
\<close>

theorem reported_cycle_is_real:
  assumes "snd (dfs_starts (BuildDependencyGraph config) [0..<length (gc_nodes config)]
      (replicate (length (gc_nodes config)) 0)) = Some cyc"
  shows "length cyc \<ge> 2 \<and> hd cyc = last cyc \<and>
    (\<forall>k < length cyc - 1. (cyc ! k, cyc ! (k + 1)) \<in> depends_on config)"
proof -
  have "closed_walk (BuildDependencyGraph config) cyc"
    using assms cycle_search [of config] by blast
  then have "successively (\<lambda>i j. (i, j) \<in> depends_on config) cyc \<and> length cyc \<ge> 2 \<and> hd cyc = last cyc"
    by (simp add: closed_walk_def kids_depends_on)
  then show ?thesis
    by (auto simp: successively_conv_nth)
qed

theorem reported_cycle_is_real_witness:
  "let d = node_def0\<lparr>nd_input_streams := [''s''], nd_output_streams := [''s'']\<rparr>;
       config = graph_config0\<lparr>gc_nodes := [d]\<rparr>
   in (0, 0) \<in> depends_on config"
proof -
  let ?d = "node_def0\<lparr>nd_input_streams := [''s''], nd_output_streams := [''s'']\<rparr>"
  let ?c = "graph_config0\<lparr>gc_nodes := [?d]\<rparr>"
  have "snd (dfs_starts (BuildDependencyGraph ?c) [0..<length (gc_nodes ?c)]
      (replicate (length (gc_nodes ?c)) 0)) = Some [0, 0]"
    by (simp add: BuildDependencyGraph_def kids_def Let_def)
  from reported_cycle_is_real [OF this] show ?thesis by (simp add: Let_def)
qed

end
