(* ===== verification/Node_Model.thy ===== *)
theory Node_Model
  imports Output_Handlers Config_Validator "HOL-Library.Multiset"
begin

text \<open>
  \<open>framework/node/\<close>: contracts (\<open>node_contract.h\<close>), the node base class (\<open>node.h\<close>), factories and
  their registry (\<open>node_factory.h\<close>, \<open>node_registry.{h,cc}\<close>), the options registry, and the
  invocation contexts with their input shards (\<open>graph_context.h\<close>). A node's own code is not
  part of the repository: a factory carries the class's \<open>GetContract\<close> as a function.
\<close>

section \<open>Contracts\<close>

record packet_type =
  pt_has_type :: bool
  pt_type_name :: string

definition packet_type0 :: packet_type where
  "packet_type0 = \<lparr>pt_has_type = False, pt_type_name = []\<rparr>"

definition pt_Set :: "string \<Rightarrow> packet_type \<Rightarrow> packet_type" where
  "pt_Set ty p = p\<lparr>pt_has_type := True, pt_type_name := ty\<rparr>"

definition pt_SetAny :: "packet_type \<Rightarrow> packet_type" where
  "pt_SetAny p = pt_Set ''void'' p"

definition pt_SetNone :: "packet_type \<Rightarrow> packet_type" where
  "pt_SetNone p = p"

definition pt_SetSameAs :: "packet_type \<Rightarrow> packet_type \<Rightarrow> packet_type" where
  "pt_SetSameAs other p = p\<lparr>pt_has_type := pt_has_type other, pt_type_name := pt_type_name other\<rparr>"

definition pt_IsSet :: "packet_type \<Rightarrow> bool" where
  "pt_IsSet p = pt_has_type p"

type_synonym packet_type_set = "(string, packet_type) omap"

text \<open>The non-const \<open>Get\<close> creates the entry, the const one does not.\<close>

definition pts_Get :: "string \<Rightarrow> packet_type_set \<Rightarrow> packet_type \<times> packet_type_set" where
  "pts_Get port s =
     (case omap_get s port of
        Some p \<Rightarrow> (p, s)
      | None \<Rightarrow> (packet_type0, omap_put port packet_type0 s))"

definition pts_GetConst :: "string \<Rightarrow> packet_type_set \<Rightarrow> packet_type" where
  "pts_GetConst port s = (case omap_get s port of Some p \<Rightarrow> p | None \<Rightarrow> packet_type0)"

definition pts_GetId :: "int \<Rightarrow> packet_type_set \<Rightarrow> packet_type \<times> packet_type_set" where
  "pts_GetId i s = pts_Get (dec_of_int i) s"

definition pts_GetTag :: "string \<Rightarrow> int \<Rightarrow> packet_type_set \<Rightarrow> packet_type \<times> packet_type_set" where
  "pts_GetTag tag index s = pts_Get (tag @ '':'' @ dec_of_int index) s"

definition pts_GetTagConst :: "string \<Rightarrow> int \<Rightarrow> packet_type_set \<Rightarrow> packet_type" where
  "pts_GetTagConst tag index s = pts_GetConst (tag @ '':'' @ dec_of_int index) s"

definition pts_NumEntries :: "packet_type_set \<Rightarrow> int" where
  "pts_NumEntries s = int (length s)"

record node_contract =
  ct_inputs :: packet_type_set
  ct_outputs :: packet_type_set
  ct_input_side_packets :: packet_type_set
  ct_output_side_packets :: packet_type_set
  ct_options :: "node_options option"
  ct_max_in_flight :: int
  ct_process_timestamp_bounds :: bool

definition node_contract0 :: node_contract where
  "node_contract0 =
     \<lparr>ct_inputs = [], ct_outputs = [], ct_input_side_packets = [], ct_output_side_packets = [],
      ct_options = None, ct_max_in_flight = 1, ct_process_timestamp_bounds = False\<rparr>"

definition ct_SetMaxInFlight :: "int \<Rightarrow> node_contract \<Rightarrow> node_contract" where
  "ct_SetMaxInFlight n c = c\<lparr>ct_max_in_flight := n\<rparr>"

definition ct_SetProcessTimestampBounds :: "bool \<Rightarrow> node_contract \<Rightarrow> node_contract" where
  "ct_SetProcessTimestampBounds enable c = c\<lparr>ct_process_timestamp_bounds := enable\<rparr>"

definition ct_SetOptions :: "node_options option \<Rightarrow> node_contract \<Rightarrow> node_contract" where
  "ct_SetOptions opts c = c\<lparr>ct_options := opts\<rparr>"

section \<open>Nodes\<close>

text \<open>
  Managers, queues and handlers are indices; \<open>n_addr\<close> is the object's address, which the
  scheduler queue uses as the node id.
\<close>

record node =
  n_name :: string
  n_input_ports :: "(string, nat) omap"
  n_output_ports :: "(string, nat) omap"
  n_executor_name :: string
  n_queue :: "nat option"
  n_source_layer :: int
  n_ih :: "nat option"
  n_oh :: "nat option"
  n_contract :: node_contract
  n_pending :: int
  n_addr :: int

definition node_new :: "int \<Rightarrow> string \<Rightarrow> node" where
  "node_new addr name =
     \<lparr>n_name = name, n_input_ports = [], n_output_ports = [], n_executor_name = [],
      n_queue = None, n_source_layer = 0, n_ih = None, n_oh = None,
      n_contract = node_contract0, n_pending = 0, n_addr = addr\<rparr>"

definition node_SetInputPort :: "string \<Rightarrow> nat \<Rightarrow> node \<Rightarrow> node" where
  "node_SetInputPort port mgr n = n\<lparr>n_input_ports := omap_put port mgr (n_input_ports n)\<rparr>"

definition node_SetOutputPort :: "string \<Rightarrow> nat \<Rightarrow> node \<Rightarrow> node" where
  "node_SetOutputPort port s n = n\<lparr>n_output_ports := omap_put port s (n_output_ports n)\<rparr>"

definition node_GetInputPort :: "string \<Rightarrow> node \<Rightarrow> nat option" where
  "node_GetInputPort port n = omap_get (n_input_ports n) port"

definition node_GetOutputPort :: "string \<Rightarrow> node \<Rightarrow> nat option" where
  "node_GetOutputPort port n = omap_get (n_output_ports n) port"

definition input_port_count :: "node \<Rightarrow> nat" where
  "input_port_count n = length (n_input_ports n)"

definition output_port_count :: "node \<Rightarrow> nat" where
  "output_port_count n = length (n_output_ports n)"

definition node_IncrementPending :: "node \<Rightarrow> node" where
  "node_IncrementPending n = n\<lparr>n_pending := n_pending n + 1\<rparr>"

definition node_DecrementPending :: "node \<Rightarrow> node" where
  "node_DecrementPending n = n\<lparr>n_pending := n_pending n - 1\<rparr>"

definition default_SourceProcessOrder :: timestamp where
  "default_SourceProcessOrder = ts_Min"

text \<open>The managers of a node in the order of \<open>InputPorts()\<close>, which is the order of the names.\<close>

definition input_managers :: "node \<Rightarrow> nat list" where
  "input_managers n = map snd (n_input_ports n)"

section \<open>Factories\<close>

record factory =
  f_GetContract :: "node_contract \<Rightarrow> status \<times> node_contract"

definition factory_GetContract :: "factory \<Rightarrow> node_contract \<Rightarrow> status \<times> node_contract" where
  "factory_GetContract f contract = f_GetContract f contract"

definition factory_CreateNode :: "factory \<Rightarrow> int \<Rightarrow> string \<Rightarrow> node_options \<Rightarrow> node" where
  "factory_CreateNode f addr name options =
     (let n = node_new addr name; (status, contract) = f_GetContract f node_contract0
      in if st_ok status then n\<lparr>n_contract := contract\<rparr> else n)"

record registry =
  rg_factories :: "(string, factory) omap"
  rg_id_to_name :: "(int, string) omap"
  rg_next_id :: int

definition registry0 :: registry where
  "registry0 = \<lparr>rg_factories = [], rg_id_to_name = [], rg_next_id = 1\<rparr>"

definition rg_Register :: "string \<Rightarrow> factory \<Rightarrow> registry \<Rightarrow> int \<times> registry" where
  "rg_Register type_name factory d =
     (let sid = rg_next_id d
      in (sid, d\<lparr>rg_next_id := sid + 1,
                rg_factories := omap_put type_name factory (rg_factories d),
                rg_id_to_name := omap_put sid type_name (rg_id_to_name d)\<rparr>))"

definition rg_Unregister :: "int \<Rightarrow> registry \<Rightarrow> bool \<times> registry" where
  "rg_Unregister registration_id d =
     (case omap_get (rg_id_to_name d) registration_id of
        None \<Rightarrow> (False, d)
      | Some name \<Rightarrow>
          (True, d\<lparr>rg_factories := omap_erase name (rg_factories d),
                  rg_id_to_name := omap_erase registration_id (rg_id_to_name d)\<rparr>))"

definition rg_GetFactory :: "string \<Rightarrow> registry \<Rightarrow> factory option" where
  "rg_GetFactory type_name d = omap_get (rg_factories d) type_name"

definition rg_CreateByName ::
  "string \<Rightarrow> string \<Rightarrow> node_options \<Rightarrow> int \<Rightarrow> registry \<Rightarrow> node option" where
  "rg_CreateByName type_name node_name options addr d =
     (case rg_GetFactory type_name d of
        None \<Rightarrow> None
      | Some f \<Rightarrow> Some (factory_CreateNode f addr node_name options))"

definition rg_CreateByNameInNamespace ::
  "string \<Rightarrow> string \<Rightarrow> string \<Rightarrow> node_options \<Rightarrow> int \<Rightarrow> registry \<Rightarrow> node option" where
  "rg_CreateByNameInNamespace ns type_name node_name options addr d =
     (let qualified = (if ns = [] then type_name else ns @ ''::'' @ type_name)
      in rg_CreateByName qualified node_name options addr d)"

definition rg_IsRegistered :: "string \<Rightarrow> registry \<Rightarrow> bool" where
  "rg_IsRegistered type_name d \<longleftrightarrow> rg_GetFactory type_name d \<noteq> None"

definition rg_RegisteredTypes :: "registry \<Rightarrow> string list" where
  "rg_RegisteredTypes d = map fst (rg_factories d)"

section \<open>The options registry\<close>

text \<open>
  Field descriptors with their setters, per type name. \<open>Deserialize\<close> is a template on the
  object type only and looks its descriptors up under the empty name.
\<close>

record 'o field_descriptor =
  fd_name :: string
  fd_setter :: "'o \<Rightarrow> any_val \<Rightarrow> 'o"

type_synonym 'o options_registry = "(string, 'o field_descriptor list) omap"

definition or_Field ::
  "string \<Rightarrow> ('o \<Rightarrow> any_val \<Rightarrow> 'o) \<Rightarrow> 'o field_descriptor list \<Rightarrow> 'o field_descriptor list" where
  "or_Field field_name setter ds = ds @ [\<lparr>fd_name = field_name, fd_setter = setter\<rparr>]"

definition or_Register ::
  "string \<Rightarrow> 'o field_descriptor list \<Rightarrow> 'o options_registry \<Rightarrow> 'o options_registry" where
  "or_Register type_name descriptors reg = omap_put type_name descriptors reg"

definition or_IsRegistered :: "string \<Rightarrow> 'o options_registry \<Rightarrow> bool" where
  "or_IsRegistered type_name reg \<longleftrightarrow> omap_get reg type_name \<noteq> None"

definition or_GetDescriptors ::
  "string \<Rightarrow> 'o options_registry \<Rightarrow> 'o field_descriptor list option" where
  "or_GetDescriptors type_name reg = omap_get reg type_name"

definition or_Deserialize :: "'o \<Rightarrow> node_options \<Rightarrow> 'o options_registry \<Rightarrow> 'o" where
  "or_Deserialize obj0 options reg =
     (case or_GetDescriptors [] reg of
        None \<Rightarrow> obj0
      | Some ds \<Rightarrow>
          fold (\<lambda>fd obj. case no_GetRaw (fd_name fd) options of
                           Some v \<Rightarrow> fd_setter fd obj v | None \<Rightarrow> obj) ds obj0)"

section \<open>Input shards\<close>

record 'v ishard =
  is_name :: string
  is_queue :: "'v packet list"
  is_done :: bool

definition ishard0 :: "'v ishard" where
  "ishard0 = \<lparr>is_name = [], is_queue = [], is_done = False\<rparr>"

definition ishard_new :: "string \<Rightarrow> 'v packet list \<Rightarrow> bool \<Rightarrow> 'v ishard" where
  "ishard_new name packets done = \<lparr>is_name = name, is_queue = packets, is_done = done\<rparr>"

definition ishard_Value :: "'v ishard \<Rightarrow> 'v packet" where
  "ishard_Value s = (case is_queue s of [] \<Rightarrow> Packet0 | p # _ \<Rightarrow> p)"

definition ishard_IsEmpty :: "'v ishard \<Rightarrow> bool" where
  "ishard_IsEmpty s \<longleftrightarrow> is_queue s = []"

definition ishard_Header :: "'v ishard \<Rightarrow> 'v packet" where
  "ishard_Header s = Packet0"

definition ishard_PushPacket :: "'v packet \<Rightarrow> 'v ishard \<Rightarrow> 'v ishard" where
  "ishard_PushPacket p s = s\<lparr>is_queue := is_queue s @ [p]\<rparr>"

definition ishard_SetDone :: "bool \<Rightarrow> 'v ishard \<Rightarrow> 'v ishard" where
  "ishard_SetDone d s = s\<lparr>is_done := d\<rparr>"

definition ishard_Clear :: "'v ishard \<Rightarrow> 'v ishard" where
  "ishard_Clear s = s\<lparr>is_queue := []\<rparr>"

type_synonym 'v ishards = "(string, 'v ishard) omap"

definition iss_Get :: "string \<Rightarrow> 'v ishards \<Rightarrow> 'v ishard \<times> 'v ishards" where
  "iss_Get port ss =
     (case omap_get ss port of
        Some s \<Rightarrow> (s, ss)
      | None \<Rightarrow> (ishard0, omap_put port ishard0 ss))"

definition iss_GetTag :: "string \<Rightarrow> int \<Rightarrow> 'v ishards \<Rightarrow> 'v ishard \<times> 'v ishards" where
  "iss_GetTag tag index ss = iss_Get (tag @ '':'' @ dec_of_int index) ss"

definition iss_NumEntries :: "'v ishards \<Rightarrow> int" where
  "iss_NumEntries ss = int (length ss)"

definition iss_update :: "string \<Rightarrow> ('v ishard \<Rightarrow> 'v ishard) \<Rightarrow> 'v ishards \<Rightarrow> 'v ishards" where
  "iss_update port f ss = (let (s, ss1) = iss_Get port ss in omap_put port (f s) ss1)"

section \<open>Contexts\<close>

record 'v context' =
  cx_node_name :: string
  cx_node_id :: int
  cx_node_type :: string
  cx_timestamp :: timestamp
  cx_inputs :: "'v ishards"
  cx_outputs :: "'v oshards"
  cx_input_side_packets :: "'v packet_set"
  cx_output_side_packets :: "'v packet_set"

definition context_new ::
  "string \<Rightarrow> int \<Rightarrow> string \<Rightarrow> timestamp \<Rightarrow> 'v ishards \<Rightarrow> 'v oshards \<Rightarrow> 'v context'" where
  "context_new name sid ty ts inputs outputs =
     \<lparr>cx_node_name = name, cx_node_id = to_i32 sid, cx_node_type = ty, cx_timestamp = ts,
      cx_inputs = inputs, cx_outputs = outputs, cx_input_side_packets = [],
      cx_output_side_packets = []\<rparr>"

definition cx_SetInputSidePackets :: "'v packet_set \<Rightarrow> 'v context' \<Rightarrow> 'v context'" where
  "cx_SetInputSidePackets ps c = c\<lparr>cx_input_side_packets := ps\<rparr>"

text \<open>\<open>GraphContext::SetOffset\<close> goes through the spec pointer of every output shard.\<close>

definition cx_SetOffset :: "tsdiff \<Rightarrow> 'v context' \<Rightarrow> 'v osm list \<Rightarrow> 'v osm list" where
  "cx_SetOffset offset c oms = fold (\<lambda>(_, s) oms. shard_SetOffset offset s oms) (cx_outputs c) oms"

text \<open>
  The context pool of a node. A context is an object with an identity; the contexts of one node
  all point to the shards of the default context, so a pooled context is its identity and its
  input timestamp.
\<close>

record pooled =
  po_id :: nat
  po_timestamp :: timestamp

record 'v context_manager =
  cm_default :: "'v context' option"
  cm_pool :: "pooled list"
  cm_owned :: "pooled list"
  cm_next :: nat

definition cm_new :: "'v context_manager" where
  "cm_new = \<lparr>cm_default = None, cm_pool = [], cm_owned = [], cm_next = 0\<rparr>"

definition cm_Initialize ::
  "string \<Rightarrow> int \<Rightarrow> string \<Rightarrow> 'v ishards \<Rightarrow> 'v oshards \<Rightarrow> 'v context_manager \<Rightarrow>
     'v context_manager" where
  "cm_Initialize name sid ty inputs outputs m =
     m\<lparr>cm_default := Some (context_new name sid ty ts_Unstarted inputs outputs)\<rparr>"

definition cm_PrepareContext ::
  "timestamp \<Rightarrow> 'v context_manager \<Rightarrow> pooled \<times> 'v context_manager" where
  "cm_PrepareContext ts m =
     (if cm_pool m = []
      then let c = \<lparr>po_id = cm_next m, po_timestamp = ts\<rparr>
           in (c, m\<lparr>cm_owned := cm_owned m @ [c], cm_next := cm_next m + 1\<rparr>)
      else let c = (last (cm_pool m))\<lparr>po_timestamp := ts\<rparr>
           in (c, m\<lparr>cm_pool := butlast (cm_pool m), cm_owned := cm_owned m @ [c]\<rparr>))"

fun take_owned :: "nat \<Rightarrow> pooled list \<Rightarrow> pooled option \<times> pooled list" where
  "take_owned i [] = (None, [])"
| "take_owned i (c # cs) =
     (if po_id c = i then (Some c, cs)
      else let (r, cs') = take_owned i cs in (r, c # cs'))"

definition cm_RecycleContext :: "nat \<Rightarrow> 'v context_manager \<Rightarrow> 'v context_manager" where
  "cm_RecycleContext i m =
     (case take_owned i (cm_owned m) of
        (Some c, owned) \<Rightarrow> m\<lparr>cm_pool := cm_pool m @ [c], cm_owned := owned\<rparr>
      | (None, _) \<Rightarrow> m)"

definition cm_CleanupAfterRun :: "'v context_manager \<Rightarrow> 'v context_manager" where
  "cm_CleanupAfterRun m = m\<lparr>cm_default := None, cm_pool := [], cm_owned := []\<rparr>"

datatype cm_op = Prepare timestamp | Recycle nat

fun cm_step :: "cm_op \<Rightarrow> 'v context_manager \<Rightarrow> 'v context_manager" where
  "cm_step (Prepare ts) m = snd (cm_PrepareContext ts m)"
| "cm_step (Recycle i) m = cm_RecycleContext i m"

definition cm_ids :: "'v context_manager \<Rightarrow> nat list" where
  "cm_ids m = map po_id (cm_owned m @ cm_pool m)"

definition cm_inv :: "'v context_manager \<Rightarrow> bool" where
  "cm_inv m \<longleftrightarrow> distinct (cm_ids m) \<and> set (cm_ids m) = {..<cm_next m}"

lemma take_owned_Some:
  "take_owned i cs = (Some c, cs') \<Longrightarrow> mset cs = add_mset c (mset cs') \<and> po_id c = i"
  by (induction i cs arbitrary: cs' rule: take_owned.induct) (auto split: if_splits prod.splits)

lemma cm_inv_mset:
  "cm_inv m \<longleftrightarrow> mset (map po_id (cm_owned m @ cm_pool m)) = mset [0..<cm_next m]"
proof -
  have "mset (cm_ids m) = mset [0..<cm_next m] \<longleftrightarrow>
      distinct (cm_ids m) \<and> set (cm_ids m) = set [0..<cm_next m]"
    using set_eq_iff_mset_eq_distinct [of "cm_ids m" "[0..<cm_next m]"]
    by (metis distinct_upt mset_eq_setD mset_eq_imp_distinct_iff)
  then show ?thesis by (auto simp: cm_inv_def cm_ids_def)
qed

lemma cm_inv_step: "cm_inv m \<Longrightarrow> cm_inv (cm_step x m)"
proof (cases x)
  case (Prepare ts)
  assume "cm_inv m"
  moreover have "mset (map po_id (cm_pool m)) =
      add_mset (po_id (last (cm_pool m))) (mset (map po_id (butlast (cm_pool m))))"
    if "cm_pool m \<noteq> []"
    using arg_cong [OF append_butlast_last_id [OF that], of "\<lambda>xs. mset (map po_id xs)"] by simp
  ultimately show ?thesis
    using Prepare by (auto simp: cm_inv_mset cm_PrepareContext_def Let_def simp del: mset_upt)
next
  case (Recycle i)
  assume "cm_inv m"
  then show ?thesis
    using Recycle take_owned_Some [of i "cm_owned m"]
    by (auto simp: cm_inv_mset cm_RecycleContext_def split: prod.splits option.splits)
qed

section \<open>Properties\<close>

lemma cm_inv_run: "cm_inv m \<Longrightarrow> cm_inv (fold cm_step ops m)"
  by (induction ops arbitrary: m) (simp_all add: cm_inv_step)

lemma cm_inv_new: "cm_inv cm_new"
  by (simp add: cm_inv_def cm_ids_def cm_new_def)

text \<open>
  An invocation context is never shared: after any sequence of prepare and recycle calls
  on a fresh manager, the next \<open>PrepareContext\<close> returns a context that is not in use,
  stamped with the requested timestamp; a new context object is created only when none is
  free, and no context object is ever lost or duplicated.
\<close>

lemma PrepareContext_exclusive:
  "let m = fold cm_step ops (cm_new :: 'v context_manager); (c, m') = cm_PrepareContext ts m
   in po_timestamp c = ts \<and> po_id c \<notin> po_id ` set (cm_owned m) \<and>
      cm_owned m' = cm_owned m @ [c] \<and>
      (cm_next m' \<noteq> cm_next m \<longrightarrow> cm_pool m = []) \<and>
      distinct (map po_id (cm_owned m' @ cm_pool m')) \<and>
      set (map po_id (cm_owned m' @ cm_pool m')) = {..<cm_next m'}"
proof -
  let ?m = "fold cm_step ops (cm_new :: 'v context_manager)"
  obtain c m' where run: "cm_PrepareContext ts ?m = (c, m')"
    by (cases "cm_PrepareContext ts ?m") auto
  have "cm_inv ?m" by (rule cm_inv_run [OF cm_inv_new])
  then have inv': "cm_inv m'"
    using cm_inv_step [of ?m "Prepare ts"] run by simp
  have facts: "cm_owned m' = cm_owned ?m @ [c]" "po_timestamp c = ts"
      "cm_next m' \<noteq> cm_next ?m \<longrightarrow> cm_pool ?m = []"
    using run by (auto simp: cm_PrepareContext_def Let_def split: if_splits)
  have dist: "distinct (map po_id (cm_owned m' @ cm_pool m'))"
      "set (map po_id (cm_owned m' @ cm_pool m')) = {..<cm_next m'}"
    using inv' by (simp_all add: cm_inv_def cm_ids_def)
  then have "po_id c \<notin> po_id ` set (cm_owned ?m)"
    using facts(1) by simp
  then show ?thesis
    using facts dist run by (simp only: Let_def prod.case) simp
qed

lemma PrepareContext_exclusive_witness:
  "let m = fold cm_step [Prepare ts_Min, Prepare ts_Max, Recycle 0] (cm_new :: int context_manager)
   in po_id (fst (cm_PrepareContext ts_Done m)) \<notin> po_id ` set (cm_owned m) \<and>
      length (cm_owned m) = 1 \<and> length (cm_pool m) = 1"
  using PrepareContext_exclusive
    [where ts = ts_Done and ops = "[Prepare ts_Min, Prepare ts_Max, Recycle 0]"]
  by (auto simp: Let_def cm_PrepareContext_def cm_RecycleContext_def cm_new_def split: prod.splits)

text \<open>
  The node registry: registering binds the type name to the new factory (replacing an
  older one) and leaves other names alone. Unregistering erases whatever factory the type name
  has now: a token of a replaced registration removes its replacement.
\<close>

lemma registry_replacement:
  assumes "omap_wf (rg_factories d)" "omap_wf (rg_id_to_name d)"
    and "rg_Register ty f d = (id1, d1)" "rg_Register ty g d1 = (id2, d2)"
  shows "rg_GetFactory ty d1 = Some f \<and> rg_GetFactory ty d2 = Some g \<and> id1 \<noteq> id2 \<and>
    (\<forall>ty'. ty' \<noteq> ty \<longrightarrow> rg_GetFactory ty' d2 = rg_GetFactory ty' d) \<and>
    fst (rg_Unregister id1 d2) \<and> rg_GetFactory ty (snd (rg_Unregister id1 d2)) = None \<and>
    fst (rg_Unregister id2 (snd (rg_Unregister id1 d2)))"
  using assms
  by (auto simp: rg_Register_def Let_def rg_GetFactory_def rg_Unregister_def omap_get_put
      omap_wf_put omap_get_erase)

lemma registry_replacement_witness:
  "let f = \<lparr>f_GetContract = \<lambda>c. (ok_status, ct_SetMaxInFlight 2 c)\<rparr>
   in rg_GetFactory ''A'' (snd (rg_Unregister 1
     (snd (rg_Register ''A'' f (snd (rg_Register ''A'' f registry0)))))) = None"
proof -
  let ?f = "\<lparr>f_GetContract = \<lambda>c. (ok_status, ct_SetMaxInFlight 2 c)\<rparr>"
  obtain i d where d1: "rg_Register ''A'' ?f registry0 = (i, d)"
    by (cases "rg_Register ''A'' ?f registry0") auto
  obtain j e where d2: "rg_Register ''A'' ?f d = (j, e)"
    by (cases "rg_Register ''A'' ?f d") auto
  have "i = 1" using d1 by (simp add: rg_Register_def registry0_def Let_def)
  then show ?thesis
    using registry_replacement [OF _ _ d1 d2] d1 d2 by (simp add: registry0_def Let_def)
qed

lemma or_Deserialize_other:
  "omap_wf reg \<Longrightarrow> ty \<noteq> [] \<Longrightarrow>
   or_Deserialize obj opts (or_Register ty ds reg) = or_Deserialize obj opts reg"
  by (simp add: or_Deserialize_def or_GetDescriptors_def or_Register_def omap_get_put)

end
