(* ===== verification/Profiler.thy ===== *)
theory Profiler
  imports Graph_Config "HOL-Library.Signed_Division"
begin

text \<open>
  \<open>framework/profiler/time_histogram.{h,cc}\<close>, \<open>clock.h\<close> and \<open>graph_profiler.{h,cc}\<close>: per-node
  timing. The clock is the list of readings it is going to give and reads 0 when they are used
  up, as \<open>MockClock\<close> does; for \<open>RealClock\<close> they are the readings of the run. A histogram
  operation that would divide by zero, index out of bounds or throw has the value \<open>None\<close>; the
  profiler records it in \<open>pf_crashed\<close>. A mean is the exact quotient, before rounding to
  \<open>double\<close>.
\<close>

section \<open>TimeHistogram\<close>

record histogram =
  hg_interval :: int
  hg_num :: int
  hg_count :: int
  hg_total :: int
  hg_buckets :: "int list"

definition histogram0 :: histogram where
  "histogram0 = \<lparr>hg_interval = 0, hg_num = 0, hg_count = 0, hg_total = 0, hg_buckets = []\<rparr>"

definition hg_Initialize :: "int \<Rightarrow> int \<Rightarrow> histogram \<Rightarrow> histogram option" where
  "hg_Initialize interval_size_usec num_intervals h =
     (if num_intervals < 0 then None
      else Some (h\<lparr>hg_interval := interval_size_usec, hg_num := num_intervals, hg_count := 0,
                  hg_total := 0, hg_buckets := replicate (nat num_intervals) 0\<rparr>))"

definition hg_AddSample :: "int \<Rightarrow> int \<Rightarrow> histogram \<Rightarrow> histogram option" where
  "hg_AddSample start_time_usec end_time_usec h =
     (let d0 = to_i64 (end_time_usec - start_time_usec);
          duration = (if d0 < 0 then 0 else d0)
      in if hg_interval h = 0 then None
         else
           let i0 = to_i32 (duration sdiv hg_interval h);
               i1 = (if i0 \<ge> hg_num h then hg_num h - 1 else i0);
               index = (if i1 < 0 then 0 else i1)
           in if nat index < length (hg_buckets h)
              then Some (h\<lparr>hg_count := to_i64 (hg_count h + 1),
                          hg_total := to_i64 (hg_total h + duration),
                          hg_buckets := (hg_buckets h)[nat index := hg_buckets h ! nat index + 1]\<rparr>)
              else None)"

definition hg_Reset :: "histogram \<Rightarrow> histogram" where
  "hg_Reset h = h\<lparr>hg_count := 0, hg_total := 0, hg_buckets := map (\<lambda>_. 0) (hg_buckets h)\<rparr>"

definition hg_copy :: "histogram \<Rightarrow> histogram" where
  "hg_copy other =
     histogram0\<lparr>hg_interval := hg_interval other, hg_num := hg_num other,
       hg_count := hg_count other, hg_total := hg_total other, hg_buckets := hg_buckets other\<rparr>"

definition hg_mean :: "histogram \<Rightarrow> rat" where
  "hg_mean h = (if hg_count h = 0 then 0 else of_int (hg_total h) / of_int (hg_count h))"

section \<open>GraphProfiler\<close>

datatype event_type = OpenEvent | ProcessEvent | CloseEvent

record per_node =
  pn_open_runtime :: int
  pn_close_runtime :: int
  pn_process_runtime :: histogram

record profiler =
  pf_config :: profiler_config
  pf_is_profiling :: bool
  pf_is_initialized :: bool
  pf_clock :: "int list"
  pf_node_data :: "(string, per_node) omap"
  pf_crashed :: bool

definition profiler_new :: profiler where
  "profiler_new =
     \<lparr>pf_config = profiler_config0, pf_is_profiling = False, pf_is_initialized = False,
      pf_clock = [], pf_node_data = [], pf_crashed = False\<rparr>"

definition clock_TimeNowUsec :: "int list \<Rightarrow> int \<times> int list" where
  "clock_TimeNowUsec readings = (case readings of [] \<Rightarrow> (0, []) | t # ts \<Rightarrow> (t, ts))"

definition pf_TimeNowUsec :: "profiler \<Rightarrow> int \<times> profiler" where
  "pf_TimeNowUsec p =
     (let (t, ts) = clock_TimeNowUsec (pf_clock p) in (t, p\<lparr>pf_clock := ts\<rparr>))"

fun pf_init_nodes :: "profiler_config \<Rightarrow> string list \<Rightarrow> profiler \<Rightarrow> profiler" where
  "pf_init_nodes config [] p = p"
| "pf_init_nodes config (name # names) p =
     (case hg_Initialize (pc_histogram_interval_size_usec config)
             (pc_num_histogram_intervals config) histogram0 of
        None \<Rightarrow> p\<lparr>pf_crashed := True\<rparr>
      | Some h \<Rightarrow>
          pf_init_nodes config names
            (p\<lparr>pf_node_data := omap_put name
                 \<lparr>pn_open_runtime = 0, pn_close_runtime = 0, pn_process_runtime = h\<rparr>
                 (pf_node_data p)\<rparr>))"

definition pf_Initialize :: "profiler_config \<Rightarrow> string list \<Rightarrow> profiler \<Rightarrow> profiler" where
  "pf_Initialize config node_names p =
     (let p1 = p\<lparr>pf_config := config\<rparr>
      in if \<not> pc_enable_profiler config then p1
         else (pf_init_nodes config node_names (p1\<lparr>pf_node_data := []\<rparr>))\<lparr>pf_is_initialized := True\<rparr>)"

definition pf_SetClock :: "int list \<Rightarrow> profiler \<Rightarrow> profiler" where
  "pf_SetClock clock p = p\<lparr>pf_clock := clock\<rparr>"

definition pf_Start :: "profiler \<Rightarrow> profiler" where
  "pf_Start p =
     (if pc_enable_profiler (pf_config p) \<and> pf_is_initialized p
      then p\<lparr>pf_is_profiling := True\<rparr> else p)"

definition pf_Stop :: "profiler \<Rightarrow> profiler" where
  "pf_Stop p = p\<lparr>pf_is_profiling := False\<rparr>"

definition pf_Pause :: "profiler \<Rightarrow> profiler" where
  "pf_Pause p = p\<lparr>pf_is_profiling := False\<rparr>"

definition pf_Resume :: "profiler \<Rightarrow> profiler" where
  "pf_Resume p =
     (if pc_enable_profiler (pf_config p) \<and> pf_is_initialized p
      then p\<lparr>pf_is_profiling := True\<rparr> else p)"

definition pf_Reset :: "profiler \<Rightarrow> profiler" where
  "pf_Reset p =
     p\<lparr>pf_node_data := map (\<lambda>(name, d).
          (name, d\<lparr>pn_open_runtime := 0, pn_close_runtime := 0,
                   pn_process_runtime := hg_Reset (pn_process_runtime d)\<rparr>)) (pf_node_data p)\<rparr>"

definition pf_GetNodeProfiles :: "profiler \<Rightarrow> (string \<times> per_node) list" where
  "pf_GetNodeProfiles p =
     map (\<lambda>(name, d). (name, d\<lparr>pn_process_runtime := hg_copy (pn_process_runtime d)\<rparr>))
       (pf_node_data p)"

definition pf_SetOpenRuntime :: "string \<Rightarrow> int \<Rightarrow> int \<Rightarrow> profiler \<Rightarrow> profiler" where
  "pf_SetOpenRuntime name start_usec end_usec p =
     (let duration = max 0 (to_i64 (end_usec - start_usec))
      in case omap_get (pf_node_data p) name of
           None \<Rightarrow> p
         | Some d \<Rightarrow>
             p\<lparr>pf_node_data := omap_put name (d\<lparr>pn_open_runtime := duration\<rparr>) (pf_node_data p)\<rparr>)"

definition pf_AddProcessSample :: "string \<Rightarrow> int \<Rightarrow> int \<Rightarrow> profiler \<Rightarrow> profiler" where
  "pf_AddProcessSample name start_usec end_usec p =
     (case omap_get (pf_node_data p) name of
        None \<Rightarrow> p
      | Some d \<Rightarrow>
          (case hg_AddSample start_usec end_usec (pn_process_runtime d) of
             None \<Rightarrow> p\<lparr>pf_crashed := True\<rparr>
           | Some h \<Rightarrow>
               p\<lparr>pf_node_data := omap_put name (d\<lparr>pn_process_runtime := h\<rparr>) (pf_node_data p)\<rparr>))"

definition pf_SetCloseRuntime :: "string \<Rightarrow> int \<Rightarrow> int \<Rightarrow> profiler \<Rightarrow> profiler" where
  "pf_SetCloseRuntime name start_usec end_usec p =
     (let duration = max 0 (to_i64 (end_usec - start_usec))
      in case omap_get (pf_node_data p) name of
           None \<Rightarrow> p
         | Some d \<Rightarrow>
             p\<lparr>pf_node_data := omap_put name (d\<lparr>pn_close_runtime := duration\<rparr>) (pf_node_data p)\<rparr>)"

text \<open>A scope: its constructor returns the start time, its destructor records.\<close>

definition scope_begin :: "profiler option \<Rightarrow> int \<times> profiler option" where
  "scope_begin p =
     (case p of
        Some q \<Rightarrow>
          if pf_is_profiling q then let (t, q') = pf_TimeNowUsec q in (t, Some q') else (0, Some q)
      | None \<Rightarrow> (0, None))"

definition scope_end :: "event_type \<Rightarrow> string \<Rightarrow> int \<Rightarrow> profiler option \<Rightarrow> profiler option" where
  "scope_end ty name start p =
     (case p of
        None \<Rightarrow> None
      | Some q \<Rightarrow>
          if \<not> pf_is_profiling q then Some q
          else
            let (end_time, q') = pf_TimeNowUsec q
            in Some (case ty of
                 OpenEvent \<Rightarrow> pf_SetOpenRuntime name start end_time q'
               | ProcessEvent \<Rightarrow> pf_AddProcessSample name start end_time q'
               | CloseEvent \<Rightarrow> pf_SetCloseRuntime name start end_time q'))"

section \<open>Histogram lemmas\<close>

definition hg_inv :: "histogram \<Rightarrow> bool" where
  "hg_inv h \<longleftrightarrow> 0 < hg_interval h \<and> 0 < hg_num h \<and> length (hg_buckets h) = nat (hg_num h)"

definition bucket_of :: "int \<Rightarrow> int \<Rightarrow> int \<Rightarrow> nat" where
  "bucket_of interval num d = nat (max 0 (min (to_i32 (d div interval)) (num - 1)))"

lemma bucket_of_less: "0 < num \<Longrightarrow> bucket_of i num d < nat num"
  by (auto simp: bucket_of_def)

lemma hg_AddSample_eq:
  assumes "hg_inv h"
  shows "hg_AddSample s e h =
    (let d = max 0 (to_i64 (e - s)); i = bucket_of (hg_interval h) (hg_num h) d
     in Some (h\<lparr>hg_count := to_i64 (hg_count h + 1), hg_total := to_i64 (hg_total h + d),
               hg_buckets := (hg_buckets h)[i := hg_buckets h ! i + 1]\<rparr>))"
proof -
  let ?d = "max 0 (to_i64 (e - s))"
  have q: "?d sdiv hg_interval h = ?d div hg_interval h"
    using assms by (simp add: hg_inv_def signed_divide_int_def sgn_if)
  have pos: "0 < hg_num h" "length (hg_buckets h) = nat (hg_num h)" "hg_interval h \<noteq> 0"
    using assms by (auto simp: hg_inv_def)
  have d: "(if to_i64 (e - s) < 0 then 0 else to_i64 (e - s)) = ?d" by simp
  have ix: "nat (if (if i0 \<ge> hg_num h then hg_num h - 1 else i0) < 0 then 0
      else if i0 \<ge> hg_num h then hg_num h - 1 else i0) = nat (max 0 (min i0 (hg_num h - 1)))" for i0
    by auto
  show ?thesis
    using pos bucket_of_less [OF pos(1), of "hg_interval h" ?d]
    unfolding hg_AddSample_def d q Let_def ix by (simp add: bucket_of_def)
qed

lemma sum_list_bump: "i < length xs \<Longrightarrow> sum_list (xs[i := xs ! i + 1]) = sum_list xs + (1 :: int)"
  by (induction xs arbitrary: i) (auto split: nat.splits)

text \<open>The samples as (start, end) pairs, all added in order.\<close>

fun add_samples :: "(int \<times> int) list \<Rightarrow> histogram \<Rightarrow> histogram option" where
  "add_samples [] h = Some h"
| "add_samples ((s, e) # xs) h =
     (case hg_AddSample s e h of None \<Rightarrow> None | Some h' \<Rightarrow> add_samples xs h')"

definition sample_duration :: "int \<times> int \<Rightarrow> int" where
  "sample_duration x = max 0 (to_i64 (snd x - fst x))"

lemma add_samples_inv:
  "hg_inv h \<Longrightarrow> 0 \<le> hg_count h \<Longrightarrow> hg_count h + int (length xs) \<le> INT64_MAX \<Longrightarrow>
   0 \<le> hg_total h \<Longrightarrow> hg_total h + sum_list (map sample_duration xs) \<le> INT64_MAX \<Longrightarrow>
   \<exists>h'. add_samples xs h = Some h' \<and> hg_inv h' \<and>
     hg_interval h' = hg_interval h \<and> hg_num h' = hg_num h \<and>
     hg_count h' = hg_count h + int (length xs) \<and>
     hg_total h' = hg_total h + sum_list (map sample_duration xs) \<and>
     sum_list (hg_buckets h') = sum_list (hg_buckets h) + int (length xs) \<and>
     (\<forall>i < length (hg_buckets h). hg_buckets h' ! i = hg_buckets h ! i +
        int (length (filter (\<lambda>x. bucket_of (hg_interval h) (hg_num h) (sample_duration x) = i) xs)))"
proof (induction xs arbitrary: h)
  case (Cons x xs)
  obtain s e where x: "x = (s, e)" by (cases x)
  let ?d = "sample_duration x"
  let ?i = "bucket_of (hg_interval h) (hg_num h) ?d"
  let ?h = "h\<lparr>hg_count := hg_count h + 1, hg_total := hg_total h + ?d,
              hg_buckets := (hg_buckets h)[?i := hg_buckets h ! ?i + 1]\<rparr>"
  have nonneg: "0 \<le> ?d" "0 \<le> sum_list (map sample_duration xs)"
    by (simp add: sample_duration_def) (rule sum_list_nonneg, auto simp: sample_duration_def)
  have i: "?i < length (hg_buckets h)"
    using Cons.prems(1) bucket_of_less by (simp add: hg_inv_def)
  have d: "max 0 (to_i64 (e - s)) = ?d" using x by (simp add: sample_duration_def)
  have c: "to_i64 (hg_count h + 1) = hg_count h + 1"
    using Cons.prems by (intro to_i64_id) simp_all
  have tot: "to_i64 (hg_total h + ?d) = hg_total h + ?d"
    using Cons.prems nonneg by (intro to_i64_id) simp_all
  have step: "hg_AddSample s e h = Some ?h"
    using c tot by (simp add: hg_AddSample_eq [OF Cons.prems(1)] Let_def d)
  have inv: "hg_inv ?h" using Cons.prems(1) by (simp add: hg_inv_def)
  obtain h' where h': "add_samples xs ?h = Some h'" "hg_inv h'"
    "hg_interval h' = hg_interval ?h" "hg_num h' = hg_num ?h"
    "hg_count h' = hg_count ?h + int (length xs)"
    "hg_total h' = hg_total ?h + sum_list (map sample_duration xs)"
    "sum_list (hg_buckets h') = sum_list (hg_buckets ?h) + int (length xs)"
    "\<forall>i < length (hg_buckets ?h). hg_buckets h' ! i = hg_buckets ?h ! i +
        int (length (filter (\<lambda>x. bucket_of (hg_interval ?h) (hg_num ?h) (sample_duration x) = i) xs))"
    using Cons.IH [OF inv] Cons.prems nonneg by auto
  show ?case
    using h' i x step
    by (intro exI [of _ h']) (auto simp: sum_list_bump nth_list_update)
qed simp

text \<open>
  C40: the histogram accounts for every sample: starting from \<open>Initialize\<close> with a positive
  interval and bucket count, adding samples succeeds, \<open>count\<close> and \<open>total\<close> are the number and
  the sum of the (non-negative) durations, the buckets add up to \<open>count\<close>, and bucket \<open>i\<close>
  holds the samples with \<open>duration / interval = i\<close>, the last bucket also the larger ones, as
  long as that quotient fits an \<open>int\<close>.
\<close>

theorem histogram_accounts:
  assumes "0 < interval" "0 < num" "hg_Initialize interval num h0 = Some h"
    and "int (length xs) \<le> INT64_MAX" "sum_list (map sample_duration xs) \<le> INT64_MAX"
    and "\<forall>x\<in>set xs. sample_duration x div interval \<le> INT32_MAX"
  shows "\<exists>h'. add_samples xs h = Some h' \<and>
    hg_count h' = int (length xs) \<and> hg_total h' = sum_list (map sample_duration xs) \<and>
    sum_list (hg_buckets h') = int (length xs) \<and> length (hg_buckets h') = nat num \<and>
    (\<forall>i < nat num. hg_buckets h' ! i = int (length (filter (\<lambda>x.
       min (sample_duration x div interval) (num - 1) = int i) xs)))"
proof -
  have h: "hg_inv h" "hg_count h = 0" "hg_total h = 0" "hg_interval h = interval" "hg_num h = num"
    "hg_buckets h = replicate (nat num) 0"
    using assms(1-3) by (auto simp: hg_Initialize_def hg_inv_def split: if_splits)
  have b: "bucket_of interval num (sample_duration x) = i \<longleftrightarrow>
      min (sample_duration x div interval) (num - 1) = int i" if "x \<in> set xs" for x i
  proof -
    have "0 \<le> sample_duration x div interval"
      using assms(1) by (simp add: sample_duration_def pos_imp_zdiv_nonneg_iff)
    then show ?thesis
      using assms(2,6) that by (auto simp: bucket_of_def to_i32_id)
  qed
  have eq: "filter (\<lambda>x. bucket_of interval num (sample_duration x) = i) xs =
      filter (\<lambda>x. min (sample_duration x div interval) (num - 1) = int i) xs" for i
    using b by (intro filter_cong) auto
  show ?thesis
    using add_samples_inv [OF h(1), of xs] h assms(4,5) unfolding h(4,5) eq
    by (auto simp: hg_inv_def sum_list_replicate)
qed

theorem histogram_accounts_witness:
  "\<exists>h'. add_samples [(0, 5), (10, 40)] \<lparr>hg_interval = 10, hg_num = 2, hg_count = 0, hg_total = 0,
      hg_buckets = [0, 0]\<rparr> = Some h' \<and> hg_total h' = 35"
proof -
  have d: "sample_duration (0, 5) = 5" "sample_duration (10, 40) = 30"
    by (simp_all add: sample_duration_def to_i64_id)
  have "hg_Initialize 10 2 histogram0 =
      Some \<lparr>hg_interval = 10, hg_num = 2, hg_count = 0, hg_total = 0, hg_buckets = [0, 0]\<rparr>"
    by (simp add: hg_Initialize_def histogram0_def numeral_2_eq_2)
  from histogram_accounts [OF _ _ this, of "[(0, 5), (10, 40)]"] show ?thesis
    using d by auto
qed

text \<open>
  A scope around \<open>Open\<close> records the time between its two clock readings for its node and
  for no other, and never a negative one. A scope that began before profiling was switched on
  but ends while it is on takes 0 as its start, so it records the whole clock value.
\<close>

lemma scope_records_elapsed:
  assumes "omap_wf (pf_node_data q)" "omap_get (pf_node_data q) name = Some d"
    and "pf_is_profiling q" "pf_clock q = t0 # t1 # ts"
    and "scope_end OpenEvent name (fst (scope_begin (Some q))) (snd (scope_begin (Some q))) = Some r"
    and "scope_end OpenEvent name (fst (scope_begin (Some (pf_Stop q)))) (Some q) = Some r'"
  shows "omap_get (pf_node_data r) name = Some (d\<lparr>pn_open_runtime := max 0 (to_i64 (t1 - t0))\<rparr>) \<and>
    omap_get (pf_node_data r') name = Some (d\<lparr>pn_open_runtime := max 0 (to_i64 t0)\<rparr>) \<and>
    (\<forall>n. n \<noteq> name \<longrightarrow> omap_get (pf_node_data r) n = omap_get (pf_node_data q) n) \<and>
    pf_clock r = ts"
  using assms
  by (auto simp: scope_begin_def scope_end_def pf_TimeNowUsec_def clock_TimeNowUsec_def
      pf_SetOpenRuntime_def Let_def omap_get_put pf_Stop_def)

end
