(* ===== verification/Scheduler_Queue.thy ===== *)
theory Scheduler_Queue
  imports Node_Model Profiler "HOL-Library.Product_Lexorder"
begin

text \<open>
  \<open>framework/scheduler/scheduler_queue.{h,cc}\<close>, \<open>executor.h\<close>, \<open>thread_pool_executor.{h,cc}\<close> and
  \<open>counters.h\<close>. The state is one record \<open>qworld\<close> holding the objects a queue reaches (nodes,
  queues, executors, streams, output handlers), extended by the scheduler and the runtime.
  Every locked section of a queue is an operation of its own (suffix \<open>_locked\<close>), so that the
  whole functions compose them and the interleaving model of \<open>Scheduling\<close> can reuse them.

  Code outside the repository (the nodes) and the callbacks a queue is given are the record
  \<open>env\<close>. A node's method receives its context and the state \<open>'u\<close> of all user code and returns
  a status, the context (with the packets it wrote to the output shards) and the new state.
  Stream callbacks run when the stream operation that fired them has returned; they change
  queues and executors only, which no stream operation reads.
\<close>

section \<open>State\<close>

record item =
  it_node :: "nat option"
  it_is_open :: bool
  it_layer :: int
  it_node_id :: int

record sq =
  sq_name :: string
  sq_executor :: "nat option"
  sq_idle_cb :: bool
  sq_stopped_cb :: bool
  sq_error_cb :: bool
  sq_perf :: bool
  sq_profiler :: bool
  sq_running :: bool
  sq_items :: "item list"
  sq_close_pending :: "nat set"
  sq_finalized :: "nat set"
  sq_pending :: int
  sq_timestamp_counter :: int

definition sq_new :: "string \<Rightarrow> sq" where
  "sq_new name =
     \<lparr>sq_name = name, sq_executor = None, sq_idle_cb = False, sq_stopped_cb = False,
      sq_error_cb = False, sq_perf = False, sq_profiler = False, sq_running = False,
      sq_items = [], sq_close_pending = {}, sq_finalized = {}, sq_pending = 0,
      sq_timestamp_counter = 0\<rparr>"

text \<open>A pool's queued tasks are the queues whose \<open>RunNextTask\<close> they call.\<close>

record pool =
  tp_num_threads :: int
  tp_tasks :: "nat list"
  tp_stopped :: bool

record perf_counters =
  pk_tasks_submitted :: int
  pk_tasks_completed :: int
  pk_packets_processed :: int
  pk_nodes_opened :: int
  pk_nodes_closed :: int

definition perf_counters0 :: perf_counters where
  "perf_counters0 =
     \<lparr>pk_tasks_submitted = 0, pk_tasks_completed = 0, pk_packets_processed = 0,
      pk_nodes_opened = 0, pk_nodes_closed = 0\<rparr>"

datatype 'v log_event =
  OutputShown nat "'v packet" | ErrorReported status | TypeWarning string

record ('v, 'u) qworld =
  w_nodes :: "node list"
  w_queues :: "sq list"
  w_pools :: "pool list"
  w_net :: "'v net"
  w_ohs :: "oh list"
  w_user :: 'u
  w_perf :: perf_counters
  w_prof :: "profiler option"
  w_log :: "'v log_event list"

record ('v, 'u, 'w) env =
  en_open :: "nat \<Rightarrow> 'v context' \<Rightarrow> 'u \<Rightarrow> status \<times> 'v context' \<times> 'u"
  en_process :: "nat \<Rightarrow> 'v context' \<Rightarrow> 'u \<Rightarrow> status \<times> 'v context' \<times> 'u"
  en_close :: "nat \<Rightarrow> 'v context' \<Rightarrow> 'u \<Rightarrow> status \<times> 'v context' \<times> 'u"
  en_event :: "stream_event \<Rightarrow> 'w \<Rightarrow> 'w"
  en_idle :: "'w \<Rightarrow> 'w"
  en_stopped :: "nat \<Rightarrow> 'w \<Rightarrow> 'w"
  en_error :: "status \<Rightarrow> 'w \<Rightarrow> 'w"

definition upd_node ::
  "nat \<Rightarrow> (node \<Rightarrow> node) \<Rightarrow> ('v, 'u, 'z) qworld_scheme \<Rightarrow> ('v, 'u, 'z) qworld_scheme" where
  "upd_node n f w = w\<lparr>w_nodes := update_at n f (w_nodes w)\<rparr>"

definition upd_queue ::
  "nat \<Rightarrow> (sq \<Rightarrow> sq) \<Rightarrow> ('v, 'u, 'z) qworld_scheme \<Rightarrow> ('v, 'u, 'z) qworld_scheme" where
  "upd_queue q f w = w\<lparr>w_queues := update_at q f (w_queues w)\<rparr>"

section \<open>The thread pool\<close>

definition pool_new :: "int \<Rightarrow> pool" where
  "pool_new num_threads =
     \<lparr>tp_num_threads = (if num_threads > 0 then num_threads else 1), tp_tasks = [],
      tp_stopped = False\<rparr>"

text \<open>\<open>hw\<close> is \<open>std::thread::hardware_concurrency()\<close>.\<close>

definition ThreadPoolExecutor_Create :: "int \<Rightarrow> int \<Rightarrow> pool" where
  "ThreadPoolExecutor_Create hw num_threads =
     (let n = num_threads;
          n1 = (if n \<le> 0 then let m = min hw 1 in if m < 1 then 1 else m else n)
      in pool_new n1)"

definition pool_Schedule :: "nat \<Rightarrow> pool \<Rightarrow> pool" where
  "pool_Schedule task p = p\<lparr>tp_tasks := tp_tasks p @ [task]\<rparr>"

definition pool_AddTask :: "nat \<Rightarrow> pool \<Rightarrow> pool" where
  "pool_AddTask task_queue p = pool_Schedule task_queue p"

text \<open>
  One round of a worker: \<open>None\<close> while it waits, otherwise either the thread returns (no task)
  or it takes the front task. The destructor sets \<open>stopped\<close>; workers drain the deque first.
\<close>

definition pool_take :: "pool \<Rightarrow> (nat option \<times> pool) option" where
  "pool_take p =
     (if \<not> tp_stopped p \<and> tp_tasks p = [] then None
      else if tp_stopped p \<and> tp_tasks p = [] then Some (None, p)
      else Some (Some (hd (tp_tasks p)), p\<lparr>tp_tasks := tl (tp_tasks p)\<rparr>))"

definition pool_stop :: "pool \<Rightarrow> pool" where
  "pool_stop p = p\<lparr>tp_stopped := True\<rparr>"

section \<open>Items and their order\<close>

definition item_source :: "node list \<Rightarrow> item \<Rightarrow> bool" where
  "item_source nodes i =
     (case it_node i of Some n \<Rightarrow> input_port_count (nodes ! n) = 0 | None \<Rightarrow> False)"

definition item_less :: "node list \<Rightarrow> item \<Rightarrow> item \<Rightarrow> bool" where
  "item_less nodes a b =
     (if it_is_open a \<noteq> it_is_open b then it_is_open b
      else if item_source nodes a \<noteq> item_source nodes b then item_source nodes b
      else if item_source nodes a
      then if it_layer a \<noteq> it_layer b then it_layer a > it_layer b
           else it_node_id a > it_node_id b
      else it_node_id a < it_node_id b)"

text \<open>\<open>std::priority_queue\<close>: the items, with the greatest on top.\<close>

fun pq_top :: "node list \<Rightarrow> item \<Rightarrow> item list \<Rightarrow> item" where
  "pq_top nodes m [] = m"
| "pq_top nodes m (x # xs) = pq_top nodes (if item_less nodes m x then x else m) xs"

definition pq_pop :: "node list \<Rightarrow> item list \<Rightarrow> (item \<times> item list) option" where
  "pq_pop nodes xs =
     (case xs of
        [] \<Rightarrow> None
      | x # rest \<Rightarrow> let t = pq_top nodes x rest in Some (t, remove1 t xs))"

section \<open>Locked sections\<close>

definition make_item :: "nat option \<Rightarrow> bool \<Rightarrow> node list \<Rightarrow> item" where
  "make_item node open' nodes =
     \<lparr>it_node = node, it_is_open = open',
      it_layer = (case node of Some n \<Rightarrow> n_source_layer (nodes ! n) | None \<Rightarrow> 0),
      it_node_id = (case node of Some n \<Rightarrow> n_addr (nodes ! n) | None \<Rightarrow> 0)\<rparr>"

definition sq_push :: "item \<Rightarrow> sq \<Rightarrow> sq" where
  "sq_push i s = s\<lparr>sq_items := sq_items s @ [i]\<rparr>"

text \<open>Each returns whether the caller has to submit a task afterwards.\<close>

definition AddNode_locked ::
  "nat \<Rightarrow> nat option \<Rightarrow> ('v, 'u, 'z) qworld_scheme \<Rightarrow> bool \<times> ('v, 'u, 'z) qworld_scheme" where
  "AddNode_locked q node w =
     (let limit_reached =
            (case node of
               Some n \<Rightarrow> n_pending (w_nodes w ! n) \<ge> ct_max_in_flight (n_contract (w_nodes w ! n))
             | None \<Rightarrow> False)
      in if limit_reached then (False, w)
         else
           let w1 = (case node of Some n \<Rightarrow> upd_node n node_IncrementPending w | None \<Rightarrow> w)
           in (sq_running (w_queues w ! q),
               upd_queue q (sq_push (make_item node False (w_nodes w))) w1))"

definition AddNodeForOpen_locked ::
  "nat \<Rightarrow> nat option \<Rightarrow> ('v, 'u, 'z) qworld_scheme \<Rightarrow> bool \<times> ('v, 'u, 'z) qworld_scheme" where
  "AddNodeForOpen_locked q node w =
     (sq_running (w_queues w ! q), upd_queue q (sq_push (make_item node True (w_nodes w))) w)"

definition SetRunning_locked ::
  "nat \<Rightarrow> bool \<Rightarrow> ('v, 'u, 'z) qworld_scheme \<Rightarrow> bool \<times> ('v, 'u, 'z) qworld_scheme" where
  "SetRunning_locked q running w =
     (running \<and> sq_items (w_queues w ! q) \<noteq> [],
      upd_queue q (\<lambda>s. s\<lparr>sq_running := running\<rparr>) w)"

definition TryPop ::
  "nat \<Rightarrow> ('v, 'u, 'z) qworld_scheme \<Rightarrow> item option \<times> ('v, 'u, 'z) qworld_scheme" where
  "TryPop q w =
     (case pq_pop (w_nodes w) (sq_items (w_queues w ! q)) of
        None \<Rightarrow> (None, w)
      | Some (i, rest) \<Rightarrow> (Some i, upd_queue q (\<lambda>s. s\<lparr>sq_items := rest\<rparr>) w))"

definition sq_dec_pending :: "sq \<Rightarrow> sq" where
  "sq_dec_pending s = (if sq_pending s > 0 then s\<lparr>sq_pending := sq_pending s - 1\<rparr> else s)"

definition Finished_locked ::
  "nat \<Rightarrow> ('v, 'u, 'z) qworld_scheme \<Rightarrow> bool \<times> ('v, 'u, 'z) qworld_scheme" where
  "Finished_locked q w =
     (sq_running (w_queues w ! q) \<and> sq_items (w_queues w ! q) \<noteq> [],
      upd_queue q sq_dec_pending w)"

definition NoItem_locked ::
  "nat \<Rightarrow> ('v, 'u, 'z) qworld_scheme \<Rightarrow> ('v, 'u, 'z) qworld_scheme" where
  "NoItem_locked q w = upd_queue q sq_dec_pending w"

definition Submit_locked ::
  "nat \<Rightarrow> ('v, 'u, 'z) qworld_scheme \<Rightarrow> ('v, 'u, 'z) qworld_scheme" where
  "Submit_locked q w = upd_queue q (\<lambda>s. s\<lparr>sq_pending := sq_pending s + 1\<rparr>) w"

definition Submit_task ::
  "nat \<Rightarrow> nat \<Rightarrow> ('v, 'u, 'z) qworld_scheme \<Rightarrow> ('v, 'u, 'z) qworld_scheme" where
  "Submit_task q e w =
     (let w1 = (if sq_perf (w_queues w ! q)
                then w\<lparr>w_perf := (w_perf w)\<lparr>pk_tasks_submitted := pk_tasks_submitted (w_perf w) + 1\<rparr>\<rparr>
                else w)
      in w1\<lparr>w_pools := update_at e (pool_AddTask q) (w_pools w1)\<rparr>)"

section \<open>Queue operations\<close>

definition SubmitToExecutor ::
  "nat \<Rightarrow> ('v, 'u, 'z) qworld_scheme \<Rightarrow> ('v, 'u, 'z) qworld_scheme" where
  "SubmitToExecutor q w =
     (case sq_executor (w_queues w ! q) of
        None \<Rightarrow> w
      | Some e \<Rightarrow> Submit_task q e (Submit_locked q w))"

definition submit_if ::
  "nat \<Rightarrow> bool \<times> ('v, 'u, 'z) qworld_scheme \<Rightarrow> ('v, 'u, 'z) qworld_scheme" where
  "submit_if q r = (if fst r then SubmitToExecutor q (snd r) else snd r)"

definition sq_AddNode ::
  "nat \<Rightarrow> nat option \<Rightarrow> ('v, 'u, 'z) qworld_scheme \<Rightarrow> ('v, 'u, 'z) qworld_scheme" where
  "sq_AddNode q node w = submit_if q (AddNode_locked q node w)"

definition sq_AddNodeForOpen ::
  "nat \<Rightarrow> nat option \<Rightarrow> ('v, 'u, 'z) qworld_scheme \<Rightarrow> ('v, 'u, 'z) qworld_scheme" where
  "sq_AddNodeForOpen q node w = submit_if q (AddNodeForOpen_locked q node w)"

definition sq_SetRunning ::
  "nat \<Rightarrow> bool \<Rightarrow> ('v, 'u, 'z) qworld_scheme \<Rightarrow> ('v, 'u, 'z) qworld_scheme" where
  "sq_SetRunning q running w = submit_if q (SetRunning_locked q running w)"

definition sq_SubmitWaitingTasksToExecutor ::
  "nat \<Rightarrow> ('v, 'u, 'z) qworld_scheme \<Rightarrow> ('v, 'u, 'z) qworld_scheme" where
  "sq_SubmitWaitingTasksToExecutor q w =
     submit_if q (sq_items (w_queues w ! q) \<noteq> [] \<and> sq_running (w_queues w ! q), w)"

definition sq_Reset :: "sq \<Rightarrow> sq" where
  "sq_Reset s = s\<lparr>sq_items := [], sq_pending := 0\<rparr>"

definition sq_CleanupAfterRun :: "sq \<Rightarrow> sq" where
  "sq_CleanupAfterRun s = s\<lparr>sq_items := [], sq_pending := 0, sq_running := False\<rparr>"

definition sq_IsIdle :: "sq \<Rightarrow> bool" where
  "sq_IsIdle s \<longleftrightarrow> sq_items s = [] \<and> sq_pending s = 0"

definition sq_IsFinalized :: "nat \<Rightarrow> sq \<Rightarrow> bool" where
  "sq_IsFinalized n s \<longleftrightarrow> n \<in> sq_finalized s"

text \<open>\<open>q->AddNode(node)\<close> on the node's own queue, when it has one.\<close>

definition reschedule :: "nat \<Rightarrow> ('v, 'u, 'z) qworld_scheme \<Rightarrow> ('v, 'u, 'z) qworld_scheme" where
  "reschedule n w =
     (case n_queue (w_nodes w ! n) of Some q \<Rightarrow> sq_AddNode q (Some n) w | None \<Rightarrow> w)"

definition HasPendingInput :: "nat \<Rightarrow> ('v, 'u, 'z) qworld_scheme \<Rightarrow> bool" where
  "HasPendingInput n w \<longleftrightarrow>
     (\<exists>m\<in>set (input_managers (w_nodes w ! n)). \<not> ism_IsEmpty (nt_ims (w_net w) ! m))"

definition AllInputsDone :: "nat \<Rightarrow> ('v, 'u, 'z) qworld_scheme \<Rightarrow> bool" where
  "AllInputsDone n w \<longleftrightarrow>
     (\<forall>m\<in>set (input_managers (w_nodes w ! n)). ism_IsDone (nt_ims (w_net w) ! m))"

section \<open>Running a node\<close>

text \<open>Events and packet callbacks a stream or output operation left to run, in order.\<close>

definition run_event ::
  "('v, 'u, ('v, 'u, 'z) qworld_scheme) env \<Rightarrow> 'v out_event \<Rightarrow>
     ('v, 'u, 'z) qworld_scheme \<Rightarrow> ('v, 'u, 'z) qworld_scheme" where
  "run_event env e w =
     (case e of
        StreamEv ev \<Rightarrow> en_event env ev w
      | OutputCb cb p \<Rightarrow> w\<lparr>w_log := w_log w @ [OutputShown cb p]\<rparr>)"

definition run_events ::
  "('v, 'u, ('v, 'u, 'z) qworld_scheme) env \<Rightarrow> 'v out_event list \<Rightarrow>
     ('v, 'u, 'z) qworld_scheme \<Rightarrow> ('v, 'u, 'z) qworld_scheme" where
  "run_events env evs w = fold (run_event env) evs w"

definition type_warning :: "node_contract \<Rightarrow> string \<Rightarrow> 'v packet \<Rightarrow> 'v log_event list" where
  "type_warning contract port pkt =
     (let expected = pts_GetConst port (ct_inputs contract)
      in if p_DebugTypeName pkt \<noteq> [] \<and> pt_IsSet expected \<and>
            pt_type_name expected \<noteq> p_DebugTypeName pkt
         then [TypeWarning (''Type mismatch on '' @ quote @ port @ quote @ '': expected '' @
                 pt_type_name expected @ '', got '' @ p_DebugTypeName pkt)]
         else [])"

text \<open>Popping one packet per input port, in port order, into the input shards.\<close>

fun populate_inputs :: "node_contract \<Rightarrow> (string \<times> nat) list \<Rightarrow>
    'v ishards \<times> 'v ism list \<times> 'v log_event list \<Rightarrow>
    'v ishards \<times> 'v ism list \<times> 'v log_event list" where
  "populate_inputs contract [] st = st"
| "populate_inputs contract ((port, m) # ports) (inputs, ims, warnings) =
     (let (s, pkt, done) = ism_PopQueueHead (ims ! m);
          inputs1 = (if \<not> p_IsEmpty pkt then iss_update port (ishard_PushPacket pkt) inputs
                     else inputs);
          warnings1 = (if \<not> p_IsEmpty pkt then warnings @ type_warning contract port pkt
                       else warnings);
          inputs2 = (if done then iss_update port (ishard_SetDone True) inputs1 else inputs1)
      in populate_inputs contract ports (inputs2, ims[m := s], warnings1))"

definition perf_add ::
  "(perf_counters \<Rightarrow> perf_counters) \<Rightarrow> nat \<Rightarrow> ('v, 'u, 'z) qworld_scheme \<Rightarrow>
     ('v, 'u, 'z) qworld_scheme" where
  "perf_add f q w = (if sq_perf (w_queues w ! q) then w\<lparr>w_perf := f (w_perf w)\<rparr> else w)"

definition queue_scope_begin ::
  "nat \<Rightarrow> ('v, 'u, 'z) qworld_scheme \<Rightarrow> int \<times> ('v, 'u, 'z) qworld_scheme" where
  "queue_scope_begin q w =
     (if sq_profiler (w_queues w ! q)
      then let (t, p) = scope_begin (w_prof w) in (t, w\<lparr>w_prof := p\<rparr>) else (0, w))"

definition queue_scope_end ::
  "nat \<Rightarrow> event_type \<Rightarrow> string \<Rightarrow> int \<Rightarrow> ('v, 'u, 'z) qworld_scheme \<Rightarrow>
     ('v, 'u, 'z) qworld_scheme" where
  "queue_scope_end q ty name start w =
     (if sq_profiler (w_queues w ! q)
      then w\<lparr>w_prof := scope_end ty name start (w_prof w)\<rparr> else w)"

text \<open>The two calls on a node's output handler, when it has one.\<close>

definition post_process ::
  "('v, 'u, ('v, 'u, 'z) qworld_scheme) env \<Rightarrow> nat \<Rightarrow> timestamp \<Rightarrow> 'v oshards \<Rightarrow>
     ('v, 'u, 'z) qworld_scheme \<Rightarrow> 'v oshards \<times> ('v, 'u, 'z) qworld_scheme" where
  "post_process env n ts outputs w =
     (case n_oh (w_nodes w ! n) of
        None \<Rightarrow> (outputs, w)
      | Some h \<Rightarrow>
          let (outputs', net, evs) = oh_PostProcess (w_ohs w ! h) ts outputs (w_net w)
          in (outputs', run_events env evs (w\<lparr>w_net := net\<rparr>)))"

definition close_outputs ::
  "('v, 'u, ('v, 'u, 'z) qworld_scheme) env \<Rightarrow> nat \<Rightarrow> 'v oshards \<Rightarrow>
     ('v, 'u, 'z) qworld_scheme \<Rightarrow> ('v, 'u, 'z) qworld_scheme" where
  "close_outputs env n outputs w =
     (case n_oh (w_nodes w ! n) of
        None \<Rightarrow> w
      | Some h \<Rightarrow>
          let (_, net, evs) = oh_Close (w_ohs w ! h) (Some outputs) (w_net w)
          in run_events env evs (w\<lparr>w_net := net\<rparr>))"

datatype finalize_action = kNone | kSchedule | kClose

definition decide_finalize :: "nat \<Rightarrow> bool \<Rightarrow> bool \<Rightarrow> sq \<Rightarrow> finalize_action \<times> sq" where
  "decide_finalize n has_inputs all_inputs_done s =
     (let already_finalized = (n \<in> sq_finalized s)
      in if has_inputs \<and> all_inputs_done \<and> \<not> already_finalized
         then if n \<notin> sq_close_pending s
              then (kSchedule, s\<lparr>sq_close_pending := insert n (sq_close_pending s)\<rparr>)
              else (kClose, s\<lparr>sq_close_pending := sq_close_pending s - {n},
                                   sq_finalized := insert n (sq_finalized s)\<rparr>)
         else (kNone, s))"

text \<open>The three continuations of \<open>RunNode\<close> after \<open>Process\<close> returned.\<close>

definition run_stopped ::
  "('v, 'u, ('v, 'u, 'z) qworld_scheme) env \<Rightarrow> nat \<Rightarrow> nat \<Rightarrow> timestamp \<Rightarrow> 'v oshards \<Rightarrow>
     ('v, 'u, 'z) qworld_scheme \<Rightarrow> ('v, 'u, 'z) qworld_scheme" where
  "run_stopped env q n ts outputs w =
     (let (outputs1, w1) = post_process env n ts outputs w;
          w2 = close_outputs env n outputs1 w1;
          w3 = upd_node n node_DecrementPending w2
      in if input_port_count (w_nodes w3 ! n) > 0
         then let w4 = (if HasPendingInput n w3 then reschedule n w3 else w3)
              in if sq_idle_cb (w_queues w4 ! q) then en_idle env w4 else w4
         else if sq_stopped_cb (w_queues w3 ! q) then en_stopped env n w3 else w3)"

definition run_failed ::
  "('v, 'u, ('v, 'u, 'z) qworld_scheme) env \<Rightarrow> nat \<Rightarrow> nat \<Rightarrow> timestamp \<Rightarrow> status \<Rightarrow>
     'v oshards \<Rightarrow> ('v, 'u, 'z) qworld_scheme \<Rightarrow> ('v, 'u, 'z) qworld_scheme" where
  "run_failed env q n ts st outputs w =
     (let (_, w1) = post_process env n ts outputs w;
          w2 = upd_node n node_DecrementPending w1
      in if sq_error_cb (w_queues w2 ! q)
         then en_error env (Status (st_code st) (n_name (w_nodes w2 ! n) @ '': '' @ st_msg st)) w2
         else w2)"

definition run_completed ::
  "('v, 'u, ('v, 'u, 'z) qworld_scheme) env \<Rightarrow> nat \<Rightarrow> nat \<Rightarrow> timestamp \<Rightarrow> 'v oshards \<Rightarrow>
     ('v, 'u, 'z) qworld_scheme \<Rightarrow> ('v, 'u, 'z) qworld_scheme" where
  "run_completed env q n ts outputs w =
     (let (outputs1, w1) = post_process env n ts outputs w;
          has_inputs = input_port_count (w_nodes w1 ! n) > 0;
          all_inputs_done = (has_inputs \<and> AllInputsDone n w1);
          (action, s) = decide_finalize n has_inputs all_inputs_done (w_queues w1 ! q);
          w2 = upd_queue q (\<lambda>_. s) w1;
          w3 = upd_node n node_DecrementPending w2;
          w4 = perf_add (\<lambda>c. c\<lparr>pk_tasks_completed := pk_tasks_completed c + 1,
                              pk_packets_processed := pk_packets_processed c + 1\<rparr>) q w3;
          w5 = (case action of
                  kClose \<Rightarrow> close_outputs env n outputs1 w4
                | kSchedule \<Rightarrow> reschedule n w4
                | kNone \<Rightarrow> w4);
          w6 = (if has_inputs \<and> HasPendingInput n w5 then reschedule n w5 else w5);
          w7 = (if \<not> has_inputs then reschedule n w6 else w6)
      in if has_inputs \<and> action \<noteq> kSchedule \<and> \<not> sq_IsFinalized n (w_queues w7 ! q)
         then if AllInputsDone n w7 then reschedule n w7 else w7
         else w7)"

definition run_process ::
  "('v, 'u, ('v, 'u, 'z) qworld_scheme) env \<Rightarrow> nat \<Rightarrow> nat \<Rightarrow> timestamp \<Rightarrow> 'v ishards \<Rightarrow>
     ('v, 'u, 'z) qworld_scheme \<Rightarrow> ('v, 'u, 'z) qworld_scheme" where
  "run_process env q n ts inputs w =
     (let outputs = (case n_oh (w_nodes w ! n) of
                       None \<Rightarrow> [] | Some h \<Rightarrow> oh_PrepareOutputs (w_ohs w ! h) (w_net w) []);
          ctx = context_new (n_name (w_nodes w ! n)) (n_addr (w_nodes w ! n)) ''node'' ts
                  inputs outputs;
          (start, w1) = queue_scope_begin q w;
          (st, ctx', u) = en_process env n ctx (w_user w1);
          w2 = w1\<lparr>w_user := u\<rparr>;
          w3 = (if IsStopStatus st then run_stopped env q n ts (cx_outputs ctx') w2
                else if \<not> st_ok st then run_failed env q n ts st (cx_outputs ctx') w2
                else run_completed env q n ts (cx_outputs ctx') w2)
      in queue_scope_end q ProcessEvent (n_name (w_nodes w ! n)) start w3)"

definition run_open ::
  "('v, 'u, ('v, 'u, 'z) qworld_scheme) env \<Rightarrow> nat \<Rightarrow> nat \<Rightarrow> 'v ishards \<Rightarrow>
     ('v, 'u, 'z) qworld_scheme \<Rightarrow> ('v, 'u, 'z) qworld_scheme" where
  "run_open env q n inputs w =
     (let ctx = context_new (n_name (w_nodes w ! n)) (n_addr (w_nodes w ! n)) ''node''
                  ts_Unstarted inputs [];
          (start, w1) = queue_scope_begin q w;
          (_, _, u) = en_open env n ctx (w_user w1);
          w2 = perf_add (\<lambda>c. c\<lparr>pk_nodes_opened := pk_nodes_opened c + 1\<rparr>) q (w1\<lparr>w_user := u\<rparr>)
      in queue_scope_end q OpenEvent (n_name (w_nodes w ! n)) start w2)"

definition RunNode ::
  "('v, 'u, ('v, 'u, 'z) qworld_scheme) env \<Rightarrow> nat \<Rightarrow> nat option \<Rightarrow> bool \<Rightarrow>
     ('v, 'u, 'z) qworld_scheme \<Rightarrow> ('v, 'u, 'z) qworld_scheme" where
  "RunNode env q node is_open w =
     (case node of
        None \<Rightarrow> w
      | Some n \<Rightarrow>
          let (inputs, ims, warnings) =
                populate_inputs (n_contract (w_nodes w ! n)) (n_input_ports (w_nodes w ! n))
                  ([], nt_ims (w_net w), []);
              w1 = w\<lparr>w_net := (w_net w)\<lparr>nt_ims := ims\<rparr>, w_log := w_log w @ warnings\<rparr>
          in if is_open then run_open env q n inputs w1
             else
               let c = sq_timestamp_counter (w_queues w1 ! q);
                   w2 = upd_queue q (\<lambda>s. s\<lparr>sq_timestamp_counter := to_i64 (c + 1)\<rparr>) w1
               in run_process env q n (ts_of c) inputs w2)"

definition UpdateIdleState ::
  "('v, 'u, ('v, 'u, 'z) qworld_scheme) env \<Rightarrow> nat \<Rightarrow>
     ('v, 'u, 'z) qworld_scheme \<Rightarrow> ('v, 'u, 'z) qworld_scheme" where
  "UpdateIdleState env q w = (if sq_idle_cb (w_queues w ! q) then en_idle env w else w)"

definition OnTaskFinished ::
  "('v, 'u, ('v, 'u, 'z) qworld_scheme) env \<Rightarrow> nat \<Rightarrow>
     ('v, 'u, 'z) qworld_scheme \<Rightarrow> ('v, 'u, 'z) qworld_scheme" where
  "OnTaskFinished env q w = UpdateIdleState env q (submit_if q (Finished_locked q w))"

definition RunNextTask ::
  "('v, 'u, ('v, 'u, 'z) qworld_scheme) env \<Rightarrow> nat \<Rightarrow>
     ('v, 'u, 'z) qworld_scheme \<Rightarrow> ('v, 'u, 'z) qworld_scheme" where
  "RunNextTask env q w =
     (case TryPop q w of
        (None, w1) \<Rightarrow> UpdateIdleState env q (NoItem_locked q w1)
      | (Some i, w1) \<Rightarrow> OnTaskFinished env q (RunNode env q (it_node i) (it_is_open i) w1))"

text \<open>One task of pool \<open>e\<close>, run by a worker to its end.\<close>

definition worker_step ::
  "('v, 'u, ('v, 'u, 'z) qworld_scheme) env \<Rightarrow> nat \<Rightarrow>
     ('v, 'u, 'z) qworld_scheme \<Rightarrow> ('v, 'u, 'z) qworld_scheme" where
  "worker_step env e w =
     (case pool_take (w_pools w ! e) of
        Some (Some q, p) \<Rightarrow> RunNextTask env q (w\<lparr>w_pools := (w_pools w)[e := p]\<rparr>)
      | _ \<Rightarrow> w)"

section \<open>Priorities\<close>

text \<open>The order as a rank: open tasks, then sources by layer and age, then the other nodes.\<close>

definition item_rank :: "node list \<Rightarrow> item \<Rightarrow> int \<times> int \<times> int \<times> int" where
  "item_rank nodes i =
     (if it_is_open i then 1 else 0, if item_source nodes i then 1 else 0,
      if item_source nodes i then - it_layer i else it_node_id i,
      if item_source nodes i then - it_node_id i else 0)"

lemma item_less_rank: "item_less nodes a b \<longleftrightarrow> item_rank nodes a < item_rank nodes b"
  by (auto simp: item_less_def item_rank_def)

lemma pq_top_in: "pq_top nodes m xs \<in> set (m # xs)"
  by (induction xs arbitrary: m) (auto split: if_splits)

lemma pq_top_max: "x \<in> set (m # xs) \<Longrightarrow> item_rank nodes x \<le> item_rank nodes (pq_top nodes m xs)"
proof (induction xs arbitrary: m x)
  case (Cons y ys)
  let ?m = "if item_less nodes m y then y else m"
  have "item_rank nodes x \<le> item_rank nodes ?m \<or> x \<in> set ys"
    using Cons.prems by (auto simp: item_less_rank)
  then show ?case
    using Cons.IH [of ?m ?m] Cons.IH [of x ?m] by (auto simp del: pq_top.simps simp: pq_top.simps(2))
qed simp

text \<open>
  C24: a worker takes the item of highest priority: whatever \<open>TryPop\<close> returns was queued,
  leaves the queue once, and no queued item outranks it. The order is total on the rank:
  open tasks first, then source nodes (lower layer first, then lower id), then the nodes with
  inputs (higher id first). Sources thus outrank the nodes with inputs, where the comment on the
  comparison says non-sources come before sources.
\<close>

theorem TryPop_highest_priority:
  assumes "TryPop q w = (Some i, w')" "q < length (w_queues w)"
  shows "i \<in> set (sq_items (w_queues w ! q)) \<and>
    sq_items (w_queues w' ! q) = remove1 i (sq_items (w_queues w ! q)) \<and>
    (\<forall>j \<in> set (sq_items (w_queues w ! q)).
       \<not> item_less (w_nodes w) i j \<and> item_rank (w_nodes w) j \<le> item_rank (w_nodes w) i) \<and>
    (\<forall>a b. item_less (w_nodes w) a b \<longleftrightarrow> item_rank (w_nodes w) a < item_rank (w_nodes w) b)"
proof -
  obtain x rest where items: "sq_items (w_queues w ! q) = x # rest"
    and i: "i = pq_top (w_nodes w) x rest"
    and w': "w' = upd_queue q (\<lambda>s. s\<lparr>sq_items := remove1 i (x # rest)\<rparr>) w"
    using assms(1) by (auto simp: TryPop_def pq_pop_def Let_def split: list.splits option.splits)
  have max: "item_rank (w_nodes w) j \<le> item_rank (w_nodes w) i" if "j \<in> set (x # rest)" for j
    using pq_top_max [OF that] i by simp
  show ?thesis
    using items i w' max pq_top_in [of "w_nodes w" x rest] assms(2)
    by (simp add: upd_queue_def item_less_rank not_less)
qed

theorem TryPop_highest_priority_witness:
  "let n = node_SetInputPort ''in'' 0 (node_new 7 ''n''); s = node_new 5 ''s'';
       items = [make_item (Some 0) False [n, s], make_item (Some 1) False [n, s]];
       w = \<lparr>w_nodes = [n, s], w_queues = [(sq_new ''q'')\<lparr>sq_items := items\<rparr>], w_pools = [],
            w_net = \<lparr>nt_ims = [], nt_ihs = [], nt_oms = [] :: int osm list\<rparr>, w_ohs = [],
            w_user = (), w_perf = perf_counters0, w_prof = None, w_log = []\<rparr>
   in fst (TryPop 0 w) = Some (items ! 1)"
proof -
  let ?n = "node_SetInputPort ''in'' 0 (node_new 7 ''n'')" and ?s = "node_new 5 ''s''"
  let ?items = "[make_item (Some 0) False [?n, ?s], make_item (Some 1) False [?n, ?s]]"
  let ?w = "\<lparr>w_nodes = [?n, ?s], w_queues = [(sq_new ''q'')\<lparr>sq_items := ?items\<rparr>], w_pools = [],
            w_net = \<lparr>nt_ims = [], nt_ihs = [], nt_oms = [] :: int osm list\<rparr>, w_ohs = [],
            w_user = (), w_perf = perf_counters0, w_prof = None, w_log = []\<rparr>"
  obtain i w' where run: "TryPop 0 ?w = (Some i, w')"
    by (simp add: TryPop_def pq_pop_def Let_def sq_new_def)
  have r: "item_rank [?n, ?s] (?items ! 0) < item_rank [?n, ?s] (?items ! 1)"
    by (simp add: item_rank_def make_item_def item_source_def node_SetInputPort_def node_new_def
        input_port_count_def)
  have "i \<in> set ?items" "item_rank [?n, ?s] (?items ! 1) \<le> item_rank [?n, ?s] i"
    using TryPop_highest_priority [OF run] by (simp_all add: sq_new_def)
  then have "i = ?items ! 1" using r by auto
  then show ?thesis using run by (simp add: Let_def)
qed

section \<open>Finalizing\<close>

text \<open>
  The decisions taken for a sequence of completed runs, given as (node, all inputs done); every
  node named has inputs.
\<close>

fun finalize_runs :: "(nat \<times> bool) list \<Rightarrow> sq \<Rightarrow> (nat \<times> finalize_action) list" where
  "finalize_runs [] s = []"
| "finalize_runs ((n, d) # xs) s =
     (let (a, s') = decide_finalize n True d s in (n, a) # finalize_runs xs s')"

definition actions_of :: "nat \<Rightarrow> (nat \<times> finalize_action) list \<Rightarrow> finalize_action list" where
  "actions_of n xs = map snd (filter (\<lambda>(m, a). m = n \<and> a \<noteq> kNone) xs)"

lemma actions_of_simps [simp]:
  "actions_of n [] = []"
  "actions_of n ((m, a) # xs) = (if m = n \<and> a \<noteq> kNone then a # actions_of n xs else actions_of n xs)"
  by (simp_all add: actions_of_def)

lemma finalize_runs_pending:
  "actions_of n (finalize_runs xs s) =
     (let k = length (filter (\<lambda>(m, d). m = n \<and> d) xs)
      in if n \<in> sq_finalized s then []
         else if n \<in> sq_close_pending s then take k [kClose]
         else take k [kSchedule, kClose])"
proof (induction xs arbitrary: s)
  case (Cons x xs)
  obtain m d where x: "x = (m, d)" by (cases x)
  obtain a s' where step: "decide_finalize m True d s = (a, s')"
    by (cases "decide_finalize m True d s")
  note IH = Cons.IH [of s']
  show ?case
  proof (cases "m = n \<and> d")
    case True
    then show ?thesis
      using step IH x by (auto simp: decide_finalize_def Let_def split: if_splits)
  next
    case False
    then have "n \<in> sq_finalized s' \<longleftrightarrow> n \<in> sq_finalized s"
      "n \<in> sq_close_pending s' \<longleftrightarrow> n \<in> sq_close_pending s" "m = n \<Longrightarrow> a = kNone"
      using step by (auto simp: decide_finalize_def Let_def split: if_splits)
    then show ?thesis using step IH x False by (auto simp: Let_def)
  qed
qed simp



section \<open>The pool's deque\<close>

definition pool_enq :: "nat list \<Rightarrow> pool \<Rightarrow> pool" where
  "pool_enq tasks p = fold pool_AddTask tasks p"

definition pool_deq :: "unit \<Rightarrow> pool \<Rightarrow> pool" where
  "pool_deq u p = (case pool_take p of Some (_, p') \<Rightarrow> p' | None \<Rightarrow> p)"

definition pool_taken :: "unit \<Rightarrow> pool \<Rightarrow> nat option" where
  "pool_taken u p = (case pool_take p of Some (t, _) \<Rightarrow> t | None \<Rightarrow> None)"

definition pool_run ::
  "(nat, unit, unit) chan_op list \<Rightarrow> pool \<Rightarrow> pool \<times> nat list \<times> nat list" where
  "pool_run = chan_run pool_enq pool_deq pool_taken (\<lambda>_. pool_stop) (\<lambda>_. True)"

lemma pool_enq_tasks: "tp_tasks (pool_enq ts p) = tp_tasks p @ ts"
  by (induction ts arbitrary: p) (simp_all add: pool_enq_def pool_AddTask_def pool_Schedule_def)

interpretation pool_chan:
  fifo_channel pool_enq pool_deq pool_taken "\<lambda>_. pool_stop" "\<lambda>_. True" tp_tasks
  by unfold_locales
    (auto simp: pool_enq_tasks pool_deq_def pool_taken_def pool_take_def pool_stop_def
      split: if_splits)

text \<open>
  C23: the thread pool runs every task it was given, once and in order of submission: over any
  interleaving of submissions, worker rounds and the stop of the destructor, the tasks taken
  followed by those still queued are those present at first and those submitted; a worker
  leaves its loop only after the stop and only when nothing is left.
\<close>

theorem pool_runs_every_task:
  "case pool_run ops p of (p', submitted, run) \<Rightarrow>
     run @ tp_tasks p' = tp_tasks p @ submitted \<and>
     (\<forall>p''. pool_take p' = Some (None, p'') \<longrightarrow> tp_stopped p' \<and> run = tp_tasks p @ submitted)"
proof -
  obtain p' submitted run where r: "pool_run ops p = (p', submitted, run)"
    by (cases "pool_run ops p") auto
  then have c: "run @ tp_tasks p' = tp_tasks p @ submitted"
    unfolding pool_run_def by (rule pool_chan.run_conserves)
  moreover have "tp_stopped p' \<and> tp_tasks p' = []" if "pool_take p' = Some (None, p'')" for p''
    using that by (auto simp: pool_take_def split: if_splits)
  ultimately show ?thesis using r by fastforce
qed

theorem pool_runs_every_task_witness:
  "fst (snd (pool_run [Send [1, 2], Control (), Recv (), Recv ()] (pool_new 0))) = [1, 2]"
  using pool_runs_every_task [where p = "pool_new 0"
      and ops = "[Send [1, 2], Control (), Recv (), Recv ()]"]
  by (simp add: pool_run_def)

section \<open>What a run of a node sees\<close>

definition ishard_of :: "'v ishards \<Rightarrow> string \<Rightarrow> 'v ishard" where
  "ishard_of inputs port = (case omap_get inputs port of Some s \<Rightarrow> s | None \<Rightarrow> ishard0)"

lemma iss_update_spec:
  "omap_wf ss \<Longrightarrow> omap_wf (iss_update port f ss) \<and>
   ishard_of (iss_update port f ss) p = (if p = port then f (ishard_of ss port) else ishard_of ss p)"
  by (auto simp: iss_update_def iss_Get_def ishard_of_def omap_wf_put omap_get_put split: option.splits)

lemma populate_frame:
  "populate_inputs c ports (inputs, ims, ws) = (inputs', ims', ws') \<Longrightarrow> omap_wf inputs \<Longrightarrow>
   length ims' = length ims \<and> (\<forall>p. p \<notin> fst ` set ports \<longrightarrow> ishard_of inputs' p = ishard_of inputs p) \<and>
   (\<forall>j. j \<notin> snd ` set ports \<longrightarrow> ims' ! j = ims ! j)"
proof (induction c ports "(inputs, ims, ws)" arbitrary: inputs ims ws rule: populate_inputs.induct)
  case (2 c port m ports inputs ims ws)
  then show ?case
    by (auto simp: Let_def iss_update_spec split: prod.splits if_splits)
qed simp

text \<open>One port's part of the input set, as the popped stream determines it.\<close>

definition port_input_ok :: "'v ism \<Rightarrow> 'v ism \<Rightarrow> 'v ishard \<Rightarrow> bool" where
  "port_input_ok before after shard \<longleftrightarrow>
     (case ism_queue before of
        [] \<Rightarrow> after = before \<and> is_queue shard = [] \<and> (is_done shard \<longleftrightarrow> ism_IsDone before)
      | p # ps \<Rightarrow> after = before\<lparr>ism_queue := ps\<rparr> \<and> \<not> is_done shard \<and>
          is_queue shard = (if p_IsEmpty p then [] else [p]))"

lemma populate_ports:
  "populate_inputs c ports (inputs, ims, ws) = (inputs', ims', ws') \<Longrightarrow> omap_wf inputs \<Longrightarrow>
   distinct (map fst ports) \<Longrightarrow> distinct (map snd ports) \<Longrightarrow> \<forall>m\<in>snd ` set ports. m < length ims \<Longrightarrow>
   \<forall>(p, m)\<in>set ports. ishard_of inputs p = ishard0 \<Longrightarrow>
   \<forall>(p, m)\<in>set ports. port_input_ok (ims ! m) (ims' ! m) (ishard_of inputs' p)"
proof (induction ports arbitrary: inputs ims ws)
  case (Cons x ports)
  obtain port m where x: "x = (port, m)" by (cases x)
  obtain s pkt d where pop: "ism_PopQueueHead (ims ! m) = (s, pkt, d)"
    by (cases "ism_PopQueueHead (ims ! m)") auto
  let ?i1 = "if \<not> p_IsEmpty pkt then iss_update port (ishard_PushPacket pkt) inputs else inputs"
  let ?i2 = "if d then iss_update port (ishard_SetDone True) ?i1 else ?i1"
  let ?ws = "if \<not> p_IsEmpty pkt then ws @ type_warning c port pkt else ws"
  have rest: "populate_inputs c ports (?i2, ims[m := s], ?ws) = (inputs', ims', ws')"
    using Cons.prems(1) x pop by (simp add: Let_def)
  have wf: "omap_wf ?i2" using Cons.prems(2) by (auto simp: iss_update_spec)
  have new: "port \<notin> fst ` set ports" "m \<notin> snd ` set ports" "m < length ims"
    using Cons.prems(3-5) x by auto
  have kept: "ishard_of ?i2 p = ishard_of inputs p" if "p \<noteq> port" for p
    using that Cons.prems(2) by (auto simp: iss_update_spec)
  have mine: "ishard_of inputs' port = ishard_of ?i2 port" "ims' ! m = s"
    using populate_frame [OF rest wf] new by simp_all
  have "port_input_ok (ims ! m) s (ishard_of ?i2 port)"
    using pop Cons.prems(2,6) x
    by (auto simp: port_input_ok_def ism_PopQueueHead_def iss_update_spec ishard_PushPacket_def
        ishard_SetDone_def ishard0_def ism_IsDone_def split: list.splits)
  moreover have "\<forall>(p, k)\<in>set ports. port_input_ok (ims[m := s] ! k) (ims' ! k) (ishard_of inputs' p)"
  proof (rule Cons.IH [OF rest wf])
    show "\<forall>(p, m)\<in>set ports. ishard_of ?i2 p = ishard0"
      using Cons.prems(6) kept new(1) x by (force simp: image_iff)
  qed (use Cons.prems new in auto)
  moreover have "ims[m := s] ! k = ims ! k" if "(p, k) \<in> set ports" for p k
    using new(2) that by (intro nth_list_update_neq) force
  ultimately show ?case
    using mine x by fastforce
qed simp

text \<open>
  One invocation consumes at most one packet per input: for each port, the input shard
  holds exactly the packet at the head of that port's queue, which leaves the queue; a port with
  nothing queued gives an empty shard, marked done precisely when its stream is done, and its
  queue is not changed; no other queue of the graph is touched.
\<close>

lemma run_inputs:
  assumes "populate_inputs c ports ([], ims, []) = (inputs, ims', ws)"
    and "distinct (map fst ports)" "distinct (map snd ports)" "\<forall>m\<in>snd ` set ports. m < length ims"
  shows "(\<forall>(p, m)\<in>set ports.
      (case ism_queue (ims ! m) of
         [] \<Rightarrow> ims' ! m = ims ! m \<and> is_queue (ishard_of inputs p) = [] \<and>
               (is_done (ishard_of inputs p) \<longleftrightarrow> ism_IsDone (ims ! m))
       | q # qs \<Rightarrow> ims' ! m = (ims ! m)\<lparr>ism_queue := qs\<rparr> \<and> \<not> is_done (ishard_of inputs p) \<and>
               is_queue (ishard_of inputs p) = (if p_IsEmpty q then [] else [q]))) \<and>
    (\<forall>j. j \<notin> snd ` set ports \<longrightarrow> ims' ! j = ims ! j)"
proof -
  have "\<forall>(p, m)\<in>set ports. ishard_of [] p = ishard0" by (simp add: ishard_of_def)
  from populate_ports [OF assms(1) omap_wf_Nil assms(2-4) this]
  show ?thesis
    using populate_frame [OF assms(1) omap_wf_Nil] unfolding port_input_ok_def by blast
qed

lemma run_inputs_witness:
  "let p = p_At (ts_of 5) (MakePacket 1 ''i'' (7::int));
       ims = [fst (ism_AddPackets [p] (ism_new ''in:a'' (-1)))]
   in is_queue (ishard_of (fst (populate_inputs node_contract0 [(''in'', 0)] ([], ims, []))) ''in'')
        = [p]"
proof -
  let ?p = "p_At (ts_of 5) (MakePacket 1 ''i'' (7::int))"
  let ?ims = "[fst (ism_AddPackets [?p] (ism_new ''in:a'' (-1)))]"
  obtain inputs ims' ws where
    run: "populate_inputs node_contract0 [(''in'', 0)] ([], ?ims, []) = (inputs, ims', ws)"
    by (cases "populate_inputs node_contract0 [(''in'', 0)] ([], ?ims, [])") auto
  have q: "ism_queue (?ims ! 0) = [?p]"
    by (simp add: ism_AddPackets_open ism_new_def appended_def)
  show ?thesis
    using run_inputs [OF run] q run by (simp add: Let_def)
qed

end
