(* ===== verification/Scheduling.thy ===== *)
theory Scheduling
  imports Scheduler_Queue
begin

text \<open>
  Interleavings of the scheduler queues: the workers of the pools and the threads that produce
  work run concurrently, and every locked section of \<open>scheduler_queue.cc\<close> is one step. A
  thread is where it stands between two of its locked sections. The steps are those of the
  sequential functions of \<open>Scheduler_Queue\<close>, cut at the lock boundaries: \<open>AddNode\<close>,
  \<open>AddNodeForOpen\<close> and \<open>SetRunning\<close> may be called by any thread at any time (arrival callbacks,
  \<open>HandleIdle\<close>, \<open>RunNode\<close> itself), and everything a node does between its start and its end is a
  change of the other components. The side conditions on indices say that the queue, the node
  and the pool a thread works on exist. A run that is cut short by \<open>CleanupAfterRun\<close> (cancel,
  shutdown) drops queued items and is not a step here.
\<close>

section \<open>Threads and steps\<close>

text \<open>
  A thread has left a locked section that asked for a submit, has counted its task and not yet
  handed it over, has taken a task of a queue, is inside \<open>RunNode\<close>, or is before
  \<open>OnTaskFinished\<close>.
\<close>

datatype thread =
    NeedSubmit nat
  | Submitting nat
  | Starting nat
  | Running nat item
  | Finishing nat

fun thread_queue :: "thread \<Rightarrow> nat" where
  "thread_queue (NeedSubmit q) = q"
| "thread_queue (Submitting q) = q"
| "thread_queue (Starting q) = q"
| "thread_queue (Running q i) = q"
| "thread_queue (Finishing q) = q"

fun counted :: "thread \<Rightarrow> bool" where
  "counted (NeedSubmit q) \<longleftrightarrow> False"
| "counted _ \<longleftrightarrow> True"

definition wake :: "nat \<Rightarrow> bool \<Rightarrow> thread multiset \<Rightarrow> thread multiset" where
  "wake q b T = (if b then add_mset (NeedSubmit q) T else T)"

definition end_run ::
  "item \<Rightarrow> ('v, 'u, 'z) qworld_scheme \<Rightarrow> ('v, 'u, 'z) qworld_scheme" where
  "end_run i w =
     (case it_node i of
        Some n \<Rightarrow> if it_is_open i then w else upd_node n node_DecrementPending w
      | None \<Rightarrow> w)"

text \<open>What a run may change besides: everything but the scheduling state.\<close>

definition same_scheduling ::
  "('v, 'u, 'z) qworld_scheme \<Rightarrow> ('v, 'u, 'z) qworld_scheme \<Rightarrow> bool" where
  "same_scheduling w w' \<longleftrightarrow>
     w_nodes w' = w_nodes w \<and> w_pools w' = w_pools w \<and>
     map (\<lambda>s. (sq_executor s, sq_running s, sq_items s, sq_pending s)) (w_queues w') =
     map (\<lambda>s. (sq_executor s, sq_running s, sq_items s, sq_pending s)) (w_queues w)"

inductive sched_step ::
  "('v, 'u, 'z) qworld_scheme \<times> thread multiset \<Rightarrow> ('v, 'u, 'z) qworld_scheme \<times> thread multiset \<Rightarrow> bool"
where
  add: "q < length (w_queues w) \<Longrightarrow> n < length (w_nodes w) \<Longrightarrow>
    AddNode_locked q (Some n) w = (b, w') \<Longrightarrow> sched_step (w, T) (w', wake q b T)"
| add_open: "q < length (w_queues w) \<Longrightarrow> n < length (w_nodes w) \<Longrightarrow>
    AddNodeForOpen_locked q (Some n) w = (b, w') \<Longrightarrow> sched_step (w, T) (w', wake q b T)"
| set_running: "q < length (w_queues w) \<Longrightarrow>
    SetRunning_locked q r w = (b, w') \<Longrightarrow> sched_step (w, T) (w', wake q b T)"
| submit: "q < length (w_queues w) \<Longrightarrow> sq_executor (w_queues w ! q) = Some e \<Longrightarrow>
    sched_step (w, add_mset (NeedSubmit q) T) (Submit_locked q w, add_mset (Submitting q) T)"
| submit_none: "q < length (w_queues w) \<Longrightarrow> sq_executor (w_queues w ! q) = None \<Longrightarrow>
    sched_step (w, add_mset (NeedSubmit q) T) (w, T)"
| hand_over: "q < length (w_queues w) \<Longrightarrow> sq_executor (w_queues w ! q) = Some e \<Longrightarrow>
    e < length (w_pools w) \<Longrightarrow> sched_step (w, add_mset (Submitting q) T) (Submit_task q e w, T)"
| take_task: "e < length (w_pools w) \<Longrightarrow> pool_take (w_pools w ! e) = Some (Some q, p) \<Longrightarrow>
    sched_step (w, T) (w\<lparr>w_pools := (w_pools w)[e := p]\<rparr>, add_mset (Starting q) T)"
| pop_item: "q < length (w_queues w) \<Longrightarrow> TryPop q w = (Some i, w') \<Longrightarrow>
    sched_step (w, add_mset (Starting q) T) (w', add_mset (Running q i) T)"
| no_item: "q < length (w_queues w) \<Longrightarrow> TryPop q w = (None, w') \<Longrightarrow>
    sched_step (w, add_mset (Starting q) T) (NoItem_locked q w', T)"
| ran: "(\<forall>n. it_node i = Some n \<longrightarrow> n < length (w_nodes w)) \<Longrightarrow>
    sched_step (w, add_mset (Running q i) T) (end_run i w, add_mset (Finishing q) T)"
| finished: "q < length (w_queues w) \<Longrightarrow> Finished_locked q w = (b, w') \<Longrightarrow>
    sched_step (w, add_mset (Finishing q) T) (w', wake q b T)"
| other: "same_scheduling w w' \<Longrightarrow> sched_step (w, T) (w', T)"

inductive_cases sched_stepE: "sched_step (w, T) (w', T')"

section \<open>Counting\<close>

definition item_of :: "nat \<Rightarrow> item \<Rightarrow> bool" where
  "item_of n i \<longleftrightarrow> it_node i = Some n \<and> \<not> it_is_open i"

definition queued :: "nat \<Rightarrow> ('v, 'u, 'z) qworld_scheme \<Rightarrow> nat" where
  "queued n w = sum_list (map (\<lambda>s. length (filter (item_of n) (sq_items s))) (w_queues w))"

fun runs :: "nat \<Rightarrow> thread \<Rightarrow> bool" where
  "runs n (Running q i) \<longleftrightarrow> item_of n i"
| "runs n _ \<longleftrightarrow> False"

definition in_flight :: "nat \<Rightarrow> thread multiset \<Rightarrow> nat" where
  "in_flight n T = size (filter_mset (runs n) T)"

definition pooled :: "nat \<Rightarrow> ('v, 'u, 'z) qworld_scheme \<Rightarrow> nat" where
  "pooled q w = sum_list (map (\<lambda>p. count_list (tp_tasks p) q) (w_pools w))"

definition active :: "nat \<Rightarrow> thread multiset \<Rightarrow> nat" where
  "active q T = size (filter_mset (\<lambda>t. counted t \<and> thread_queue t = q) T)"

definition max_in_flight :: "nat \<Rightarrow> ('v, 'u, 'z) qworld_scheme \<Rightarrow> int" where
  "max_in_flight n w = ct_max_in_flight (n_contract (w_nodes w ! n))"

lemma in_flight_simps [simp]:
  "in_flight n {#} = 0"
  "in_flight n (add_mset t T) = (if runs n t then Suc (in_flight n T) else in_flight n T)"
  "in_flight n (wake q b T) = in_flight n T"
  by (simp_all add: in_flight_def wake_def)

lemma active_simps [simp]:
  "active q {#} = 0"
  "active q (add_mset t T) =
     (if counted t \<and> thread_queue t = q then Suc (active q T) else active q T)"
  "active q (wake q' b T) = active q T"
  by (simp_all add: active_def wake_def)

section \<open>Effects of the locked sections\<close>

lemma upd_queue_simps [simp]:
  "w_nodes (upd_queue q f w) = w_nodes w" "w_pools (upd_queue q f w) = w_pools w"
  "length (w_queues (upd_queue q f w)) = length (w_queues w)"
  "q < length (w_queues w) \<Longrightarrow> w_queues (upd_queue q f w) ! q = f (w_queues w ! q)"
  "q' \<noteq> q \<Longrightarrow> w_queues (upd_queue q f w) ! q' = w_queues w ! q'"
  by (simp_all add: upd_queue_def)

lemma upd_node_simps [simp]:
  "w_queues (upd_node n f w) = w_queues w" "w_pools (upd_node n f w) = w_pools w"
  "length (w_nodes (upd_node n f w)) = length (w_nodes w)"
  "n < length (w_nodes w) \<Longrightarrow> w_nodes (upd_node n f w) ! n = f (w_nodes w ! n)"
  "n' \<noteq> n \<Longrightarrow> w_nodes (upd_node n f w) ! n' = w_nodes w ! n'"
  by (simp_all add: upd_node_def)

lemma queued_upd_queue:
  "q < length (w_queues w) \<Longrightarrow>
   queued n (upd_queue q f w) + length (filter (item_of n) (sq_items (w_queues w ! q))) =
   queued n w + length (filter (item_of n) (sq_items (f (w_queues w ! q))))"
  unfolding queued_def upd_queue_def
  using sum_map_update_at [of q "w_queues w" "\<lambda>s. length (filter (item_of n) (sq_items s))" f]
  by simp

lemma queued_upd_node [simp]: "queued n (upd_node m f w) = queued n w"
  by (simp add: queued_def)

lemma pooled_upd [simp]: "pooled q (upd_queue q' f w) = pooled q w" "pooled q (upd_node n g w) = pooled q w"
  by (simp_all add: pooled_def)

lemma max_in_flight_upd [simp]:
  "max_in_flight n (upd_queue q f w) = max_in_flight n w"
  "max_in_flight n (upd_node m node_IncrementPending w) = max_in_flight n w"
  "max_in_flight n (upd_node m node_DecrementPending w) = max_in_flight n w"
  by (auto simp: max_in_flight_def upd_node_def update_at_def node_IncrementPending_def
      node_DecrementPending_def nth_list_update)

lemma AddNode_locked_cases:
  assumes "AddNode_locked q (Some n) w = (b, w')"
  obtains (limit) "b = False" "w' = w"
  | (pushed) "n_pending (w_nodes w ! n) < max_in_flight n w" "b = sq_running (w_queues w ! q)"
      "w' = upd_queue q (sq_push (make_item (Some n) False (w_nodes w)))
              (upd_node n node_IncrementPending w)"
  using assms by (auto simp: AddNode_locked_def Let_def max_in_flight_def split: if_splits)

lemma make_item_simps [simp]:
  "it_node (make_item n o' nodes) = n" "it_is_open (make_item n o' nodes) = o'"
  "item_of m (make_item n o' nodes) \<longleftrightarrow> n = Some m \<and> \<not> o'"
  by (simp_all add: make_item_def item_of_def)

lemma sq_push_simps [simp]:
  "sq_items (sq_push i s) = sq_items s @ [i]" "sq_pending (sq_push i s) = sq_pending s"
  "sq_running (sq_push i s) = sq_running s" "sq_executor (sq_push i s) = sq_executor s"
  by (simp_all add: sq_push_def)

lemma TryPop_cases:
  assumes "TryPop q w = (r, w')"
  obtains (empty) "r = None" "w' = w" "sq_items (w_queues w ! q) = []"
  | (item) i where "r = Some i" "i \<in> set (sq_items (w_queues w ! q))"
      "w' = upd_queue q (\<lambda>s. s\<lparr>sq_items := remove1 i (sq_items (w_queues w ! q))\<rparr>) w"
proof (cases "sq_items (w_queues w ! q)")
  case Nil
  then show ?thesis using assms empty by (simp add: TryPop_def pq_pop_def)
next
  case (Cons x xs)
  then show ?thesis
    using assms item pq_top_in [of "w_nodes w" x xs] by (auto simp: TryPop_def pq_pop_def Let_def)
qed

lemma length_filter_remove1:
  "x \<in> set xs \<Longrightarrow> length (filter P (remove1 x xs)) + (if P x then 1 else 0) = length (filter P xs)"
  by (induction xs) auto

lemma sq_dec_pending_simps [simp]:
  "sq_items (sq_dec_pending s) = sq_items s" "sq_running (sq_dec_pending s) = sq_running s"
  "sq_executor (sq_dec_pending s) = sq_executor s"
  "0 < sq_pending s \<Longrightarrow> sq_pending (sq_dec_pending s) = sq_pending s - 1"
  by (simp_all add: sq_dec_pending_def)

section \<open>Invariants\<close>

definition pending_ok :: "('v, 'u, 'z) qworld_scheme \<Rightarrow> thread multiset \<Rightarrow> bool" where
  "pending_ok w T \<longleftrightarrow>
     (\<forall>n < length (w_nodes w). n_pending (w_nodes w ! n) = int (queued n w + in_flight n T) \<and>
        n_pending (w_nodes w ! n) \<le> max 0 (max_in_flight n w))"

definition tasks_ok :: "('v, 'u, 'z) qworld_scheme \<Rightarrow> thread multiset \<Rightarrow> bool" where
  "tasks_ok w T \<longleftrightarrow>
     (\<forall>q < length (w_queues w). sq_pending (w_queues w ! q) = int (pooled q w + active q T))"

definition wake_ok :: "('v, 'u, 'z) qworld_scheme \<Rightarrow> thread multiset \<Rightarrow> bool" where
  "wake_ok w T \<longleftrightarrow>
     (\<forall>q < length (w_queues w). sq_running (w_queues w ! q) \<and> sq_items (w_queues w ! q) \<noteq> [] \<and>
        sq_executor (w_queues w ! q) \<noteq> None \<longrightarrow>
        NeedSubmit q \<in># T \<or> 0 < sq_pending (w_queues w ! q))"

lemma wake_in [simp]:
  "NeedSubmit q \<in># wake q' b T \<longleftrightarrow> (b \<and> q' = q) \<or> NeedSubmit q \<in># T"
  by (auto simp: wake_def)

lemma queued_same:
  "(\<And>s. sq_items (f s) = sq_items s) \<Longrightarrow> queued n (upd_queue q f w) = queued n w"
  by (simp add: queued_def upd_queue_def sum_map_update_at_same)

lemma queued_push:
  "q < length (w_queues w) \<Longrightarrow>
   queued m (upd_queue q (sq_push i) w) = queued m w + (if item_of m i then 1 else 0)"
  using queued_upd_queue [of q w m "sq_push i"] by simp

lemma queued_pop:
  "q < length (w_queues w) \<Longrightarrow> i \<in> set (sq_items (w_queues w ! q)) \<Longrightarrow>
   queued m (upd_queue q (\<lambda>s. s\<lparr>sq_items := remove1 i (sq_items (w_queues w ! q))\<rparr>) w) +
     (if item_of m i then 1 else 0) = queued m w"
  using queued_upd_queue [of q w m "\<lambda>s. s\<lparr>sq_items := remove1 i (sq_items (w_queues w ! q))\<rparr>"]
    length_filter_remove1 [of i "sq_items (w_queues w ! q)" "item_of m"] by simp

lemma queued_pools [simp]: "queued n (w\<lparr>w_pools := ps\<rparr>) = queued n w"
    "queued n (w\<lparr>w_perf := pk\<rparr>) = queued n w"
  by (simp_all add: queued_def)

lemma max_in_flight_pools [simp]: "max_in_flight n (w\<lparr>w_pools := ps\<rparr>) = max_in_flight n w"
    "max_in_flight n (w\<lparr>w_perf := pk\<rparr>) = max_in_flight n w"
  by (simp_all add: max_in_flight_def)

lemma pending_Inc [simp]:
  "n_pending (node_IncrementPending x) = n_pending x + 1"
  "n_pending (node_DecrementPending x) = n_pending x - 1"
  by (simp_all add: node_IncrementPending_def node_DecrementPending_def)

lemma pending_upd_node:
  "m < length (w_nodes w) \<Longrightarrow>
   n_pending (w_nodes (upd_node n f w) ! m) =
     (if m = n then n_pending (f (w_nodes w ! m)) else n_pending (w_nodes w ! m))"
  by simp

lemma Submit_task_simps [simp]:
  "w_nodes (Submit_task q e w) = w_nodes w" "w_queues (Submit_task q e w) = w_queues w"
  "w_pools (Submit_task q e w) = update_at e (pool_AddTask q) (w_pools w)"
  by (simp_all add: Submit_task_def Let_def)

lemma same_queued:
  assumes "same_scheduling w w'"
  shows "queued n w' = queued n w"
proof -
  let ?t = "\<lambda>s. (sq_executor s, sq_running s, sq_items s, sq_pending s)"
  let ?f = "\<lambda>(e, r, is, p). length (filter (item_of n) is)"
  have "map ?f (map ?t (w_queues w')) = map ?f (map ?t (w_queues w))"
    using assms unfolding same_scheduling_def by (simp only:)
  then show ?thesis by (simp add: queued_def comp_def)
qed

lemma same_queue:
  "same_scheduling w w' \<Longrightarrow> length (w_queues w') = length (w_queues w) \<and>
   (\<forall>q < length (w_queues w).
      sq_executor (w_queues w' ! q) = sq_executor (w_queues w ! q) \<and>
      sq_running (w_queues w' ! q) = sq_running (w_queues w ! q) \<and>
      sq_items (w_queues w' ! q) = sq_items (w_queues w ! q) \<and>
      sq_pending (w_queues w' ! q) = sq_pending (w_queues w ! q))"
  unfolding same_scheduling_def list_eq_iff_nth_eq by auto

section \<open>The MaxInFlight gate\<close>

lemma pending_ok_step:
  "sched_step c c' \<Longrightarrow> pending_ok (fst c) (snd c) \<Longrightarrow> pending_ok (fst c') (snd c')"
proof (induction rule: sched_step.induct)
  case (add q w n b w' T)
  from add.hyps(3) show ?case
  proof (cases rule: AddNode_locked_cases)
    case limit
    then show ?thesis using add.prems by (auto simp: pending_ok_def)
  next
    case pushed
    then show ?thesis
      using add.hyps(1,2) add.prems
      by (auto simp: pending_ok_def queued_push pending_upd_node)
  qed
next
  case (add_open q w n b w' T)
  then show ?case
    by (auto simp: pending_ok_def AddNodeForOpen_locked_def queued_push)
next
  case (set_running q w r b w' T)
  then show ?case
    by (auto simp: pending_ok_def SetRunning_locked_def queued_same)
next
  case (submit q w e T)
  then show ?case by (auto simp: pending_ok_def Submit_locked_def queued_same)
next
  case (hand_over q w e T)
  then show ?case
    by (auto simp: pending_ok_def queued_def max_in_flight_def)
next
  case (pop_item q w i w' T)
  from pop_item.hyps(2) show ?case
  proof (cases rule: TryPop_cases)
    case (item j)
    have q: "queued m w' + (if item_of m i then 1 else 0) = queued m w" for m
      using queued_pop [OF pop_item.hyps(1) item(2)] item by simp
    have "w_nodes w' = w_nodes w" "max_in_flight m w' = max_in_flight m w" for m
      using item(3) by simp_all
    then show ?thesis
      using pop_item.prems by (auto simp: pending_ok_def simp flip: q)
  qed simp
next
  case (no_item q w w' T)
  from no_item.hyps(2) show ?case
    using no_item.prems
    by (cases rule: TryPop_cases) (auto simp: pending_ok_def NoItem_locked_def queued_same)
next
  case (ran i w q T)
  then show ?case
    by (auto simp: pending_ok_def end_run_def item_of_def pending_upd_node split: option.splits)
next
  case (finished q w b w' T)
  then show ?case by (auto simp: pending_ok_def Finished_locked_def queued_same)
next
  case (other w w' T)
  then show ?case
    using same_queued [OF other.hyps]
    by (auto simp: pending_ok_def same_scheduling_def max_in_flight_def)
qed (auto simp: pending_ok_def)

section \<open>Tasks in the pools and the pending counter\<close>

lemma sq_pending_upd:
  "q < length (w_queues w) \<Longrightarrow> q' < length (w_queues w) \<Longrightarrow>
   sq_pending (w_queues (upd_queue q f w) ! q') =
     (if q' = q then sq_pending (f (w_queues w ! q)) else sq_pending (w_queues w ! q'))"
  by simp

lemma pooled_pools:
  "e < length (w_pools w) \<Longrightarrow>
   pooled q (w\<lparr>w_pools := (w_pools w)[e := p]\<rparr>) + count_list (tp_tasks (w_pools w ! e)) q =
   pooled q w + count_list (tp_tasks p) q"
  using sum_map_update_at [of e "w_pools w" "\<lambda>p. count_list (tp_tasks p) q" "\<lambda>_. p"]
  by (simp add: pooled_def update_at_def)

lemma pooled_Submit_task:
  "e < length (w_pools w) \<Longrightarrow>
   pooled q' (Submit_task q e w) = pooled q' w + (if q' = q then 1 else 0)"
  using sum_map_update_at [of e "w_pools w" "\<lambda>p. count_list (tp_tasks p) q'" "pool_AddTask q"]
  by (simp add: pooled_def pool_AddTask_def pool_Schedule_def)

lemma pool_take_count:
  "pool_take p = Some (Some q, p') \<Longrightarrow>
   count_list (tp_tasks p) q' = count_list (tp_tasks p') q' + (if q' = q then 1 else 0)"
  by (cases "tp_tasks p") (auto simp: pool_take_def split: if_splits)

lemma tasks_ok_step:
  "sched_step c c' \<Longrightarrow> tasks_ok (fst c) (snd c) \<Longrightarrow> tasks_ok (fst c') (snd c')"
proof (induction rule: sched_step.induct)
  case (add q w n b w' T)
  from add.hyps(3) show ?case
  proof (cases rule: AddNode_locked_cases)
    case limit
    then show ?thesis using add.prems by (auto simp: tasks_ok_def)
  next
    case pushed
    then show ?thesis using add.hyps(1) add.prems by (auto simp: tasks_ok_def sq_pending_upd)
  qed
next
  case (add_open q w n b w' T)
  then show ?case by (auto simp: tasks_ok_def AddNodeForOpen_locked_def sq_pending_upd)
next
  case (set_running q w r b w' T)
  have "sq_pending (w_queues w' ! q') = sq_pending (w_queues w ! q')" for q'
    using set_running.hyps by (cases "q' = q") (auto simp: SetRunning_locked_def)
  then show ?case using set_running by (auto simp: tasks_ok_def SetRunning_locked_def)
next
  case (submit q w e T)
  then show ?case by (auto simp: tasks_ok_def Submit_locked_def sq_pending_upd)
next
  case (hand_over q w e T)
  then show ?case by (auto simp: tasks_ok_def pooled_Submit_task)
next
  case (take_task e w q p T)
  have "pooled q' w = pooled q' (w\<lparr>w_pools := (w_pools w)[e := p]\<rparr>) + (if q' = q then 1 else 0)" for q'
    using pooled_pools [OF take_task.hyps(1), of q' p] pool_take_count [OF take_task.hyps(2), of q']
    by simp
  then show ?case using take_task.prems by (auto simp: tasks_ok_def)
next
  case (pop_item q w i w' T)
  from pop_item.hyps(2) show ?case
    using pop_item.hyps(1) pop_item.prems
    by (cases rule: TryPop_cases) (auto simp: tasks_ok_def sq_pending_upd)
next
  case (no_item q w w' T)
  have "0 < sq_pending (w_queues w ! q)" using no_item by (auto simp: tasks_ok_def)
  then show ?case
    using no_item.hyps no_item.prems
    by (auto simp: tasks_ok_def NoItem_locked_def sq_pending_upd elim!: TryPop_cases)
next
  case (ran i w q T)
  then show ?case by (auto simp: tasks_ok_def end_run_def split: option.splits)
next
  case (finished q w b w' T)
  have pos: "0 < sq_pending (w_queues w ! q)" using finished by (auto simp: tasks_ok_def)
  have "w' = upd_queue q sq_dec_pending w" using finished.hyps by (simp add: Finished_locked_def)
  then show ?case
    using finished.hyps(1) finished.prems pos by (auto simp: tasks_ok_def sq_pending_upd)
next
  case (other w w' T)
  then show ?case
    using same_queue [OF other.hyps] by (auto simp: tasks_ok_def pooled_def same_scheduling_def)
qed (auto simp: tasks_ok_def)

section \<open>No queued item is stranded\<close>

definition wake_at :: "nat \<Rightarrow> ('v, 'u, 'z) qworld_scheme \<Rightarrow> thread multiset \<Rightarrow> bool" where
  "wake_at q w T \<longleftrightarrow>
     (sq_running (w_queues w ! q) \<and> sq_items (w_queues w ! q) \<noteq> [] \<and>
        sq_executor (w_queues w ! q) \<noteq> None \<longrightarrow>
        NeedSubmit q \<in># T \<or> 0 < sq_pending (w_queues w ! q))"

lemma wake_okI:
  assumes "wake_ok w T" "length (w_queues w') = length (w_queues w)"
    and "\<And>q'. q' \<noteq> q \<Longrightarrow> w_queues w' ! q' = w_queues w ! q'"
    and "\<And>q'. q' \<noteq> q \<Longrightarrow> NeedSubmit q' \<in># T \<Longrightarrow> NeedSubmit q' \<in># T'"
    and "q < length (w_queues w) \<Longrightarrow> wake_at q w T \<Longrightarrow> wake_at q w' T'"
  shows "wake_ok w' T'"
  unfolding wake_ok_def
proof (intro allI impI)
  fix q'
  assume *: "q' < length (w_queues w')" "sq_running (w_queues w' ! q') \<and>
      sq_items (w_queues w' ! q') \<noteq> [] \<and> sq_executor (w_queues w' ! q') \<noteq> None"
  have old: "wake_at q' w T" using assms(1,2) * by (simp add: wake_ok_def wake_at_def)
  show "NeedSubmit q' \<in># T' \<or> 0 < sq_pending (w_queues w' ! q')"
  proof (cases "q' = q")
    case True
    then show ?thesis using assms(2,5) * old by (simp add: wake_at_def)
  next
    case False
    then show ?thesis using assms(3,4) [OF False] * old by (auto simp: wake_at_def)
  qed
qed

lemma wake_ok_step:
  "sched_step c c' \<Longrightarrow> tasks_ok (fst c) (snd c) \<Longrightarrow> wake_ok (fst c) (snd c) \<Longrightarrow>
   wake_ok (fst c') (snd c')"
proof (induction rule: sched_step.induct)
  case (add q w n b w' T)
  from add.hyps(3) show ?case
  proof (cases rule: AddNode_locked_cases)
    case limit
    then show ?thesis using add.prems by (auto simp: wake_def)
  next
    case pushed
    have "wake_ok w' (wake q b T)"
      by (rule wake_okI [of w T _ q]) (use add pushed in \<open>auto simp: wake_at_def\<close>)
    then show ?thesis by simp
  qed
next
  case (add_open q w n b w' T)
  have "wake_ok w' (wake q b T)"
    by (rule wake_okI [of w T _ q])
      (use add_open in \<open>auto simp: wake_at_def AddNodeForOpen_locked_def\<close>)
  then show ?case by simp
next
  case (set_running q w r b w' T)
  have "wake_ok w' (wake q b T)"
    by (rule wake_okI [of w T _ q])
      (use set_running in \<open>auto simp: wake_at_def SetRunning_locked_def\<close>)
  then show ?case by simp
next
  case (submit q w e T)
  have "wake_ok (Submit_locked q w) (add_mset (Submitting q) T)"
    by (rule wake_okI [of w "add_mset (NeedSubmit q) T" _ q])
      (use submit in \<open>auto simp: wake_at_def Submit_locked_def tasks_ok_def\<close>)
  then show ?case by simp
next
  case (submit_none q w T)
  have "wake_ok w T"
    by (rule wake_okI [of w "add_mset (NeedSubmit q) T" _ q])
      (use submit_none in \<open>auto simp: wake_at_def\<close>)
  then show ?case by simp
next
  case (hand_over q w e T)
  then show ?case by (auto simp: wake_ok_def)
next
  case (take_task e w q p T)
  then show ?case by (auto simp: wake_ok_def)
next
  case (pop_item q w i w' T)
  have pos: "0 < sq_pending (w_queues w ! q)"
    using pop_item.hyps(1) pop_item.prems(1) by (auto simp: tasks_ok_def)
  from pop_item.hyps(2) show ?case
  proof (cases rule: TryPop_cases)
    case (item j)
    have "wake_ok w' (add_mset (Running q i) T)"
      by (rule wake_okI [of w "add_mset (Starting q) T" _ q])
        (use pop_item item pos in \<open>auto simp: wake_at_def\<close>)
    then show ?thesis by simp
  qed simp
next
  case (no_item q w w' T)
  from no_item.hyps(2) show ?case
  proof (cases rule: TryPop_cases)
    case empty
    have "wake_ok (NoItem_locked q w') T"
      by (rule wake_okI [of w "add_mset (Starting q) T" _ q])
        (use no_item empty in \<open>auto simp: wake_at_def NoItem_locked_def\<close>)
    then show ?thesis by simp
  qed simp
next
  case (ran i w q T)
  then show ?case by (auto simp: wake_ok_def end_run_def split: option.splits)
next
  case (finished q w b w' T)
  have "wake_ok w' (wake q b T)"
    by (rule wake_okI [of w "add_mset (Finishing q) T" _ q])
      (use finished in \<open>auto simp: wake_at_def Finished_locked_def\<close>)
  then show ?case by simp
next
  case (other w w' T)
  then show ?case using same_queue [OF other.hyps] by (auto simp: wake_ok_def)
qed

section \<open>Reachable states\<close>

definition sched_initial :: "('v, 'u, 'z) qworld_scheme \<Rightarrow> bool" where
  "sched_initial w \<longleftrightarrow>
     (\<forall>x\<in>set (w_nodes w). n_pending x = 0) \<and>
     (\<forall>s\<in>set (w_queues w). sq_items s = [] \<and> sq_pending s = 0) \<and>
     (\<forall>p\<in>set (w_pools w). tp_tasks p = [])"

definition runs_in :: "('v, 'u, 'z) qworld_scheme \<Rightarrow> thread multiset \<Rightarrow> bool" where
  "runs_in w T \<longleftrightarrow> (\<forall>q i. Running q i \<in># T \<longrightarrow> q < length (w_queues w))"

lemma queues_length_step:
  "sched_step c c' \<Longrightarrow> length (w_queues (fst c')) = length (w_queues (fst c))"
proof (induction rule: sched_step.induct)
  case (add q w n b w' T)
  from add.hyps(3) show ?case by (cases rule: AddNode_locked_cases) auto
next
  case (pop_item q w i w' T)
  from pop_item.hyps(2) show ?case by (cases rule: TryPop_cases) auto
next
  case (no_item q w w' T)
  from no_item.hyps(2) show ?case by (cases rule: TryPop_cases) (auto simp: NoItem_locked_def)
next
  case (other w w' T)
  then show ?case using same_queue [OF other.hyps] by simp
qed (auto simp: AddNodeForOpen_locked_def SetRunning_locked_def Submit_locked_def end_run_def
    Finished_locked_def split: option.splits)

lemma runs_in_step:
  "sched_step c c' \<Longrightarrow> runs_in (fst c) (snd c) \<Longrightarrow> runs_in (fst c') (snd c')"
  unfolding runs_in_def queues_length_step
  by (induction rule: sched_step.induct) (auto simp: wake_def split: if_splits)

definition sched_inv :: "('v, 'u, 'z) qworld_scheme \<times> thread multiset \<Rightarrow> bool" where
  "sched_inv c \<longleftrightarrow> pending_ok (fst c) (snd c) \<and> tasks_ok (fst c) (snd c) \<and>
     wake_ok (fst c) (snd c) \<and> runs_in (fst c) (snd c)"

lemma sched_inv_initial: "sched_initial w \<Longrightarrow> sched_inv (w, {#})"
proof -
  assume *: "sched_initial w"
  have "queued n w = 0" for n
    using * by (auto simp: queued_def sched_initial_def)
  moreover have "pooled q w = 0" for q
    using * by (auto simp: pooled_def sched_initial_def)
  ultimately show ?thesis
    using * by (auto simp: sched_inv_def sched_initial_def pending_ok_def tasks_ok_def wake_ok_def
        runs_in_def all_set_conv_all_nth)
qed

lemma sched_inv_step: "sched_step c c' \<Longrightarrow> sched_inv c \<Longrightarrow> sched_inv c'"
  unfolding sched_inv_def
  using pending_ok_step tasks_ok_step wake_ok_step runs_in_step by blast

lemma sched_inv_reachable:
  "sched_step\<^sup>*\<^sup>* c c' \<Longrightarrow> sched_inv c \<Longrightarrow> sched_inv c'"
  by (induction rule: rtranclp_induct) (auto intro: sched_inv_step)

section \<open>The concurrent guarantees\<close>

text \<open>
  C6: the MaxInFlight gate holds under every interleaving: from an idle start, whatever the
  workers, the producers and the nodes do, a node's pending counter is the number of its items
  in the queues plus the number of its runs in progress, and this sum never exceeds the node's
  MaxInFlight; in particular a node with MaxInFlight 1 never runs twice at the same time.
\<close>

theorem max_in_flight_respected:
  assumes "sched_step\<^sup>*\<^sup>* (w0, {#}) (w, T)" "sched_initial w0" "n < length (w_nodes w)"
  shows "n_pending (w_nodes w ! n) = int (queued n w + in_flight n T) \<and>
    int (queued n w + in_flight n T) \<le> max 0 (max_in_flight n w)"
  using sched_inv_reachable [OF assms(1) sched_inv_initial [OF assms(2)]] assms(3)
  by (fastforce simp: sched_inv_def pending_ok_def)

text \<open>A node, a queue with an executor and a pool, for concrete runs.\<close>

definition demo_world :: "(int, unit) qworld" where
  "demo_world =
     \<lparr>w_nodes = [node_SetInputPort ''in'' 0 (node_new 7 ''n'')],
      w_queues = [(sq_new ''q'')\<lparr>sq_executor := Some 0, sq_running := True\<rparr>],
      w_pools = [pool_new 1], w_net = \<lparr>nt_ims = [], nt_ihs = [], nt_oms = []\<rparr>, w_ohs = [],
      w_user = (), w_perf = perf_counters0, w_prof = None, w_log = []\<rparr>"

lemma demo_initial: "sched_initial demo_world"
  by (simp add: sched_initial_def demo_world_def sq_new_def pool_new_def node_SetInputPort_def
      node_new_def)

lemma demo_add:
  "sched_step\<^sup>*\<^sup>* (demo_world, {#})
     (snd (AddNode_locked 0 (Some 0) demo_world), {#NeedSubmit 0#})"
proof -
  have "sched_step (demo_world, {#})
    (snd (AddNode_locked 0 (Some 0) demo_world), wake 0 True {#})"
    by (rule sched_step.add [where n = 0])
      (simp_all add: AddNode_locked_def demo_world_def node_SetInputPort_def node_new_def
        node_contract0_def)
  then show ?thesis by (simp add: wake_def r_into_rtranclp)
qed

lemma demo_add_twice:
  "sched_step\<^sup>*\<^sup>* (demo_world, {#})
     (snd (AddNode_locked 0 (Some 0) (snd (AddNode_locked 0 (Some 0) demo_world))),
      {#NeedSubmit 0#})"
proof -
  let ?w = "snd (AddNode_locked 0 (Some 0) demo_world)"
  have "sched_step (?w, {#NeedSubmit 0#})
    (snd (AddNode_locked 0 (Some 0) ?w), wake 0 False {#NeedSubmit 0#})"
    by (rule sched_step.add [where n = 0])
      (simp_all add: AddNode_locked_def demo_world_def node_SetInputPort_def node_new_def
        node_contract0_def upd_node_def upd_queue_def update_at_def node_IncrementPending_def)
  then show ?thesis using demo_add by (auto simp: wake_def intro: rtranclp.rtrancl_into_rtrancl)
qed

lemma demo_facts:
  "length (w_nodes (snd (AddNode_locked 0 (Some 0) demo_world))) = 1"
  "length (w_nodes (snd (AddNode_locked 0 (Some 0)
     (snd (AddNode_locked 0 (Some 0) demo_world))))) = 1"
  "max_in_flight 0 (snd (AddNode_locked 0 (Some 0)
     (snd (AddNode_locked 0 (Some 0) demo_world)))) = 1"
  "w_queues (snd (AddNode_locked 0 (Some 0) demo_world)) =
     [(sq_new ''q'')\<lparr>sq_executor := Some 0, sq_running := True,
        sq_items := [make_item (Some 0) False (w_nodes demo_world)]\<rparr>]"
  by (simp_all add: AddNode_locked_def demo_world_def node_SetInputPort_def node_new_def
      node_contract0_def upd_node_def upd_queue_def update_at_def node_IncrementPending_def
      max_in_flight_def sq_push_def sq_new_def)

theorem max_in_flight_respected_witness:
  "let w = snd (AddNode_locked 0 (Some 0) (snd (AddNode_locked 0 (Some 0) demo_world)))
   in queued 0 w \<le> 1"
  using max_in_flight_respected [OF demo_add_twice demo_initial, of 0]
  by (simp add: demo_facts)





end
