(* ===== verification/Scheduler.thy ===== *)
theory Scheduler
  imports Scheduling "HOL-Library.Sublist"
begin

text \<open>
  \<open>framework/scheduler/scheduler.{h,cc}\<close>: the scheduler as an extension of the queues' world.
  Queue 0 is \<open>default_queue_\<close>; queues, nodes and executors are indices. The calls a thread makes
  run to their end before the next call starts (the interleavings of the queues themselves are
  in \<open>Scheduling\<close>). Waking the waiters (\<open>cv_.notify_all\<close>) and logging have no state. A node's
  methods are the record \<open>user_code\<close>; a call of the user's error callback is an entry of the log.
\<close>

section \<open>State\<close>

datatype scheduler_state = kNotStarted | kRunning | kPaused | kCancelling | kTerminated

record ('v, 'u) world = "('v, 'u) qworld" +
  sc_state :: scheduler_state
  sc_stopping :: bool
  sc_has_error :: bool
  sc_handling_idle :: int
  sc_active_sources :: "(int, nat) omap"
  sc_non_default_queues :: "(string, nat) omap"
  sc_all_queues :: "nat list"
  sc_default_executor :: "nat option"
  sc_non_default_executors :: "(string, nat) omap"
  sc_error_cb :: bool
  sc_all_nodes :: "nat list"
  sc_source_nodes :: "nat list"
  sc_processed :: int
  sc_num_closed :: int
  sc_total :: int
  sc_side_packets :: "'v packet_set"

record ('v, 'u) user_code =
  uc_open :: "nat \<Rightarrow> 'v context' \<Rightarrow> 'u \<Rightarrow> status \<times> 'v context' \<times> 'u"
  uc_process :: "nat \<Rightarrow> 'v context' \<Rightarrow> 'u \<Rightarrow> status \<times> 'v context' \<times> 'u"
  uc_close :: "nat \<Rightarrow> 'v context' \<Rightarrow> 'u \<Rightarrow> status \<times> 'v context' \<times> 'u"

definition Scheduler_new :: "'u \<Rightarrow> ('v, 'u) world" where
  "Scheduler_new u =
     \<lparr>w_nodes = [], w_queues = [sq_new ''default''], w_pools = [],
      w_net = \<lparr>nt_ims = [], nt_ihs = [], nt_oms = []\<rparr>, w_ohs = [], w_user = u,
      w_perf = perf_counters0, w_prof = None, w_log = [],
      sc_state = kNotStarted, sc_stopping = False, sc_has_error = False, sc_handling_idle = 0,
      sc_active_sources = [], sc_non_default_queues = [], sc_all_queues = [0],
      sc_default_executor = None, sc_non_default_executors = [], sc_error_cb = False,
      sc_all_nodes = [], sc_source_nodes = [], sc_processed = 0, sc_num_closed = 0,
      sc_total = 0, sc_side_packets = []\<rparr>"

section \<open>Setters and queries\<close>

definition sc_SetDefaultExecutor ::
  "pool \<Rightarrow> ('v, 'u, 'z) world_scheme \<Rightarrow> status \<times> ('v, 'u, 'z) world_scheme" where
  "sc_SetDefaultExecutor executor w =
     (let e = length (w_pools w);
          w1 = w\<lparr>w_pools := w_pools w @ [executor], sc_default_executor := Some e\<rparr>
      in (ok_status, upd_queue 0 (\<lambda>s. s\<lparr>sq_executor := Some e\<rparr>) w1))"

definition sc_SetNonDefaultExecutor ::
  "string \<Rightarrow> pool \<Rightarrow> ('v, 'u, 'z) world_scheme \<Rightarrow> status \<times> ('v, 'u, 'z) world_scheme" where
  "sc_SetNonDefaultExecutor name executor w =
     (let e = length (w_pools w); q = length (w_queues w)
      in (ok_status,
          w\<lparr>w_pools := w_pools w @ [executor],
            w_queues := w_queues w @ [(sq_new name)\<lparr>sq_executor := Some e\<rparr>],
            sc_all_queues := sc_all_queues w @ [q],
            sc_non_default_queues := omap_put name q (sc_non_default_queues w),
            sc_non_default_executors := omap_put name e (sc_non_default_executors w)\<rparr>))"

definition sc_SetErrorCallback :: "bool \<Rightarrow> ('v, 'u, 'z) world_scheme \<Rightarrow> ('v, 'u, 'z) world_scheme" where
  "sc_SetErrorCallback cb w = upd_queue 0 (\<lambda>s. s\<lparr>sq_error_cb := True\<rparr>) (w\<lparr>sc_error_cb := cb\<rparr>)"

definition sc_SetProfiler ::
  "profiler option \<Rightarrow> ('v, 'u, 'z) world_scheme \<Rightarrow> ('v, 'u, 'z) world_scheme" where
  "sc_SetProfiler p w = w\<lparr>w_prof := p\<rparr>"

definition sc_SetNodes :: "nat list \<Rightarrow> ('v, 'u, 'z) world_scheme \<Rightarrow> ('v, 'u, 'z) world_scheme" where
  "sc_SetNodes nodes w = w\<lparr>sc_all_nodes := nodes\<rparr>"

definition sc_SetTotalGraphInputStreams ::
  "int \<Rightarrow> ('v, 'u, 'z) world_scheme \<Rightarrow> ('v, 'u, 'z) world_scheme" where
  "sc_SetTotalGraphInputStreams n w = w\<lparr>sc_total := n\<rparr>"

definition sc_IncClosedGraphInputStreams ::
  "('v, 'u, 'z) world_scheme \<Rightarrow> ('v, 'u, 'z) world_scheme" where
  "sc_IncClosedGraphInputStreams w = w\<lparr>sc_num_closed := sc_num_closed w + 1\<rparr>"

definition sc_SetInputSidePackets ::
  "'v packet_set \<Rightarrow> ('v, 'u, 'z) world_scheme \<Rightarrow> ('v, 'u, 'z) world_scheme" where
  "sc_SetInputSidePackets ps w = w\<lparr>sc_side_packets := ps\<rparr>"

definition sc_IsIdle :: "('v, 'u, 'z) world_scheme \<Rightarrow> bool" where
  "sc_IsIdle w \<longleftrightarrow> list_all (\<lambda>q. sq_IsIdle (w_queues w ! q)) (sc_all_queues w)"

definition sc_IsTerminated :: "('v, 'u, 'z) world_scheme \<Rightarrow> bool" where
  "sc_IsTerminated w \<longleftrightarrow> sc_state w = kTerminated"

definition sc_GetQueue :: "string \<Rightarrow> ('v, 'u, 'z) world_scheme \<Rightarrow> nat" where
  "sc_GetQueue executor_name w =
     (if executor_name = [] then 0
      else case omap_get (sc_non_default_queues w) executor_name of Some q \<Rightarrow> q | None \<Rightarrow> 0)"

definition sc_AssignNodeToQueue ::
  "nat \<Rightarrow> ('v, 'u, 'z) world_scheme \<Rightarrow> ('v, 'u, 'z) world_scheme" where
  "sc_AssignNodeToQueue n w =
     (let executor_name = n_executor_name (w_nodes w ! n);
          named = (if executor_name \<noteq> [] then omap_get (sc_non_default_queues w) executor_name
                   else None)
      in case named of
           Some q \<Rightarrow> upd_node n (\<lambda>x. x\<lparr>n_queue := Some q\<rparr>) w
         | None \<Rightarrow> upd_node n (\<lambda>x. x\<lparr>n_queue := Some 0\<rparr>) w)"

definition sc_OnNodeOpened :: "nat \<Rightarrow> ('v, 'u, 'z) world_scheme \<Rightarrow> ('v, 'u, 'z) world_scheme" where
  "sc_OnNodeOpened n w =
     (if input_port_count (w_nodes w ! n) = 0 then reschedule n w else w)"

definition sc_AddNode :: "nat \<Rightarrow> ('v, 'u, 'z) world_scheme \<Rightarrow> status" where
  "sc_AddNode n w = Status CUnimplemented ''AddNode is Phase 2''"

definition sc_RemoveNode :: "nat \<Rightarrow> ('v, 'u, 'z) world_scheme \<Rightarrow> status" where
  "sc_RemoveNode n w = Status CUnimplemented ''RemoveNode is Phase 2''"

definition sc_SetQueuesRunning :: "bool \<Rightarrow> ('v, 'u, 'z) world_scheme \<Rightarrow> ('v, 'u, 'z) world_scheme" where
  "sc_SetQueuesRunning running w = fold (\<lambda>q. sq_SetRunning q running) (sc_all_queues w) w"

definition cleanup_queues :: "('v, 'u, 'z) world_scheme \<Rightarrow> ('v, 'u, 'z) world_scheme" where
  "cleanup_queues w = fold (\<lambda>q. upd_queue q sq_CleanupAfterRun) (sc_all_queues w) w"

text \<open>Calling the user's error callback, when there is one.\<close>

definition report_error :: "status \<Rightarrow> ('v, 'u, 'z) world_scheme \<Rightarrow> ('v, 'u, 'z) world_scheme" where
  "report_error st w = (if sc_error_cb w then w\<lparr>w_log := w_log w @ [ErrorReported st]\<rparr> else w)"

section \<open>Closing the nodes\<close>

definition lifecycle_context ::
  "nat \<Rightarrow> timestamp \<Rightarrow> ('v, 'u, 'z) world_scheme \<Rightarrow> 'v context'" where
  "lifecycle_context n ts w =
     cx_SetInputSidePackets (sc_side_packets w)
       (context_new (n_name (w_nodes w ! n)) (n_addr (w_nodes w ! n)) ''node'' ts [] [])"

definition close_node ::
  "('v, 'u) user_code \<Rightarrow> nat \<Rightarrow> ('v, 'u, 'z) world_scheme \<Rightarrow> ('v, 'u, 'z) world_scheme" where
  "close_node uc n w =
     (let (start, p) = scope_begin (w_prof w);
          (_, _, u) = uc_close uc n (lifecycle_context n ts_Done w) (w_user w);
          w1 = w\<lparr>w_user := u, w_perf := (w_perf w)\<lparr>pk_nodes_closed := pk_nodes_closed (w_perf w) + 1\<rparr>\<rparr>
      in w1\<lparr>w_prof := scope_end CloseEvent (n_name (w_nodes w ! n)) start p\<rparr>)"

definition sc_CloseAllNodes ::
  "('v, 'u) user_code \<Rightarrow> ('v, 'u, 'z) world_scheme \<Rightarrow> ('v, 'u, 'z) world_scheme" where
  "sc_CloseAllNodes uc w = fold (close_node uc) (sc_all_nodes w) w"

definition stop_profiler :: "('v, 'u, 'z) world_scheme \<Rightarrow> ('v, 'u, 'z) world_scheme" where
  "stop_profiler w = w\<lparr>w_prof := map_option pf_Stop (w_prof w)\<rparr>"

definition start_profiler :: "('v, 'u, 'z) world_scheme \<Rightarrow> ('v, 'u, 'z) world_scheme" where
  "start_profiler w = w\<lparr>w_prof := map_option pf_Start (w_prof w)\<rparr>"

section \<open>Draining and termination\<close>

datatype drain_status = kNotDone | kScheduled | kDrained

definition drain_one :: "nat \<Rightarrow> ('v, 'u, 'z) world_scheme \<Rightarrow> ('v, 'u, 'z) world_scheme" where
  "drain_one n w =
     (if input_port_count (w_nodes w ! n) = 0 then w
      else if HasPendingInput n w then
        (case n_queue (w_nodes w ! n) of
           Some q \<Rightarrow> if sq_running (w_queues w ! q) then sq_AddNode q (Some n) w else w
         | None \<Rightarrow> w)
      else w)"

text \<open>A node whose inputs are done and that its queue has not finalized.\<close>

definition unfinalized :: "('v, 'u, 'z) world_scheme \<Rightarrow> nat \<Rightarrow> bool" where
  "unfinalized w n \<longleftrightarrow>
     input_port_count (w_nodes w ! n) \<noteq> 0 \<and> AllInputsDone n w \<and>
     (case n_queue (w_nodes w ! n) of
        Some q \<Rightarrow> \<not> sq_IsFinalized n (w_queues w ! q) | None \<Rightarrow> False)"

definition sc_DrainInputQueues ::
  "('v, 'u, 'z) world_scheme \<Rightarrow> drain_status \<times> ('v, 'u, 'z) world_scheme" where
  "sc_DrainInputQueues w =
     (let consumers = filter (\<lambda>n. input_port_count (w_nodes w ! n) \<noteq> 0) (sc_all_nodes w);
          all_inputs_done = list_all (\<lambda>n. AllInputsDone n w) consumers;
          any_input_nonempty = list_ex (\<lambda>n. HasPendingInput n w) consumers
      in if any_input_nonempty then (kScheduled, fold drain_one (sc_all_nodes w) w)
         else case find (unfinalized w) (sc_all_nodes w) of
                Some n \<Rightarrow> (kScheduled, reschedule n w)
              | None \<Rightarrow> (if all_inputs_done then kDrained else kNotDone, w))"

definition inputs_remaining :: "('v, 'u, 'z) world_scheme \<Rightarrow> bool" where
  "inputs_remaining w \<longleftrightarrow> sc_total w > 0 \<and> sc_num_closed w < sc_total w"

text \<open>
  The body of the loop of \<open>HandleIdle\<close>. It never comes back to the loop's condition: every
  path returns or breaks. The \<open>break\<close> of the \<open>kNotDone\<close> case leaves the switch only.
\<close>

definition idle_pass ::
  "('v, 'u) user_code \<Rightarrow> ('v, 'u, 'z) world_scheme \<Rightarrow> ('v, 'u, 'z) world_scheme" where
  "idle_pass uc w =
     (let w1 = (if sc_state w = kCancelling then w\<lparr>sc_active_sources := []\<rparr> else w);
          no_more_sources = (sc_active_sources w1 = []);
          remaining = inputs_remaining w;
          (drained, w2) =
            (if no_more_sources \<and> \<not> sc_has_error w1 \<and> \<not> remaining \<and> sc_state w1 \<noteq> kCancelling
             then sc_DrainInputQueues w1 else (kDrained, w1))
      in if drained = kScheduled then w2
         else
           let should_quit =
                 (if sc_has_error w2 then True
                  else if no_more_sources then \<not> remaining else False)
           in if should_quit
              then
                let w3 = (if sc_has_error w2
                          then report_error (Status CInternal ''Graph execution error'') w2 else w2)
                in (stop_profiler (sc_CloseAllNodes uc w3))\<lparr>sc_state := kTerminated\<rparr>
              else if sc_active_sources w2 \<noteq> []
              then fold reschedule (map snd (sc_active_sources w2)) w2
              else w2)"

definition idle_body ::
  "('v, 'u) user_code \<Rightarrow> ('v, 'u, 'z) world_scheme \<Rightarrow> ('v, 'u, 'z) world_scheme" where
  "idle_body uc w =
     (if sc_state w = kCancelling \<and> sc_has_error w
      then (cleanup_queues w)\<lparr>sc_state := kTerminated\<rparr>
      else if sc_IsIdle w \<and> (sc_state w = kRunning \<or> sc_state w = kCancelling)
      then idle_pass uc w
      else w)"

definition add_handling :: "int \<Rightarrow> ('v, 'u, 'z) world_scheme \<Rightarrow> ('v, 'u, 'z) world_scheme" where
  "add_handling k w = w\<lparr>sc_handling_idle := sc_handling_idle w + k\<rparr>"

definition sc_HandleIdle ::
  "('v, 'u) user_code \<Rightarrow> ('v, 'u, 'z) world_scheme \<Rightarrow> ('v, 'u, 'z) world_scheme" where
  "sc_HandleIdle uc w =
     (let w1 = add_handling 1 w
      in if sc_handling_idle w1 > 1 then add_handling (-1) w1
         else add_handling (-1) (idle_body uc w1))"

definition sc_AddedPacketToInputStream ::
  "('v, 'u) user_code \<Rightarrow> ('v, 'u, 'z) world_scheme \<Rightarrow> ('v, 'u, 'z) world_scheme" where
  "sc_AddedPacketToInputStream uc w = sc_HandleIdle uc w"

section \<open>The callbacks of the queues\<close>

definition source_stopped ::
  "('v, 'u) user_code \<Rightarrow> nat \<Rightarrow> ('v, 'u, 'z) world_scheme \<Rightarrow> ('v, 'u, 'z) world_scheme" where
  "source_stopped uc n w =
     sc_HandleIdle uc
       (w\<lparr>sc_active_sources := omap_erase (n_addr (w_nodes w ! n)) (sc_active_sources w)\<rparr>)"

definition queue_error :: "status \<Rightarrow> ('v, 'u, 'z) world_scheme \<Rightarrow> ('v, 'u, 'z) world_scheme" where
  "queue_error st w = report_error st (w\<lparr>sc_has_error := True\<rparr>)"

text \<open>What a queue is given: the nodes' code, the streams' callbacks, the scheduler's callbacks.\<close>

definition sched_env ::
  "('v, 'u) user_code \<Rightarrow>
   (stream_event \<Rightarrow> ('v, 'u, 'z) world_scheme \<Rightarrow> ('v, 'u, 'z) world_scheme) \<Rightarrow>
   ('v, 'u, ('v, 'u, 'z) world_scheme) env" where
  "sched_env uc event =
     \<lparr>en_open = uc_open uc, en_process = uc_process uc, en_close = uc_close uc,
      en_event = event, en_idle = sc_HandleIdle uc, en_stopped = source_stopped uc,
      en_error = queue_error\<rparr>"

section \<open>Starting\<close>

definition collect_sources :: "('v, 'u, 'z) world_scheme \<Rightarrow> ('v, 'u, 'z) world_scheme" where
  "collect_sources w =
     w\<lparr>sc_source_nodes := sc_source_nodes w @
         filter (\<lambda>n. input_port_count (w_nodes w ! n) = 0) (sc_all_nodes w)\<rparr>"

definition assign_all :: "('v, 'u, 'z) world_scheme \<Rightarrow> ('v, 'u, 'z) world_scheme" where
  "assign_all w = fold sc_AssignNodeToQueue (sc_all_nodes w) w"

text \<open>
  The opening loop, with what follows a successful \<open>Open\<close> of a source: \<open>Start\<close> queues it,
  \<open>Schedule\<close> does not.
\<close>

fun open_all ::
  "('v, 'u) user_code \<Rightarrow> bool \<Rightarrow> nat list \<Rightarrow> ('v, 'u, 'z) world_scheme \<Rightarrow>
     status \<times> ('v, 'u, 'z) world_scheme" where
  "open_all uc queue_sources [] w = (ok_status, w)"
| "open_all uc queue_sources (n # ns) w =
     (let name = n_name (w_nodes w ! n);
          (start, p) = scope_begin (w_prof w);
          (st, _, u) = uc_open uc n (lifecycle_context n ts_Unstarted w) (w_user w);
          w1 = w\<lparr>w_prof := p, w_user := u\<rparr>
      in if \<not> st_ok st
         then let w2 = (report_error st w1)\<lparr>sc_state := kTerminated\<rparr>
              in (st, w2\<lparr>w_prof := scope_end OpenEvent name start (w_prof w2)\<rparr>)
         else
           let w2 = (if input_port_count (w_nodes w1 ! n) = 0
                     then let w' = w1\<lparr>sc_active_sources :=
                                omap_put (n_addr (w_nodes w1 ! n)) n (sc_active_sources w1)\<rparr>
                          in if queue_sources then reschedule n w' else w'
                     else w1)
           in open_all uc queue_sources ns
                (w2\<lparr>w_prof := scope_end OpenEvent name start (w_prof w2)\<rparr>))"

definition wire_queue :: "nat \<Rightarrow> ('v, 'u, 'z) world_scheme \<Rightarrow> ('v, 'u, 'z) world_scheme" where
  "wire_queue q w =
     sq_SetRunning q True
       (upd_queue q (\<lambda>s. s\<lparr>sq_idle_cb := True, sq_stopped_cb := True, sq_perf := True,
                          sq_profiler := (w_prof w \<noteq> None)\<rparr>) w)"

definition sc_Start ::
  "('v, 'u) user_code \<Rightarrow> ('v, 'u, 'z) world_scheme \<Rightarrow> status \<times> ('v, 'u, 'z) world_scheme" where
  "sc_Start uc w =
     (let w1 = (start_profiler w)\<lparr>sc_state := kRunning\<rparr>;
          (st, w2) = open_all uc True (sc_all_nodes w1) (assign_all (collect_sources w1))
      in if \<not> st_ok st then (st, w2)
         else (ok_status, sc_HandleIdle uc (fold wire_queue (sc_all_queues w2) w2)))"

section \<open>The synchronous run\<close>

text \<open>One call of a node's \<open>Process\<close> inside its profiling scope's beginning.\<close>

definition call_process ::
  "('v, 'u, ('v, 'u, 'z) world_scheme) env \<Rightarrow> nat \<Rightarrow> timestamp \<Rightarrow> ('v, 'u, 'z) world_scheme \<Rightarrow>
     int \<times> status \<times> 'v oshards \<times> ('v, 'u, 'z) world_scheme" where
  "call_process env n ts w =
     (let (start, p) = scope_begin (w_prof w);
          ctx = context_new (n_name (w_nodes w ! n)) (n_addr (w_nodes w ! n)) ''node'' ts [] [];
          (st, ctx', u) = en_process env n ctx (w_user w)
      in (start, st, cx_outputs ctx', w\<lparr>w_prof := p, w_user := u\<rparr>))"

definition end_scope ::
  "nat \<Rightarrow> int \<Rightarrow> ('v, 'u, 'z) world_scheme \<Rightarrow> ('v, 'u, 'z) world_scheme" where
  "end_scope n start w =
     w\<lparr>w_prof := scope_end ProcessEvent (n_name (w_nodes w ! n)) start (w_prof w)\<rparr>"

fun run_downstream ::
  "('v, 'u, ('v, 'u, 'z) world_scheme) env \<Rightarrow> timestamp \<Rightarrow> nat list \<Rightarrow>
     ('v, 'u, 'z) world_scheme \<Rightarrow> ('v, 'u, 'z) world_scheme" where
  "run_downstream env ts [] w = w"
| "run_downstream env ts (n # ns) w =
     (if sc_stopping w \<or> sc_has_error w then w
      else if input_port_count (w_nodes w ! n) = 0 then run_downstream env ts ns w
      else
        let (start, st, _, w1) = call_process env n ts w
        in if \<not> st_ok st \<and> \<not> IsStopStatus st
           then end_scope n start ((report_error st w1)\<lparr>sc_has_error := True\<rparr>)
           else run_downstream env ts ns (end_scope n start w1))"

text \<open>The pass over the active sources; the list is the rest of the iteration.\<close>

fun run_sources ::
  "('v, 'u, ('v, 'u, 'z) world_scheme) env \<Rightarrow> (int \<times> nat) list \<Rightarrow>
     ('v, 'u, 'z) world_scheme \<Rightarrow> ('v, 'u, 'z) world_scheme" where
  "run_sources env [] w = w"
| "run_sources env ((addr, n) # rest) w =
     (if sc_stopping w \<or> sc_has_error w then w
      else
        let ts = ts_of (sc_processed w); (start, st, outputs, w1) = call_process env n ts w
        in if \<not> st_ok st \<and> \<not> IsStopStatus st
           then end_scope n start ((report_error st w1)\<lparr>sc_has_error := True\<rparr>)
           else if IsStopStatus st
           then let (_, w2) = post_process env n ts outputs w1
                in run_sources env rest
                     (end_scope n start
                        (w2\<lparr>sc_active_sources := omap_erase addr (sc_active_sources w2)\<rparr>))
           else
             let (_, w2) = post_process env n ts outputs w1;
                 w3 = run_downstream env ts (sc_all_nodes w2) w2
             in run_sources env rest
                  (end_scope n start (w3\<lparr>sc_processed := sc_processed w3 + 1\<rparr>)))"

text \<open>
  The process loop: its flag is cleared at the start of the body and never set again, so the
  body runs at most once.
\<close>

definition process_loop ::
  "('v, 'u, ('v, 'u, 'z) world_scheme) env \<Rightarrow> ('v, 'u, 'z) world_scheme \<Rightarrow>
     ('v, 'u, 'z) world_scheme" where
  "process_loop env w =
     (if \<not> sc_stopping w \<and> \<not> sc_has_error w then run_sources env (sc_active_sources w) w else w)"

definition sc_Schedule ::
  "('v, 'u) user_code \<Rightarrow>
   (stream_event \<Rightarrow> ('v, 'u, 'z) world_scheme \<Rightarrow> ('v, 'u, 'z) world_scheme) \<Rightarrow>
   ('v, 'u, 'z) world_scheme \<Rightarrow> status \<times> ('v, 'u, 'z) world_scheme" where
  "sc_Schedule uc event w =
     (let w1 = start_profiler (w\<lparr>sc_state := kRunning\<rparr>);
          (st, w2) = open_all uc False (sc_all_nodes w1) (assign_all (collect_sources w1))
      in if \<not> st_ok st then (st, w2)
         else
           let w3 = process_loop (sched_env uc event) w2;
               w4 = stop_profiler (sc_CloseAllNodes uc w3)
           in (ok_status, w4\<lparr>sc_state := kTerminated\<rparr>))"

section \<open>Control\<close>

definition sc_Shutdown :: "('v, 'u, 'z) world_scheme \<Rightarrow> ('v, 'u, 'z) world_scheme" where
  "sc_Shutdown w = cleanup_queues (w\<lparr>sc_stopping := True, sc_state := kTerminated\<rparr>)"

text \<open>The waits: \<open>None\<close> while the caller stays blocked.\<close>

definition sc_WaitUntilDone :: "('v, 'u, 'z) world_scheme \<Rightarrow> status option" where
  "sc_WaitUntilDone w = (if sc_state w = kTerminated then Some ok_status else None)"

definition sc_WaitForIdle :: "('v, 'u, 'z) world_scheme \<Rightarrow> status option" where
  "sc_WaitForIdle w = (if sc_IsIdle w then Some ok_status else None)"

definition sc_Cancel ::
  "('v, 'u) user_code \<Rightarrow> ('v, 'u, 'z) world_scheme \<Rightarrow> ('v, 'u, 'z) world_scheme" where
  "sc_Cancel uc w =
     (if sc_has_error w then w
      else
        let w1 = w\<lparr>sc_has_error := True, sc_state := kCancelling\<rparr>;
            w2 = (if sc_state w1 = kPaused then sc_SetQueuesRunning True w1 else w1)
        in sc_HandleIdle uc w2)"

definition sc_Pause ::
  "('v, 'u, 'z) world_scheme \<Rightarrow> status \<times> ('v, 'u, 'z) world_scheme" where
  "sc_Pause w =
     (if sc_state w \<noteq> kRunning then (Status CFailedPrecondition ''Graph is not running'', w)
      else (ok_status, sc_SetQueuesRunning False (w\<lparr>sc_state := kPaused\<rparr>)))"

definition sc_Resume ::
  "('v, 'u) user_code \<Rightarrow> ('v, 'u, 'z) world_scheme \<Rightarrow> status \<times> ('v, 'u, 'z) world_scheme" where
  "sc_Resume uc w =
     (if sc_state w \<noteq> kPaused then (Status CFailedPrecondition ''Graph is not paused'', w)
      else
        let w1 = sc_SetQueuesRunning True (w\<lparr>sc_state := kRunning\<rparr>);
            w2 = fold sq_SubmitWaitingTasksToExecutor (sc_all_queues w1) w1
        in (ok_status, sc_HandleIdle uc w2))"

section \<open>Frames\<close>

text \<open>What the queue operations keep of the scheduler, and the scheduler's helpers of the rest.\<close>

definition sched_part where
  "sched_part w =
     (sc_state w, sc_stopping w, sc_has_error w, sc_handling_idle w, sc_active_sources w,
      sc_all_queues w, sc_error_cb w, sc_all_nodes w, sc_processed w, sc_num_closed w, sc_total w,
      sc_side_packets w)"

lemma sched_part_simps [simp]:
  "sched_part (w\<lparr>w_nodes := a\<rparr>) = sched_part w" "sched_part (w\<lparr>w_queues := b\<rparr>) = sched_part w"
  "sched_part (w\<lparr>w_pools := c\<rparr>) = sched_part w" "sched_part (w\<lparr>w_net := d\<rparr>) = sched_part w"
  "sched_part (w\<lparr>w_user := e\<rparr>) = sched_part w" "sched_part (w\<lparr>w_perf := f\<rparr>) = sched_part w"
  "sched_part (w\<lparr>w_prof := g\<rparr>) = sched_part w" "sched_part (w\<lparr>w_log := h\<rparr>) = sched_part w"
  by (simp_all add: sched_part_def)

lemma sched_part_upd [simp]:
  "sched_part (upd_queue q f w) = sched_part w" "sched_part (upd_node n g w) = sched_part w"
  by (simp_all add: upd_queue_def upd_node_def)

lemma sched_part_submit [simp]:
  "sched_part (Submit_task q e w) = sched_part w"
  "sched_part (SubmitToExecutor q w) = sched_part w"
  by (simp_all add: Submit_task_def SubmitToExecutor_def Submit_locked_def Let_def split: option.splits)

lemma sched_part_queue_ops [simp]:
  "sched_part (sq_AddNode q n w) = sched_part w"
  "sched_part (sq_SetRunning q r w) = sched_part w"
  "sched_part (sq_SubmitWaitingTasksToExecutor q w) = sched_part w"
  "sched_part (reschedule m w) = sched_part w"
  by (simp_all add: sq_AddNode_def sq_SetRunning_def sq_SubmitWaitingTasksToExecutor_def
      reschedule_def submit_if_def AddNode_locked_def SetRunning_locked_def Let_def
      split: option.splits)

lemma sched_part_fold:
  "(\<And>x w. sched_part (f x w) = sched_part w) \<Longrightarrow> sched_part (fold f xs w) = sched_part w"
  by (induction xs arbitrary: w) simp_all

lemma sched_part_fold_reschedule [simp]: "sched_part (fold reschedule ns w) = sched_part w"
  by (rule sched_part_fold) simp

lemma sched_part_drain [simp]: "sched_part (drain_one n w) = sched_part w"
  by (simp add: drain_one_def split: option.splits)

lemma sched_part_report [simp]: "sched_part (report_error st w) = sched_part w"
  by (simp add: report_error_def)

lemma sched_part_close [simp]:
  "sched_part (close_node uc n w) = sched_part w"
  "sched_part (sc_CloseAllNodes uc w) = sched_part w"
  "sched_part (stop_profiler w) = sched_part w"
  by (auto simp: close_node_def sc_CloseAllNodes_def stop_profiler_def Let_def
      intro: sched_part_fold split: prod.splits)

lemma sched_partD:
  assumes "sched_part w = sched_part w'"
  shows "sc_state w = sc_state w'" "sc_has_error w = sc_has_error w'"
    "sc_active_sources w = sc_active_sources w'" "sc_all_queues w = sc_all_queues w'"
    "sc_all_nodes w = sc_all_nodes w'" "sc_handling_idle w = sc_handling_idle w'"
    "sc_stopping w = sc_stopping w'" "sc_processed w = sc_processed w'"
    "sc_error_cb w = sc_error_cb w'"
  using assms by (simp_all add: sched_part_def)

lemma add_handling_simps [simp]:
  "sc_state (add_handling k w) = sc_state w" "sc_has_error (add_handling k w) = sc_has_error w"
  "sc_active_sources (add_handling k w) = sc_active_sources w"
  "sc_all_queues (add_handling k w) = sc_all_queues w"
  "sc_all_nodes (add_handling k w) = sc_all_nodes w"
  "w_queues (add_handling k w) = w_queues w" "w_nodes (add_handling k w) = w_nodes w"
  "w_pools (add_handling k w) = w_pools w" "w_user (add_handling k w) = w_user w"
  "w_log (add_handling k w) = w_log w" "w_net (add_handling k w) = w_net w"
  "w_perf (add_handling k w) = w_perf w" "sc_IsIdle (add_handling k w) = sc_IsIdle w"
  "sc_handling_idle (add_handling k w) = sc_handling_idle w + k"
  "inputs_remaining (add_handling k w) = inputs_remaining w"
  "HasPendingInput n (add_handling k w) = HasPendingInput n w"
  "AllInputsDone n (add_handling k w) = AllInputsDone n w"
  "unfinalized (add_handling k w) n = unfinalized w n"
  by (simp_all add: add_handling_def sc_IsIdle_def inputs_remaining_def HasPendingInput_def
      AllInputsDone_def unfinalized_def split: option.split)

lemma HandleIdle_free:
  "sc_handling_idle w = 0 \<Longrightarrow>
   sc_HandleIdle uc w = add_handling (-1) (idle_body uc (add_handling 1 w))"
  by (simp add: sc_HandleIdle_def Let_def)

lemma CloseAllNodes_closed:
  "pk_nodes_closed (w_perf (sc_CloseAllNodes uc w)) =
     pk_nodes_closed (w_perf w) + int (length (sc_all_nodes w))"
proof -
  have "pk_nodes_closed (w_perf (fold (close_node uc) ns w)) =
      pk_nodes_closed (w_perf w) + int (length ns)" for ns
    by (induction ns arbitrary: w) (simp_all add: close_node_def Let_def split: prod.splits)
  then show ?thesis by (simp add: sc_CloseAllNodes_def)
qed

section \<open>Termination\<close>

text \<open>A consumer that still keeps the graph alive: a packet is queued, or it has not observed
  that its inputs are done.\<close>

definition keeps_alive :: "('v, 'u, 'z) world_scheme \<Rightarrow> nat \<Rightarrow> bool" where
  "keeps_alive w n \<longleftrightarrow>
     (input_port_count (w_nodes w ! n) \<noteq> 0 \<and> HasPendingInput n w) \<or> unfinalized w n"

lemma DrainInputQueues_scheduled:
  "fst (sc_DrainInputQueues w) = kScheduled \<longleftrightarrow> (\<exists>n\<in>set (sc_all_nodes w). keeps_alive w n)"
proof (cases "find (unfinalized w) (sc_all_nodes w)")
  case None
  then have "\<forall>n\<in>set (sc_all_nodes w). \<not> unfinalized w n"
    by (auto simp: find_None_iff)
  then show ?thesis
    using None by (auto simp: sc_DrainInputQueues_def Let_def list_ex_iff keeps_alive_def)
next
  case (Some m)
  then have "m \<in> set (sc_all_nodes w)" "unfinalized w m"
    by (auto simp: find_Some_iff)
  then show ?thesis
    using Some by (auto simp: sc_DrainInputQueues_def Let_def keeps_alive_def)
qed

lemma DrainInputQueues_part [simp]: "sched_part (snd (sc_DrainInputQueues w)) = sched_part w"
  by (auto simp: sc_DrainInputQueues_def Let_def intro: sched_part_fold split: option.splits)

lemmas drain_kept [simp] = sched_partD [OF DrainInputQueues_part]
lemmas reschedule_kept [simp] = sched_partD [OF sched_part_fold_reschedule]
lemmas close_kept [simp] = sched_partD [OF sched_part_close(2)]

lemma DrainInputQueues_done:
  "fst (sc_DrainInputQueues w) \<noteq> kScheduled \<Longrightarrow> snd (sc_DrainInputQueues w) = w"
  by (auto simp: sc_DrainInputQueues_def Let_def split: option.splits if_splits)

lemma idle_pass_running:
  assumes "sc_state w = kRunning" "\<not> sc_has_error w"
  shows "idle_pass uc w =
    (if sc_active_sources w \<noteq> [] then fold reschedule (map snd (sc_active_sources w)) w
     else if inputs_remaining w then w
     else if \<exists>n\<in>set (sc_all_nodes w). keeps_alive w n then snd (sc_DrainInputQueues w)
     else (stop_profiler (sc_CloseAllNodes uc w))\<lparr>sc_state := kTerminated\<rparr>)"
proof (cases "sc_active_sources w = [] \<and> \<not> inputs_remaining w")
  case True
  obtain d w2 where d: "sc_DrainInputQueues w = (d, w2)" by (cases "sc_DrainInputQueues w")
  have "d = kScheduled \<longleftrightarrow> (\<exists>n\<in>set (sc_all_nodes w). keeps_alive w n)"
    using DrainInputQueues_scheduled [of w] d by simp
  moreover have "d \<noteq> kScheduled \<Longrightarrow> w2 = w"
    using DrainInputQueues_done [of w] d by simp
  ultimately show ?thesis
    using True assms d by (auto simp: idle_pass_def Let_def)
next
  case False
  then show ?thesis using assms by (auto simp: idle_pass_def Let_def)
qed

lemma reschedule_user [simp]: "w_user (reschedule n w) = w_user w"
  by (simp add: reschedule_def sq_AddNode_def submit_if_def AddNode_locked_def Let_def upd_queue_def
      upd_node_def SubmitToExecutor_def Submit_task_def Submit_locked_def split: option.splits)

lemma fold_reschedule_user [simp]: "w_user (fold reschedule ns w) = w_user w"
  by (induction ns arbitrary: w) simp_all

lemma drain_user [simp]: "w_user (drain_one n w) = w_user w"
  by (simp add: drain_one_def sq_AddNode_def submit_if_def AddNode_locked_def Let_def upd_queue_def
      upd_node_def SubmitToExecutor_def Submit_task_def Submit_locked_def split: option.splits)

lemma DrainInputQueues_user [simp]: "w_user (snd (sc_DrainInputQueues w)) = w_user w"
proof -
  have "w_user (fold drain_one ns v) = w_user v" for ns v
    by (induction ns arbitrary: v) simp_all
  then show ?thesis by (auto simp: sc_DrainInputQueues_def Let_def split: option.splits)
qed

lemma CloseAllNodes_queues [simp]: "w_queues (sc_CloseAllNodes uc w) = w_queues w"
proof -
  have "w_queues (fold (close_node uc) ns w) = w_queues w" for ns
    by (induction ns arbitrary: w) (simp_all add: close_node_def Let_def split: prod.splits)
  then show ?thesis by (simp add: sc_CloseAllNodes_def)
qed


text \<open>Node code that does nothing and succeeds, for concrete runs.\<close>

definition idle_code :: "('v, unit) user_code" where
  "idle_code =
     \<lparr>uc_open = (\<lambda>n c u. (ok_status, c, u)), uc_process = (\<lambda>n c u. (ok_status, c, u)),
      uc_close = (\<lambda>n c u. (ok_status, c, u))\<rparr>"

text \<open>A running graph of one source, which has stopped.\<close>

definition stopped_source :: "(int, unit) world" where
  "stopped_source =
     (Scheduler_new ())\<lparr>sc_state := kRunning, w_nodes := [node_new 7 ''s''], sc_all_nodes := [0]\<rparr>"

lemma stopped_source_simps [simp]:
  "sc_handling_idle stopped_source = 0" "sc_state stopped_source = kRunning"
  "\<not> sc_has_error stopped_source" "sc_IsIdle stopped_source"
  "sc_active_sources stopped_source = []" "\<not> inputs_remaining stopped_source"
  "sc_all_nodes stopped_source = [0]" "sc_all_queues stopped_source = [0]"
  "w_nodes stopped_source = [node_new 7 ''s'']" "w_perf stopped_source = perf_counters0"
  "w_queues stopped_source = [sq_new ''default'']" "w_pools stopped_source = []"
  by (simp_all add: stopped_source_def Scheduler_new_def sc_IsIdle_def sq_IsIdle_def sq_new_def
      inputs_remaining_def)


section \<open>Cancel\<close>

lemma nth_fold_upd_queue:
  "(\<And>s. f (f s) = f s) \<Longrightarrow> q < length (w_queues w) \<Longrightarrow>
   w_queues (fold (\<lambda>q. upd_queue q f) qs w) ! q =
     (if q \<in> set qs then f (w_queues w ! q) else w_queues w ! q)"
proof (induction qs arbitrary: w)
  case (Cons x qs)
  then show ?case by (cases "q = x") auto
qed simp

lemma fold_upd_queue_frame:
  "w_pools (fold (\<lambda>q. upd_queue q f) qs w) = w_pools w"
  "w_user (fold (\<lambda>q. upd_queue q f) qs w) = w_user w"
  "w_log (fold (\<lambda>q. upd_queue q f) qs w) = w_log w"
  "w_perf (fold (\<lambda>q. upd_queue q f) qs w) = w_perf w"
  by (induction qs arbitrary: w) (simp_all add: upd_queue_def)

lemma fold_upd_queue_part [simp]: "sched_part (fold (\<lambda>q. upd_queue q f) qs w) = sched_part w"
  by (rule sched_part_fold) simp

lemma Cancel_run:
  assumes "sc_handling_idle w = 0" "\<not> sc_has_error w"
  shows "sc_Cancel uc w =
    add_handling (-1) ((cleanup_queues (add_handling 1
      (w\<lparr>sc_has_error := True, sc_state := kCancelling\<rparr>)))\<lparr>sc_state := kTerminated\<rparr>)"
  using assms by (simp add: sc_Cancel_def Let_def HandleIdle_free idle_body_def)



section \<open>Pause and Resume\<close>

text \<open>Work only grows: queues and pools keep what they hold and get more at the end.\<close>

definition grows :: "('v, 'u, 'z) world_scheme \<Rightarrow> ('v, 'u, 'z) world_scheme \<Rightarrow> bool" where
  "grows w w' \<longleftrightarrow>
     length (w_queues w') = length (w_queues w) \<and> length (w_pools w') = length (w_pools w) \<and>
     (\<forall>q < length (w_queues w).
        sq_running (w_queues w' ! q) = sq_running (w_queues w ! q) \<and>
        sq_executor (w_queues w' ! q) = sq_executor (w_queues w ! q) \<and>
        prefix (sq_items (w_queues w ! q)) (sq_items (w_queues w' ! q))) \<and>
     (\<forall>e < length (w_pools w). prefix (tp_tasks (w_pools w ! e)) (tp_tasks (w_pools w' ! e)))"

lemma grows_refl [simp]: "grows w w"
  by (simp add: grows_def)

lemma grows_trans: "grows w w' \<Longrightarrow> grows w' w'' \<Longrightarrow> grows w w''"
  by (auto simp: grows_def intro: prefix_order.trans)

lemma grows_same:
  "w_queues w' = w_queues w \<Longrightarrow> w_pools w' = w_pools w \<Longrightarrow> grows w w'"
  by (simp add: grows_def)

lemma grows_fold: "(\<And>x w. grows w (f x w)) \<Longrightarrow> grows w (fold f xs w)"
  by (induction xs arbitrary: w) (auto intro: grows_trans)

lemma grows_upd_queue:
  "(\<And>s. sq_running (f s) = sq_running s \<and> sq_executor (f s) = sq_executor s \<and>
      prefix (sq_items s) (sq_items (f s))) \<Longrightarrow> grows w (upd_queue q f w)"
  by (auto simp: grows_def upd_queue_def nth_update_at)

lemma grows_Submit_task: "grows w (Submit_task q e w)"
  by (auto simp: grows_def nth_update_at pool_AddTask_def pool_Schedule_def)

lemma grows_SubmitToExecutor: "grows w (SubmitToExecutor q w)"
proof -
  have "grows w (Submit_locked q w)"
    unfolding Submit_locked_def by (rule grows_upd_queue) simp
  then show ?thesis
    by (auto simp: SubmitToExecutor_def intro: grows_trans grows_Submit_task split: option.splits)
qed

lemma grows_submit_if: "grows w (snd r) \<Longrightarrow> grows w (submit_if q r)"
  by (auto simp: submit_if_def intro: grows_trans grows_SubmitToExecutor)

lemma grows_AddNode: "grows w (sq_AddNode q n w)"
proof -
  have push: "grows v (upd_queue q (sq_push i) v)" for i and v :: "('a, 'b, 'c) world_scheme"
    by (rule grows_upd_queue) simp
  have node: "grows w (upd_node m f w)" for m f by (rule grows_same) simp_all
  have "grows w (snd (AddNode_locked q n w))"
    using grows_trans [OF node push] push
    by (auto simp: AddNode_locked_def Let_def split: option.splits)
  then show ?thesis unfolding sq_AddNode_def by (rule grows_submit_if)
qed

lemma grows_reschedule: "grows w (reschedule n w)"
  by (auto simp: reschedule_def grows_AddNode split: option.splits)

lemma grows_drain: "grows w (snd (sc_DrainInputQueues w))"
proof -
  have "grows v (drain_one n v)" for n and v :: "('a, 'b, 'c) world_scheme"
    by (auto simp: drain_one_def grows_AddNode split: option.splits)
  then have "grows v (fold drain_one ns v)" for ns and v :: "('a, 'b, 'c) world_scheme"
    by (rule grows_fold)
  then show ?thesis
    by (auto simp: sc_DrainInputQueues_def Let_def grows_reschedule split: option.splits)
qed

lemma CloseAllNodes_pools [simp]: "w_pools (sc_CloseAllNodes uc w) = w_pools w"
proof -
  have "w_pools (fold (close_node uc) ns w) = w_pools w" for ns
    by (induction ns arbitrary: w) (simp_all add: close_node_def Let_def split: prod.splits)
  then show ?thesis by (simp add: sc_CloseAllNodes_def)
qed

lemma grows_HandleIdle:
  assumes "sc_state w = kRunning" "\<not> sc_has_error w" "sc_handling_idle w = 0"
  shows "grows w (sc_HandleIdle uc w)"
proof -
  let ?w = "add_handling 1 w"
  have "grows ?w (idle_body uc ?w)"
    using assms
    by (auto simp: idle_body_def idle_pass_running grows_drain stop_profiler_def
        intro: grows_fold [OF grows_reschedule] grows_same)
  then show ?thesis using assms by (simp add: HandleIdle_free grows_def)
qed

text \<open>Setting the running flag.\<close>

lemma SubmitToExecutor_frame:
  "length (w_queues (SubmitToExecutor q w)) = length (w_queues w)"
  "length (w_pools (SubmitToExecutor q w)) = length (w_pools w)"
  "p < length (w_queues w) \<Longrightarrow>
     sq_items (w_queues (SubmitToExecutor q w) ! p) = sq_items (w_queues w ! p) \<and>
     sq_executor (w_queues (SubmitToExecutor q w) ! p) = sq_executor (w_queues w ! p) \<and>
     sq_running (w_queues (SubmitToExecutor q w) ! p) = sq_running (w_queues w ! p)"
  by (auto simp: SubmitToExecutor_def Submit_locked_def upd_queue_def nth_update_at
      split: option.splits)

lemma SetRunning_frame:
  "length (w_queues (sq_SetRunning q r w)) = length (w_queues w)"
  "length (w_pools (sq_SetRunning q r w)) = length (w_pools w)"
  "p < length (w_queues w) \<Longrightarrow>
     sq_items (w_queues (sq_SetRunning q r w) ! p) = sq_items (w_queues w ! p) \<and>
     sq_executor (w_queues (sq_SetRunning q r w) ! p) = sq_executor (w_queues w ! p) \<and>
     sq_running (w_queues (sq_SetRunning q r w) ! p) =
       (if p = q then r else sq_running (w_queues w ! p))"
  by (auto simp: sq_SetRunning_def SetRunning_locked_def submit_if_def SubmitToExecutor_frame
      upd_queue_def nth_update_at)

lemma fold_SetRunning:
  "length (w_queues (fold (\<lambda>q. sq_SetRunning q r) qs w)) = length (w_queues w) \<and>
   length (w_pools (fold (\<lambda>q. sq_SetRunning q r) qs w)) = length (w_pools w) \<and>
   (p < length (w_queues w) \<longrightarrow>
     sq_items (w_queues (fold (\<lambda>q. sq_SetRunning q r) qs w) ! p) = sq_items (w_queues w ! p) \<and>
     sq_executor (w_queues (fold (\<lambda>q. sq_SetRunning q r) qs w) ! p) =
       sq_executor (w_queues w ! p) \<and>
     sq_running (w_queues (fold (\<lambda>q. sq_SetRunning q r) qs w) ! p) =
       (if p \<in> set qs then r else sq_running (w_queues w ! p)))"
  by (induction qs arbitrary: w) (auto simp: SetRunning_frame)

lemma SetQueuesRunning_part [simp]: "sched_part (sc_SetQueuesRunning r w) = sched_part w"
  unfolding sc_SetQueuesRunning_def by (rule sched_part_fold) simp

lemmas running_kept [simp] = sched_partD [OF SetQueuesRunning_part]

lemma stop_pools [simp]: "w_pools (sc_SetQueuesRunning False w) = w_pools w"
proof -
  have "w_pools (fold (\<lambda>q. sq_SetRunning q False) qs w) = w_pools w" for qs
    by (induction qs arbitrary: w)
      (simp_all add: sq_SetRunning_def SetRunning_locked_def submit_if_def)
  then show ?thesis by (simp add: sc_SetQueuesRunning_def)
qed

text \<open>Adding nodes to queues that are not running.\<close>

abbreviation add_nodes where
  "add_nodes adds w \<equiv> fold (\<lambda>(q, n). sq_AddNode q n) adds w"

lemma grows_add_nodes: "grows w (add_nodes adds w)"
  by (rule grows_fold) (auto simp: grows_AddNode)

lemma AddNode_stopped:
  "\<not> sq_running (w_queues w ! q) \<Longrightarrow> w_pools (sq_AddNode q n w) = w_pools w"
  by (simp add: sq_AddNode_def AddNode_locked_def submit_if_def Let_def split: option.splits)

lemma add_nodes_stopped:
  fixes w :: "('v, 'u, 'z) world_scheme"
  shows "\<forall>(q, n)\<in>set adds. q < length (w_queues w) \<and> \<not> sq_running (w_queues w ! q) \<Longrightarrow>
    w_pools (add_nodes adds w) = w_pools w"
proof (induction adds arbitrary: w)
  case (Cons a adds)
  obtain q n where a: "a = (q, n)" by (cases a)
  have "\<forall>(p, m)\<in>set adds. p < length (w_queues (sq_AddNode q n w)) \<and>
      \<not> sq_running (w_queues (sq_AddNode q n w) ! p)"
    using Cons.prems grows_AddNode [of w q n] by (fastforce simp: grows_def)
  from Cons.IH [OF this] show ?case using Cons.prems a AddNode_stopped [of w q n] by simp
qed simp

lemma add_nodes_part [simp]: "sched_part (add_nodes adds w) = sched_part w"
  by (rule sched_part_fold) auto

lemmas add_nodes_kept [simp] = sched_partD [OF add_nodes_part]

text \<open>Submitting the waiting items.\<close>

definition has_task :: "nat \<Rightarrow> nat \<Rightarrow> ('v, 'u, 'z) world_scheme \<Rightarrow> bool" where
  "has_task q e w \<longleftrightarrow> q \<in> set (tp_tasks (w_pools w ! e))"

definition waiting :: "nat \<Rightarrow> nat \<Rightarrow> ('v, 'u, 'z) world_scheme \<Rightarrow> bool" where
  "waiting q e w \<longleftrightarrow> q < length (w_queues w) \<and> e < length (w_pools w) \<and>
     sq_running (w_queues w ! q) \<and> sq_items (w_queues w ! q) \<noteq> [] \<and>
     sq_executor (w_queues w ! q) = Some e"

lemma waiting_grows: "waiting q e w \<Longrightarrow> grows w w' \<Longrightarrow> waiting q e w'"
  by (auto simp: waiting_def grows_def)

lemma has_task_grows: "has_task q e w \<Longrightarrow> waiting q e w \<Longrightarrow> grows w w' \<Longrightarrow> has_task q e w'"
  by (auto simp: has_task_def waiting_def grows_def dest: set_mono_prefix)

lemma grows_SubmitWaiting: "grows w (sq_SubmitWaitingTasksToExecutor q w)"
  by (simp add: sq_SubmitWaitingTasksToExecutor_def grows_submit_if)

lemma SubmitWaiting_has_task:
  "waiting q e w \<Longrightarrow> has_task q e (sq_SubmitWaitingTasksToExecutor q w)"
  by (auto simp: waiting_def has_task_def sq_SubmitWaitingTasksToExecutor_def submit_if_def
      SubmitToExecutor_def Submit_locked_def pool_AddTask_def pool_Schedule_def)

lemma fold_SubmitWaiting:
  "q \<in> set qs \<Longrightarrow> waiting q e w \<Longrightarrow> has_task q e (fold sq_SubmitWaitingTasksToExecutor qs w)"
proof (induction qs arbitrary: w)
  case (Cons p qs)
  let ?w = "sq_SubmitWaitingTasksToExecutor p w"
  have w: "waiting q e ?w" using Cons.prems waiting_grows grows_SubmitWaiting by blast
  show ?case
  proof (cases "p = q")
    case True
    have "grows ?w (fold sq_SubmitWaitingTasksToExecutor qs ?w)"
      by (rule grows_fold) (rule grows_SubmitWaiting)
    then show ?thesis
      using True SubmitWaiting_has_task [OF Cons.prems(2)] w has_task_grows by fastforce
  next
    case False
    then show ?thesis using Cons.IH [OF _ w] Cons.prems by simp
  qed
qed simp

lemma fold_SubmitWaiting_part [simp]:
  "sched_part (fold sq_SubmitWaitingTasksToExecutor qs w) = sched_part w"
  by (rule sched_part_fold) simp

lemmas submit_waiting_kept [simp] = sched_partD [OF fold_SubmitWaiting_part]

lemma Resume_paused:
  assumes "sc_state w = kPaused" "\<not> sc_has_error w" "sc_handling_idle w = 0"
    and "q \<in> set (sc_all_queues w)" "q < length (w_queues w)"
  shows "sq_running (w_queues (snd (sc_Resume uc w)) ! q) \<and>
    prefix (sq_items (w_queues w ! q)) (sq_items (w_queues (snd (sc_Resume uc w)) ! q)) \<and>
    (\<forall>e < length (w_pools w). sq_executor (w_queues w ! q) = Some e \<and>
       sq_items (w_queues w ! q) \<noteq> [] \<longrightarrow> has_task q e (snd (sc_Resume uc w)))"
proof -
  let ?w1 = "sc_SetQueuesRunning True (w\<lparr>sc_state := kRunning\<rparr>)"
  let ?w2 = "fold sq_SubmitWaitingTasksToExecutor (sc_all_queues ?w1) ?w1"
  have w1: "length (w_queues ?w1) = length (w_queues w)" "length (w_pools ?w1) = length (w_pools w)"
    "sq_running (w_queues ?w1 ! q)" "sq_items (w_queues ?w1 ! q) = sq_items (w_queues w ! q)"
    "sq_executor (w_queues ?w1 ! q) = sq_executor (w_queues w ! q)"
    using fold_SetRunning [of True "sc_all_queues w" "w\<lparr>sc_state := kRunning\<rparr>" q] assms(4,5)
    by (simp_all add: sc_SetQueuesRunning_def)
  have g2: "grows ?w1 ?w2" by (rule grows_fold) (rule grows_SubmitWaiting)
  have g3: "grows ?w2 (sc_HandleIdle uc ?w2)"
    using assms(2,3) by (intro grows_HandleIdle) simp_all
  have res: "snd (sc_Resume uc w) = sc_HandleIdle uc ?w2"
    using assms(1) by (simp add: sc_Resume_def Let_def)
  have "has_task q e (sc_HandleIdle uc ?w2)"
    if "e < length (w_pools w)" "sq_executor (w_queues w ! q) = Some e"
      "sq_items (w_queues w ! q) \<noteq> []" for e
  proof -
    have wait: "waiting q e ?w1" using that w1 assms(5) by (simp add: waiting_def)
    have "has_task q e ?w2" using wait assms(4) by (intro fold_SubmitWaiting) simp_all
    then show ?thesis using has_task_grows waiting_grows wait g2 g3 by blast
  qed
  moreover have "sq_running (w_queues (sc_HandleIdle uc ?w2) ! q)"
    "prefix (sq_items (w_queues w ! q)) (sq_items (w_queues (sc_HandleIdle uc ?w2) ! q))"
    using grows_trans [OF g2 g3] w1 assms(5) by (auto simp: grows_def)
  ultimately show ?thesis unfolding res by blast
qed

text \<open>
  C21: Pause and Resume lose no work: both are errors in any other state and change nothing
  then. After a Pause no node added to a queue makes a task for an executor, however many are
  added; a Resume makes every queue run again, keeps every queued item, and hands the executor
  a task for every queue that holds an item.
\<close>

theorem Pause_then_Resume:
  assumes "sc_handling_idle w = 0" "\<not> sc_has_error w"
    and "\<forall>q\<in>set (sc_all_queues w). q < length (w_queues w)"
    and "\<forall>(q, n)\<in>set adds. q \<in> set (sc_all_queues w)"
  shows "(sc_state w \<noteq> kRunning \<longrightarrow>
      sc_Pause w = (Status CFailedPrecondition ''Graph is not running'', w)) \<and>
    (sc_state w \<noteq> kPaused \<longrightarrow>
      sc_Resume uc w = (Status CFailedPrecondition ''Graph is not paused'', w)) \<and>
    (sc_state w = kRunning \<longrightarrow>
      (let w1 = snd (sc_Pause w); w2 = add_nodes adds w1; w3 = snd (sc_Resume uc w2)
       in sc_state w1 = kPaused \<and> w_pools w2 = w_pools w \<and> fst (sc_Resume uc w2) = ok_status \<and>
          (\<forall>q\<in>set (sc_all_queues w).
             prefix (sq_items (w_queues w ! q)) (sq_items (w_queues w2 ! q)) \<and>
             prefix (sq_items (w_queues w2 ! q)) (sq_items (w_queues w3 ! q)) \<and>
             sq_running (w_queues w3 ! q) \<and>
             (\<forall>e < length (w_pools w). sq_executor (w_queues w ! q) = Some e \<and>
                sq_items (w_queues w2 ! q) \<noteq> [] \<longrightarrow> q \<in> set (tp_tasks (w_pools w3 ! e))))))"
proof (cases "sc_state w = kRunning")
  case True
  let ?w1 = "sc_SetQueuesRunning False (w\<lparr>sc_state := kPaused\<rparr>)"
  let ?w2 = "add_nodes adds ?w1"
  have w1: "length (w_queues ?w1) = length (w_queues w)"
    "q < length (w_queues w) \<Longrightarrow> sq_items (w_queues ?w1 ! q) = sq_items (w_queues w ! q) \<and>
       sq_executor (w_queues ?w1 ! q) = sq_executor (w_queues w ! q)"
    "q \<in> set (sc_all_queues w) \<Longrightarrow> \<not> sq_running (w_queues ?w1 ! q)" for q
    using fold_SetRunning [of False "sc_all_queues w" "w\<lparr>sc_state := kPaused\<rparr>" q] assms(3)
    by (auto simp: sc_SetQueuesRunning_def)
  have g: "grows ?w1 ?w2" by (rule grows_add_nodes)
  have pools: "w_pools ?w2 = w_pools w"
    using add_nodes_stopped [of adds ?w1] assms(3,4) w1 by fastforce
  have q: "q < length (w_queues w)" "q < length (w_queues ?w2)" "q \<in> set (sc_all_queues ?w2)"
    "sq_executor (w_queues ?w2 ! q) = sq_executor (w_queues w ! q)"
    "prefix (sq_items (w_queues w ! q)) (sq_items (w_queues ?w2 ! q))"
    if "q \<in> set (sc_all_queues w)" for q
    using that assms(3) w1 g by (auto simp: grows_def)
  have p: "snd (sc_Pause w) = ?w1" using True by (simp add: sc_Pause_def)
  have s2: "sc_state ?w2 = kPaused" "\<not> sc_has_error ?w2" "sc_handling_idle ?w2 = 0"
    using assms by simp_all
  have "fst (sc_Resume uc ?w2) = ok_status" using s2 by (simp add: sc_Resume_def Let_def)
  then show ?thesis
    using True pools q Resume_paused [OF s2 q(3) q(2)]
    unfolding Let_def p by (auto simp: sc_Resume_def has_task_def)
qed (simp add: sc_Pause_def sc_Resume_def)

theorem Pause_then_Resume_witness:
  "let w2 = add_nodes [(0, Some 0)] (snd (sc_Pause stopped_source))
   in w_pools w2 = [] \<and> fst (sc_Resume idle_code w2) = ok_status"
  using Pause_then_Resume [of stopped_source "[(0, Some 0)]" idle_code] by (simp add: Let_def)

end
