(* ===== verification/Graph_Runtime.thy ===== *)
theory Graph_Runtime
  imports Scheduler
begin

text \<open>
  \<open>framework/public/graph_builder.cc\<close> and \<open>graph_runtime.{h,cc}\<close>: building a graph from its
  configuration, wiring its streams, and the calls of the public class. \<open>all_nodes_\<close> is
  \<open>w_nodes\<close>; the owned managers and handlers are the lists of \<open>w_net\<close> and \<open>w_ohs\<close>, in the order
  of their creation. The node registry, the addresses the allocator gives the nodes and the
  number of hardware threads are arguments. The model is of the first \<open>Initialize\<close> of a
  runtime: a second one destroys nodes that callbacks of the first still point to.
\<close>

section \<open>State\<close>

record ('v, 'u) runtime = "('v, 'u) world" +
  rt_config :: graph_config
  rt_has_scheduler :: bool
  rt_graph_input_set :: "string set"
  rt_num_open :: int
  rt_full :: "(int, nat list) omap"
  rt_closed_streams :: "string set"
  rt_graph_inputs :: "(string, nat) omap"
  rt_output_cbs :: "(string, nat) omap"
  rt_side_packets :: "(string, 'v packet) omap"
  rt_side_cbs :: "(string, nat) omap"
  rt_profiler_override :: profiler_config

definition GraphRuntime_new :: "'u \<Rightarrow> ('v, 'u) runtime" where
  "GraphRuntime_new u =
     world.extend (Scheduler_new u)
       \<lparr>rt_config = graph_config0, rt_has_scheduler = True, rt_graph_input_set = {},
        rt_num_open = 0, rt_full = [], rt_closed_streams = {}, rt_graph_inputs = [],
        rt_output_cbs = [], rt_side_packets = [], rt_side_cbs = [],
        rt_profiler_override = profiler_config0\<rparr>"

section \<open>Building\<close>

definition add_executor ::
  "int \<Rightarrow> executor_def \<Rightarrow> ('v, 'u, 'z) world_scheme \<Rightarrow> ('v, 'u, 'z) world_scheme" where
  "add_executor hw d w =
     (let executor = ThreadPoolExecutor_Create hw (ed_num_threads d)
      in if ed_name d = [] then snd (sc_SetDefaultExecutor executor w)
         else snd (sc_SetNonDefaultExecutor (ed_name d) executor w))"

fun create_nodes ::
  "registry \<Rightarrow> (nat \<Rightarrow> int) \<Rightarrow> node_def list \<Rightarrow> ('v, 'u, 'z) world_scheme \<Rightarrow>
     ('v, 'u, 'z) world_scheme status_or" where
  "create_nodes reg addr [] w = Inr w"
| "create_nodes reg addr (d # ds) w =
     (case rg_CreateByName (nd_type d) (nd_name d) (nd_options d) (addr (length (w_nodes w))) reg of
        None \<Rightarrow>
          Inl (Status CNotFound (''Node type not registered: '' @ nd_type d @ '' (node '' @ [CHR 0x27] @
                 nd_name d @ [CHR 0x27] @ '')''))
      | Some n \<Rightarrow>
          create_nodes reg addr ds
            (w\<lparr>w_nodes := w_nodes w @
                 [n\<lparr>n_executor_name := nd_executor d, n_source_layer := nd_source_layer d\<rparr>]\<rparr>))"

definition GraphBuilder_Build ::
  "registry \<Rightarrow> (nat \<Rightarrow> int) \<Rightarrow> int \<Rightarrow> 'u \<Rightarrow> graph_config \<Rightarrow> ('v, 'u) runtime status_or" where
  "GraphBuilder_Build reg addr hw u config =
     (let st = Validate config
      in if \<not> st_ok st then Inl st
         else
           let r0 = (GraphRuntime_new u)\<lparr>rt_config := config\<rparr>;
               r1 = fold (add_executor hw) (gc_executors config) r0;
               r2 = (if gc_executors config = []
                     then snd (sc_SetDefaultExecutor
                            (ThreadPoolExecutor_Create hw
                               (min hw (max 1 (int (length (gc_nodes config)))))) r1)
                     else r1)
           in create_nodes reg addr (gc_nodes config) r2)"

section \<open>Wiring\<close>

definition find_node :: "string \<Rightarrow> node list \<Rightarrow> nat option" where
  "find_node name nodes = find (\<lambda>i. n_name (nodes ! i) = name) [0..<length nodes]"

definition FindNode :: "string \<Rightarrow> ('v, 'u, 'z) world_scheme \<Rightarrow> nat option" where
  "FindNode name w = find_node name (w_nodes w)"

definition add_ism :: "'v ism \<Rightarrow> ('v, 'u, 'z) world_scheme \<Rightarrow> ('v, 'u, 'z) world_scheme" where
  "add_ism s w = w\<lparr>w_net := (w_net w)\<lparr>nt_ims := nt_ims (w_net w) @ [s]\<rparr>\<rparr>"

definition add_osm :: "'v osm \<Rightarrow> ('v, 'u, 'z) world_scheme \<Rightarrow> ('v, 'u, 'z) world_scheme" where
  "add_osm s w = w\<lparr>w_net := (w_net w)\<lparr>nt_oms := nt_oms (w_net w) @ [s]\<rparr>\<rparr>"

definition upd_ism ::
  "nat \<Rightarrow> ('v ism \<Rightarrow> 'v ism) \<Rightarrow> ('v, 'u, 'z) world_scheme \<Rightarrow> ('v, 'u, 'z) world_scheme" where
  "upd_ism m f w = w\<lparr>w_net := (w_net w)\<lparr>nt_ims := update_at m f (nt_ims (w_net w))\<rparr>\<rparr>"

definition upd_osm ::
  "nat \<Rightarrow> ('v osm \<Rightarrow> 'v osm) \<Rightarrow> ('v, 'u, 'z) world_scheme \<Rightarrow> ('v, 'u, 'z) world_scheme" where
  "upd_osm m f w = w\<lparr>w_net := (w_net w)\<lparr>nt_oms := update_at m f (nt_oms (w_net w))\<rparr>\<rparr>"

text \<open>One input queue per node and input edge; the map lists each node's managers.\<close>

type_synonym managers_of = "(string, nat list) omap"

definition add_input ::
  "nat \<Rightarrow> string \<Rightarrow> nat list \<times> ('v, 'u, 'z) world_scheme \<Rightarrow>
     nat list \<times> ('v, 'u, 'z) world_scheme" where
  "add_input n input_stream st =
     (let (managers, w) = st; m = length (nt_ims (w_net w));
          w1 = upd_node n (node_SetInputPort (PortName input_stream) m)
                 (add_ism (ism_new input_stream (-1)) w)
      in (managers @ [m], w1))"

definition init_node_inputs ::
  "node_def \<Rightarrow> managers_of \<times> ('v, 'u, 'z) world_scheme \<Rightarrow>
     managers_of \<times> ('v, 'u, 'z) world_scheme" where
  "init_node_inputs d st =
     (let (table, w) = st
      in case FindNode (nd_name d) w of
           None \<Rightarrow> (table, w)
         | Some n \<Rightarrow>
             let old = (case omap_get table (nd_name d) of Some ms \<Rightarrow> ms | None \<Rightarrow> []);
                 (managers, w1) = fold (add_input n) (nd_input_streams d) (old, w)
             in (omap_put (nd_name d) managers table, w1))"

definition count_graph_input ::
  "string \<Rightarrow> ('v, 'u, 'z) runtime_scheme \<Rightarrow> ('v, 'u, 'z) runtime_scheme" where
  "count_graph_input stream r =
     (if stream \<in> rt_graph_input_set r then r
      else r\<lparr>rt_graph_input_set := insert stream (rt_graph_input_set r),
             rt_num_open := rt_num_open r + 1\<rparr>)"

definition add_output ::
  "string \<Rightarrow> nat list \<times> ('v, 'u, 'z) world_scheme \<Rightarrow> nat list \<times> ('v, 'u, 'z) world_scheme" where
  "add_output output_stream st =
     (let (managers, w) = st
      in (managers @ [length (nt_oms (w_net w))], add_osm (osm_new output_stream) w))"

definition init_node_outputs ::
  "node_def \<Rightarrow> ('v, 'u, 'z) runtime_scheme \<Rightarrow> ('v, 'u, 'z) runtime_scheme" where
  "init_node_outputs d r =
     (if nd_output_streams d = [] then r
      else case FindNode (nd_name d) r of
             None \<Rightarrow> r
           | Some n \<Rightarrow>
               let (managers, r1) = fold add_output (nd_output_streams d) ([], r);
                   h = fold (\<lambda>(stream_name, cb). oh_SetOutputStreamCallback stream_name cb)
                         (rt_output_cbs r1) (oh_new managers)
               in upd_node n (\<lambda>x. x\<lparr>n_oh := Some (length (w_ohs r1))\<rparr>)
                    (r1\<lparr>w_ohs := w_ohs r1 @ [h]\<rparr>))"

text \<open>The callbacks of a queue: full and not full name the queue, arrival names the node.\<close>

definition wire_ism :: "nat \<Rightarrow> nat \<Rightarrow> ('v, 'u, 'z) world_scheme \<Rightarrow> ('v, 'u, 'z) world_scheme" where
  "wire_ism n m w =
     upd_ism m (\<lambda>s. ism_SetArrivalCallback (Some n) (ism_SetQueueSizeCallbacks (Some m) (Some m) s)) w"

definition wire_node_callbacks ::
  "managers_of \<Rightarrow> node_def \<Rightarrow> ('v, 'u, 'z) world_scheme \<Rightarrow> ('v, 'u, 'z) world_scheme" where
  "wire_node_callbacks table d w =
     (case FindNode (nd_name d) w of
        None \<Rightarrow> w
      | Some n \<Rightarrow>
          (case omap_get table (nd_name d) of
             None \<Rightarrow> w | Some managers \<Rightarrow> fold (wire_ism n) managers w))"

definition init_node_handler ::
  "managers_of \<Rightarrow> node_def \<Rightarrow> ('v, 'u, 'z) world_scheme \<Rightarrow> ('v, 'u, 'z) world_scheme" where
  "init_node_handler table d w =
     (if nd_input_streams d = [] then w
      else case FindNode (nd_name d) w of
             None \<Rightarrow> w
           | Some n \<Rightarrow>
               (case omap_get table (nd_name d) of
                  None \<Rightarrow> w
                | Some managers \<Rightarrow>
                    if managers = [] then w
                    else
                      let (h, ims) = ih_SetInputStreamManagers managers
                            (CreateInputStreamHandler (nd_input_stream_handler d) (nd_max_in_flight d))
                            (nt_ims (w_net w));
                          i = length (nt_ihs (w_net w))
                      in upd_node n (\<lambda>x. x\<lparr>n_ih := Some i\<rparr>)
                           (w\<lparr>w_net := (w_net w)\<lparr>nt_ims := ims, nt_ihs := nt_ihs (w_net w) @ [h]\<rparr>\<rparr>)))"

text \<open>\<open>output_by_stream\<close>: for each stream name the manager of its last producer.\<close>

definition node_outputs ::
  "('v, 'u, 'z) world_scheme \<Rightarrow> node_def \<Rightarrow> (string, nat) omap \<Rightarrow> (string, nat) omap" where
  "node_outputs w d table =
     (case FindNode (nd_name d) w of
        None \<Rightarrow> table
      | Some n \<Rightarrow>
          (case n_oh (w_nodes w ! n) of
             None \<Rightarrow> table
           | Some h \<Rightarrow>
               fold (\<lambda>(output_stream, m). omap_put (StreamName output_stream) m)
                 (zip (nd_output_streams d) (oh_managers (w_ohs w ! h))) table))"

definition add_graph_input ::
  "string \<Rightarrow> (string, nat) omap \<times> ('v, 'u, 'z) runtime_scheme \<Rightarrow>
     (string, nat) omap \<times> ('v, 'u, 'z) runtime_scheme" where
  "add_graph_input stream st =
     (let (table, r) = st; m = length (nt_oms (w_net r))
      in (omap_put stream m table,
          (add_osm (osm_new stream) r)\<lparr>rt_graph_inputs := omap_put stream m (rt_graph_inputs r)\<rparr>))"

definition wire_mirror ::
  "(string, nat) omap \<Rightarrow> nat \<Rightarrow> nat \<times> string \<Rightarrow> ('v, 'u, 'z) world_scheme \<Rightarrow>
     ('v, 'u, 'z) world_scheme" where
  "wire_mirror table h edge w =
     (case edge of (i, input_stream) \<Rightarrow>
        (case omap_get table (StreamName input_stream) of
           Some m \<Rightarrow> upd_osm m (osm_AddMirror (Some h) (int i)) w
         | None \<Rightarrow> w))"

definition wire_node_mirrors ::
  "(string, nat) omap \<Rightarrow> node_def \<Rightarrow> ('v, 'u, 'z) world_scheme \<Rightarrow> ('v, 'u, 'z) world_scheme" where
  "wire_node_mirrors table d w =
     (if nd_input_streams d = [] then w
      else case FindNode (nd_name d) w of
             None \<Rightarrow> w
           | Some n \<Rightarrow>
               (case n_ih (w_nodes w ! n) of
                  None \<Rightarrow> w
                | Some h \<Rightarrow> fold (wire_mirror table h) (enumerate 0 (nd_input_streams d)) w))"

text \<open>What \<open>Initialize\<close> does once the graph is built; \<open>clock\<close> is what the real clock will read.\<close>

definition wire_graph ::
  "int list \<Rightarrow> graph_config \<Rightarrow> ('v, 'u, 'z) runtime_scheme \<Rightarrow> ('v, 'u, 'z) runtime_scheme" where
  "wire_graph clock config r =
     (let nodes = gc_nodes config;
          r1 = sc_SetNodes [0..<length (w_nodes r)] r;
          prof = pf_Initialize (gc_profiler_config config) (map n_name (w_nodes r1))
                   (pf_SetClock clock profiler_new);
          r2 = sc_SetProfiler (Some prof) r1;
          (table, r3) = fold init_node_inputs nodes ([], r2);
          r4 = fold count_graph_input (gc_input_streams config) r3;
          r5 = sc_SetTotalGraphInputStreams (rt_num_open r4) r4;
          r6 = fold init_node_outputs nodes r5;
          r7 = fold (wire_node_callbacks table) nodes r6;
          r8 = fold (init_node_handler table) nodes r7;
          by_stream = fold (node_outputs r8) nodes [];
          (by_stream', r9) = fold add_graph_input (gc_input_streams config) (by_stream, r8)
      in fold (wire_node_mirrors by_stream') nodes r9)"

definition Initialize ::
  "registry \<Rightarrow> (nat \<Rightarrow> int) \<Rightarrow> int \<Rightarrow> int list \<Rightarrow> graph_config \<Rightarrow> runtime_options \<Rightarrow>
     ('v, 'u) runtime \<Rightarrow> status \<times> ('v, 'u) runtime" where
  "Initialize reg addr hw clock config options r =
     (let r0 = r\<lparr>rt_config := config\<rparr>
      in case GraphBuilder_Build reg addr hw (w_user r) (Options_Apply options config) of
           Inl st \<Rightarrow> (st, r0)
         | Inr built \<Rightarrow>
             (ok_status,
              wire_graph clock config
                (world.extend ((world.truncate built)\<lparr>w_net := w_net r, w_ohs := w_ohs r,
                                                      w_log := w_log r\<rparr>)
                   (runtime.fields (rt_config r0) True (rt_graph_input_set r) (rt_num_open r)
                      (rt_full r) (rt_closed_streams r) (rt_graph_inputs r) (rt_output_cbs r)
                      (rt_side_packets r) (rt_side_cbs r) (rt_profiler_override r)))))"

section \<open>Backpressure\<close>

definition owner_of :: "nat \<Rightarrow> node list \<Rightarrow> node option" where
  "owner_of m nodes = find (\<lambda>n. m \<in> set (input_managers n)) nodes"

definition OnInputStreamFull ::
  "nat \<Rightarrow> ('v, 'u, 'z) runtime_scheme \<Rightarrow> ('v, 'u, 'z) runtime_scheme" where
  "OnInputStreamFull m r =
     (case owner_of m (w_nodes r) of
        None \<Rightarrow> r
      | Some n \<Rightarrow>
          let ms = (case omap_get (rt_full r) (n_addr n) of Some ms \<Rightarrow> ms | None \<Rightarrow> [])
          in r\<lparr>rt_full := omap_put (n_addr n) (List.insert m ms) (rt_full r)\<rparr>)"

definition OnInputStreamNotFull ::
  "('v, 'u) user_code \<Rightarrow> nat \<Rightarrow> ('v, 'u, 'z) runtime_scheme \<Rightarrow> ('v, 'u, 'z) runtime_scheme" where
  "OnInputStreamNotFull uc m r =
     sc_HandleIdle uc
       (r\<lparr>rt_full := map (\<lambda>(n, ms). (n, filter (\<lambda>x. x \<noteq> m) ms)) (rt_full r)\<rparr>)"

definition unthrottle :: "nat \<Rightarrow> ('v, 'u, 'z) world_scheme \<Rightarrow> ('v, 'u, 'z) world_scheme" where
  "unthrottle m w = upd_ism m (\<lambda>s. ism_SetMaxQueueSize (max 1 (ism_max_size s + 1)) s) w"

definition UnthrottleSources ::
  "('v, 'u, 'z) runtime_scheme \<Rightarrow> ('v, 'u, 'z) runtime_scheme" where
  "UnthrottleSources r =
     (fold unthrottle (concat (map snd (rt_full r))) r)\<lparr>rt_full := []\<rparr>"

definition IsNodeThrottled :: "nat \<Rightarrow> ('v, 'u, 'z) runtime_scheme \<Rightarrow> bool" where
  "IsNodeThrottled n r =
     (case omap_get (rt_full r) (n_addr (w_nodes r ! n)) of None \<Rightarrow> False | Some ms \<Rightarrow> ms \<noteq> [])"

text \<open>What the callbacks wired on the streams do.\<close>

definition runtime_event ::
  "('v, 'u) user_code \<Rightarrow> stream_event \<Rightarrow> ('v, 'u, 'z) runtime_scheme \<Rightarrow>
     ('v, 'u, 'z) runtime_scheme" where
  "runtime_event uc ev r =
     (case ev of
        PacketArrival n \<Rightarrow> reschedule n r
      | BecameFull m \<Rightarrow> OnInputStreamFull m r
      | BecameNotFull m \<Rightarrow> OnInputStreamNotFull uc m r)"

definition runtime_env ::
  "('v, 'u) user_code \<Rightarrow> ('v, 'u, ('v, 'u, 'z) runtime_scheme) env" where
  "runtime_env uc = sched_env uc (runtime_event uc)"

definition run_stream_events ::
  "('v, 'u) user_code \<Rightarrow> stream_event list \<Rightarrow> ('v, 'u, 'z) runtime_scheme \<Rightarrow>
     ('v, 'u, 'z) runtime_scheme" where
  "run_stream_events uc evs r = fold (runtime_event uc) evs r"

section \<open>Running\<close>

definition side_packet_set :: "(string, 'v packet) omap \<Rightarrow> 'v packet_set" where
  "side_packet_set m = fold (\<lambda>(tag, packet). ps_Set tag packet) m []"

definition not_initialized :: status where
  "not_initialized = Status CFailedPrecondition ''Graph not initialized''"

definition rt_Start ::
  "('v, 'u) user_code \<Rightarrow> ('v, 'u, 'z) runtime_scheme \<Rightarrow> status \<times> ('v, 'u, 'z) runtime_scheme" where
  "rt_Start uc r =
     (if \<not> rt_has_scheduler r then (not_initialized, r)
      else sc_Start uc (sc_SetInputSidePackets (side_packet_set (rt_side_packets r)) r))"

definition rt_Schedule ::
  "('v, 'u) user_code \<Rightarrow> ('v, 'u, 'z) runtime_scheme \<Rightarrow> status \<times> ('v, 'u, 'z) runtime_scheme" where
  "rt_Schedule uc r =
     (if \<not> rt_has_scheduler r then (not_initialized, r)
      else sc_Schedule uc (runtime_event uc)
             (sc_SetInputSidePackets (side_packet_set (rt_side_packets r)) r))"

definition rt_SetErrorCallback ::
  "bool \<Rightarrow> ('v, 'u, 'z) runtime_scheme \<Rightarrow> ('v, 'u, 'z) runtime_scheme" where
  "rt_SetErrorCallback cb r = (if rt_has_scheduler r then sc_SetErrorCallback cb r else r)"

definition rt_HasError :: "('v, 'u, 'z) runtime_scheme \<Rightarrow> bool" where
  "rt_HasError r \<longleftrightarrow> rt_has_scheduler r \<and> sc_has_error r"

definition rt_WaitUntilDone :: "('v, 'u, 'z) runtime_scheme \<Rightarrow> status option" where
  "rt_WaitUntilDone r = (if \<not> rt_has_scheduler r then Some ok_status else sc_WaitUntilDone r)"

definition rt_WaitForIdle :: "('v, 'u, 'z) runtime_scheme \<Rightarrow> status option" where
  "rt_WaitForIdle r = (if \<not> rt_has_scheduler r then Some ok_status else sc_WaitForIdle r)"

definition HasGraphFinished :: "('v, 'u, 'z) runtime_scheme \<Rightarrow> bool" where
  "HasGraphFinished r \<longleftrightarrow> rt_has_scheduler r \<and> sc_state r = kTerminated"

definition GetGraphState :: "('v, 'u, 'z) runtime_scheme \<Rightarrow> scheduler_state" where
  "GetGraphState r = (if rt_has_scheduler r then sc_state r else kNotStarted)"

definition rt_Shutdown :: "('v, 'u, 'z) runtime_scheme \<Rightarrow> ('v, 'u, 'z) runtime_scheme" where
  "rt_Shutdown r = (if rt_has_scheduler r then sc_Shutdown r else r)"

definition rt_Cancel ::
  "('v, 'u) user_code \<Rightarrow> ('v, 'u, 'z) runtime_scheme \<Rightarrow> ('v, 'u, 'z) runtime_scheme" where
  "rt_Cancel uc r = (if rt_has_scheduler r then sc_Cancel uc r else r)"

definition rt_Pause ::
  "('v, 'u, 'z) runtime_scheme \<Rightarrow> status \<times> ('v, 'u, 'z) runtime_scheme" where
  "rt_Pause r = (if \<not> rt_has_scheduler r then (not_initialized, r) else sc_Pause r)"

definition rt_Resume ::
  "('v, 'u) user_code \<Rightarrow> ('v, 'u, 'z) runtime_scheme \<Rightarrow> status \<times> ('v, 'u, 'z) runtime_scheme" where
  "rt_Resume uc r = (if \<not> rt_has_scheduler r then (not_initialized, r) else sc_Resume uc r)"

section \<open>Injecting packets\<close>

definition unknown_stream :: "string \<Rightarrow> status" where
  "unknown_stream stream_name = Status CNotFound (''Unknown input stream: '' @ stream_name)"

definition AddPacketToInputStream ::
  "('v, 'u) user_code \<Rightarrow> string \<Rightarrow> 'v packet \<Rightarrow> ('v, 'u, 'z) runtime_scheme \<Rightarrow>
     status \<times> ('v, 'u, 'z) runtime_scheme" where
  "AddPacketToInputStream uc stream_name packet r =
     (case omap_get (rt_graph_inputs r) stream_name of
        None \<Rightarrow> (unknown_stream stream_name, r)
      | Some m \<Rightarrow>
          let net = w_net r; mgr = nt_oms net ! m
          in if om_closed mgr
             then (Status CFailedPrecondition (''Input stream is closed: '' @ stream_name), r)
             else
               let shard = shard_AddPacket packet (oshard_new (Some m));
                   bound = osm_ComputeOutputTimestampBound shard ts_Min mgr;
                   (mgr', _, ims, evs) =
                     osm_PropagateUpdatesToMirrors (nt_ihs net) bound shard mgr (nt_ims net);
                   r1 = r\<lparr>w_net := net\<lparr>nt_ims := ims, nt_oms := (nt_oms net)[m := mgr']\<rparr>\<rparr>
               in (ok_status, sc_AddedPacketToInputStream uc (run_stream_events uc evs r1)))"

definition AddPacketToInputStream_indexed ::
  "('v, 'u) user_code \<Rightarrow> string \<Rightarrow> int \<Rightarrow> 'v packet \<Rightarrow> ('v, 'u, 'z) runtime_scheme \<Rightarrow>
     status \<times> ('v, 'u, 'z) runtime_scheme" where
  "AddPacketToInputStream_indexed uc tag index packet r =
     AddPacketToInputStream uc (tag @ '':'' @ dec_of_int index) packet r"

definition CloseInputStream ::
  "('v, 'u) user_code \<Rightarrow> string \<Rightarrow> ('v, 'u, 'z) runtime_scheme \<Rightarrow>
     status \<times> ('v, 'u, 'z) runtime_scheme" where
  "CloseInputStream uc stream_name r =
     (case omap_get (rt_graph_inputs r) stream_name of
        None \<Rightarrow> (unknown_stream stream_name, r)
      | Some m \<Rightarrow>
          if stream_name \<in> rt_closed_streams r then (ok_status, r)
          else
            let net = w_net r;
                (mgr', ims, evs) = osm_Close (nt_ihs net) (nt_oms net ! m) (nt_ims net);
                r1 = run_stream_events uc evs
                       (r\<lparr>w_net := net\<lparr>nt_ims := ims, nt_oms := (nt_oms net)[m := mgr']\<rparr>\<rparr>);
                r2 = r1\<lparr>rt_closed_streams := insert stream_name (rt_closed_streams r1)\<rparr>
            in (ok_status,
                sc_AddedPacketToInputStream uc (sc_IncClosedGraphInputStreams r2)))"

section \<open>Callbacks and side packets\<close>

definition on_handlers ::
  "(oh \<Rightarrow> oh) \<Rightarrow> ('v, 'u, 'z) runtime_scheme \<Rightarrow> ('v, 'u, 'z) runtime_scheme" where
  "on_handlers f r =
     r\<lparr>w_ohs := fold (\<lambda>n ohs. case n_oh n of Some h \<Rightarrow> update_at h f ohs | None \<Rightarrow> ohs)
                 (w_nodes r) (w_ohs r)\<rparr>"

definition rt_SetOutputStreamCallback ::
  "string \<Rightarrow> nat \<Rightarrow> ('v, 'u, 'z) runtime_scheme \<Rightarrow> ('v, 'u, 'z) runtime_scheme" where
  "rt_SetOutputStreamCallback stream_name cb r =
     on_handlers (oh_SetOutputStreamCallback stream_name cb)
       (r\<lparr>rt_output_cbs := omap_put stream_name cb (rt_output_cbs r)\<rparr>)"

definition rt_ClearOutputStreamCallback ::
  "string \<Rightarrow> ('v, 'u, 'z) runtime_scheme \<Rightarrow> ('v, 'u, 'z) runtime_scheme" where
  "rt_ClearOutputStreamCallback stream_name r =
     on_handlers (oh_ClearOutputStreamCallback stream_name)
       (r\<lparr>rt_output_cbs := omap_erase stream_name (rt_output_cbs r)\<rparr>)"

definition SetInputSidePacket ::
  "string \<Rightarrow> 'v packet \<Rightarrow> ('v, 'u, 'z) runtime_scheme \<Rightarrow> status \<times> ('v, 'u, 'z) runtime_scheme" where
  "SetInputSidePacket tag_name packet r =
     (ok_status, r\<lparr>rt_side_packets := omap_put tag_name packet (rt_side_packets r)\<rparr>)"

definition SetOutputSidePacketCallback ::
  "string \<Rightarrow> nat \<Rightarrow> ('v, 'u, 'z) runtime_scheme \<Rightarrow> ('v, 'u, 'z) runtime_scheme" where
  "SetOutputSidePacketCallback name cb r = r\<lparr>rt_side_cbs := omap_put name cb (rt_side_cbs r)\<rparr>"

definition SetProfilerConfig ::
  "profiler_config \<Rightarrow> ('v, 'u, 'z) runtime_scheme \<Rightarrow> ('v, 'u, 'z) runtime_scheme" where
  "SetProfilerConfig config r = r\<lparr>rt_profiler_override := config\<rparr>"

record node_profile =
  np_node_name :: string
  np_open_runtime_usec :: int
  np_close_runtime_usec :: int
  np_process_count :: int
  np_process_time_total_usec :: int
  np_process_time_mean_usec :: rat

definition GetNodeProfiles :: "('v, 'u, 'z) runtime_scheme \<Rightarrow> node_profile list" where
  "GetNodeProfiles r =
     (case w_prof r of
        None \<Rightarrow> []
      | Some p \<Rightarrow>
          map (\<lambda>(name, d).
                 \<lparr>np_node_name = name, np_open_runtime_usec = pn_open_runtime d,
                  np_close_runtime_usec = pn_close_runtime d,
                  np_process_count = hg_count (pn_process_runtime d),
                  np_process_time_total_usec = hg_total (pn_process_runtime d),
                  np_process_time_mean_usec = hg_mean (pn_process_runtime d)\<rparr>)
            (pf_GetNodeProfiles p))"

end
