(* ===== verification/Building.thy ===== *)
theory Building
  imports Graph_Runtime
begin

text \<open>
  What \<open>GraphBuilder::Build\<close> makes of a configuration: the nodes, in declaration order, and the
  queues with their executors.
\<close>

section \<open>Nodes\<close>

definition names :: "('v, 'u, 'z) world_scheme \<Rightarrow> string list" where
  "names w = map n_name (w_nodes w)"

lemma map_update_at: "(\<And>x. g (f x) = g x) \<Longrightarrow> map g (update_at n f xs) = map g xs"
  by (rule nth_equalityI) (auto simp: nth_update_at)

lemma rg_CreateByName_Some:
  "rg_CreateByName ty name opts a reg = Some n \<Longrightarrow>
   n_name n = name \<and> n_addr n = a \<and> n_oh n = None \<and> n_ih n = None \<and> n_pending n = 0 \<and>
   n_input_ports n = [] \<and> n_queue n = None"
  by (auto simp: rg_CreateByName_def factory_CreateNode_def Let_def node_new_def
      split: option.splits prod.splits if_splits)

lemma create_nodes_names:
  "create_nodes reg addr ds w = Inr w' \<Longrightarrow> names w' = names w @ map nd_name ds"
proof (induction ds arbitrary: w)
  case (Cons d ds)
  then show ?case
    by (auto simp: names_def dest!: rg_CreateByName_Some split: option.splits)
qed simp

lemma Options_Apply_streams [simp]:
  "map nd_name (gc_nodes (Options_Apply os c)) = map nd_name (gc_nodes c)"
  "map nd_input_streams (gc_nodes (Options_Apply os c)) = map nd_input_streams (gc_nodes c)"
  "map nd_output_streams (gc_nodes (Options_Apply os c)) = map nd_output_streams (gc_nodes c)"
  by (simp_all add: Options_Apply_def apply_overrides_def split: option.splits)

lemma Validate_unique_names: "st_ok (Validate c) \<Longrightarrow> distinct (map nd_name (gc_nodes c))"
  by (auto simp: Validate_def Let_def ValidateUniqueNames_def check_unique_ok split: if_splits)

lemma fold_add_executor_nodes [simp]:
  "w_nodes (fold (add_executor hw) es w) = w_nodes w"
  by (induction es arbitrary: w)
    (simp_all add: add_executor_def Let_def sc_SetDefaultExecutor_def sc_SetNonDefaultExecutor_def
      upd_queue_def)

lemma Build_names:
  assumes "GraphBuilder_Build reg addr hw u config = Inr r"
  shows "names r = map nd_name (gc_nodes config) \<and> distinct (map nd_name (gc_nodes config))"
proof -
  have ok: "st_ok (Validate config)"
    using assms by (auto simp: GraphBuilder_Build_def Let_def split: if_splits)
  obtain w where w: "create_nodes reg addr (gc_nodes config) w = Inr r" "w_nodes w = []"
    using assms
    by (auto simp: GraphBuilder_Build_def Let_def sc_SetDefaultExecutor_def upd_queue_def
        GraphRuntime_new_def Scheduler_new_def world.defs split: if_splits)
  show ?thesis
    using create_nodes_names [OF w(1)] w(2) Validate_unique_names [OF ok] by (simp add: names_def)
qed


lemma rg_CreateByName_None:
  "rg_CreateByName ty name opts a reg = None \<longleftrightarrow> \<not> rg_IsRegistered ty reg"
  by (simp add: rg_CreateByName_def rg_IsRegistered_def rg_GetFactory_def split: option.splits)

lemma create_nodes_Inr:
  "create_nodes reg addr ds w = Inr w' \<Longrightarrow>
   (\<forall>d\<in>set ds. rg_IsRegistered (nd_type d) reg) \<and>
   (\<exists>ns. w' = w\<lparr>w_nodes := w_nodes w @ ns\<rparr> \<and> map n_name ns = map nd_name ds \<and>
      map n_executor_name ns = map nd_executor ds \<and> map n_source_layer ns = map nd_source_layer ds)"
proof (induction ds arbitrary: w)
  case (Cons d ds)
  from Cons.prems obtain n where n: "rg_CreateByName (nd_type d) (nd_name d) (nd_options d)
      (addr (length (w_nodes w))) reg = Some n"
    and rest: "create_nodes reg addr ds (w\<lparr>w_nodes := w_nodes w @
      [n\<lparr>n_executor_name := nd_executor d, n_source_layer := nd_source_layer d\<rparr>]\<rparr>) = Inr w'"
    by (auto split: option.splits)
  have "rg_IsRegistered (nd_type d) reg"
    using n by (metis rg_CreateByName_None option.distinct(1))
  moreover note Cons.IH [OF rest] rg_CreateByName_Some [OF n]
  ultimately show ?case by fastforce
qed simp

lemma GraphRuntime_new_user [simp]: "w_user (GraphRuntime_new u) = u"
  by (simp add: GraphRuntime_new_def Scheduler_new_def world.defs)

lemma create_nodes_error: "create_nodes reg addr ds w = Inl st \<Longrightarrow> \<not> st_ok st"
  by (induction ds arbitrary: w) (auto split: option.splits)

lemma Build_error: "GraphBuilder_Build reg addr hw u config = Inl st \<Longrightarrow> \<not> st_ok st"
  by (auto simp: GraphBuilder_Build_def Let_def dest: create_nodes_error split: if_splits)


lemma create_nodes_Inl:
  "create_nodes reg addr ds w = Inl st \<Longrightarrow> \<exists>d\<in>set ds. \<not> rg_IsRegistered (nd_type d) reg"
  by (induction ds arbitrary: w) (auto simp: rg_CreateByName_None split: option.splits)

section \<open>Executors\<close>

text \<open>A queue of its own for the executor \<open>name\<close>, and every node that names it runs there.\<close>

definition has_queue :: "string \<Rightarrow> ('v, 'u, 'z) world_scheme \<Rightarrow> bool" where
  "has_queue name w \<longleftrightarrow>
     (\<exists>q < length (w_queues w). omap_get (sc_non_default_queues w) name = Some q \<and> q \<noteq> 0 \<and>
        sq_name (w_queues w ! q) = name \<and> sq_executor (w_queues w ! q) \<noteq> None)"

definition executors_ok :: "('v, 'u, 'z) world_scheme \<Rightarrow> bool" where
  "executors_ok w \<longleftrightarrow> 0 < length (w_queues w) \<and> omap_wf (sc_non_default_queues w)"

lemma add_executor_spec:
  assumes "executors_ok w"
  shows "executors_ok (add_executor hw d w) \<and>
    (sq_executor (w_queues (add_executor hw d w) ! 0) = None \<longleftrightarrow>
       ed_name d \<noteq> [] \<and> sq_executor (w_queues w ! 0) = None) \<and>
    (\<forall>s. (s = ed_name d \<and> s \<noteq> [] \<or> has_queue s w) \<longrightarrow> has_queue s (add_executor hw d w))"
proof (cases "ed_name d = []")
  case True
  then show ?thesis
    using assms
    by (auto simp: executors_ok_def add_executor_def Let_def sc_SetDefaultExecutor_def
        upd_queue_def has_queue_def nth_update_at)
next
  case False
  then show ?thesis
    using assms
    by (auto simp: executors_ok_def add_executor_def Let_def sc_SetNonDefaultExecutor_def
        has_queue_def nth_append omap_wf_put omap_get_put sq_new_def)
qed

lemma fold_add_executor:
  assumes "executors_ok w"
  shows "executors_ok (fold (add_executor hw) es w) \<and>
    (sq_executor (w_queues (fold (add_executor hw) es w) ! 0) = None \<longleftrightarrow>
       (\<forall>e\<in>set es. ed_name e \<noteq> []) \<and> sq_executor (w_queues w ! 0) = None) \<and>
    (\<forall>s. (s \<in> ed_name ` set es \<and> s \<noteq> [] \<or> has_queue s w) \<longrightarrow>
       has_queue s (fold (add_executor hw) es w))"
  using assms
proof (induction es arbitrary: w)
  case (Cons e es)
  note step = add_executor_spec [OF Cons.prems, of hw e]
  note IH = Cons.IH [OF conjunct1 [OF step]]
  show ?case
    using step IH by (auto 0 3)
qed simp

section \<open>Properties\<close>


definition demo_registry :: registry where
  "demo_registry = snd (rg_Register ''T'' \<lparr>f_GetContract = \<lambda>c. (ok_status, c)\<rparr> registry0)"

definition demo_config :: graph_config where
  "demo_config = graph_config0\<lparr>gc_input_streams := [''g''],
     gc_nodes :=
       [node_def0\<lparr>nd_name := ''a'', nd_type := ''T'', nd_output_streams := [''OUT:s'']\<rparr>,
        node_def0\<lparr>nd_name := ''b'', nd_type := ''T'', nd_input_streams := [''IN:s'', ''G:g'']\<rparr>,
        node_def0\<lparr>nd_name := ''c'', nd_type := ''T'', nd_input_streams := [''IN:s'']\<rparr>]\<rparr>"

lemma demo_valid: "st_ok (Validate demo_config)"
  by code_simp


lemma demo_registered: "\<forall>d\<in>set (gc_nodes demo_config). rg_IsRegistered (nd_type d) demo_registry"
  by code_simp

lemma demo_built:
  "\<exists>r. GraphBuilder_Build demo_registry addr hw u demo_config = Inr (r :: ('v, 'u) runtime)"
proof (cases "GraphBuilder_Build demo_registry addr hw u demo_config :: ('v, 'u) runtime status_or")
  case (Inl st)
  then show ?thesis
    using demo_registered demo_valid
    by (auto simp: GraphBuilder_Build_def Let_def dest: create_nodes_Inl split: if_splits)
qed blast


end
