(* ===== verification/Wiring.thy ===== *)
theory Wiring
  imports Building
begin

text \<open>
  What \<open>GraphRuntime::Initialize\<close> wires: the queues it creates, one per input edge in declaration
  order, the managers of the node outputs and the graph inputs, and the mirrors between them.
\<close>

section \<open>Views of the state\<close>

text \<open>The parts a step of the wiring leaves alone.\<close>

definition same_outputs :: "('v, 'u, 'z) world_scheme \<Rightarrow> ('v, 'u, 'z) world_scheme \<Rightarrow> bool" where
  "same_outputs w w' \<longleftrightarrow>
     map n_oh (w_nodes w') = map n_oh (w_nodes w) \<and> w_ohs w' = w_ohs w \<and>
     nt_oms (w_net w') = nt_oms (w_net w)"

definition same_inputs :: "('v, 'u, 'z) world_scheme \<Rightarrow> ('v, 'u, 'z) world_scheme \<Rightarrow> bool" where
  "same_inputs w w' \<longleftrightarrow>
     map n_ih (w_nodes w') = map n_ih (w_nodes w) \<and> nt_ihs (w_net w') = nt_ihs (w_net w) \<and>
     map ism_name (nt_ims (w_net w')) = map ism_name (nt_ims (w_net w))"

lemma same_refl [simp]: "same_outputs w w" "same_inputs w w"
  by (simp_all add: same_outputs_def same_inputs_def)

lemma same_trans:
  "same_outputs w w' \<Longrightarrow> same_outputs w' w'' \<Longrightarrow> same_outputs w w''"
  "same_inputs w w' \<Longrightarrow> same_inputs w' w'' \<Longrightarrow> same_inputs w w''"
  by (simp_all add: same_outputs_def same_inputs_def)

lemma names_upd_node:
  "(\<And>x. n_name (f x) = n_name x) \<Longrightarrow> names (upd_node n f w) = names w"
  by (simp add: names_def upd_node_def map_update_at)

lemma net_ops [simp]:
  "w_nodes (add_ism s w) = w_nodes w" "w_nodes (add_osm t w) = w_nodes w"
  "w_nodes (upd_ism m f w) = w_nodes w" "w_nodes (upd_osm m g w) = w_nodes w"
  "w_ohs (add_ism s w) = w_ohs w" "w_ohs (add_osm t w) = w_ohs w"
  "w_ohs (upd_ism m f w) = w_ohs w" "w_ohs (upd_osm m g w) = w_ohs w"
  "w_ohs (upd_node n h w) = w_ohs w" "w_net (upd_node n h w) = w_net w"
  "w_net (add_ism s w) = (w_net w)\<lparr>nt_ims := nt_ims (w_net w) @ [s]\<rparr>"
  "w_net (add_osm t w) = (w_net w)\<lparr>nt_oms := nt_oms (w_net w) @ [t]\<rparr>"
  "w_net (upd_ism m f w) = (w_net w)\<lparr>nt_ims := update_at m f (nt_ims (w_net w))\<rparr>"
  "w_net (upd_osm m g w) = (w_net w)\<lparr>nt_oms := update_at m g (nt_oms (w_net w))\<rparr>"
  by (simp_all add: add_ism_def add_osm_def upd_ism_def upd_osm_def upd_node_def)

lemma names_ops [simp]:
  "names (add_ism s w) = names w" "names (add_osm t w) = names w"
  "names (upd_ism m f w) = names w" "names (upd_osm m g w) = names w"
  by (simp_all add: names_def)

lemma FindNode_at:
  assumes "names w = map nd_name (pre @ d # post)" "distinct (map nd_name (pre @ d # post))"
  shows "FindNode (nd_name d) w = Some (length pre)"
proof -
  have len: "length pre < length (w_nodes w)"
    using arg_cong [OF assms(1), of length] by (simp add: names_def)
  have nth: "n_name (w_nodes w ! i) = map nd_name (pre @ d # post) ! i" if "i < length (w_nodes w)" for i
    using arg_cong [OF assms(1), of "\<lambda>xs. xs ! i"] that by (simp add: names_def)
  have "n_name (w_nodes w ! length pre) = nd_name d" using nth [OF len] by (simp add: nth_append)
  moreover have "n_name (w_nodes w ! j) \<noteq> nd_name d" if "j < length pre" for j
    using nth [of j] that len assms(2) by (auto simp: nth_append) (metis imageI nth_mem)
  ultimately show ?thesis
    using len unfolding FindNode_def find_node_def find_Some_iff
    by (intro exI [of _ "length pre"]) auto
qed

text \<open>Consecutive blocks of indices, one per node.\<close>

fun blocks :: "nat \<Rightarrow> string list list \<Rightarrow> nat list list" where
  "blocks k [] = []"
| "blocks k (xs # xss) = [k..<k + length xs] # blocks (k + length xs) xss"

lemma length_blocks [simp]: "length (blocks k xss) = length xss"
  by (induction xss arbitrary: k) auto

lemma blocks_append:
  "blocks k (xss @ yss) = blocks k xss @ blocks (k + length (concat xss)) yss"
  by (induction xss arbitrary: k) (simp_all add: add.assoc)

lemma zip_blocks:
  "concat (map (\<lambda>(b, xs). zip b xs) (zip (blocks k xss) xss)) =
     zip [k..<k + length (concat xss)] (concat xss)"
proof (induction xss arbitrary: k)
  case (Cons xs xss)
  have "[k..<k + length (concat (xs # xss))] =
      [k..<k + length xs] @ [k + length xs..<k + length xs + length (concat xss)]"
    using upt_add_eq_append [of k "k + length xs" "length (concat xss)"] by (simp add: add.assoc)
  then show ?case by (simp add: Cons.IH zip_append)
qed simp

lemma upt_Cons_length: "k # [Suc k..<Suc (k + n)] = [k..<Suc (k + n)]"
  by (simp add: upt_conv_Cons del: upt_Suc)

section \<open>Input queues\<close>

lemma add_input_step:
  "add_input n x (ms, w) = (ms @ [length (nt_ims (w_net w))],
     upd_node n (node_SetInputPort (PortName x) (length (nt_ims (w_net w))))
       (add_ism (ism_new x (-1)) w))"
  by (simp add: add_input_def Let_def)

lemma fold_add_input:
  "fold (add_input n) xs (ms, w) = (ms', w') \<Longrightarrow>
   ms' = ms @ [length (nt_ims (w_net w))..<length (nt_ims (w_net w)) + length xs] \<and>
   nt_ims (w_net w') = nt_ims (w_net w) @ map (\<lambda>s. ism_new s (-1)) xs \<and>
   names w' = names w \<and> same_outputs w w' \<and> nt_ihs (w_net w') = nt_ihs (w_net w) \<and>
   map n_ih (w_nodes w') = map n_ih (w_nodes w)"
proof (induction xs arbitrary: ms w)
  case (Cons x xs)
  let ?m = "length (nt_ims (w_net w))"
  let ?w1 = "upd_node n (node_SetInputPort (PortName x) ?m) (add_ism (ism_new x (-1)) w)"
  have "fold (add_input n) xs (ms @ [?m], ?w1) = (ms', w')"
    using Cons.prems by (simp add: add_input_step)
  from Cons.IH [OF this] show ?case
    by (auto simp: names_def node_SetInputPort_def same_outputs_def upd_node_def map_update_at
        upt_Cons_length simp del: upt_Suc)
qed simp

lemma fold_init_inputs:
  assumes "fold init_node_inputs xs (table, w) = (table', w')"
    and "names w = map nd_name (pre @ xs)" "distinct (map nd_name (pre @ xs))" "omap_wf table"
    and "\<forall>d\<in>set xs. omap_get table (nd_name d) = None"
  shows "nt_ims (w_net w') = nt_ims (w_net w) @
      map (\<lambda>s. ism_new s (-1)) (concat (map nd_input_streams xs)) \<and>
    names w' = names w \<and> same_outputs w w' \<and> nt_ihs (w_net w') = nt_ihs (w_net w) \<and>
    map n_ih (w_nodes w') = map n_ih (w_nodes w) \<and> omap_wf table' \<and>
    (\<forall>name. name \<notin> nd_name ` set xs \<longrightarrow> omap_get table' name = omap_get table name) \<and>
    (\<forall>(d, b)\<in>set (zip xs (blocks (length (nt_ims (w_net w))) (map nd_input_streams xs))).
       omap_get table' (nd_name d) = Some b)"
  using assms
proof (induction xs arbitrary: pre table w)
  case (Cons d xs)
  have f: "FindNode (nd_name d) w = Some (length pre)"
    by (rule FindNode_at [of w pre d xs]) (use Cons.prems in simp_all)
  obtain ms w1 where step: "fold (add_input (length pre)) (nd_input_streams d) ([], w) = (ms, w1)"
    by (cases "fold (add_input (length pre)) (nd_input_streams d) ([], w)") auto
  note s = fold_add_input [OF step]
  let ?t = "omap_put (nd_name d) ms table"
  have "init_node_inputs d (table, w) = (?t, w1)"
    using Cons.prems(5) f step by (simp add: init_node_inputs_def Let_def)
  then have rest: "fold init_node_inputs xs (?t, w1) = (table', w')"
    using Cons.prems(1) by simp
  have wf: "omap_wf ?t" using Cons.prems(4) by (rule omap_wf_put)
  have none: "\<forall>e\<in>set xs. omap_get ?t (nd_name e) = None"
    using Cons.prems(3-5) by (auto simp: omap_get_put) (metis imageI)
  have n1: "names w1 = map nd_name ((pre @ [d]) @ xs)" "distinct (map nd_name ((pre @ [d]) @ xs))"
    using s Cons.prems(2,3) by simp_all
  note IH = Cons.IH [OF rest n1 wf none]
  have "nd_name d \<notin> nd_name ` set xs" using Cons.prems(3) by auto
  then have "omap_get table' (nd_name d) = Some ms"
    using IH Cons.prems(4) by (simp add: omap_get_put)
  then show ?case
    using IH s same_trans(1) [of w w1 w'] Cons.prems(4) by (auto simp: omap_get_put)
qed simp

section \<open>Output managers\<close>

lemma add_output_step:
  "add_output x (ms, w) = (ms @ [length (nt_oms (w_net w))], add_osm (osm_new x) w)"
  by (simp add: add_output_def)

lemma fold_add_output:
  "fold add_output xs (ms, w) = (ms', w') \<Longrightarrow>
   ms' = ms @ [length (nt_oms (w_net w))..<length (nt_oms (w_net w)) + length xs] \<and>
   nt_oms (w_net w') = nt_oms (w_net w) @ map osm_new xs \<and>
   w_nodes w' = w_nodes w \<and> w_ohs w' = w_ohs w \<and> same_inputs w w' \<and>
   nt_ims (w_net w') = nt_ims (w_net w)"
proof (induction xs arbitrary: ms w)
  case (Cons x xs)
  let ?m = "length (nt_oms (w_net w))"
  have "fold add_output xs (ms @ [?m], add_osm (osm_new x) w) = (ms', w')"
    using Cons.prems by (simp add: add_output_step)
  from Cons.IH [OF this] show ?case by (auto simp: same_inputs_def upt_Cons_length simp del: upt_Suc)
qed simp

lemma fold_SetCallback_managers:
  "oh_managers (fold (\<lambda>(s, cb). oh_SetOutputStreamCallback s cb) cbs h) = oh_managers h"
  by (induction cbs arbitrary: h) (auto simp: oh_SetOutputStreamCallback_def)

text \<open>The output side of the nodes from \<open>pre\<close> on.\<close>

definition outputs_at ::
  "nat \<Rightarrow> node_def list \<Rightarrow> nat \<Rightarrow> ('v, 'u, 'z) world_scheme \<Rightarrow> bool" where
  "outputs_at p xs k w \<longleftrightarrow>
     (\<forall>i < length xs. nd_output_streams (xs ! i) \<noteq> [] \<longrightarrow>
        (\<exists>h < length (w_ohs w). n_oh (w_nodes w ! (p + i)) = Some h \<and>
           oh_managers (w_ohs w ! h) = blocks k (map nd_output_streams xs) ! i))"

lemma outputs_at_Cons:
  "outputs_at p (d # xs) k w \<longleftrightarrow>
     (nd_output_streams d \<noteq> [] \<longrightarrow>
        (\<exists>h < length (w_ohs w). n_oh (w_nodes w ! p) = Some h \<and>
           oh_managers (w_ohs w ! h) = [k..<k + length (nd_output_streams d)])) \<and>
     outputs_at (Suc p) xs (k + length (nd_output_streams d)) w"
  unfolding outputs_at_def by (simp add: All_less_Suc2)

lemma fold_init_outputs:
  assumes "names r = map nd_name (pre @ xs)" "distinct (map nd_name (pre @ xs))"
  shows "nt_oms (w_net (fold init_node_outputs xs r)) =
      nt_oms (w_net r) @ map osm_new (concat (map nd_output_streams xs)) \<and>
    names (fold init_node_outputs xs r) = names r \<and> same_inputs r (fold init_node_outputs xs r) \<and>
    nt_ims (w_net (fold init_node_outputs xs r)) = nt_ims (w_net r) \<and>
    (\<exists>hs. w_ohs (fold init_node_outputs xs r) = w_ohs r @ hs) \<and>
    (\<forall>i < length pre. n_oh (w_nodes (fold init_node_outputs xs r) ! i) = n_oh (w_nodes r ! i)) \<and>
    outputs_at (length pre) xs (length (nt_oms (w_net r))) (fold init_node_outputs xs r)"
  using assms
proof (induction xs arbitrary: pre r)
  case (Cons d xs)
  let ?r = "init_node_outputs d r"
  have f: "FindNode (nd_name d) r = Some (length pre)"
    by (rule FindNode_at [of r pre d xs]) (use Cons.prems in simp_all)
  have len: "length pre < length (w_nodes r)"
    using arg_cong [OF Cons.prems(1), of length] by (simp add: names_def)
  obtain ms r1 where step: "fold add_output (nd_output_streams d) ([], r) = (ms, r1)"
    by (cases "fold add_output (nd_output_streams d) ([], r)") auto
  note s = fold_add_output [OF step]
  have one: "nt_oms (w_net ?r) = nt_oms (w_net r) @ map osm_new (nd_output_streams d) \<and>
      names ?r = names r \<and> same_inputs r ?r \<and> nt_ims (w_net ?r) = nt_ims (w_net r) \<and>
      (\<exists>hs. w_ohs ?r = w_ohs r @ hs) \<and>
      (\<forall>i. i \<noteq> length pre \<longrightarrow> n_oh (w_nodes ?r ! i) = n_oh (w_nodes r ! i)) \<and>
      (nd_output_streams d \<noteq> [] \<longrightarrow> (\<exists>h < length (w_ohs ?r).
         n_oh (w_nodes ?r ! length pre) = Some h \<and> oh_managers (w_ohs ?r ! h) =
           [length (nt_oms (w_net r))..<length (nt_oms (w_net r)) + length (nd_output_streams d)]))"
    using s f step len
    by (auto simp: init_node_outputs_def Let_def names_def same_inputs_def upd_node_def
        map_update_at fold_SetCallback_managers oh_new_def nth_update_at)
  have n1: "names ?r = map nd_name ((pre @ [d]) @ xs)" "distinct (map nd_name ((pre @ [d]) @ xs))"
    using one Cons.prems by simp_all
  note IH = Cons.IH [OF n1]
  let ?r' = "fold init_node_outputs xs ?r"
  have keep: "n_oh (w_nodes ?r' ! length pre) = n_oh (w_nodes ?r ! length pre)"
    using IH by simp
  have mine: "nd_output_streams d \<noteq> [] \<longrightarrow> (\<exists>h < length (w_ohs ?r').
         n_oh (w_nodes ?r' ! length pre) = Some h \<and> oh_managers (w_ohs ?r' ! h) =
           [length (nt_oms (w_net r))..<length (nt_oms (w_net r)) + length (nd_output_streams d)])"
    using one IH keep by (metis length_append nth_append trans_less_add1)
  show ?case
    using one IH mine same_trans(2) [of r ?r ?r'] by (auto simp: outputs_at_Cons)
qed (auto simp: outputs_at_def)

section \<open>Callbacks\<close>

text \<open>What is kept of a queue when only its limit changes, and the callbacks of queue \<open>j\<close>.\<close>

definition ism_core where
  "ism_core s = (ism_name s, ism_queue s, ism_closed s, ism_next_bound s, ism_arrival_cb s,
     ism_full_cb s, ism_not_full_cb s)"

definition wired_ism :: "nat \<Rightarrow> nat \<Rightarrow> 'v ism \<Rightarrow> 'v ism" where
  "wired_ism n j s = s\<lparr>ism_arrival_cb := Some n, ism_full_cb := Some j, ism_not_full_cb := Some j\<rparr>"

lemma wire_ism_net:
  "w_net (wire_ism n m w) = (w_net w)\<lparr>nt_ims := update_at m (wired_ism n m) (nt_ims (w_net w))\<rparr>"
proof -
  have "(\<lambda>s. ism_SetArrivalCallback (Some n) (ism_SetQueueSizeCallbacks (Some m) (Some m) s)) =
      (wired_ism n m :: 'a ism \<Rightarrow> 'a ism)"
    by (rule ext) (simp add: wired_ism_def ism_SetArrivalCallback_def ism_SetQueueSizeCallbacks_def)
  then show ?thesis by (simp add: wire_ism_def)
qed

lemma fold_wire_ism:
  "names (fold (wire_ism n) ms w) = names w \<and> same_outputs w (fold (wire_ism n) ms w) \<and>
   same_inputs w (fold (wire_ism n) ms w) \<and>
   length (nt_ims (w_net (fold (wire_ism n) ms w))) = length (nt_ims (w_net w)) \<and>
   (\<forall>j < length (nt_ims (w_net w)). nt_ims (w_net (fold (wire_ism n) ms w)) ! j =
      (if j \<in> set ms then wired_ism n j (nt_ims (w_net w) ! j) else nt_ims (w_net w) ! j))"
proof (induction ms arbitrary: w)
  case (Cons m ms)
  let ?w = "wire_ism n m w"
  have "names ?w = names w" "same_outputs w ?w" "same_inputs w ?w"
    by (simp_all add: wire_ism_net same_outputs_def same_inputs_def map_update_at wired_ism_def)
      (simp_all add: wire_ism_def)
  then show ?case
    using Cons.IH [of ?w] same_trans [of w ?w "fold (wire_ism n) ms ?w"]
    by (auto simp: wire_ism_net nth_update_at wired_ism_def)
qed simp

text \<open>The callbacks of the queues of the nodes from \<open>p\<close> on.\<close>

definition wired_at ::
  "nat \<Rightarrow> node_def list \<Rightarrow> nat \<Rightarrow> ('v, 'u, 'z) world_scheme \<Rightarrow> bool" where
  "wired_at p xs k w \<longleftrightarrow>
     (\<forall>i < length xs. \<forall>j\<in>set (blocks k (map nd_input_streams xs) ! i).
        ism_arrival_cb (nt_ims (w_net w) ! j) = Some (p + i) \<and>
        ism_full_cb (nt_ims (w_net w) ! j) = Some j \<and>
        ism_not_full_cb (nt_ims (w_net w) ! j) = Some j)"

lemma wired_at_Cons:
  "wired_at p (d # xs) k w \<longleftrightarrow>
     (\<forall>j\<in>{k..<k + length (nd_input_streams d)}.
        ism_arrival_cb (nt_ims (w_net w) ! j) = Some p \<and>
        ism_full_cb (nt_ims (w_net w) ! j) = Some j \<and>
        ism_not_full_cb (nt_ims (w_net w) ! j) = Some j) \<and>
     wired_at (Suc p) xs (k + length (nd_input_streams d)) w"
  unfolding wired_at_def by (simp add: All_less_Suc2)

abbreviation table_ok where
  "table_ok table xs k \<equiv>
     (\<forall>(d, b)\<in>set (zip xs (blocks k (map nd_input_streams xs))). omap_get table (nd_name d) = Some b)"

lemma fold_wire_callbacks:
  assumes "names w = map nd_name (pre @ xs)" "distinct (map nd_name (pre @ xs))"
    and "table_ok table xs k"
    and "k + length (concat (map nd_input_streams xs)) \<le> length (nt_ims (w_net w))"
  shows "names (fold (wire_node_callbacks table) xs w) = names w \<and>
    same_outputs w (fold (wire_node_callbacks table) xs w) \<and>
    same_inputs w (fold (wire_node_callbacks table) xs w) \<and>
    (\<forall>j < k. j < length (nt_ims (w_net w)) \<longrightarrow>
       nt_ims (w_net (fold (wire_node_callbacks table) xs w)) ! j = nt_ims (w_net w) ! j) \<and>
    map ism_queue (nt_ims (w_net (fold (wire_node_callbacks table) xs w))) =
      map ism_queue (nt_ims (w_net w)) \<and>
    wired_at (length pre) xs k (fold (wire_node_callbacks table) xs w)"
  using assms
proof (induction xs arbitrary: pre k w)
  case (Cons d xs)
  let ?b = "[k..<k + length (nd_input_streams d)]"
  let ?w = "fold (wire_ism (length pre)) ?b w"
  let ?k = "k + length (nd_input_streams d)"
  have f: "FindNode (nd_name d) w = Some (length pre)"
    by (rule FindNode_at [of w pre d xs]) (use Cons.prems in simp_all)
  have step: "wire_node_callbacks table d w = ?w"
    using f Cons.prems(3) by (simp add: wire_node_callbacks_def)
  have s: "names ?w = names w" "same_outputs w ?w" "same_inputs w ?w"
    "length (nt_ims (w_net ?w)) = length (nt_ims (w_net w))"
    "j < length (nt_ims (w_net w)) \<Longrightarrow> nt_ims (w_net ?w) ! j =
      (if j \<in> set ?b then wired_ism (length pre) j (nt_ims (w_net w) ! j)
       else nt_ims (w_net w) ! j)" for j
    using fold_wire_ism [of "length pre" ?b w] by blast+
  have queues: "map ism_queue (nt_ims (w_net ?w)) = map ism_queue (nt_ims (w_net w))"
    by (rule nth_equalityI) (auto simp: s wired_ism_def)
  have n1: "names ?w = map nd_name ((pre @ [d]) @ xs)" "distinct (map nd_name ((pre @ [d]) @ xs))"
    using s Cons.prems by simp_all
  have t1: "table_ok table xs ?k" "?k + length (concat (map nd_input_streams xs)) \<le>
      length (nt_ims (w_net ?w))"
    using s Cons.prems(3,4) by auto
  note IH = Cons.IH [OF n1 t1]
  let ?w' = "fold (wire_node_callbacks table) xs ?w"
  have old: "nt_ims (w_net ?w') ! j = nt_ims (w_net ?w) ! j"
    if "j < ?k" "j < length (nt_ims (w_net w))" for j
    using IH that s(4) by simp
  have "wired_at (length pre) (d # xs) k ?w'"
    using IH old s(5) Cons.prems(4) by (simp add: wired_at_Cons wired_ism_def)
  moreover have "nt_ims (w_net ?w') ! j = nt_ims (w_net w) ! j"
    if "j < k" "j < length (nt_ims (w_net w))" for j
    using old [of j] s(5) [of j] that by simp
  ultimately show ?case
    using IH s(1-3) queues same_trans [of w ?w ?w'] unfolding fold_simps step by simp
qed (simp add: wired_at_def)

section \<open>Input handlers\<close>

definition handlers_at ::
  "nat \<Rightarrow> node_def list \<Rightarrow> nat \<Rightarrow> ('v, 'u, 'z) world_scheme \<Rightarrow> bool" where
  "handlers_at p xs k w \<longleftrightarrow>
     (\<forall>i < length xs. nd_input_streams (xs ! i) \<noteq> [] \<longrightarrow>
        (\<exists>h < length (nt_ihs (w_net w)). n_ih (w_nodes w ! (p + i)) = Some h \<and>
           ih_managers (nt_ihs (w_net w) ! h) = blocks k (map nd_input_streams xs) ! i))"

lemma handlers_at_Cons:
  "handlers_at p (d # xs) k w \<longleftrightarrow>
     (nd_input_streams d \<noteq> [] \<longrightarrow>
        (\<exists>h < length (nt_ihs (w_net w)). n_ih (w_nodes w ! p) = Some h \<and>
           ih_managers (nt_ihs (w_net w) ! h) = [k..<k + length (nd_input_streams d)])) \<and>
     handlers_at (Suc p) xs (k + length (nd_input_streams d)) w"
  unfolding handlers_at_def by (simp add: All_less_Suc2)

lemma set_max_sizes_core: "map ism_core (set_max_sizes n ms ims) = map ism_core ims"
proof (induction n ms ims rule: set_max_sizes.induct)
  case (2 n m ms ims)
  have "map ism_core (ims[m := ism_SetMaxQueueSize n (ims ! m)]) = map ism_core ims"
    by (rule nth_equalityI)
      (auto simp: nth_list_update_in ism_core_def ism_SetMaxQueueSize_def)
  then show ?case using 2 by simp
qed simp

lemma SetInputStreamManagers_spec:
  "ih_SetInputStreamManagers ms h ims = (h', ims') \<Longrightarrow>
   ih_managers h' = ms \<and> map ism_core ims' = map ism_core ims"
  by (auto simp: SetInputStreamManagers_defs set_max_sizes_core split: ih_class.splits)

lemma fold_init_handlers:
  assumes "names w = map nd_name (pre @ xs)" "distinct (map nd_name (pre @ xs))"
    and "table_ok table xs k"
  shows "names (fold (init_node_handler table) xs w) = names w \<and>
    same_outputs w (fold (init_node_handler table) xs w) \<and>
    map ism_core (nt_ims (w_net (fold (init_node_handler table) xs w))) =
      map ism_core (nt_ims (w_net w)) \<and>
    (\<exists>hs. nt_ihs (w_net (fold (init_node_handler table) xs w)) = nt_ihs (w_net w) @ hs) \<and>
    (\<forall>i < length pre. n_ih (w_nodes (fold (init_node_handler table) xs w) ! i) =
       n_ih (w_nodes w ! i)) \<and>
    handlers_at (length pre) xs k (fold (init_node_handler table) xs w)"
  using assms
proof (induction xs arbitrary: pre k w)
  case (Cons d xs)
  let ?b = "[k..<k + length (nd_input_streams d)]"
  let ?w = "init_node_handler table d w"
  have f: "FindNode (nd_name d) w = Some (length pre)"
    by (rule FindNode_at [of w pre d xs]) (use Cons.prems in simp_all)
  have len: "length pre < length (w_nodes w)"
    using arg_cong [OF Cons.prems(1), of length] by (simp add: names_def)
  have one: "names ?w = names w \<and> same_outputs w ?w \<and>
      map ism_core (nt_ims (w_net ?w)) = map ism_core (nt_ims (w_net w)) \<and>
      (\<exists>hs. nt_ihs (w_net ?w) = nt_ihs (w_net w) @ hs) \<and>
      (\<forall>i. i \<noteq> length pre \<longrightarrow> n_ih (w_nodes ?w ! i) = n_ih (w_nodes w ! i)) \<and>
      (nd_input_streams d \<noteq> [] \<longrightarrow> (\<exists>h < length (nt_ihs (w_net ?w)).
         n_ih (w_nodes ?w ! length pre) = Some h \<and> ih_managers (nt_ihs (w_net ?w) ! h) = ?b))"
  proof (cases "nd_input_streams d = []")
    case False
    obtain h ims where set: "ih_SetInputStreamManagers ?b
        (CreateInputStreamHandler (nd_input_stream_handler d) (nd_max_in_flight d))
        (nt_ims (w_net w)) = (h, ims)" by (meson surj_pair)
    have "?w = upd_node (length pre) (\<lambda>x. x\<lparr>n_ih := Some (length (nt_ihs (w_net w)))\<rparr>)
        (w\<lparr>w_net := (w_net w)\<lparr>nt_ims := ims, nt_ihs := nt_ihs (w_net w) @ [h]\<rparr>\<rparr>)"
      using False f Cons.prems(3) set by (simp add: init_node_handler_def Let_def del: upt_Suc)
    then show ?thesis
      using SetInputStreamManagers_spec [OF set] len
      by (simp add: names_def same_outputs_def upd_node_def map_update_at nth_update_at)
  qed (simp add: init_node_handler_def)
  have n1: "names ?w = map nd_name ((pre @ [d]) @ xs)" "distinct (map nd_name ((pre @ [d]) @ xs))"
    "table_ok table xs (k + length (nd_input_streams d))"
    using one Cons.prems by simp_all
  note IH = Cons.IH [OF n1]
  let ?w' = "fold (init_node_handler table) xs ?w"
  have keep: "n_ih (w_nodes ?w' ! length pre) = n_ih (w_nodes ?w ! length pre)"
    using IH by simp
  have mine: "nd_input_streams d \<noteq> [] \<longrightarrow> (\<exists>h < length (nt_ihs (w_net ?w')).
         n_ih (w_nodes ?w' ! length pre) = Some h \<and> ih_managers (nt_ihs (w_net ?w') ! h) = ?b)"
    using one IH keep by (metis length_append nth_append trans_less_add1)
  show ?case
    using one IH mine same_trans(1) [of w ?w ?w'] by (auto simp: handlers_at_Cons)
qed (auto simp: handlers_at_def)

section \<open>The table of producers\<close>

abbreviation put_all where
  "put_all kvs m \<equiv> fold (\<lambda>(k, v). omap_put k v) kvs m"

lemma put_all_map:
  "fold (\<lambda>(s, m). omap_put (f s) m) (zip xs ms) t = put_all (zip (map f xs) ms) t"
  by (induction xs ms arbitrary: t rule: list_induct2') auto

lemma fold_node_outputs:
  assumes "names w = map nd_name (pre @ xs)" "distinct (map nd_name (pre @ xs))"
    and "outputs_at (length pre) xs k w"
  shows "fold (node_outputs w) xs table =
    put_all (zip (map StreamName (concat (map nd_output_streams xs)))
      [k..<k + length (concat (map nd_output_streams xs))]) table"
  using assms
proof (induction xs arbitrary: pre k table)
  case (Cons d xs)
  let ?n = "length (nd_output_streams d)" and ?l = "length (concat (map nd_output_streams xs))"
  have f: "FindNode (nd_name d) w = Some (length pre)"
    by (rule FindNode_at [of w pre d xs]) (use Cons.prems in simp_all)
  have one: "node_outputs w d table =
      put_all (zip (map StreamName (nd_output_streams d)) [k..<k + ?n]) table"
  proof (cases "nd_output_streams d = []")
    case False
    then obtain h where "n_oh (w_nodes w ! length pre) = Some h"
      "oh_managers (w_ohs w ! h) = [k..<k + ?n]"
      using Cons.prems(3) unfolding outputs_at_Cons by blast
    then show ?thesis using f by (simp add: node_outputs_def put_all_map [of StreamName])
  qed (simp add: node_outputs_def split: option.splits)
  have "[k..<k + (?n + ?l)] = [k..<k + ?n] @ [k + ?n..<k + ?n + ?l]"
    using upt_add_eq_append [of k "k + ?n" ?l] by (simp add: add.assoc)
  moreover have "outputs_at (length (pre @ [d])) xs (k + ?n) w"
    using Cons.prems(3) by (simp add: outputs_at_Cons)
  ultimately show ?case
    using Cons.IH [of "pre @ [d]" "k + ?n" "node_outputs w d table"] Cons.prems(1,2)
    by (simp add: one zip_append)
qed simp

lemma fold_add_graph_input:
  "fold add_graph_input gs (table, r) = (table', r') \<Longrightarrow>
   table' = put_all (zip gs [length (nt_oms (w_net r))..<length (nt_oms (w_net r)) + length gs]) table \<and>
   rt_graph_inputs r' = put_all (zip gs [length (nt_oms (w_net r))..<
     length (nt_oms (w_net r)) + length gs]) (rt_graph_inputs r) \<and>
   nt_oms (w_net r') = nt_oms (w_net r) @ map osm_new gs \<and> w_nodes r' = w_nodes r \<and>
   nt_ihs (w_net r') = nt_ihs (w_net r) \<and> nt_ims (w_net r') = nt_ims (w_net r)"
proof (induction gs arbitrary: table r)
  case (Cons g gs)
  let ?m = "length (nt_oms (w_net r))"
  let ?r = "(add_osm (osm_new g) r)\<lparr>rt_graph_inputs := omap_put g ?m (rt_graph_inputs r)\<rparr>"
  have "add_graph_input g (table, r) = (omap_put g ?m table, ?r)"
    by (simp add: add_graph_input_def Let_def)
  then have "fold add_graph_input gs (omap_put g ?m table, ?r) = (table', r')"
    using Cons.prems by simp
  from Cons.IH [OF this] show ?case
    by (simp add: upt_Cons_length [symmetric] del: upt_Suc)
qed simp

text \<open>Looking a name up finds its last occurrence.\<close>

lemma map_of_rev_zip:
  "map_of (rev (zip xs [k..<k + length xs])) s = Some m \<longleftrightarrow>
   (\<exists>i < length xs. m = k + i \<and> xs ! i = s \<and> s \<notin> set (drop (Suc i) xs))"
proof (induction xs rule: rev_induct)
  case (snoc x xs)
  have z: "zip (xs @ [x]) [k..<k + length (xs @ [x])] = zip xs [k..<k + length xs] @ [(x, k + length xs)]"
    by (simp add: zip_append)
  show ?case
    unfolding z using snoc.IH by (auto simp: nth_append less_Suc_eq)
qed simp

lemma get_put_all_last:
  assumes "length ms = length xs" "ms = [0..<length xs]"
  shows "omap_get (put_all (zip xs ms) []) s = Some m \<longleftrightarrow>
    m < length xs \<and> xs ! m = s \<and> s \<notin> set (drop (Suc m) xs)"
  using map_of_rev_zip [of xs 0 s m]
  by (auto simp: omap.get_put_all assms split: option.splits)

section \<open>Mirrors\<close>

text \<open>The mirrors of manager \<open>m\<close> that one handler's edges add.\<close>

definition edges_to :: "(string, nat) omap \<Rightarrow> nat \<Rightarrow> nat \<Rightarrow> (nat \<times> string) list \<Rightarrow> mirror list" where
  "edges_to table h m es =
     map (\<lambda>(i, s). \<lparr>mi_handler = Some h, mi_id = int i\<rparr>)
       (filter (\<lambda>(i, s). omap_get table (StreamName s) = Some m) es)"

definition osm_rest where
  "osm_rest s = (om_spec s, om_next_bound s, om_closed s, om_num_added s)"

lemma fold_wire_mirror:
  "w_nodes (fold (wire_mirror table h) es w) = w_nodes w \<and>
   nt_ihs (w_net (fold (wire_mirror table h) es w)) = nt_ihs (w_net w) \<and>
   nt_ims (w_net (fold (wire_mirror table h) es w)) = nt_ims (w_net w) \<and>
   map osm_rest (nt_oms (w_net (fold (wire_mirror table h) es w))) =
     map osm_rest (nt_oms (w_net w)) \<and>
   (\<forall>m < length (nt_oms (w_net w)).
      om_mirrors (nt_oms (w_net (fold (wire_mirror table h) es w)) ! m) =
      om_mirrors (nt_oms (w_net w) ! m) @ edges_to table h m es)"
proof (induction es arbitrary: w)
  case (Cons e es)
  obtain i s where e: "e = (i, s)" by (cases e)
  let ?w = "wire_mirror table h e w"
  have rest: "map osm_rest (nt_oms (w_net ?w)) = map osm_rest (nt_oms (w_net w))"
    by (auto simp: wire_mirror_def e map_update_at osm_AddMirror_def osm_rest_def
        split: option.splits)
  have frame: "w_nodes ?w = w_nodes w" "nt_ihs (w_net ?w) = nt_ihs (w_net w)"
    "nt_ims (w_net ?w) = nt_ims (w_net w)" "length (nt_oms (w_net ?w)) = length (nt_oms (w_net w))"
    by (simp_all add: wire_mirror_def e split: option.splits)
  have "om_mirrors (nt_oms (w_net ?w) ! m) = om_mirrors (nt_oms (w_net w) ! m) @
      edges_to table h m [e]" if "m < length (nt_oms (w_net w))" for m
    using that by (auto simp: wire_mirror_def e edges_to_def nth_update_at osm_AddMirror_def
        split: option.splits)
  then show ?case
    using Cons.IH [of ?w] frame rest by (auto simp: edges_to_def)
qed (simp add: edges_to_def)

lemma mirror_targets_append:
  "mirror_targets ihs (xs @ ys) = mirror_targets ihs xs @ mirror_targets ihs ys"
  by (simp add: mirror_targets_def)

lemma targets_edges_to:
  assumes "\<forall>(i, s)\<in>set es. i < length (ih_managers (ihs ! h))"
  shows "mirror_targets ihs (edges_to table h m es) =
    map (\<lambda>(i, s). ih_managers (ihs ! h) ! i)
      (filter (\<lambda>(i, s). omap_get table (StreamName s) = Some m) es)"
  using assms
  by (induction es) (auto simp: edges_to_def valid_id_def ih_target_def)

lemma targets_block:
  assumes "ih_managers (ihs ! h) = [k..<k + length xs]"
  shows "mirror_targets ihs (edges_to table h m (enumerate 0 xs)) =
    map fst (filter (\<lambda>(j, s). omap_get table (StreamName s) = Some m) (zip [k..<k + length xs] xs))"
proof -
  have z: "zip [k..<k + length xs] xs = map (\<lambda>(i, s). (k + i, s)) (enumerate 0 xs)"
    by (rule nth_equalityI) (simp_all add: nth_enumerate_eq)
  have "mirror_targets ihs (edges_to table h m (enumerate 0 xs)) =
      map (\<lambda>(i, s). ih_managers (ihs ! h) ! i)
        (filter (\<lambda>(i, s). omap_get table (StreamName s) = Some m) (enumerate 0 xs))"
    using assms by (intro targets_edges_to) (auto simp: in_set_enumerate_eq)
  also have "\<dots> = map (\<lambda>(i, s). k + i)
      (filter (\<lambda>(i, s). omap_get table (StreamName s) = Some m) (enumerate 0 xs))"
    by (rule map_cong) (use assms in \<open>auto simp: in_set_enumerate_eq\<close>)
  finally show ?thesis
    unfolding z by (simp add: filter_map comp_def case_prod_unfold)
qed

definition edge_targets :: "(string, nat) omap \<Rightarrow> nat \<Rightarrow> nat \<Rightarrow> string list \<Rightarrow> nat list" where
  "edge_targets table m k ss =
     map fst (filter (\<lambda>(j, s). omap_get table (StreamName s) = Some m) (zip [k..<k + length ss] ss))"

lemma edge_targets_append:
  "edge_targets table m k (xs @ ys) =
     edge_targets table m k xs @ edge_targets table m (k + length xs) ys"
proof -
  have "[k..<k + (length xs + length ys)] = [k..<k + length xs] @ [k + length xs..<k + length xs + length ys]"
    using upt_add_eq_append [of k "k + length xs" "length ys"] by (simp add: add.assoc)
  then show ?thesis by (simp add: edge_targets_def zip_append)
qed

lemma fold_wire_mirrors:
  assumes "names w = map nd_name (pre @ xs)" "distinct (map nd_name (pre @ xs))"
    and "handlers_at (length pre) xs k w" "m < length (nt_oms (w_net w))"
  shows "w_nodes (fold (wire_node_mirrors table) xs w) = w_nodes w \<and>
    nt_ihs (w_net (fold (wire_node_mirrors table) xs w)) = nt_ihs (w_net w) \<and>
    nt_ims (w_net (fold (wire_node_mirrors table) xs w)) = nt_ims (w_net w) \<and>
    map osm_rest (nt_oms (w_net (fold (wire_node_mirrors table) xs w))) =
      map osm_rest (nt_oms (w_net w)) \<and>
    mirror_targets (nt_ihs (w_net w))
      (om_mirrors (nt_oms (w_net (fold (wire_node_mirrors table) xs w)) ! m)) =
    mirror_targets (nt_ihs (w_net w)) (om_mirrors (nt_oms (w_net w) ! m)) @
      edge_targets table m k (concat (map nd_input_streams xs))"
  using assms
proof (induction xs arbitrary: pre k w)
  case (Cons d xs)
  let ?w = "wire_node_mirrors table d w" and ?n = "length (nd_input_streams d)"
  have f: "FindNode (nd_name d) w = Some (length pre)"
    by (rule FindNode_at [of w pre d xs]) (use Cons.prems in simp_all)
  have one: "w_nodes ?w = w_nodes w \<and> nt_ihs (w_net ?w) = nt_ihs (w_net w) \<and>
      nt_ims (w_net ?w) = nt_ims (w_net w) \<and>
      map osm_rest (nt_oms (w_net ?w)) = map osm_rest (nt_oms (w_net w)) \<and>
      mirror_targets (nt_ihs (w_net w)) (om_mirrors (nt_oms (w_net ?w) ! m)) =
      mirror_targets (nt_ihs (w_net w)) (om_mirrors (nt_oms (w_net w) ! m)) @
        edge_targets table m k (nd_input_streams d)"
  proof (cases "nd_input_streams d = []")
    case False
    then obtain h where h: "n_ih (w_nodes w ! length pre) = Some h"
      "ih_managers (nt_ihs (w_net w) ! h) = [k..<k + ?n]"
      using Cons.prems(3) unfolding handlers_at_Cons by blast
    then have "?w = fold (wire_mirror table h) (enumerate 0 (nd_input_streams d)) w"
      using False f by (simp add: wire_node_mirrors_def)
    then show ?thesis
      using fold_wire_mirror [of table h "enumerate 0 (nd_input_streams d)" w] Cons.prems(4)
        targets_block [OF h(2), of table m]
      by (simp add: mirror_targets_append edge_targets_def)
  qed (simp add: wire_node_mirrors_def edge_targets_def)
  have len: "length (nt_oms (w_net ?w)) = length (nt_oms (w_net w))"
    using one by (metis length_map)
  have n1: "names ?w = map nd_name ((pre @ [d]) @ xs)" "distinct (map nd_name ((pre @ [d]) @ xs))"
    "m < length (nt_oms (w_net ?w))"
    using one len Cons.prems by (simp_all add: names_def)
  have h1: "handlers_at (length (pre @ [d])) xs (k + ?n) ?w"
    using Cons.prems(3) one by (simp add: handlers_at_Cons) (simp add: handlers_at_def)
  show ?case
    using one Cons.IH [OF n1(1,2) h1 n1(3)] by (simp add: edge_targets_append)
qed (simp add: edge_targets_def)

section \<open>Building and wiring\<close>

lemma fold_count_graph_input [simp]:
  "w_nodes (fold count_graph_input gs r) = w_nodes r"
  "w_net (fold count_graph_input gs r) = w_net r"
  "w_ohs (fold count_graph_input gs r) = w_ohs r"
  "rt_graph_inputs (fold count_graph_input gs r) = rt_graph_inputs r"
  by (induction gs arbitrary: r) (simp_all add: count_graph_input_def)

lemma runtime_extras [simp]:
  "rt_graph_inputs (add_ism s r) = rt_graph_inputs r"
  "rt_graph_inputs (add_osm t r) = rt_graph_inputs r"
  "rt_graph_inputs (upd_ism m f r) = rt_graph_inputs r"
  "rt_graph_inputs (upd_osm m g r) = rt_graph_inputs r"
  "rt_graph_inputs (upd_node n h r) = rt_graph_inputs r"
  by (simp_all add: add_ism_def add_osm_def upd_ism_def upd_osm_def upd_node_def)

lemma add_input_extras [simp]:
  "rt_graph_inputs (snd (fold (add_input n) xs (ms, r))) = rt_graph_inputs r"
  by (induction xs arbitrary: ms r) (simp_all add: add_input_step)

lemma fold_extras:
  "(\<And>x r. rt_graph_inputs (f x r) = rt_graph_inputs r) \<Longrightarrow>
   rt_graph_inputs (fold f xs r) = rt_graph_inputs r"
  by (induction xs arbitrary: r) simp_all

lemma init_node_inputs_extras:
  "rt_graph_inputs (snd (fold init_node_inputs ds (table, r))) = rt_graph_inputs r"
proof (induction ds arbitrary: table r)
  case (Cons d ds)
  have "rt_graph_inputs (snd (init_node_inputs d (table, r))) = rt_graph_inputs r"
    by (simp add: init_node_inputs_def split_beta Let_def split: option.splits)
  then show ?case
    using Cons.IH [of "fst (init_node_inputs d (table, r))" "snd (init_node_inputs d (table, r))"]
    by simp
qed simp

lemma add_output_extras [simp]:
  "rt_graph_inputs (snd (fold add_output xs (ms, r))) = rt_graph_inputs r"
  by (induction xs arbitrary: ms r) (simp_all add: add_output_step)

lemma init_node_outputs_extras: "rt_graph_inputs (init_node_outputs d r) = rt_graph_inputs r"
  by (simp add: init_node_outputs_def split_beta Let_def split: option.splits)

lemma wire_extras:
  "rt_graph_inputs (wire_node_callbacks table d r) = rt_graph_inputs r"
  "rt_graph_inputs (init_node_handler table d r) = rt_graph_inputs r"
  "rt_graph_inputs (wire_node_mirrors by_stream d r) = rt_graph_inputs r"
  by (auto simp: wire_node_callbacks_def init_node_handler_def wire_node_mirrors_def wire_ism_def
      wire_mirror_def split_beta Let_def intro!: fold_extras split: option.splits)

lemma sched_setters [simp]:
  "w_nodes (sc_SetNodes ns w) = w_nodes w" "w_net (sc_SetNodes ns w) = w_net w"
  "w_nodes (sc_SetProfiler p w) = w_nodes w" "w_net (sc_SetProfiler p w) = w_net w"
  "w_nodes (sc_SetTotalGraphInputStreams k w) = w_nodes w"
  "w_net (sc_SetTotalGraphInputStreams k w) = w_net w"
  by (simp_all add: sc_SetNodes_def sc_SetProfiler_def sc_SetTotalGraphInputStreams_def Let_def)

text \<open>
  The wiring of a graph, on the names of its input edges and of its output edges (the nodes'
  outputs, then the graph inputs), each in declaration order.
\<close>

definition edge_sources :: "graph_config \<Rightarrow> string list" where
  "edge_sources config =
     map StreamName (concat (map nd_output_streams (gc_nodes config))) @ gc_input_streams config"

definition edge_sinks :: "graph_config \<Rightarrow> string list" where
  "edge_sinks config = map StreamName (concat (map nd_input_streams (gc_nodes config)))"

lemma edge_targets_last:
  assumes "\<And>s m. omap_get table s = Some m \<longleftrightarrow>
      m < length outs \<and> outs ! m = s \<and> s \<notin> set (drop (Suc m) outs)"
    and "m < length outs"
  shows "edge_targets table m 0 ss =
    (if outs ! m \<in> set (drop (Suc m) outs) then []
     else filter (\<lambda>j. map StreamName ss ! j = outs ! m) [0..<length ss])"
proof -
  have "zip [0..<length ss] ss = map (\<lambda>j. (j, ss ! j)) [0..<length ss]"
    by (rule nth_equalityI) simp_all
  then have "edge_targets table m 0 ss =
      filter (\<lambda>j. omap_get table (StreamName (ss ! j)) = Some m) [0..<length ss]"
    by (simp add: edge_targets_def filter_map comp_def)
  also have "\<dots> = (if outs ! m \<in> set (drop (Suc m) outs) then []
      else filter (\<lambda>j. map StreamName ss ! j = outs ! m) [0..<length ss])"
    using assms by (auto intro!: filter_False filter_cong)
  finally show ?thesis .
qed

lemma wire_mirrors_frame:
  "w_nodes (fold (wire_node_mirrors table) ds w) = w_nodes w \<and>
   nt_ihs (w_net (fold (wire_node_mirrors table) ds w)) = nt_ihs (w_net w) \<and>
   nt_ims (w_net (fold (wire_node_mirrors table) ds w)) = nt_ims (w_net w) \<and>
   map osm_rest (nt_oms (w_net (fold (wire_node_mirrors table) ds w))) =
     map osm_rest (nt_oms (w_net w))"
proof (induction ds arbitrary: w)
  case (Cons d ds)
  have "w_nodes (wire_node_mirrors table d w) = w_nodes w \<and>
      nt_ihs (w_net (wire_node_mirrors table d w)) = nt_ihs (w_net w) \<and>
      nt_ims (w_net (wire_node_mirrors table d w)) = nt_ims (w_net w) \<and>
      map osm_rest (nt_oms (w_net (wire_node_mirrors table d w))) = map osm_rest (nt_oms (w_net w))"
    using fold_wire_mirror [of table _ "enumerate 0 (nd_input_streams d)" w]
    by (auto simp: wire_node_mirrors_def split: option.splits)
  then show ?case using Cons.IH [of "wire_node_mirrors table d w"] by simp
qed simp

lemma outputs_at_same:
  assumes "same_outputs w w'" "p + length xs \<le> length (w_nodes w)" "outputs_at p xs k w"
  shows "outputs_at p xs k w'"
proof -
  have "n_oh (w_nodes w' ! i) = n_oh (w_nodes w ! i)" if "i < length (w_nodes w)" for i
    using assms(1) that unfolding same_outputs_def by (metis length_map nth_map)
  then show ?thesis
    using assms unfolding outputs_at_def same_outputs_def by simp
qed

lemma blocks_bound: "i < length xss \<Longrightarrow> j \<in> set (blocks k xss ! i) \<Longrightarrow> j < k + length (concat xss)"
proof (induction xss arbitrary: i k)
  case (Cons xs xss)
  then show ?case by (cases i) fastforce+
qed simp

lemma wired_at_same:
  assumes "map ism_core (nt_ims (w_net w')) = map ism_core (nt_ims (w_net w))"
    and "k + length (concat (map nd_input_streams xs)) \<le> length (nt_ims (w_net w))"
    and "wired_at p xs k w"
  shows "wired_at p xs k w'"
proof -
  have core: "ism_core (nt_ims (w_net w') ! j) = ism_core (nt_ims (w_net w) ! j)"
    if "j < length (nt_ims (w_net w))" for j
    using assms(1) that by (metis length_map nth_map)
  have "j < length (nt_ims (w_net w))"
    if "i < length xs" "j \<in> set (blocks k (map nd_input_streams xs) ! i)" for i j
    using blocks_bound [of i "map nd_input_streams xs" j k] that assms(2) by simp
  then show ?thesis
    using assms(3) core unfolding wired_at_def by (auto simp: ism_core_def)
qed

text \<open>
  The passes over the nodes, in order: input streams, graph inputs counted, output streams,
  callbacks, handlers. What they leave behind, before any output is wired to a consumer.
\<close>

lemma node_passes:
  assumes nm: "names r2 = map nd_name nodes" "distinct (map nd_name nodes)"
    and new: "nt_ims (w_net r2) = []" "nt_oms (w_net r2) = []" "rt_graph_inputs r2 = []"
    and r3: "fold init_node_inputs nodes ([], r2) = (table, r3)"
    and r5: "r5 = sc_SetTotalGraphInputStreams (rt_num_open (fold count_graph_input gs r3)) (fold count_graph_input gs r3)"
    and r8: "r8 = fold (init_node_handler table) nodes (fold (wire_node_callbacks table) nodes
      (fold init_node_outputs nodes r5))"
  shows "names r8 = map nd_name nodes" "map ism_name (nt_ims (w_net r8)) = concat (map nd_input_streams nodes)"
    "wired_at 0 nodes 0 r8" "outputs_at 0 nodes 0 r8" "handlers_at 0 nodes 0 r8"
    "nt_oms (w_net r8) = map osm_new (concat (map nd_output_streams nodes))" "rt_graph_inputs r8 = []"
proof -
  let ?in = "concat (map nd_input_streams nodes)" and ?out = "concat (map nd_output_streams nodes)"
  have base: "names r2 = map nd_name ([] @ nodes)" "distinct (map nd_name ([] @ nodes))" using nm by simp_all
  have in_step: "nt_ims (w_net r3) = map (\<lambda>s. ism_new s (-1)) ?in" "names r3 = names r2"
      "same_outputs r2 r3" "table_ok table nodes 0"
    using fold_init_inputs [OF r3 base] new by simp_all
  have r5n: "names r5 = map nd_name ([] @ nodes)" "w_net r5 = w_net r3"
    using in_step base by (simp_all add: r5 names_def)
  define r6 where "r6 = fold init_node_outputs nodes r5"
  have oms5: "nt_oms (w_net r5) = []" using in_step(3) new r5n(2) by (simp add: same_outputs_def)
  have out_step: "nt_oms (w_net r6) = map osm_new ?out" "names r6 = map nd_name ([] @ nodes)"
      "nt_ims (w_net r6) = nt_ims (w_net r3)" "outputs_at 0 nodes 0 r6"
    using fold_init_outputs [OF r5n(1) base(2)] oms5 r5n unfolding r6_def by simp_all
  define r7 where "r7 = fold (wire_node_callbacks table) nodes r6"
  have "0 + length ?in \<le> length (nt_ims (w_net r6))" using in_step(1) out_step(3) by simp
  from fold_wire_callbacks [OF out_step(2) base(2) in_step(4) this]
  have cb_step: "names r7 = map nd_name ([] @ nodes)" "same_outputs r6 r7" "same_inputs r6 r7" "wired_at 0 nodes 0 r7"
    using out_step(2) unfolding r7_def by simp_all
  have r8: "r8 = fold (init_node_handler table) nodes r7" by (simp add: r8 r7_def r6_def)
  from fold_init_handlers [OF cb_step(1) base(2) in_step(4)]
  have ih_step: "names r8 = map nd_name ([] @ nodes)" "same_outputs r7 r8"
      "map ism_core (nt_ims (w_net r8)) = map ism_core (nt_ims (w_net r7))" "handlers_at 0 nodes 0 r8"
    using cb_step(1) unfolding r8 by simp_all
  have "map ism_name (nt_ims (w_net r8)) = map ism_name (nt_ims (w_net r7))"
    using arg_cong [OF ih_step(3), of "map fst"] by (simp add: comp_def ism_core_def)
  also have "\<dots> = map ism_name (nt_ims (w_net r6))" using cb_step(3) by (simp add: same_inputs_def)
  finally show names8: "map ism_name (nt_ims (w_net r8)) = ?in"
    using in_step(1) out_step(3) by (simp add: comp_def ism_new_def)
  show "wired_at 0 nodes 0 r8"
    using wired_at_same [OF ih_step(3) _ cb_step(4)] names8 ih_step(3) by (metis add_0 length_map order_refl)
  show "outputs_at 0 nodes 0 r8"
    using outputs_at_same [OF same_trans(1) [OF cb_step(2) ih_step(2)] _ out_step(4)]
      arg_cong [OF out_step(2), of length] by (simp add: names_def)
  show "nt_oms (w_net r8) = map osm_new ?out"
    using cb_step(2) ih_step(2) out_step(1) by (simp add: same_outputs_def)
  show "names r8 = map nd_name nodes" "handlers_at 0 nodes 0 r8" using ih_step by simp_all
  show "rt_graph_inputs r8 = []"
    using init_node_inputs_extras [of nodes "[]" r2] new r3
    by (simp add: r8 r7_def r6_def r5 fold_extras wire_extras init_node_outputs_extras
        sc_SetTotalGraphInputStreams_def)
qed

text \<open>The table of producers: the outputs of the nodes, then the graph inputs, the last one wins.\<close>

lemma producers_table:
  assumes "names r8 = map nd_name (gc_nodes config)" "distinct (map nd_name (gc_nodes config))"
    and "outputs_at 0 (gc_nodes config) 0 r8"
    and "nt_oms (w_net r8) = map osm_new (concat (map nd_output_streams (gc_nodes config)))"
    and r9: "fold add_graph_input (gc_input_streams config) (fold (node_outputs r8) (gc_nodes config) [], r8) = (by_stream, r9)"
  shows "by_stream = put_all (zip (edge_sources config) [0..<length (edge_sources config)]) []"
    "nt_oms (w_net r9) = map osm_new (concat (map nd_output_streams (gc_nodes config)) @ gc_input_streams config)"
proof -
  let ?out = "concat (map nd_output_streams (gc_nodes config))" and ?gs = "gc_input_streams config"
  have base: "names r8 = map nd_name ([] @ gc_nodes config)" "distinct (map nd_name ([] @ gc_nodes config))"
    using assms(1,2) by simp_all
  have table8: "fold (node_outputs r8) (gc_nodes config) [] = put_all (zip (map StreamName ?out) [0..<length ?out]) []"
    using fold_node_outputs [OF base] assms(3) by simp
  note gi = fold_add_graph_input [OF r9]
  show "nt_oms (w_net r9) = map osm_new (?out @ ?gs)" using gi assms(4) by simp
  have "zip (edge_sources config) [0..<length (edge_sources config)] =
      zip (map StreamName ?out) [0..<length ?out] @ zip ?gs [length ?out..<length ?out + length ?gs]"
    using upt_add_eq_append [of 0 "length ?out" "length ?gs"] by (simp add: edge_sources_def zip_append)
  then show "by_stream = put_all (zip (edge_sources config) [0..<length (edge_sources config)]) []"
    using gi table8 assms(4) by simp
qed

lemma mirror_pass:
  assumes nm: "names r9 = map nd_name (gc_nodes config)" "distinct (map nd_name (gc_nodes config))"
    and ih: "handlers_at 0 (gc_nodes config) 0 r9"
    and tab: "by_stream = put_all (zip (edge_sources config) [0..<length (edge_sources config)]) []"
    and oms: "nt_oms (w_net r9) = map osm_new (concat (map nd_output_streams (gc_nodes config)) @ gc_input_streams config)"
    and r': "r' = fold (wire_node_mirrors by_stream) (gc_nodes config) r9"
    and m: "m < length (edge_sources config)"
  shows "mirror_targets (nt_ihs (w_net r')) (om_mirrors (nt_oms (w_net r') ! m)) =
    (if edge_sources config ! m \<in> set (drop (Suc m) (edge_sources config)) then []
     else filter (\<lambda>j. edge_sinks config ! j = edge_sources config ! m) [0..<length (edge_sinks config)])"
proof -
  let ?in = "concat (map nd_input_streams (gc_nodes config))"
  have base: "names r9 = map nd_name ([] @ gc_nodes config)" "distinct (map nd_name ([] @ gc_nodes config))"
    using nm by simp_all
  note mirrors = fold_wire_mirrors [OF base, folded r', unfolded list.size]
  have ihs: "nt_ihs (w_net r') = nt_ihs (w_net r9)"
    using wire_mirrors_frame [of by_stream "gc_nodes config" r9] unfolding r' by simp
  have outs: "length (nt_oms (w_net r9)) = length (edge_sources config)" using oms by (simp add: edge_sources_def)
  have "om_mirrors (nt_oms (w_net r9) ! m) = []"
    using m unfolding oms edge_sources_def by (simp add: osm_new_def del: map_append)
  then have "mirror_targets (nt_ihs (w_net r')) (om_mirrors (nt_oms (w_net r') ! m)) =
      edge_targets by_stream m 0 ?in"
    using mirrors [of 0 m by_stream] ih m outs ihs by (simp add: r' mirror_targets_def)
  also have "\<dots> = (if edge_sources config ! m \<in> set (drop (Suc m) (edge_sources config)) then []
      else filter (\<lambda>j. map StreamName ?in ! j = edge_sources config ! m) [0..<length ?in])"
    by (rule edge_targets_last [OF _ m]) (unfold tab, rule get_put_all_last, simp_all)
  finally show ?thesis by (simp add: edge_sinks_def)
qed

lemma wire_graph_net:
  assumes nm: "names r = map nd_name (gc_nodes config)" "distinct (map nd_name (gc_nodes config))"
    and new: "nt_ims (w_net r) = []" "nt_oms (w_net r) = []" "rt_graph_inputs r = []"
    and r': "r' = wire_graph clock config r"
  shows "map ism_name (nt_ims (w_net r')) = concat (map nd_input_streams (gc_nodes config)) \<and>
    wired_at 0 (gc_nodes config) 0 r' \<and>
    length (nt_oms (w_net r')) = length (edge_sources config) \<and>
    (\<forall>m < length (edge_sources config).
       mirror_targets (nt_ihs (w_net r')) (om_mirrors (nt_oms (w_net r') ! m)) =
         (if edge_sources config ! m \<in> set (drop (Suc m) (edge_sources config)) then []
          else filter (\<lambda>j. edge_sinks config ! j = edge_sources config ! m)
                 [0..<length (edge_sinks config)])) \<and>
    rt_graph_inputs r' = put_all (zip (gc_input_streams config)
      [length (concat (map nd_output_streams (gc_nodes config)))..<length (edge_sources config)]) []"
proof -
  let ?nodes = "gc_nodes config" and ?gs = "gc_input_streams config"
  let ?out = "concat (map nd_output_streams ?nodes)"
  let ?r2 = "sc_SetProfiler (Some (pf_Initialize (gc_profiler_config config)
      (map n_name (w_nodes (sc_SetNodes [0..<length (w_nodes r)] r))) (pf_SetClock clock profiler_new)))
      (sc_SetNodes [0..<length (w_nodes r)] r)"
  obtain table r3 where r3: "fold init_node_inputs ?nodes ([], ?r2) = (table, r3)"
    by (cases "fold init_node_inputs ?nodes ([], ?r2)") auto
  define r5 where "r5 = sc_SetTotalGraphInputStreams (rt_num_open (fold count_graph_input ?gs r3)) (fold count_graph_input ?gs r3)"
  define r8 where "r8 = fold (init_node_handler table) ?nodes (fold (wire_node_callbacks table) ?nodes
      (fold init_node_outputs ?nodes r5))"
  have "names ?r2 = map nd_name ?nodes" "nt_ims (w_net ?r2) = []" "nt_oms (w_net ?r2) = []" "rt_graph_inputs ?r2 = []"
    using nm new by (simp_all add: names_def sc_SetProfiler_def sc_SetNodes_def)
  note p = node_passes [OF this(1) nm(2) this(2-4) r3 r5_def r8_def]
  obtain by_stream r9 where r9: "fold add_graph_input ?gs (fold (node_outputs r8) ?nodes [], r8) = (by_stream, r9)"
    by (cases "fold add_graph_input ?gs (fold (node_outputs r8) ?nodes [], r8)") auto
  note t = producers_table [OF p(1) nm(2) p(4) p(6) r9] and gi = fold_add_graph_input [OF r9]
  have r': "r' = fold (wire_node_mirrors by_stream) ?nodes r9"
    using r' r3 r9 unfolding wire_graph_def Let_def by (simp add: r5_def r8_def split_beta)
  have n9: "names r9 = map nd_name ?nodes" "handlers_at 0 ?nodes 0 r9"
    using p(1,5) gi by (simp_all add: names_def handlers_at_def)
  have frame: "w_nodes r' = w_nodes r8" "nt_ims (w_net r') = nt_ims (w_net r8)"
      "length (nt_oms (w_net r')) = length (nt_oms (w_net r9))"
    using wire_mirrors_frame [of by_stream ?nodes r9] gi unfolding r' by (metis length_map)+
  have "rt_graph_inputs r' = put_all (zip ?gs [length ?out..<length (edge_sources config)]) []"
    using gi p(6,7) by (simp add: r' fold_extras wire_extras edge_sources_def)
  then show ?thesis
    using p(2,3) frame t(2) mirror_pass [OF n9(1) nm(2) n9(2) t r']
    unfolding wired_at_def by (simp add: edge_sources_def)
qed


lemma graph_input_last:
  assumes "s \<in> set gs"
  shows "\<exists>m < length (out @ gs). omap_get (put_all (zip gs [length out..<length (out @ gs)]) []) s = Some m \<and>
    (out @ gs) ! m = s \<and> s \<notin> set (drop (Suc m) (out @ gs))"
proof -
  obtain ys zs where gs: "gs = ys @ s # zs" "s \<notin> set zs"
    using assms by (metis split_list_last)
  let ?i = "length ys"
  have "map_of (rev (zip gs [length out..<length out + length gs])) s = Some (length out + ?i)"
    unfolding map_of_rev_zip using gs by (intro exI [of _ ?i]) simp
  then have "omap_get (put_all (zip gs [length out..<length (out @ gs)]) []) s = Some (length out + ?i)"
    by (simp add: omap.get_put_all)
  moreover have "(out @ gs) ! (length out + ?i) = s" "length out + ?i < length (out @ gs)"
    "s \<notin> set (drop (Suc (length out + ?i)) (out @ gs))"
    using gs by simp_all
  ultimately show ?thesis by blast
qed

section \<open>Properties\<close>

lemma Initialize_net:
  assumes "Initialize reg addr hw clock config options
      (GraphRuntime_new u :: ('v, 'u) runtime) = (st, r)" "st_ok st"
  shows "map ism_name (nt_ims (w_net r)) = concat (map nd_input_streams (gc_nodes config)) \<and>
    (\<forall>i < length (gc_nodes config).
       \<forall>j\<in>set (blocks 0 (map nd_input_streams (gc_nodes config)) ! i).
         ism_arrival_cb (nt_ims (w_net r) ! j) = Some i) \<and>
    length (nt_oms (w_net r)) = length (edge_sources config) \<and>
    (\<forall>m < length (edge_sources config).
       mirror_targets (nt_ihs (w_net r)) (om_mirrors (nt_oms (w_net r) ! m)) =
         (if edge_sources config ! m \<in> set (drop (Suc m) (edge_sources config)) then []
          else filter (\<lambda>j. edge_sinks config ! j = edge_sources config ! m)
                 [0..<length (edge_sinks config)])) \<and>
    (\<forall>s\<in>set (gc_input_streams config). \<exists>m < length (edge_sources config).
       omap_get (rt_graph_inputs r) s = Some m \<and> edge_sources config ! m = s \<and>
       s \<notin> set (drop (Suc m) (edge_sources config)))"
proof -
  obtain b :: "('v, 'u) runtime" where b: "GraphBuilder_Build reg addr hw u (Options_Apply options config) = Inr b"
    using assms by (auto simp: Initialize_def Let_def dest: Build_error split: sum.splits)
  let ?n = "GraphRuntime_new u :: ('v, 'u) runtime"
  define r0 where "r0 = world.extend
      ((world.truncate b)\<lparr>w_net := w_net ?n, w_ohs := w_ohs ?n, w_log := w_log ?n\<rparr>)
      (runtime.fields config True (rt_graph_input_set ?n) (rt_num_open ?n) (rt_full ?n)
         (rt_closed_streams ?n) (rt_graph_inputs ?n) (rt_output_cbs ?n) (rt_side_packets ?n)
         (rt_side_cbs ?n) (rt_profiler_override ?n))"
  have r: "r = wire_graph clock config r0"
    using assms b by (simp add: Initialize_def Let_def r0_def GraphRuntime_new_def world.defs
        Scheduler_new_def)
  have names: "names r0 = map nd_name (gc_nodes config)" "distinct (map nd_name (gc_nodes config))"
    using Build_names [OF b] by (simp_all add: r0_def names_def world.defs)
  have new: "nt_ims (w_net r0) = []" "nt_oms (w_net r0) = []" "rt_graph_inputs r0 = []"
    by (simp_all add: r0_def world.defs runtime.defs GraphRuntime_new_def Scheduler_new_def)
  note net = wire_graph_net [OF names new r]
  let ?out = "map StreamName (concat (map nd_output_streams (gc_nodes config)))"
  have "\<exists>m < length (edge_sources config). omap_get (rt_graph_inputs r) s = Some m \<and>
      edge_sources config ! m = s \<and> s \<notin> set (drop (Suc m) (edge_sources config))"
    if "s \<in> set (gc_input_streams config)" for s
    using graph_input_last [OF that, of ?out] net by (simp add: edge_sources_def)
  then show ?thesis
    using net unfolding wired_at_def by simp
qed

text \<open>
  C16: initialisation wires the graph its configuration describes. There is one queue for every
  input edge of every node, in declaration order, named by its edge, and a packet arriving in it
  schedules the node it belongs to. There is one manager for every output edge of every node and
  every graph input; it feeds exactly the queues whose edges name its stream, in declaration
  order, unless a later output or graph input has the same stream name: then only the last of
  them is wired and the others feed nothing. Injecting into a graph input uses its own manager.
\<close>

theorem Initialize_wiring:
  assumes "Initialize reg addr hw clock config options
      (GraphRuntime_new u :: ('v, 'u) runtime) = (st, r)" "st_ok st"
  shows "map ism_name (nt_ims (w_net r)) = concat (map nd_input_streams (gc_nodes config)) \<and>
    (\<forall>i < length (gc_nodes config).
       \<forall>j\<in>set (blocks 0 (map nd_input_streams (gc_nodes config)) ! i).
         ism_arrival_cb (nt_ims (w_net r) ! j) = Some i) \<and>
    length (nt_oms (w_net r)) = length (edge_sources config) \<and>
    (\<forall>m < length (edge_sources config).
       mirror_targets (nt_ihs (w_net r)) (om_mirrors (nt_oms (w_net r) ! m)) =
         (if edge_sources config ! m \<in> set (drop (Suc m) (edge_sources config)) then []
          else filter (\<lambda>j. edge_sinks config ! j = edge_sources config ! m)
                 [0..<length (edge_sinks config)])) \<and>
    (\<forall>s\<in>set (gc_input_streams config). \<exists>m < length (edge_sources config).
       omap_get (rt_graph_inputs r) s = Some m \<and> edge_sources config ! m = s \<and>
       s \<notin> set (drop (Suc m) (edge_sources config)))"
  by (rule Initialize_net [OF assms])

definition demo_runtime :: "(int, unit) runtime" where
  "demo_runtime =
     snd (Initialize demo_registry int 4 [] demo_config [] (GraphRuntime_new ()))"

lemma demo_created:
  "st_ok (fst (Initialize demo_registry int 4 [] demo_config []
    (GraphRuntime_new () :: ('v, unit) runtime)))"
  using demo_built [of int 4 "()", where 'v = 'v]
  by (auto simp: Initialize_def Options_Apply_def Let_def split: sum.splits)

theorem Initialize_wiring_witness:
  "mirror_targets (nt_ihs (w_net demo_runtime)) (om_mirrors (nt_oms (w_net demo_runtime) ! 0)) = [0, 2] \<and>
   mirror_targets (nt_ihs (w_net demo_runtime)) (om_mirrors (nt_oms (w_net demo_runtime) ! 1)) = [1]"
proof -
  let ?new = "GraphRuntime_new () :: (int, unit) runtime"
  have init: "Initialize demo_registry int 4 [] demo_config [] ?new =
      (fst (Initialize demo_registry int 4 [] demo_config [] ?new), demo_runtime)"
    by (simp add: demo_runtime_def)
  have sources: "edge_sources demo_config = [''s'', ''g'']"
    and sinks: "edge_sinks demo_config = [''s'', ''g'', ''s'']"
    by code_simp+
  show ?thesis
    using Initialize_wiring [OF init demo_created] unfolding sources sinks
    by (simp add: less_Suc_eq all_conj_distrib)
qed

end
