(* ===== verification/Injection.thy ===== *)
theory Injection
  imports Wiring
begin

text \<open>
  The graph inputs of a running graph: \<open>AddPacketToInputStream\<close> and \<open>CloseInputStream\<close>. The
  events they trigger schedule nodes and may end the run, but move no packet.
\<close>

section \<open>What scheduling leaves alone\<close>

text \<open>
  The streams, the books the runtime keeps of its graph inputs, and what ties the nodes to their
  streams.
\<close>

definition flow_part where
  "flow_part r = (w_net r, rt_graph_inputs r, rt_closed_streams r, sc_num_closed r, sc_total r,
     w_ohs r, map (\<lambda>n. (n_oh n, n_input_ports n)) (w_nodes r))"

lemma flow_part_simps [simp]:
  "flow_part (w\<lparr>w_queues := b\<rparr>) = flow_part w"
  "flow_part (w\<lparr>w_pools := c\<rparr>) = flow_part w" "flow_part (w\<lparr>w_user := e\<rparr>) = flow_part w"
  "flow_part (w\<lparr>w_perf := f\<rparr>) = flow_part w" "flow_part (w\<lparr>w_prof := g\<rparr>) = flow_part w"
  "flow_part (w\<lparr>w_log := h\<rparr>) = flow_part w" "flow_part (w\<lparr>sc_state := i\<rparr>) = flow_part w"
  "flow_part (w\<lparr>sc_active_sources := k\<rparr>) = flow_part w"
  "flow_part (w\<lparr>sc_handling_idle := l\<rparr>) = flow_part w"
  by (simp_all add: flow_part_def)

lemma flow_part_upd_node:
  "(\<And>x. n_oh (f x) = n_oh x \<and> n_input_ports (f x) = n_input_ports x) \<Longrightarrow>
   flow_part (upd_node n f w) = flow_part w"
  by (simp add: upd_node_def flow_part_def map_update_at)

lemma flow_part_upd [simp]:
  "flow_part (upd_queue q f w) = flow_part w"
  "flow_part (upd_node n node_IncrementPending w) = flow_part w"
  "flow_part (upd_node n node_DecrementPending w) = flow_part w"
  "flow_part (report_error st w) = flow_part w" "flow_part (stop_profiler w) = flow_part w"
  "flow_part (add_handling j w) = flow_part w"
  by (simp_all add: upd_queue_def flow_part_upd_node node_IncrementPending_def
      node_DecrementPending_def report_error_def stop_profiler_def add_handling_def)

lemma flow_part_fold:
  "(\<And>x w. flow_part (f x w) = flow_part w) \<Longrightarrow> flow_part (fold f xs w) = flow_part w"
  by (induction xs arbitrary: w) simp_all

lemma flow_part_queue_ops [simp]:
  "flow_part (sq_AddNode q n w) = flow_part w"
  "flow_part (reschedule m w) = flow_part w"
  "flow_part (drain_one m w) = flow_part w"
  by (simp_all add: sq_AddNode_def reschedule_def submit_if_def AddNode_locked_def drain_one_def
      SubmitToExecutor_def Submit_task_def Submit_locked_def Let_def split: option.splits)

lemma flow_part_idle [simp]:
  "flow_part (close_node uc n w) = flow_part w"
  "flow_part (sc_CloseAllNodes uc w) = flow_part w"
  "flow_part (cleanup_queues w) = flow_part w"
  "flow_part (snd (sc_DrainInputQueues w)) = flow_part w"
  by (auto simp: close_node_def sc_CloseAllNodes_def cleanup_queues_def sc_DrainInputQueues_def
      Let_def intro!: flow_part_fold split: prod.splits option.splits)

lemma flow_part_idle_pass [simp]: "flow_part (idle_pass uc w) = flow_part w"
  by (auto simp: idle_pass_def Let_def split_beta flow_part_fold)

lemma flow_part_HandleIdle [simp]: "flow_part (sc_HandleIdle uc w) = flow_part w"
  by (simp add: sc_HandleIdle_def idle_body_def Let_def)

lemma flow_part_event [simp]: "flow_part (runtime_event uc ev r) = flow_part r"
  by (cases ev)
     (auto simp: runtime_event_def OnInputStreamFull_def OnInputStreamNotFull_def Let_def
       split: option.splits, simp_all add: flow_part_def)

lemma flow_part_events [simp]: "flow_part (run_stream_events uc evs r) = flow_part r"
  unfolding run_stream_events_def by (induction evs arbitrary: r) simp_all

lemma flow_partD:
  assumes "flow_part r = flow_part r'"
  shows "w_net r = w_net r'" "rt_graph_inputs r = rt_graph_inputs r'"
    "rt_closed_streams r = rt_closed_streams r'" "sc_num_closed r = sc_num_closed r'"
    "w_ohs r = w_ohs r'"
    "map (\<lambda>n. (n_oh n, n_input_ports n)) (w_nodes r) = map (\<lambda>n. (n_oh n, n_input_ports n)) (w_nodes r')"
  using assms by (simp_all add: flow_part_def)

section \<open>Injecting a packet\<close>

text \<open>The queues a graph input feeds.\<close>

definition consumers :: "string \<Rightarrow> ('v, 'u, 'z) runtime_scheme \<Rightarrow> nat list" where
  "consumers s r =
     (case omap_get (rt_graph_inputs r) s of
        None \<Rightarrow> []
      | Some m \<Rightarrow> mirror_targets (nt_ihs (w_net r)) (om_mirrors (nt_oms (w_net r) ! m)))"

lemma shard_of_injected:
  "sh_queue (shard_AddPacket p (oshard_new spec)) = (if p_IsEmpty p then [] else [p])"
  by (simp add: shard_AddPacket_def oshard_new_def oshard0_def shard_SetNextTimestampBound_def)

lemma Propagate_manager:
  "osm_PropagateUpdatesToMirrors ihs b shard o' ims = (o1, shard1, ims1, evs) \<Longrightarrow>
   om_closed o1 = om_closed o' \<and> om_mirrors o1 = om_mirrors o'"
  by (auto simp: osm_PropagateUpdatesToMirrors_def Let_def split: prod.splits if_splits)

lemma Propagate_queue:
  assumes "distinct (mirror_targets ihs (om_mirrors o'))" "j < length ims"
    and "osm_PropagateUpdatesToMirrors ihs b shard o' ims = (o1, shard1, ims1, evs)"
  shows "ism_queue (ims1 ! j) =
      (if j \<in> set (mirror_targets ihs (om_mirrors o')) \<and> \<not> ism_closed (ims ! j)
       then ism_queue (ims ! j) @ sh_queue shard else ism_queue (ims ! j))"
    "ism_closed (ims1 ! j) = ism_closed (ims ! j)" "length ims1 = length ims"
proof -
  have ims1: "ims1 = fst (mirror_loop ihs b (b \<noteq> ts_Unset \<and> (sh_queue shard \<noteq> [] \<longrightarrow>
      NextAllowedInStream (shard_LastAddedPacketTimestamp shard) \<noteq> b))
      (om_mirrors o') (sh_queue shard) ims)"
    using assms(3)
    by (auto simp: osm_PropagateUpdatesToMirrors_def Let_def split: prod.splits if_splits)
  show "ism_queue (ims1 ! j) =
      (if j \<in> set (mirror_targets ihs (om_mirrors o')) \<and> \<not> ism_closed (ims ! j)
       then ism_queue (ims ! j) @ sh_queue shard else ism_queue (ims ! j))"
    "ism_closed (ims1 ! j) = ism_closed (ims ! j)"
    by (simp_all add: ims1 mirror_loop_nth [OF assms(1,2)])
  show "length ims1 = length ims" by (simp add: ims1)
qed

section \<open>Properties\<close>

text \<open>A graph with one input, feeding the queue of one node.\<close>

definition one_input :: "(int, unit) runtime" where
  "one_input = (GraphRuntime_new ())\<lparr>
     w_net := \<lparr>nt_ims = [ism_new ''IN:g'' (-1)], nt_ihs = [(ih_new DefaultIH)\<lparr>ih_managers := [0]\<rparr>],
               nt_oms = [osm_AddMirror (Some 0) 0 (osm_new ''g'')]\<rparr>,
     rt_graph_inputs := [(''g'', 0)]\<rparr>"

lemma one_input_simps [simp]:
  "consumers ''g'' one_input = [0]" "omap_get (rt_graph_inputs one_input) ''g'' = Some 0"
  "nt_ims (w_net one_input) = [ism_new ''IN:g'' (-1)]" "length (nt_oms (w_net one_input)) = 1"
  "\<not> om_closed (nt_oms (w_net one_input) ! 0)" "rt_closed_streams one_input = {}"
  "sc_num_closed one_input = 0"
  by (simp_all add: one_input_def consumers_def omap_get_def osm_AddMirror_def osm_new_def
      valid_id_def ih_target_def GraphRuntime_new_def Scheduler_new_def world.defs)

text \<open>
  C25: injecting a packet into a graph input: an unknown name is NotFound and a closed input
  FailedPrecondition, both without any effect. Otherwise the call succeeds and appends the
  packet, once, to the queue of every consumer of the input that is still open, whatever nodes
  the arrival schedules and even if the run ends in the call; no other queue and no other
  manager changes, no input is opened or closed, and an empty packet is not queued.
\<close>

theorem AddPacketToInputStream_spec:
  assumes "AddPacketToInputStream uc s p r = (st, r')" "distinct (consumers s r)"
    and "\<forall>m. omap_get (rt_graph_inputs r) s = Some m \<longrightarrow> m < length (nt_oms (w_net r))"
  shows "case omap_get (rt_graph_inputs r) s of
      None \<Rightarrow> st = Status CNotFound (''Unknown input stream: '' @ s) \<and> r' = r
    | Some m \<Rightarrow>
        if om_closed (nt_oms (w_net r) ! m)
        then st = Status CFailedPrecondition (''Input stream is closed: '' @ s) \<and> r' = r
        else st = ok_status \<and>
          (\<forall>j < length (nt_ims (w_net r)). ism_queue (nt_ims (w_net r') ! j) =
             (if j \<in> set (consumers s r) \<and> \<not> ism_closed (nt_ims (w_net r) ! j) \<and> \<not> p_IsEmpty p
              then ism_queue (nt_ims (w_net r) ! j) @ [p] else ism_queue (nt_ims (w_net r) ! j))) \<and>
          (\<forall>k. k \<noteq> m \<longrightarrow> nt_oms (w_net r') ! k = nt_oms (w_net r) ! k) \<and>
          \<not> om_closed (nt_oms (w_net r') ! m) \<and> consumers s r' = consumers s r \<and>
          rt_closed_streams r' = rt_closed_streams r \<and> sc_num_closed r' = sc_num_closed r"
proof (cases "omap_get (rt_graph_inputs r) s")
  case None
  then show ?thesis using assms(1) by (simp add: AddPacketToInputStream_def unknown_stream_def)
next
  case (Some m)
  show ?thesis
  proof (cases "om_closed (nt_oms (w_net r) ! m)")
    case True
    then show ?thesis using assms(1) Some by (simp add: AddPacketToInputStream_def Let_def)
  next
    case False
    let ?sh = "shard_AddPacket p (oshard_new (Some m))"
    obtain o1 sh1 ims1 evs where run: "osm_PropagateUpdatesToMirrors (nt_ihs (w_net r))
        (osm_ComputeOutputTimestampBound ?sh ts_Min (nt_oms (w_net r) ! m)) ?sh
        (nt_oms (w_net r) ! m) (nt_ims (w_net r)) = (o1, sh1, ims1, evs)"
      by (meson prod_cases4)
    let ?r1 = "r\<lparr>w_net := (w_net r)\<lparr>nt_ims := ims1, nt_oms := (nt_oms (w_net r))[m := o1]\<rparr>\<rparr>"
    have st: "st = ok_status" and r': "flow_part r' = flow_part ?r1"
      using assms(1) Some False run
      by (auto simp: AddPacketToInputStream_def Let_def sc_AddedPacketToInputStream_def)
    note kept = flow_partD [OF r']
    have t: "consumers s r = mirror_targets (nt_ihs (w_net r)) (om_mirrors (nt_oms (w_net r) ! m))"
      using Some by (simp add: consumers_def)
    note q = Propagate_queue [OF assms(2) [unfolded t] _ run]
    have oms: "nt_oms (w_net r') = (nt_oms (w_net r))[m := o1]" "nt_ims (w_net r') = ims1"
      "nt_ihs (w_net r') = nt_ihs (w_net r)" "m < length (nt_oms (w_net r))"
      using kept(1) assms(3) Some by simp_all
    have other: "\<forall>k. k \<noteq> m \<longrightarrow> nt_oms (w_net r') ! k = nt_oms (w_net r) ! k"
      and closed: "\<not> om_closed (nt_oms (w_net r') ! m)"
      and same: "consumers s r' = consumers s r"
      using oms kept(2) Propagate_manager [OF run] False Some by (simp_all add: consumers_def)
    show ?thesis
      using st other closed same kept(3,4) q(1) Some False
      by (simp add: oms(2) t shard_of_injected)
  qed
qed

theorem AddPacketToInputStream_spec_witness:
  "let p = p_At (ts_of 5) (MakePacket 1 ''i'' (7::int));
       r' = snd (AddPacketToInputStream idle_code ''g'' p one_input)
   in ism_queue (nt_ims (w_net r') ! 0) = [p]"
proof -
  let ?p = "p_At (ts_of 5) (MakePacket 1 ''i'' (7::int))"
  obtain st r' where run: "AddPacketToInputStream idle_code ''g'' ?p one_input = (st, r')"
    by (cases "AddPacketToInputStream idle_code ''g'' ?p one_input") auto
  show ?thesis
    using AddPacketToInputStream_spec [OF run] run
    by (simp add: Let_def ism_new_def p_IsEmpty_def p_At_def MakePacket_def)
qed

text \<open>
  Closing a graph input happens once: the call succeeds, leaves what is queued, ends every
  consumer's stream with bound Done and counts one more closed input; closing it again
  succeeds without any effect, and a packet injected later is refused with FailedPrecondition.
\<close>

lemma CloseInputStream_spec:
  assumes "CloseInputStream uc s r = (st, r')"
    and "omap_get (rt_graph_inputs r) s = Some m" "m < length (nt_oms (w_net r))"
    and "s \<notin> rt_closed_streams r" "\<not> om_closed (nt_oms (w_net r) ! m)"
  shows "st = ok_status \<and> sc_num_closed r' = sc_num_closed r + 1 \<and>
    (\<forall>j < length (nt_ims (w_net r)).
       ism_queue (nt_ims (w_net r') ! j) = ism_queue (nt_ims (w_net r) ! j) \<and>
       ism_next_bound (nt_ims (w_net r') ! j) =
         (if j \<in> set (consumers s r) then ts_Done else ism_next_bound (nt_ims (w_net r) ! j))) \<and>
    CloseInputStream uc s r' = (ok_status, r') \<and>
    AddPacketToInputStream uc s p r' =
      (Status CFailedPrecondition (''Input stream is closed: '' @ s), r')"
proof -
  let ?net = "w_net r"
  obtain o1 ims1 evs where run: "osm_Close (nt_ihs ?net) (nt_oms ?net ! m) (nt_ims ?net) = (o1, ims1, evs)"
    by (meson prod_cases3)
  have o1: "o1 = (nt_oms ?net ! m)\<lparr>om_closed := True, om_next_bound := ts_Done\<rparr>"
    and ims1: "ims1 = fst (bound_to_mirrors (nt_ihs ?net) ts_Done (om_mirrors (nt_oms ?net ! m)) (nt_ims ?net))"
    using run assms(5) by (auto simp: osm_Close_def split: prod.splits)
  let ?r1 = "r\<lparr>w_net := ?net\<lparr>nt_ims := ims1, nt_oms := (nt_oms ?net)[m := o1]\<rparr>\<rparr>"
  let ?r2 = "run_stream_events uc evs ?r1"
  let ?r3 = "sc_IncClosedGraphInputStreams (?r2\<lparr>rt_closed_streams := insert s (rt_closed_streams ?r2)\<rparr>)"
  have st: "st = ok_status" and r': "flow_part r' = flow_part ?r3"
    using assms(1,2,4) run
    by (auto simp: CloseInputStream_def Let_def sc_AddedPacketToInputStream_def)
  note e = flow_partD [OF flow_part_events [of uc evs ?r1]]
  have kept: "w_net r' = w_net ?r1" "rt_graph_inputs r' = rt_graph_inputs r"
    "rt_closed_streams r' = insert s (rt_closed_streams r)" "sc_num_closed r' = sc_num_closed r + 1"
    using flow_partD [OF r'] e by (simp_all add: sc_IncClosedGraphInputStreams_def)
  have "om_closed (nt_oms (w_net r') ! m)" using kept(1) assms(3) by (simp add: o1)
  then have after: "CloseInputStream uc s r' = (ok_status, r')"
    "AddPacketToInputStream uc s p r' =
       (Status CFailedPrecondition (''Input stream is closed: '' @ s), r')"
    using kept(2,3) assms(2) by (simp_all add: CloseInputStream_def AddPacketToInputStream_def Let_def)
  have "max ts_Done t = ts_Done" for t by (rule max.absorb1) simp
  then show ?thesis
    using st kept after assms(2) by (simp add: ims1 bound_to_mirrors_nth consumers_def)
qed

lemma CloseInputStream_spec_witness:
  "let r' = snd (CloseInputStream idle_code ''g'' one_input)
   in ism_next_bound (nt_ims (w_net r') ! 0) = ts_Done \<and> sc_num_closed r' = 1 \<and>
      \<not> st_ok (fst (AddPacketToInputStream idle_code ''g'' Packet0 r'))"
proof -
  obtain st r' where run: "CloseInputStream idle_code ''g'' one_input = (st, r')"
    by (cases "CloseInputStream idle_code ''g'' one_input") auto
  show ?thesis
    using CloseInputStream_spec [OF run, of 0 Packet0] run by simp
qed

end
