(* ===== verification/Delivery.thy ===== *)
theory Delivery
  imports Injection
begin

text \<open>
  What the streams deliver in one run of a node: what its input ports lose, what its output
  streams are sent, and where the packets go.
\<close>

section \<open>The shards a node writes\<close>

text \<open>
  A node reaches a shard through its public methods; this is what they can make of a shard
  (\<open>SetOffset\<close> and \<open>SetHeader\<close> write the manager's spec, not the shard).
\<close>

inductive shard_path :: "'v oshard \<Rightarrow> 'v oshard \<Rightarrow> bool" where
  Untouched: "shard_path s s"
| AddPacket: "shard_path s t \<Longrightarrow> shard_path s (shard_AddPacket p t)"
| Bound: "shard_path s t \<Longrightarrow> shard_path s (shard_SetNextTimestampBound b t)"
| Close: "shard_path s t \<Longrightarrow> shard_path s (shard_Close t)"

lemma closed_shard:
  "shard_path s t \<Longrightarrow> sh_closed s \<Longrightarrow> sh_closed t \<and> sh_queue t = sh_queue s"
  by (induction rule: shard_path.induct)
    (auto simp: shard_AddPacket_def shard_SetNextTimestampBound_def shard_Close_def)

text \<open>A shard of a shard set; a port that was never indexed is a default shard.\<close>

definition shard_at :: "'v oshards \<Rightarrow> string \<Rightarrow> 'v oshard" where
  "shard_at ss port = (case omap_get ss port of Some s \<Rightarrow> s | None \<Rightarrow> oshard0)"

lemma shard_of_at: "shard_of ss o' = shard_at ss (PortName (osm_Name o'))"
  by (simp add: shard_of_def shard_at_def)

lemma shard_at_put: "omap_wf ss \<Longrightarrow> shard_at (omap_put p s ss) q = (if q = p then s else shard_at ss q)"
  by (simp add: shard_at_def omap_get_put)

lemma shard_at_update:
  "omap_wf ss \<Longrightarrow> shard_at (oss_update p f ss) q = (if q = p then f (shard_at ss p) else shard_at ss q)"
  by (simp add: shard_at_def oss_update_get)

lemma shard_at_Get: "omap_wf ss \<Longrightarrow> shard_at (snd (oss_Get p ss)) q = shard_at ss q"
  by (auto simp: shard_at_def oss_Get_def omap_get_put split: option.splits)

lemma fst_oss_Get: "fst (oss_Get p ss) = shard_at ss p"
  by (simp add: shard_at_def oss_Get_def split: option.splits)

section \<open>The output side of one node\<close>

text \<open>
  The queues manager \<open>m\<close> feeds; what of the streams no delivery changes; and what every operation
  of this section relies on: the mirrors of a manager reach pairwise different queues, and no
  queue is closed.
\<close>

definition targets :: "'v net \<Rightarrow> nat \<Rightarrow> nat list" where
  "targets net m = mirror_targets (nt_ihs net) (om_mirrors (nt_oms net ! m))"

definition net_static where
  "net_static net = (nt_ihs net, map om_mirrors (nt_oms net), map osm_Name (nt_oms net),
     map ism_closed (nt_ims net))"

definition net_ok :: "'v net \<Rightarrow> bool" where
  "net_ok net \<longleftrightarrow> (\<forall>m < length (nt_oms net). distinct (targets net m)) \<and>
     (\<forall>j < length (nt_ims net). \<not> ism_closed (nt_ims net ! j))"

definition queue_at :: "'v net \<Rightarrow> nat \<Rightarrow> 'v packet list" where
  "queue_at net j = ism_queue (nt_ims net ! j)"

lemma net_staticD:
  assumes "net_static net' = net_static net"
  shows "nt_ihs net' = nt_ihs net" "length (nt_oms net') = length (nt_oms net)"
    "length (nt_ims net') = length (nt_ims net)" "net_ok net' = net_ok net"
    "m < length (nt_oms net) \<Longrightarrow> targets net' m = targets net m"
    "m < length (nt_oms net) \<Longrightarrow> osm_Name (nt_oms net' ! m) = osm_Name (nt_oms net ! m)"
proof -
  have eq: "nt_ihs net' = nt_ihs net" "map om_mirrors (nt_oms net') = map om_mirrors (nt_oms net)"
    "map osm_Name (nt_oms net') = map osm_Name (nt_oms net)"
    "map ism_closed (nt_ims net') = map ism_closed (nt_ims net)"
    using assms by (simp_all add: net_static_def)
  show len: "nt_ihs net' = nt_ihs net" "length (nt_oms net') = length (nt_oms net)"
    "length (nt_ims net') = length (nt_ims net)"
    using eq map_eq_imp_length_eq by blast+
  show "targets net' m = targets net m" if "m < length (nt_oms net)" for m
    using arg_cong [OF eq(2), of "\<lambda>xs. xs ! m"] that len by (simp add: targets_def)
  moreover have "ism_closed (nt_ims net' ! j) = ism_closed (nt_ims net ! j)"
    if "j < length (nt_ims net)" for j
    using arg_cong [OF eq(4), of "\<lambda>xs. xs ! j"] that len by simp
  ultimately show "net_ok net' = net_ok net" by (simp add: net_ok_def len)
  show "osm_Name (nt_oms net' ! m) = osm_Name (nt_oms net ! m)" if "m < length (nt_oms net)"
    using arg_cong [OF eq(3), of "\<lambda>xs. xs ! m"] that len by simp
qed

lemma net_static_upd:
  assumes "i < length (nt_oms net)" "om_mirrors mgr = om_mirrors (nt_oms net ! i)"
    and "osm_Name mgr = osm_Name (nt_oms net ! i)" "map ism_closed ims = map ism_closed (nt_ims net)"
  shows "net_static (net\<lparr>nt_ims := ims, nt_oms := (nt_oms net)[i := mgr]\<rparr>) = net_static net"
  using assms by (simp add: net_static_def map_update list_update_same_conv)

lemma osm_Close_flow:
  assumes "osm_Close ihs o' ims = (o1, ims1, evs)"
  shows "om_mirrors o1 = om_mirrors o'" "osm_Name o1 = osm_Name o'"
    "map ism_closed ims1 = map ism_closed ims"
    "j < length ims \<Longrightarrow> ism_queue (ims1 ! j) = ism_queue (ims ! j)"
proof -
  let ?b = "fst (bound_to_mirrors ihs ts_Done (om_mirrors o') ims)"
  have ims1: "ims1 = ims \<or> ims1 = ?b"
    and o1: "om_mirrors o1 = om_mirrors o'" "om_spec o1 = om_spec o'"
    using assms by (auto simp: osm_Close_def split: prod.splits if_splits)
  show "om_mirrors o1 = om_mirrors o'" "osm_Name o1 = osm_Name o'"
    using o1 by (simp_all add: osm_Name_def)
  show "map ism_closed ims1 = map ism_closed ims"
    using ims1 by (auto intro!: nth_equalityI simp: bound_to_mirrors_nth split: if_splits)
  show "ism_queue (ims1 ! j) = ism_queue (ims ! j)" if "j < length ims"
    using ims1 that by (auto simp: bound_to_mirrors_nth)
qed

lemma Propagate_flow:
  assumes "osm_PropagateUpdatesToMirrors ihs b shard o' ims = (o1, shard1, ims1, evs)"
    and "distinct (mirror_targets ihs (om_mirrors o'))" "\<forall>j < length ims. \<not> ism_closed (ims ! j)"
  shows "om_mirrors o1 = om_mirrors o'" "osm_Name o1 = osm_Name o'" "sh_queue shard1 = []"
    "map ism_closed ims1 = map ism_closed ims"
    "j < length ims \<Longrightarrow> ism_queue (ims1 ! j) = ism_queue (ims ! j) @
       (if j \<in> set (mirror_targets ihs (om_mirrors o')) then sh_queue shard else [])"
proof -
  note q = Propagate_queue [OF assms(2) _ assms(1)]
  show "om_mirrors o1 = om_mirrors o'" using Propagate_manager [OF assms(1)] by simp
  show "osm_Name o1 = osm_Name o'"
    using Propagate_spec [of ihs b shard o' ims] assms(1) by (simp add: osm_Name_def)
  show "sh_queue shard1 = []"
    using assms(1) by (auto simp: osm_PropagateUpdatesToMirrors_def Let_def split: prod.splits)
  have len: "length ims1 = length ims"
    using assms(1) by (auto simp: osm_PropagateUpdatesToMirrors_def Let_def
        dest!: arg_cong [of _ _ "\<lambda>x. length (fst x)"] split: prod.splits if_splits)
  show "map ism_closed ims1 = map ism_closed ims"
    using q(2) len by (auto intro!: nth_equalityI)
  show "ism_queue (ims1 ! j) = ism_queue (ims ! j) @
      (if j \<in> set (mirror_targets ihs (om_mirrors o')) then sh_queue shard else [])"
    if "j < length ims"
    using q(1) [OF that] assms(3) that by simp
qed

text \<open>The packets in the shards of the managers \<open>ms\<close>, and what of some sent packets reaches queue \<open>j\<close>.\<close>

definition port_of :: "'v net \<Rightarrow> nat \<Rightarrow> string" where
  "port_of net m = PortName (osm_Name (nt_oms net ! m))"

definition sent_by :: "nat list \<Rightarrow> 'v net \<Rightarrow> 'v oshards \<Rightarrow> (nat \<times> 'v packet) list" where
  "sent_by ms net ss = concat (map (\<lambda>m. map (Pair m) (sh_queue (shard_at ss (port_of net m)))) ms)"

definition arrivals :: "'v net \<Rightarrow> nat \<Rightarrow> (nat \<times> 'v packet) list \<Rightarrow> 'v packet list" where
  "arrivals net j sent = map snd (filter (\<lambda>(m, p). j \<in> set (targets net m)) sent)"

lemma arrivals_simps [simp]:
  "arrivals net j [] = []" "arrivals net j (xs @ ys) = arrivals net j xs @ arrivals net j ys"
  "arrivals net j (map (Pair m) ps) = (if j \<in> set (targets net m) then ps else [])"
  by (simp_all add: arrivals_def) (induction ps; simp)

lemma sent_by_simps [simp]:
  "sent_by [] net ss = []"
  "sent_by (m # ms) net ss = map (Pair m) (sh_queue (shard_at ss (port_of net m))) @ sent_by ms net ss"
  by (simp_all add: sent_by_def)

lemma port_of_static: "net_static net' = net_static net \<Longrightarrow> m < length (nt_oms net) \<Longrightarrow> port_of net' m = port_of net m"
  unfolding port_of_def by (drule (1) net_staticD(6)) simp

lemma arrivals_static:
  assumes "net_static net' = net_static net" "\<forall>(m, p)\<in>set sent. m < length (nt_oms net)"
  shows "arrivals net' j sent = arrivals net j sent"
  unfolding arrivals_def
  by (intro arg_cong [of _ _ "map snd"] filter_cong) (use assms(2) net_staticD(5) [OF assms(1)] in auto)

lemma sent_by_static:
  assumes "net_static net' = net_static net" "\<forall>m\<in>set ms. m < length (nt_oms net)"
    and "\<forall>m\<in>set ms. shard_at ss' (port_of net m) = shard_at ss (port_of net m)"
  shows "sent_by ms net' ss' = sent_by ms net ss"
  unfolding sent_by_def
  by (intro arg_cong [of _ _ concat] map_cong) (use assms(2,3) port_of_static [OF assms(1)] in auto)

text \<open>One manager's turn in \<open>PropagateOutputPackets\<close>.\<close>

lemma propagate_one_flow:
  assumes one: "oh_propagate_one h t i (ss, net, evs) = (ss', net', evs')"
    and wf: "omap_wf ss" and ok: "net_ok net" "i < length (nt_oms net)"
    and silent: "om_closed (nt_oms net ! i) \<longrightarrow> sh_queue (shard_at ss (port_of net i)) = []"
  shows "net_static net' = net_static net" "omap_wf ss'"
    "q \<noteq> port_of net i \<Longrightarrow> shard_at ss' q = shard_at ss q"
    "sh_queue (shard_at ss' (port_of net i)) = []"
    "k \<noteq> i \<Longrightarrow> nt_oms net' ! k = nt_oms net ! k"
    "j < length (nt_ims net) \<Longrightarrow> queue_at net' j =
       queue_at net j @ arrivals net j (map (Pair i) (sh_queue (shard_at ss (port_of net i))))"
proof -
  let ?goal = "net_static net' = net_static net \<and> omap_wf ss' \<and>
    (\<forall>q. q \<noteq> port_of net i \<longrightarrow> shard_at ss' q = shard_at ss q) \<and>
    sh_queue (shard_at ss' (port_of net i)) = [] \<and> (\<forall>k. k \<noteq> i \<longrightarrow> nt_oms net' ! k = nt_oms net ! k) \<and>
    (\<forall>j < length (nt_ims net). queue_at net' j = queue_at net j @
       (if j \<in> set (targets net i) then sh_queue (shard_at ss (port_of net i)) else []))"
  have ?goal
  proof (cases "om_closed (nt_oms net ! i)")
    case True
    then show ?thesis using one silent wf by (auto simp: oh_propagate_one_def Let_def)
  next
    case False
    let ?mgr = "nt_oms net ! i" and ?sh = "shard_at ss (port_of net i)"
    have open_ims: "\<forall>j < length (nt_ims net). \<not> ism_closed (nt_ims net ! j)"
      and dist: "distinct (mirror_targets (nt_ihs net) (om_mirrors ?mgr))"
      using ok by (simp_all add: net_ok_def targets_def)
    obtain o1 sh1 ims1 ev1 where run: "osm_PropagateUpdatesToMirrors (nt_ihs net)
        (osm_ComputeOutputTimestampBound ?sh t ?mgr) ?sh ?mgr (nt_ims net) = (o1, sh1, ims1, ev1)"
      by (meson prod_cases4)
    obtain o2 ims2 ev2 where cl: "(if sh_closed sh1 then osm_Close (nt_ihs net) o1 ims1
        else (o1, ims1, [])) = (o2, ims2, ev2)" by (meson prod_cases3)
    have res: "ss' = omap_put (port_of net i) sh1 (snd (oss_Get (port_of net i) ss))"
      "net' = net\<lparr>nt_ims := ims2, nt_oms := (nt_oms net)[i := o2]\<rparr>"
      using one False run cl
      by (auto simp: oh_propagate_one_def Let_def split_beta fst_oss_Get port_of_def)
    note f = Propagate_flow [OF run dist open_ims]
    have len: "length ims1 = length (nt_ims net)" using f(4) map_eq_imp_length_eq by blast
    have c: "om_mirrors o2 = om_mirrors o1" "osm_Name o2 = osm_Name o1"
      "map ism_closed ims2 = map ism_closed ims1"
      "j < length ims1 \<Longrightarrow> ism_queue (ims2 ! j) = ism_queue (ims1 ! j)" for j
      using cl osm_Close_flow [of "nt_ihs net" o1 ims1 o2 ims2 ev2] by (auto split: if_splits)
    have static: "net_static net' = net_static net"
      unfolding res(2) by (rule net_static_upd) (simp_all add: ok c f)
    have queues: "queue_at net' j = queue_at net j @ (if j \<in> set (targets net i) then sh_queue ?sh else [])"
      if "j < length (nt_ims net)" for j
      using c(4) [of j] f(5) [OF that] that len by (simp add: queue_at_def res(2) targets_def)
    show ?thesis
      using static queues wf f(3) by (simp add: res omap_wf_put oss_Get_wf2 shard_at_put shard_at_Get)
  qed
  then show "net_static net' = net_static net" "omap_wf ss'"
    "q \<noteq> port_of net i \<Longrightarrow> shard_at ss' q = shard_at ss q"
    "sh_queue (shard_at ss' (port_of net i)) = []"
    "k \<noteq> i \<Longrightarrow> nt_oms net' ! k = nt_oms net ! k"
    "j < length (nt_ims net) \<Longrightarrow> queue_at net' j =
       queue_at net j @ arrivals net j (map (Pair i) (sh_queue (shard_at ss (port_of net i))))"
    by simp_all
qed

text \<open>What a handler relies on: its managers exist, once each, with different port names.\<close>

definition managers_ok :: "'v net \<Rightarrow> nat list \<Rightarrow> bool" where
  "managers_ok net ms \<longleftrightarrow> distinct ms \<and> (\<forall>m\<in>set ms. m < length (nt_oms net)) \<and> distinct (map (port_of net) ms)"

definition silent :: "'v net \<Rightarrow> nat list \<Rightarrow> 'v oshards \<Rightarrow> bool" where
  "silent net ms ss \<longleftrightarrow> (\<forall>m\<in>set ms. om_closed (nt_oms net ! m) \<longrightarrow> sh_queue (shard_at ss (port_of net m)) = [])"

lemma managers_ok_static:
  assumes "net_static net' = net_static net"
  shows "managers_ok net' ms = managers_ok net ms"
proof (cases "\<forall>m\<in>set ms. m < length (nt_oms net)")
  case True
  then have "map (port_of net') ms = map (port_of net) ms" by (simp add: port_of_static [OF assms])
  then show ?thesis by (simp add: managers_ok_def net_staticD(2) [OF assms] del: map_eq_conv)
qed (auto simp: managers_ok_def net_staticD(2) [OF assms])

lemma propagate_all_flow:
  assumes "fold (oh_propagate_one h t) ms (ss, net, evs) = (ss', net', evs')"
    and "omap_wf ss" "net_ok net" "managers_ok net ms" "silent net ms ss"
  shows "net_static net' = net_static net \<and> omap_wf ss' \<and>
    (\<forall>q. q \<notin> port_of net ` set ms \<longrightarrow> shard_at ss' q = shard_at ss q) \<and>
    (\<forall>m\<in>set ms. sh_queue (shard_at ss' (port_of net m)) = []) \<and>
    (\<forall>j < length (nt_ims net). queue_at net' j = queue_at net j @ arrivals net j (sent_by ms net ss))"
  using assms
proof (induction ms arbitrary: ss net evs)
  case (Cons m ms)
  obtain ss1 net1 evs1 where one: "oh_propagate_one h t m (ss, net, evs) = (ss1, net1, evs1)"
    by (cases "oh_propagate_one h t m (ss, net, evs)") auto
  have m: "m < length (nt_oms net)" "m \<notin> set ms" "port_of net m \<notin> port_of net ` set ms"
    "managers_ok net ms" "\<forall>k\<in>set ms. k < length (nt_oms net)"
    and sil: "om_closed (nt_oms net ! m) \<longrightarrow> sh_queue (shard_at ss (port_of net m)) = []"
    using Cons.prems(4,5) by (auto simp: managers_ok_def silent_def)
  note f = propagate_one_flow [OF one Cons.prems(2,3) m(1) sil]
  have same: "shard_at ss1 (port_of net k) = shard_at ss (port_of net k)"
    "nt_oms net1 ! k = nt_oms net ! k" if "k \<in> set ms" for k
  proof -
    have "port_of net k \<in> port_of net ` set ms" using that by simp
    then have "port_of net k \<noteq> port_of net m" "k \<noteq> m" using that m(2,3) by metis+
    then show "shard_at ss1 (port_of net k) = shard_at ss (port_of net k)"
      "nt_oms net1 ! k = nt_oms net ! k" by (simp_all add: f(3,5))
  qed
  have ports: "port_of net1 k = port_of net k" if "k \<in> set ms \<or> k = m" for k
    using that port_of_static [OF f(1)] m(1,5) by auto
  have "silent net1 ms ss1"
    using Cons.prems(5) same ports by (simp add: silent_def)
  moreover have "fold (oh_propagate_one h t) ms (ss1, net1, evs1) = (ss', net', evs')"
    using Cons.prems(1) one by simp
  moreover have "net_ok net1" "managers_ok net1 ms"
    using Cons.prems(3) m(4) net_staticD(4) [OF f(1)] managers_ok_static [OF f(1)] by simp_all
  ultimately have IH: "net_static net' = net_static net1" "omap_wf ss'"
    "\<forall>q. q \<notin> port_of net1 ` set ms \<longrightarrow> shard_at ss' q = shard_at ss1 q"
    "\<forall>k\<in>set ms. sh_queue (shard_at ss' (port_of net1 k)) = []"
    "\<forall>j < length (nt_ims net1). queue_at net' j = queue_at net1 j @ arrivals net1 j (sent_by ms net1 ss1)"
    using Cons.IH [of ss1 net1 evs1] f(2) by blast+
  have img: "port_of net1 ` set ms = port_of net ` set ms" using ports by (intro image_cong) auto
  have "sent_by ms net1 ss1 = sent_by ms net ss"
    using same(1) m(5) by (intro sent_by_static [OF f(1)]) auto
  moreover have "arrivals net1 j (sent_by ms net ss) = arrivals net j (sent_by ms net ss)" for j
    using m(5) by (intro arrivals_static [OF f(1)]) (auto simp: sent_by_def)
  ultimately have "queue_at net' j = queue_at net j @ arrivals net j (sent_by (m # ms) net ss)"
    if "j < length (nt_ims net)" for j
    using IH(5) f(6) [OF that] that net_staticD(3) [OF f(1)] by simp
  moreover have "sh_queue (shard_at ss' (port_of net k)) = []" if "k \<in> set (m # ms)" for k
    using that IH(3,4) f(4) m(3) ports img by auto
  ultimately show ?case
    using IH(1-3) f(1,3) img by simp
qed simp

section \<open>Preparing and closing the outputs\<close>

lemma prepare_shards:
  assumes "managers_ok net ms" "omap_wf ss"
  shows "omap_wf (fold (\<lambda>i ss. oss_update (port_of net i) (osm_ResetShard (nt_oms net ! i)) ss) ms ss) \<and>
    (\<forall>m\<in>set ms. shard_at (fold (\<lambda>i ss. oss_update (port_of net i) (osm_ResetShard (nt_oms net ! i)) ss) ms ss)
        (port_of net m) = osm_ResetShard (nt_oms net ! m) (shard_at ss (port_of net m))) \<and>
    (\<forall>q. q \<notin> port_of net ` set ms \<longrightarrow>
       shard_at (fold (\<lambda>i ss. oss_update (port_of net i) (osm_ResetShard (nt_oms net ! i)) ss) ms ss) q =
       shard_at ss q)"
  using assms
proof (induction ms arbitrary: ss)
  case (Cons m ms)
  let ?ss = "oss_update (port_of net m) (osm_ResetShard (nt_oms net ! m)) ss"
  have wf: "omap_wf ?ss" using Cons.prems(2) by (rule oss_update_wf)
  have m: "managers_ok net ms" "port_of net m \<notin> port_of net ` set ms"
    using Cons.prems(1) by (auto simp: managers_ok_def)
  have "shard_at ?ss (port_of net k) = shard_at ss (port_of net k)" if "k \<in> set ms" for k
    using m(2) that shard_at_update [OF Cons.prems(2)] by (metis imageI)
  then show ?case
    using Cons.IH [OF m(1) wf] m(2) shard_at_update [OF Cons.prems(2)] by simp
qed simp

lemma PrepareOutputs_shards:
  assumes "managers_ok net (oh_managers h)"
  shows "omap_wf (oh_PrepareOutputs h net [])"
    "m \<in> set (oh_managers h) \<Longrightarrow> sh_queue (shard_at (oh_PrepareOutputs h net []) (port_of net m)) = [] \<and>
       sh_closed (shard_at (oh_PrepareOutputs h net []) (port_of net m)) = om_closed (nt_oms net ! m)"
  using prepare_shards [OF assms omap_wf_Nil]
  by (simp_all add: oh_PrepareOutputs_def port_of_def osm_ResetShard_def shard_Reset_def)

text \<open>Closing the outputs, when nothing is left in the shards, moves no packet.\<close>

lemma close_one_flow:
  assumes one: "oh_close_one i (Some ss, net, evs) = (shs, net', evs')"
    and wf: "omap_wf ss" and ok: "net_ok net" "i < length (nt_oms net)"
    and empty: "sh_queue (shard_at ss (port_of net i)) = []"
  shows "\<exists>ss'. shs = Some ss' \<and> omap_wf ss' \<and> net_static net' = net_static net \<and>
    (\<forall>q. sh_queue (shard_at ss q) = [] \<longrightarrow> sh_queue (shard_at ss' q) = []) \<and>
    map ism_queue (nt_ims net') = map ism_queue (nt_ims net)"
proof -
  let ?mgr = "nt_oms net ! i" and ?sh = "shard_at ss (port_of net i)"
  have open_ims: "\<forall>j < length (nt_ims net). \<not> ism_closed (nt_ims net ! j)"
    and dist: "distinct (mirror_targets (nt_ihs net) (om_mirrors ?mgr))"
    using ok by (simp_all add: net_ok_def targets_def)
  obtain o1 sh1 ims1 ev1 where run: "osm_PropagateUpdatesToMirrors (nt_ihs net) ts_Done ?sh ?mgr
      (nt_ims net) = (o1, sh1, ims1, ev1)" by (meson prod_cases4)
  obtain o2 ims2 ev2 where cl: "osm_Close (nt_ihs net) o1 ims1 = (o2, ims2, ev2)" by (meson prod_cases3)
  have res: "shs = Some (omap_put (port_of net i) sh1 (snd (oss_Get (port_of net i) ss)))"
    "net' = net\<lparr>nt_ims := ims2, nt_oms := (nt_oms net)[i := o2]\<rparr>"
    using one run cl by (auto simp: oh_close_one_def Let_def split_beta fst_oss_Get port_of_def)
  note f = Propagate_flow [OF run dist open_ims] and c = osm_Close_flow [OF cl]
  have len: "length ims1 = length (nt_ims net)" "length ims2 = length ims1"
    using f(4) c(3) map_eq_imp_length_eq by blast+
  have "net_static net' = net_static net"
    unfolding res(2) by (rule net_static_upd) (simp_all add: ok c f)
  moreover have "map ism_queue (nt_ims net') = map ism_queue (nt_ims net)"
    by (rule nth_equalityI) (use len f(5) c(4) empty in \<open>auto simp: res\<close>)
  ultimately show ?thesis
    using wf f(3) by (simp add: res omap_wf_put oss_Get_wf2 shard_at_put shard_at_Get)
qed

lemma close_all_flow:
  assumes "fold oh_close_one ms (Some ss, net, evs) = (shs, net', evs')"
    and "omap_wf ss" "net_ok net" "\<forall>m\<in>set ms. m < length (nt_oms net)"
    and "\<forall>m\<in>set ms. sh_queue (shard_at ss (port_of net m)) = []"
  shows "net_static net' = net_static net \<and> map ism_queue (nt_ims net') = map ism_queue (nt_ims net)"
  using assms
proof (induction ms arbitrary: ss net evs)
  case (Cons m ms)
  obtain shs1 net1 evs1 where one: "oh_close_one m (Some ss, net, evs) = (shs1, net1, evs1)"
    by (cases "oh_close_one m (Some ss, net, evs)") auto
  obtain ss1 where ss1: "shs1 = Some ss1" "omap_wf ss1" "net_static net1 = net_static net"
    "\<forall>q. sh_queue (shard_at ss q) = [] \<longrightarrow> sh_queue (shard_at ss1 q) = []"
    "map ism_queue (nt_ims net1) = map ism_queue (nt_ims net)"
    using close_one_flow [OF one Cons.prems(2,3)] Cons.prems(4,5) by auto
  have "fold oh_close_one ms (Some ss1, net1, evs1) = (shs, net', evs')"
    using Cons.prems(1) one ss1(1) by simp
  moreover have "net_ok net1" "\<forall>k\<in>set ms. k < length (nt_oms net1)"
    "\<forall>k\<in>set ms. sh_queue (shard_at ss1 (port_of net1 k)) = []"
    using Cons.prems(3-5) ss1(4) net_staticD(2,4) [OF ss1(3)] port_of_static [OF ss1(3)] by auto
  ultimately show ?case using Cons.IH [of ss1 net1 evs1] ss1(2,3,5) by simp
qed simp

section \<open>Taking the inputs\<close>

text \<open>The heads a run takes off the queues of its ports, port after port.\<close>

fun taken_by :: "(string \<times> nat) list \<Rightarrow> 'v ism list \<Rightarrow> (nat \<times> 'v packet) list" where
  "taken_by [] ims = []"
| "taken_by ((port, m) # ports) ims =
     (case ism_queue (ims ! m) of
        [] \<Rightarrow> taken_by ports ims
      | p # ps \<Rightarrow> (m, p) # taken_by ports (ims[m := (ims ! m)\<lparr>ism_queue := ps\<rparr>]))"

definition taken_from :: "nat \<Rightarrow> (nat \<times> 'v packet) list \<Rightarrow> 'v packet list" where
  "taken_from j taken = map snd (filter (\<lambda>(m, p). m = j) taken)"

lemma taken_from_simps [simp]:
  "taken_from j [] = []" "taken_from j (xs @ ys) = taken_from j xs @ taken_from j ys"
  "taken_from j ((m, p) # xs) = (if m = j then p # taken_from j xs else taken_from j xs)"
  by (simp_all add: taken_from_def)

lemma PopQueueHead_cases:
  "ism_PopQueueHead s = (case ism_queue s of
     [] \<Rightarrow> (s, Packet0, ism_next_bound s = ts_Done) | p # ps \<Rightarrow> (s\<lparr>ism_queue := ps\<rparr>, p, False))"
  by (simp add: ism_PopQueueHead_def)

lemma populate_flow:
  "populate_inputs c ports (inputs, ims, ws) = (inputs', ims', ws') \<Longrightarrow>
   map ism_closed ims' = map ism_closed ims \<and>
   (\<forall>j < length ims. ism_queue (ims ! j) = taken_from j (taken_by ports ims) @ ism_queue (ims' ! j))"
proof (induction c ports "(inputs, ims, ws)" arbitrary: inputs ims ws rule: populate_inputs.induct)
  case (2 c port m ports inputs ims ws)
  obtain s pkt d where pop: "ism_PopQueueHead (ims ! m) = (s, pkt, d)"
    by (cases "ism_PopQueueHead (ims ! m)") auto
  obtain i2 ws2 where rest: "populate_inputs c ports (i2, ims[m := s], ws2) = (inputs', ims', ws')"
    and IH: "map ism_closed ims' = map ism_closed (ims[m := s])"
      "\<forall>j < length ims. ism_queue (ims[m := s] ! j) =
         taken_from j (taken_by ports (ims[m := s])) @ ism_queue (ims' ! j)"
    using 2(1) [OF pop [symmetric] refl refl refl refl refl] 2(2) pop by (auto simp: Let_def)
  have "map ism_closed (ims[m := s]) = map ism_closed ims"
    using pop by (auto simp: PopQueueHead_cases nth_list_update_in intro!: nth_equalityI split: list.splits if_splits)
  moreover have "ism_queue (ims ! j) =
      taken_from j (taken_by ((port, m) # ports) ims) @ ism_queue (ims' ! j)" if "j < length ims" for j
    using IH(2) pop that
    by (cases "m < length ims"; cases "m = j")
       (auto simp: PopQueueHead_cases list_update_beyond split: list.splits)
  ultimately show ?case using IH(1) by simp
qed simp

section \<open>What the scheduler leaves alone\<close>

lemma flow_part_extra [simp]:
  "flow_part (r\<lparr>sc_has_error := b\<rparr>) = flow_part r" "flow_part (r\<lparr>sc_stopping := c\<rparr>) = flow_part r"
  "flow_part (r\<lparr>sc_source_nodes := d\<rparr>) = flow_part r"
  "flow_part (r\<lparr>sc_side_packets := e\<rparr>) = flow_part r"
  by (simp_all add: flow_part_def)

lemma flow_part_queue_locks [simp]:
  "flow_part (snd (TryPop q r)) = flow_part r"
  "flow_part (NoItem_locked q r) = flow_part r"
  "flow_part (submit_if q (Finished_locked q r)) = flow_part r"
  "flow_part (sq_SetRunning q b r) = flow_part r"
  "flow_part (sq_SubmitWaitingTasksToExecutor q r) = flow_part r"
  "flow_part (perf_add f q r) = flow_part r"
  "flow_part (snd (queue_scope_begin q r)) = flow_part r"
  "flow_part (queue_scope_end q ty name start r) = flow_part r"
  by (simp_all add: TryPop_def NoItem_locked_def submit_if_def Finished_locked_def sq_SetRunning_def
      SetRunning_locked_def SubmitToExecutor_def Submit_task_def Submit_locked_def perf_add_def
      sq_SubmitWaitingTasksToExecutor_def queue_scope_begin_def queue_scope_end_def Let_def split_beta
      split: option.splits)

lemma flow_part_callbacks [simp]:
  "flow_part (source_stopped uc n r) = flow_part r" "flow_part (queue_error st r) = flow_part r"
  by (simp_all add: source_stopped_def queue_error_def)

lemma runtime_env_simps [simp]:
  "en_event (runtime_env uc) = runtime_event uc" "en_idle (runtime_env uc) = sc_HandleIdle uc"
  "en_stopped (runtime_env uc) = source_stopped uc" "en_error (runtime_env uc) = queue_error"
  "en_process (runtime_env uc) = uc_process uc" "en_open (runtime_env uc) = uc_open uc"
  by (simp_all add: runtime_env_def sched_env_def)

lemma flow_part_run_events [simp]: "flow_part (run_events (runtime_env uc) evs r) = flow_part r"
proof -
  have "flow_part (run_event (runtime_env uc) e s) = flow_part s" for e and s :: "('a, 'b, 'c) runtime_scheme"
    by (cases e) (simp_all add: run_event_def)
  then show ?thesis unfolding run_events_def by (rule flow_part_fold)
qed

text \<open>The packets queued, and what of the graph is fixed once it is wired.\<close>

definition graph_static where
  "graph_static r = (net_static (w_net r), map oh_managers (w_ohs r),
     map (\<lambda>n. (n_oh n, n_input_ports n)) (w_nodes r), rt_graph_inputs r)"

definition graph_view where
  "graph_view r = (graph_static r, map ism_queue (nt_ims (w_net r)))"

lemma graph_view_flow: "flow_part r = flow_part r' \<Longrightarrow> graph_view r = graph_view r'"
  by (simp add: flow_part_def graph_view_def graph_static_def)

lemma graph_viewD:
  assumes "graph_view r' = graph_view r"
  shows "graph_static r' = graph_static r"
    "j < length (nt_ims (w_net r)) \<Longrightarrow> queue_at (w_net r') j = queue_at (w_net r) j"
proof -
  show "graph_static r' = graph_static r" using assms by (simp add: graph_view_def)
  have eq: "map ism_queue (nt_ims (w_net r')) = map ism_queue (nt_ims (w_net r))"
    using assms by (simp add: graph_view_def)
  then have "length (nt_ims (w_net r')) = length (nt_ims (w_net r))" by (rule map_eq_imp_length_eq)
  then show "queue_at (w_net r') j = queue_at (w_net r) j" if "j < length (nt_ims (w_net r))"
    using arg_cong [OF eq, of "\<lambda>xs. xs ! j"] that by (simp add: queue_at_def)
qed

text \<open>The managers of a node, and the graphs the delivery theorems are about.\<close>

definition node_managers :: "('v, 'u, 'z) runtime_scheme \<Rightarrow> nat \<Rightarrow> nat list" where
  "node_managers r n =
     (case n_oh (w_nodes r ! n) of None \<Rightarrow> [] | Some h \<Rightarrow> oh_managers (w_ohs r ! h))"

definition graph_ok :: "('v, 'u, 'z) runtime_scheme \<Rightarrow> bool" where
  "graph_ok r \<longleftrightarrow> net_ok (w_net r) \<and>
     (\<forall>n < length (w_nodes r). managers_ok (w_net r) (node_managers r n) \<and>
        (\<forall>h. n_oh (w_nodes r ! n) = Some h \<longrightarrow> h < length (w_ohs r))) \<and>
     (\<forall>s m. omap_get (rt_graph_inputs r) s = Some m \<longrightarrow> m < length (nt_oms (w_net r)))"

lemma graph_staticD:
  assumes "graph_static r' = graph_static r"
  shows "net_static (w_net r') = net_static (w_net r)" "rt_graph_inputs r' = rt_graph_inputs r"
    "length (w_nodes r') = length (w_nodes r)" "length (w_ohs r') = length (w_ohs r)"
    "n < length (w_nodes r) \<Longrightarrow> n_oh (w_nodes r' ! n) = n_oh (w_nodes r ! n)"
    "n < length (w_nodes r) \<Longrightarrow> n_input_ports (w_nodes r' ! n) = n_input_ports (w_nodes r ! n)"
    "h < length (w_ohs r) \<Longrightarrow> oh_managers (w_ohs r' ! h) = oh_managers (w_ohs r ! h)"
proof -
  have eq: "map oh_managers (w_ohs r') = map oh_managers (w_ohs r)"
    "map (\<lambda>n. (n_oh n, n_input_ports n)) (w_nodes r') = map (\<lambda>n. (n_oh n, n_input_ports n)) (w_nodes r)"
    using assms by (simp_all add: graph_static_def)
  show "net_static (w_net r') = net_static (w_net r)" "rt_graph_inputs r' = rt_graph_inputs r"
    using assms by (simp_all add: graph_static_def)
  show len: "length (w_nodes r') = length (w_nodes r)" "length (w_ohs r') = length (w_ohs r)"
    using eq map_eq_imp_length_eq by blast+
  show "n_oh (w_nodes r' ! n) = n_oh (w_nodes r ! n)"
    "n_input_ports (w_nodes r' ! n) = n_input_ports (w_nodes r ! n)" if "n < length (w_nodes r)"
    using arg_cong [OF eq(2), of "\<lambda>xs. xs ! n"] that len by simp_all
  show "oh_managers (w_ohs r' ! h) = oh_managers (w_ohs r ! h)" if "h < length (w_ohs r)"
    using arg_cong [OF eq(1), of "\<lambda>xs. xs ! h"] that len by simp
qed

lemma graph_ok_static:
  assumes "graph_static r' = graph_static r" "graph_ok r"
  shows "graph_ok r'" "n < length (w_nodes r) \<Longrightarrow> node_managers r' n = node_managers r n"
proof -
  note d = graph_staticD [OF assms(1)]
  show m: "node_managers r' n = node_managers r n" if "n < length (w_nodes r)" for n
    using d(5,7) that assms(2) by (auto simp: node_managers_def graph_ok_def split: option.splits)
  show "graph_ok r'"
    using assms(2) m d(2-5) net_staticD(2,4) [OF d(1)] managers_ok_static [OF d(1)]
    by (simp add: graph_ok_def)
qed

section \<open>One run of a node\<close>

text \<open>From \<open>r\<close> to \<open>r'\<close> the packets \<open>sent\<close> have been added to the queues they reach, and nothing else.\<close>

definition delivered :: "(nat \<times> 'v packet) list \<Rightarrow> ('v, 'u, 'z) runtime_scheme \<Rightarrow>
    ('v, 'u, 'z) runtime_scheme \<Rightarrow> bool" where
  "delivered sent r r' \<longleftrightarrow> graph_static r' = graph_static r \<and>
     (\<forall>j < length (nt_ims (w_net r)).
        queue_at (w_net r') j = queue_at (w_net r) j @ arrivals (w_net r) j sent)"

lemma delivered_then:
  assumes "delivered sent r r1" "graph_view r2 = graph_view r1"
  shows "delivered sent r r2"
proof -
  note v = graph_viewD [OF assms(2)]
  have "graph_static r1 = graph_static r" using assms(1) by (simp add: delivered_def)
  then have "length (nt_ims (w_net r1)) = length (nt_ims (w_net r))"
    using net_staticD(3) graph_staticD(1) by blast
  then show ?thesis using assms(1) v by (simp add: delivered_def)
qed

lemmas delivered_flow = delivered_then [OF _ graph_view_flow]

lemma post_process_delivers:
  assumes run: "post_process (runtime_env uc) n ts outs r = (outs', r')"
    and ok: "graph_ok r" "n < length (w_nodes r)"
    and shards: "omap_wf outs" "silent (w_net r) (node_managers r n) outs"
  shows "delivered (sent_by (node_managers r n) (w_net r) outs) r r'" "omap_wf outs'"
    "\<forall>m\<in>set (node_managers r' n). sh_queue (shard_at outs' (port_of (w_net r') m)) = []"
proof -
  have "delivered (sent_by (node_managers r n) (w_net r) outs) r r' \<and> omap_wf outs' \<and>
    (\<forall>m\<in>set (node_managers r' n). sh_queue (shard_at outs' (port_of (w_net r') m)) = [])"
  proof (cases "n_oh (w_nodes r ! n)")
    case None
    then have "outs' = outs" "r' = r" using run by (simp_all add: post_process_def)
    then show ?thesis using None shards by (simp add: delivered_def node_managers_def)
  next
    case (Some h)
    let ?ms = "node_managers r n"
    obtain net evs where pp: "oh_PostProcess (w_ohs r ! h) ts outs (w_net r) = (outs', net, evs)"
      and r': "r' = run_events (runtime_env uc) evs (r\<lparr>w_net := net\<rparr>)"
      using run Some by (auto simp: post_process_def split: prod.splits)
    have ms: "oh_managers (w_ohs r ! h) = ?ms" using Some by (simp add: node_managers_def)
    have "net_ok (w_net r)" "managers_ok (w_net r) ?ms" using ok by (simp_all add: graph_ok_def)
    then have f: "net_static net = net_static (w_net r)" "omap_wf outs'"
      "\<forall>m\<in>set ?ms. sh_queue (shard_at outs' (port_of (w_net r) m)) = []"
      "\<forall>j < length (nt_ims (w_net r)).
         queue_at net j = queue_at (w_net r) j @ arrivals (w_net r) j (sent_by ?ms (w_net r) outs)"
      using propagate_all_flow [OF pp [unfolded oh_PostProcess_def oh_PropagateOutputPackets_def ms]] shards
      by blast+
    have "delivered (sent_by ?ms (w_net r) outs) r (r\<lparr>w_net := net\<rparr>)"
      using f by (simp add: delivered_def graph_static_def)
    then have d: "delivered (sent_by ?ms (w_net r) outs) r r'"
      unfolding r' by (rule delivered_flow) simp
    then have static: "graph_static r' = graph_static r" by (simp add: delivered_def)
    have "\<forall>m\<in>set ?ms. port_of (w_net r') m = port_of (w_net r) m"
      using port_of_static [OF graph_staticD(1) [OF static]] ok by (auto simp: graph_ok_def managers_ok_def)
    then show ?thesis using d f(2,3) graph_ok_static(2) [OF static ok] by simp
  qed
  then show "delivered (sent_by (node_managers r n) (w_net r) outs) r r'" "omap_wf outs'"
    "\<forall>m\<in>set (node_managers r' n). sh_queue (shard_at outs' (port_of (w_net r') m)) = []"
    by blast+
qed

lemma close_outputs_view:
  assumes "graph_ok r" "n < length (w_nodes r)" "omap_wf outs"
    and "\<forall>m\<in>set (node_managers r n). sh_queue (shard_at outs (port_of (w_net r) m)) = []"
  shows "graph_view (close_outputs (runtime_env uc) n outs r) = graph_view r"
proof (cases "n_oh (w_nodes r ! n)")
  case (Some h)
  obtain shs net evs where cl: "oh_Close (w_ohs r ! h) (Some outs) (w_net r) = (shs, net, evs)"
    by (meson prod_cases3)
  have ms: "oh_managers (w_ohs r ! h) = node_managers r n" using Some by (simp add: node_managers_def)
  have "net_static net = net_static (w_net r) \<and> map ism_queue (nt_ims net) = map ism_queue (nt_ims (w_net r))"
    using assms by (intro close_all_flow [OF cl [unfolded oh_Close_def ms]])
      (auto simp: graph_ok_def managers_ok_def)
  then have "graph_view (r\<lparr>w_net := net\<rparr>) = graph_view r"
    by (simp add: graph_view_def graph_static_def)
  moreover have "graph_view (close_outputs (runtime_env uc) n outs r) = graph_view (r\<lparr>w_net := net\<rparr>)"
    using Some cl by (intro graph_view_flow) (simp add: close_outputs_def)
  ultimately show ?thesis by simp
qed (simp add: close_outputs_def)

text \<open>The three ways a run ends deliver the same packets.\<close>

lemma run_ends_deliver:
  assumes ok: "graph_ok r" "n < length (w_nodes r)"
    and shards: "omap_wf outs" "silent (w_net r) (node_managers r n) outs"
  defines "sent \<equiv> sent_by (node_managers r n) (w_net r) outs"
  shows "delivered sent r (run_stopped (runtime_env uc) q n ts outs r)"
    "delivered sent r (run_failed (runtime_env uc) q n ts st outs r)"
    "delivered sent r (run_completed (runtime_env uc) q n ts outs r)"
proof -
  obtain outs1 r1 where pp: "post_process (runtime_env uc) n ts outs r = (outs1, r1)"
    by (cases "post_process (runtime_env uc) n ts outs r")
  note p = post_process_delivers [OF pp ok shards, folded sent_def]
  have static: "graph_static r1 = graph_static r" using p(1) by (simp add: delivered_def)
  have close: "graph_view (close_outputs (runtime_env uc) n outs1 r2) = graph_view r1"
    if "flow_part r2 = flow_part r1" for r2
  proof -
    have v: "graph_view r2 = graph_view r1" using that by (rule graph_view_flow)
    then have s: "graph_static r2 = graph_static r" "w_net r2 = w_net r1"
      using static graph_viewD(1) [OF v] flow_partD(1) [OF that] by simp_all
    have "graph_ok r2" "n < length (w_nodes r2)"
      using graph_ok_static(1) [OF s(1) ok(1)] graph_staticD(3) [OF s(1)] ok(2) by simp_all
    moreover have "node_managers r2 n = node_managers r1 n"
      using graph_ok_static(2) [OF s(1) ok] graph_ok_static(2) [OF static ok] by simp
    ultimately show ?thesis
      using close_outputs_view [of r2 n outs1 uc] p(2,3) v s(2) by simp
  qed
  show "delivered sent r (run_failed (runtime_env uc) q n ts st outs r)"
    by (rule delivered_flow [OF p(1)]) (simp add: run_failed_def Let_def pp)
  have "graph_view (run_stopped (runtime_env uc) q n ts outs r) =
      graph_view (close_outputs (runtime_env uc) n outs1 r1)"
    by (rule graph_view_flow) (simp add: run_stopped_def Let_def pp)
  then show "delivered sent r (run_stopped (runtime_env uc) q n ts outs r)"
    using close [OF refl] by (intro delivered_then [OF p(1)]) simp
  show "delivered sent r (run_completed (runtime_env uc) q n ts outs r)"
  proof -
    obtain act s where dec: "decide_finalize n (input_port_count (w_nodes r1 ! n) > 0)
        (input_port_count (w_nodes r1 ! n) > 0 \<and> AllInputsDone n r1) (w_queues r1 ! q) = (act, s)"
      by (meson surj_pair)
    let ?r4 = "perf_add (\<lambda>c. c\<lparr>pk_tasks_completed := pk_tasks_completed c + 1,
        pk_packets_processed := pk_packets_processed c + 1\<rparr>) q
        (upd_node n node_DecrementPending (upd_queue q (\<lambda>_. s) r1))"
    let ?r5 = "case act of kClose \<Rightarrow> close_outputs (runtime_env uc) n outs1 ?r4
        | kSchedule \<Rightarrow> reschedule n ?r4 | kNone \<Rightarrow> ?r4"
    have r4: "flow_part ?r4 = flow_part r1" by simp
    have "graph_view ?r5 = graph_view r1"
    proof (cases act)
      case kClose
      then show ?thesis using close [OF r4] by simp
    qed (use r4 in \<open>auto intro: graph_view_flow\<close>)
    moreover have "graph_view (run_completed (runtime_env uc) q n ts outs r) = graph_view ?r5"
      by (rule graph_view_flow) (simp add: run_completed_def Let_def pp dec)
    ultimately show ?thesis by (intro delivered_then [OF p(1)]) simp
  qed
qed

text \<open>
  The shards node \<open>n\<close> returns from the invocation that queue \<open>q\<close> starts, and what it is relied on
  to do with the shards it is given.
\<close>

definition run_outputs ::
  "('v, 'u) user_code \<Rightarrow> nat \<Rightarrow> nat \<Rightarrow> ('v, 'u, 'z) runtime_scheme \<Rightarrow> 'v oshards" where
  "run_outputs uc q n r =
     (let node = w_nodes r ! n;
          (inputs, ims, _) = populate_inputs (n_contract node) (n_input_ports node)
                               ([], nt_ims (w_net r), []);
          prepared = (case n_oh node of
                        None \<Rightarrow> []
                      | Some h \<Rightarrow> oh_PrepareOutputs (w_ohs r ! h) ((w_net r)\<lparr>nt_ims := ims\<rparr>) []);
          ctx = context_new (n_name node) (n_addr node) ''node''
                  (ts_of (sq_timestamp_counter (w_queues r ! q))) inputs prepared
      in cx_outputs (fst (snd (uc_process uc n ctx (w_user r)))))"

definition respects_shards :: "('v, 'u) user_code \<Rightarrow> bool" where
  "respects_shards uc \<longleftrightarrow>
     (\<forall>n ctx u. omap_wf (cx_outputs ctx) \<longrightarrow>
        omap_wf (cx_outputs (fst (snd (uc_process uc n ctx u)))) \<and>
        (\<forall>port. shard_path (shard_at (cx_outputs ctx) port)
           (shard_at (cx_outputs (fst (snd (uc_process uc n ctx u)))) port)))"

text \<open>The packets a run of node \<open>n\<close> sends, stream after stream, and those it takes.\<close>

definition run_sent ::
  "('v, 'u) user_code \<Rightarrow> nat \<Rightarrow> nat \<Rightarrow> ('v, 'u, 'z) runtime_scheme \<Rightarrow> (nat \<times> 'v packet) list" where
  "run_sent uc q n r = sent_by (node_managers r n) (w_net r) (run_outputs uc q n r)"

definition run_taken :: "nat \<Rightarrow> ('v, 'u, 'z) runtime_scheme \<Rightarrow> (nat \<times> 'v packet) list" where
  "run_taken n r = taken_by (n_input_ports (w_nodes r ! n)) (nt_ims (w_net r))"

lemma queue_scope_begin_user [simp]:
  "w_user (snd (queue_scope_begin q w)) = w_user w" "w_nodes (snd (queue_scope_begin q w)) = w_nodes w"
  by (simp_all add: queue_scope_begin_def split_beta)

lemma run_process_delivers:
  fixes ts :: timestamp and inputs :: "'v ishards" and r :: "('v, 'u, 'z) runtime_scheme"
  assumes ok: "graph_ok r" "n < length (w_nodes r)" and uc: "respects_shards uc"
  defines "prepared \<equiv> (case n_oh (w_nodes r ! n) of None \<Rightarrow> []
      | Some h \<Rightarrow> oh_PrepareOutputs (w_ohs r ! h) (w_net r) [])"
  defines "outs \<equiv> cx_outputs (fst (snd (uc_process uc n (context_new (n_name (w_nodes r ! n))
      (n_addr (w_nodes r ! n)) ''node'' ts inputs prepared) (w_user r))))"
  shows "delivered (sent_by (node_managers r n) (w_net r) outs) r (run_process (runtime_env uc) q n ts inputs r)"
proof -
  let ?ctx = "context_new (n_name (w_nodes r ! n)) (n_addr (w_nodes r ! n)) ''node'' ts inputs prepared"
  let ?ms = "node_managers r n"
  have prep: "omap_wf prepared" "m \<in> set ?ms \<Longrightarrow> sh_queue (shard_at prepared (port_of (w_net r) m)) = [] \<and>
      sh_closed (shard_at prepared (port_of (w_net r) m)) = om_closed (nt_oms (w_net r) ! m)" for m
    using ok PrepareOutputs_shards [of "w_net r" "w_ohs r ! the (n_oh (w_nodes r ! n))"]
    by (auto simp: prepared_def node_managers_def graph_ok_def split: option.splits)
  have cx: "cx_outputs ?ctx = prepared" by (simp add: context_new_def)
  have wf: "omap_wf outs" and path: "shard_path (shard_at prepared port) (shard_at outs port)" for port
    using uc prep(1) unfolding respects_shards_def outs_def by (metis cx)+
  have sil: "silent (w_net r) ?ms outs"
    using closed_shard [OF path] prep(2) by (simp add: silent_def)
  obtain start r1 where sc: "queue_scope_begin q r = (start, r1)" by (cases "queue_scope_begin q r")
  have r1: "flow_part r1 = flow_part r" "w_user r1 = w_user r" "w_nodes r1 = w_nodes r"
    using sc flow_part_queue_locks(7) [of q r] queue_scope_begin_user [of q r] by simp_all
  obtain st ctx u where pr: "uc_process uc n ?ctx (w_user r) = (st, ctx, u)" by (meson prod_cases3)
  have outs: "cx_outputs ctx = outs" using pr by (simp add: outs_def)
  let ?r2 = "r1\<lparr>w_user := u\<rparr>"
  let ?r3 = "if IsStopStatus st then run_stopped (runtime_env uc) q n ts outs ?r2
      else if \<not> st_ok st then run_failed (runtime_env uc) q n ts st outs ?r2
      else run_completed (runtime_env uc) q n ts outs ?r2"
  have f2: "flow_part ?r2 = flow_part r" using r1(1) by simp
  have v2: "graph_view ?r2 = graph_view r" "graph_static ?r2 = graph_static r" "w_net ?r2 = w_net r"
    using graph_view_flow [OF f2] graph_viewD(1) flow_partD(1) [OF f2] by blast+
  have "graph_ok ?r2" "n < length (w_nodes ?r2)" "node_managers ?r2 n = ?ms"
    using graph_ok_static [OF v2(2) ok(1)] ok(2) r1(3) by simp_all
  then have "delivered (sent_by ?ms (w_net r) outs) ?r2 ?r3"
    using run_ends_deliver [of ?r2 n outs uc q ts] wf sil v2(3) by simp
  then have "delivered (sent_by ?ms (w_net r) outs) r ?r3"
    using v2 by (simp add: delivered_def)
  moreover have "run_process (runtime_env uc) q n ts inputs r =
      queue_scope_end q ProcessEvent (n_name (w_nodes r ! n)) start ?r3"
    using sc pr r1(2) outs by (simp add: run_process_def Let_def prepared_def)
  ultimately show ?thesis by (auto intro: delivered_flow)
qed

lemma run_frame:
  assumes "populate_inputs c ports ([], nt_ims (w_net r), []) = (inputs, ims, ws)"
  defines "r1 \<equiv> r\<lparr>w_net := (w_net r)\<lparr>nt_ims := ims\<rparr>, w_log := w_log r @ ws\<rparr>"
  shows "graph_static r1 = graph_static r"
    "j < length (nt_ims (w_net r)) \<Longrightarrow>
     queue_at (w_net r) j = taken_from j (taken_by ports (nt_ims (w_net r))) @ queue_at (w_net r1) j"
proof -
  note f = populate_flow [OF assms(1)]
  show "graph_static r1 = graph_static r"
    using f by (simp add: r1_def graph_static_def net_static_def)
  show "queue_at (w_net r) j = taken_from j (taken_by ports (nt_ims (w_net r))) @ queue_at (w_net r1) j"
    if "j < length (nt_ims (w_net r))"
    using f that by (simp add: r1_def queue_at_def)
qed

lemma RunNode_flow:
  fixes q :: nat and r :: "('v, 'u, 'z) runtime_scheme"
  assumes ok: "graph_ok r" "n < length (w_nodes r)" and uc: "respects_shards uc"
  defines "r' \<equiv> RunNode (runtime_env uc) q (Some n) False r"
  shows "graph_static r' = graph_static r"
    "j < length (nt_ims (w_net r)) \<Longrightarrow> queue_at (w_net r) j @ arrivals (w_net r) j (run_sent uc q n r) =
       taken_from j (run_taken n r) @ queue_at (w_net r') j"
proof -
  let ?node = "w_nodes r ! n"
  obtain inputs ims ws where pop: "populate_inputs (n_contract ?node) (n_input_ports ?node)
      ([], nt_ims (w_net r), []) = (inputs, ims, ws)" by (meson prod_cases3)
  let ?r1 = "r\<lparr>w_net := (w_net r)\<lparr>nt_ims := ims\<rparr>, w_log := w_log r @ ws\<rparr>"
  note p = run_frame [OF pop]
  let ?c = "sq_timestamp_counter (w_queues r ! q)"
  let ?r2 = "upd_queue q (\<lambda>s. s\<lparr>sq_timestamp_counter := to_i64 (?c + 1)\<rparr>) ?r1"
  have f2: "flow_part ?r2 = flow_part ?r1" by simp
  have s2: "graph_static ?r2 = graph_static r" "w_net ?r2 = w_net ?r1"
    using graph_viewD(1) [OF graph_view_flow [OF f2]] p(1) flow_partD(1) [OF f2] by simp_all
  have ok2: "graph_ok ?r2" "n < length (w_nodes ?r2)" "node_managers ?r2 n = node_managers r n"
    using graph_ok_static [OF s2(1) ok(1)] ok(2) by (simp_all add: upd_queue_def)
  have run: "r' = run_process (runtime_env uc) q n (ts_of ?c) inputs ?r2"
    using pop by (simp add: r'_def RunNode_def Let_def)
  have net: "net_static (w_net ?r2) = net_static (w_net r)" by (rule graph_staticD(1) [OF s2(1)])
  have same: "w_nodes ?r2 = w_nodes r" "w_user ?r2 = w_user r" "w_ohs ?r2 = w_ohs r"
    "w_net ?r2 = (w_net r)\<lparr>nt_ims := ims\<rparr>"
    by (simp_all add: upd_queue_def)
  have "delivered (sent_by (node_managers r n) (w_net ?r2) (run_outputs uc q n r)) ?r2 r'"
    using run_process_delivers [OF ok2(1,2) uc, of "ts_of ?c" inputs q] run pop ok2(3)
    by (simp add: same run_outputs_def Let_def cong: option.case_cong)
  moreover have bound: "\<forall>m\<in>set (node_managers r n). m < length (nt_oms (w_net r))"
    using ok by (simp add: graph_ok_def managers_ok_def)
  then have "sent_by (node_managers r n) (w_net ?r2) (run_outputs uc q n r) = run_sent uc q n r"
    unfolding run_sent_def by (intro sent_by_static [OF net]) auto
  ultimately have d: "delivered (run_sent uc q n r) ?r2 r'" by simp
  then show "graph_static r' = graph_static r" using s2(1) by (simp add: delivered_def)
  show "queue_at (w_net r) j @ arrivals (w_net r) j (run_sent uc q n r) =
      taken_from j (run_taken n r) @ queue_at (w_net r') j" if "j < length (nt_ims (w_net r))"
  proof -
    have "arrivals (w_net ?r2) j (run_sent uc q n r) = arrivals (w_net r) j (run_sent uc q n r)"
      using bound by (intro arrivals_static [OF net]) (auto simp: run_sent_def sent_by_def)
    then have "queue_at (w_net r') j = queue_at (w_net ?r1) j @ arrivals (w_net r) j (run_sent uc q n r)"
      using d that s2(2) net_staticD(3) [OF net] by (simp add: delivered_def)
    then show ?thesis using p(2) [OF that] by (simp add: run_taken_def)
  qed
qed

section \<open>Properties\<close>

text \<open>
  C4: one run of a node moves packets and neither loses, duplicates nor reorders any: every queue
  of the graph loses exactly the head its owner takes, if the node owns it, and gains exactly the
  packets the node wrote to the streams that feed it, in the order of writing, whichever way the
  run ends (stopped, failed or completed, closing its outputs or not) and whatever callbacks and
  rescheduling it triggers; the wiring stays as it was.
\<close>

theorem RunNode_delivers:
  fixes q :: nat and r :: "('v, 'u, 'z) runtime_scheme"
  assumes "graph_ok r" "n < length (w_nodes r)" "respects_shards uc"
  shows "graph_ok (RunNode (runtime_env uc) q (Some n) False r) \<and>
    (\<forall>j < length (nt_ims (w_net r)).
       ism_queue (nt_ims (w_net r) ! j) @ arrivals (w_net r) j (run_sent uc q n r) =
       taken_from j (run_taken n r) @
         ism_queue (nt_ims (w_net (RunNode (runtime_env uc) q (Some n) False r)) ! j))"
  using RunNode_flow(2) [OF assms] graph_ok_static(1) [OF RunNode_flow(1) [OF assms] assms(1)]
  by (simp add: queue_at_def)

text \<open>A source that writes one packet to its port.\<close>

definition writer :: "(int, unit) user_code" where
  "writer = idle_code\<lparr>uc_process := (\<lambda>n c u. (StatusStop,
     c\<lparr>cx_outputs := oss_update ''g'' (shard_AddPacket (MakePacket 1 ''i'' 7)) (cx_outputs c)\<rparr>, u))\<rparr>"

definition one_writer :: "(int, unit) runtime" where
  "one_writer = one_input\<lparr>w_nodes := [(node_new 5 ''s'')\<lparr>n_oh := Some 0\<rparr>], w_ohs := [oh_new [0]]\<rparr>"

lemma writer_respects: "respects_shards writer"
  unfolding respects_shards_def writer_def
  by (simp add: oss_update_wf shard_at_update shard_path.intros)

lemma one_writer_ok: "graph_ok one_writer" "length (w_nodes one_writer) = 1"
  by (simp_all add: graph_ok_def one_writer_def one_input_def node_managers_def managers_ok_def net_ok_def
      targets_def osm_AddMirror_def osm_new_def valid_id_def ih_target_def oh_new_def ism_new_def omap_get_def
      GraphRuntime_new_def Scheduler_new_def world.defs)

theorem RunNode_delivers_witness:
  "ism_queue (nt_ims (w_net (RunNode (runtime_env writer) 0 (Some 0) False one_writer)) ! 0) =
     [MakePacket 1 ''i'' 7]"
proof -
  have "ism_queue (nt_ims (w_net one_writer) ! 0) = [] \<and> length (nt_ims (w_net one_writer)) = 1 \<and>
      taken_from 0 (run_taken 0 one_writer) = [] \<and>
      arrivals (w_net one_writer) 0 (run_sent writer 0 0 one_writer) = [MakePacket 1 ''i'' 7]"
    by code_simp
  then show ?thesis
    using RunNode_delivers [OF one_writer_ok(1) _ writer_respects, of 0 0] one_writer_ok(2) by simp
qed

end
