(* ===== verification/Histories.thy ===== *)
theory Histories
  imports Delivery
begin

text \<open>
  Whole histories of a graph: injections, runs of nodes, and everything the scheduler does between
  them, as the packets each stream was sent and the packets each consumer took; and what an
  initialised graph makes of them.
\<close>

section \<open>Histories of a graph\<close>

text \<open>The packet an injection puts on the stream of its graph input, if any.\<close>

definition injected :: "string \<Rightarrow> 'v packet \<Rightarrow> ('v, 'u, 'z) runtime_scheme \<Rightarrow> (nat \<times> 'v packet) list" where
  "injected s p r =
     (case omap_get (rt_graph_inputs r) s of
        None \<Rightarrow> []
      | Some m \<Rightarrow> if om_closed (nt_oms (w_net r) ! m) \<or> p_IsEmpty p then [] else [(m, p)])"

lemma AddPacket_delivers:
  assumes "AddPacketToInputStream uc s p r = (st, r')" "graph_ok r"
  shows "delivered (injected s p r) r r'"
proof (cases "omap_get (rt_graph_inputs r) s")
  case None
  then show ?thesis using assms(1) by (simp add: AddPacketToInputStream_def injected_def delivered_def)
next
  case (Some m)
  show ?thesis
  proof (cases "om_closed (nt_oms (w_net r) ! m)")
    case True
    then show ?thesis
      using assms(1) Some by (simp add: AddPacketToInputStream_def injected_def delivered_def Let_def)
  next
    case False
    let ?net = "w_net r" and ?sh = "shard_AddPacket p (oshard_new (Some m))"
    have m: "m < length (nt_oms ?net)" and ok: "net_ok ?net"
      using assms(2) Some by (simp_all add: graph_ok_def)
    obtain o1 sh1 ims1 evs where run: "osm_PropagateUpdatesToMirrors (nt_ihs ?net)
        (osm_ComputeOutputTimestampBound ?sh ts_Min (nt_oms ?net ! m)) ?sh
        (nt_oms ?net ! m) (nt_ims ?net) = (o1, sh1, ims1, evs)"
      by (meson prod_cases4)
    let ?r1 = "r\<lparr>w_net := ?net\<lparr>nt_ims := ims1, nt_oms := (nt_oms ?net)[m := o1]\<rparr>\<rparr>"
    have r': "flow_part r' = flow_part ?r1"
      using assms(1) Some False run
      by (auto simp: AddPacketToInputStream_def Let_def sc_AddedPacketToInputStream_def)
    have f: "om_mirrors o1 = om_mirrors (nt_oms ?net ! m)" "osm_Name o1 = osm_Name (nt_oms ?net ! m)"
      "map ism_closed ims1 = map ism_closed (nt_ims ?net)"
      "j < length (nt_ims ?net) \<Longrightarrow> ism_queue (ims1 ! j) = ism_queue (nt_ims ?net ! j) @
         (if j \<in> set (targets ?net m) then sh_queue ?sh else [])" for j
      using Propagate_flow [OF run] ok m by (simp_all add: net_ok_def targets_def)
    have "net_static (w_net ?r1) = net_static ?net" using net_static_upd [OF m f(1-3)] by simp
    then have "delivered (map (Pair m) (sh_queue ?sh)) r ?r1"
      using f(4) by (simp add: delivered_def graph_static_def queue_at_def)
    moreover have "map (Pair m) (sh_queue ?sh) = injected s p r"
      using Some False by (simp add: injected_def shard_of_injected)
    ultimately show ?thesis using delivered_flow [OF _ r'] by metis
  qed
qed

lemma CloseInputStream_view:
  assumes "CloseInputStream uc s r = (st, r')" "graph_ok r"
  shows "graph_view r' = graph_view r"
proof (cases "omap_get (rt_graph_inputs r) s")
  case (Some m)
  show ?thesis
  proof (cases "s \<in> rt_closed_streams r")
    case False
    let ?net = "w_net r"
    obtain o1 ims1 evs where run: "osm_Close (nt_ihs ?net) (nt_oms ?net ! m) (nt_ims ?net) = (o1, ims1, evs)"
      by (meson prod_cases3)
    note c = osm_Close_flow [OF run]
    have m: "m < length (nt_oms ?net)" using assms(2) Some by (simp add: graph_ok_def)
    let ?r1 = "r\<lparr>w_net := ?net\<lparr>nt_ims := ims1, nt_oms := (nt_oms ?net)[m := o1]\<rparr>\<rparr>"
    let ?r2 = "run_stream_events uc evs ?r1"
    let ?r3 = "sc_IncClosedGraphInputStreams (?r2\<lparr>rt_closed_streams := insert s (rt_closed_streams ?r2)\<rparr>)"
    have "flow_part r' = flow_part ?r3"
      using assms(1) Some False run
      by (auto simp: CloseInputStream_def Let_def sc_AddedPacketToInputStream_def)
    then have "graph_view r' = graph_view ?r3" by (rule graph_view_flow)
    also have "\<dots> = graph_view ?r2"
      by (simp add: graph_view_def graph_static_def sc_IncClosedGraphInputStreams_def)
    also have "\<dots> = graph_view ?r1" by (rule graph_view_flow) simp
    also have "\<dots> = graph_view r"
    proof -
      have len: "length ims1 = length (nt_ims ?net)" using c(3) by (rule map_eq_imp_length_eq)
      have "map ism_queue ims1 = map ism_queue (nt_ims ?net)"
        by (rule nth_equalityI) (use len c(4) in auto)
      then show ?thesis
        using net_static_upd [OF m c(1-3)] by (simp add: graph_view_def graph_static_def)
    qed
    finally show ?thesis .
  qed (use assms(1) Some in \<open>simp add: CloseInputStream_def\<close>)
qed (use assms(1) in \<open>simp add: CloseInputStream_def\<close>)

text \<open>
  A history: from \<open>r0\<close> on, any sequence of injections, closings of graph inputs, runs of nodes (those
  for an open task take the inputs and send nothing) and steps that move no packet, with the
  packets sent (each with its manager) and the packets taken (each with its queue), oldest first.
\<close>

inductive history ::
  "('v, 'u) user_code \<Rightarrow> ('v, 'u, 'z) runtime_scheme \<Rightarrow> (nat \<times> 'v packet) list \<Rightarrow>
     (nat \<times> 'v packet) list \<Rightarrow> ('v, 'u, 'z) runtime_scheme \<Rightarrow> bool"
  for uc r0 where
  Begin: "history uc r0 [] [] r0"
| Inject: "history uc r0 sent taken r \<Longrightarrow> AddPacketToInputStream uc s p r = (st, r') \<Longrightarrow>
     history uc r0 (sent @ injected s p r) taken r'"
| CloseInput: "history uc r0 sent taken r \<Longrightarrow> CloseInputStream uc s r = (st, r') \<Longrightarrow>
     history uc r0 sent taken r'"
| Run: "history uc r0 sent taken r \<Longrightarrow> n < length (w_nodes r) \<Longrightarrow>
     history uc r0 (sent @ run_sent uc q n r) (taken @ run_taken n r)
       (RunNode (runtime_env uc) q (Some n) False r)"
| RunOpen: "history uc r0 sent taken r \<Longrightarrow> n < length (w_nodes r) \<Longrightarrow>
     history uc r0 sent (taken @ run_taken n r) (RunNode (runtime_env uc) q (Some n) True r)"
| Quiet: "history uc r0 sent taken r \<Longrightarrow> graph_view r' = graph_view r \<Longrightarrow> history uc r0 sent taken r'"

lemma RunNode_open_flow:
  fixes r :: "('v, 'u, 'z) runtime_scheme"
  assumes "n < length (w_nodes r)"
  shows "graph_static (RunNode (runtime_env uc) q (Some n) True r) = graph_static r"
    "j < length (nt_ims (w_net r)) \<Longrightarrow> queue_at (w_net r) j =
       taken_from j (run_taken n r) @ queue_at (w_net (RunNode (runtime_env uc) q (Some n) True r)) j"
proof -
  let ?node = "w_nodes r ! n" and ?r' = "RunNode (runtime_env uc) q (Some n) True r"
  obtain inputs ims ws where pop: "populate_inputs (n_contract ?node) (n_input_ports ?node)
      ([], nt_ims (w_net r), []) = (inputs, ims, ws)" by (meson prod_cases3)
  let ?r1 = "r\<lparr>w_net := (w_net r)\<lparr>nt_ims := ims\<rparr>, w_log := w_log r @ ws\<rparr>"
  note p = run_frame [OF pop]
  have "?r' = run_open (runtime_env uc) q n inputs ?r1" using pop by (simp add: RunNode_def)
  also have "flow_part \<dots> = flow_part ?r1"
    using flow_part_queue_locks(7) [of q ?r1] by (simp add: run_open_def split_beta Let_def)
  finally have f: "flow_part ?r' = flow_part ?r1" .
  show "graph_static ?r' = graph_static r"
    using graph_viewD(1) [OF graph_view_flow [OF f]] p(1) by simp
  show "queue_at (w_net r) j = taken_from j (run_taken n r) @ queue_at (w_net ?r') j"
    if "j < length (nt_ims (w_net r))"
    using p(2) [OF that] flow_partD(1) [OF f] by (simp add: run_taken_def)
qed

text \<open>What is sent goes to existing managers, so it arrives where it did at the beginning.\<close>

definition bounded where
  "bounded r sent \<longleftrightarrow> (\<forall>(m, p)\<in>set sent. m < length (nt_oms (w_net r)))"

lemma bounded_sent:
  "graph_ok r \<Longrightarrow> n < length (w_nodes r) \<Longrightarrow> bounded r (run_sent uc q n r)"
  "graph_ok r \<Longrightarrow> bounded r (injected s p r)"
  by (auto simp: bounded_def run_sent_def sent_by_def injected_def graph_ok_def managers_ok_def
      split: option.splits if_splits)

lemma arrivals_bounded:
  assumes "graph_static r = graph_static r0" "bounded r sent"
  shows "arrivals (w_net r) j sent = arrivals (w_net r0) j sent"
  using arrivals_static [OF graph_staticD(1) [OF assms(1) [symmetric]], of sent j] assms(2)
  by (simp add: bounded_def)

lemma history_conserves:
  assumes "history uc r0 sent taken r" "graph_ok r0" "respects_shards uc"
  shows "graph_static r = graph_static r0 \<and> (\<forall>j < length (nt_ims (w_net r0)).
    queue_at (w_net r0) j @ arrivals (w_net r0) j sent = taken_from j taken @ queue_at (w_net r) j)"
  using assms(1)
proof induction
  case (Inject sent taken r s p st r')
  have s: "graph_static r = graph_static r0" and ok: "graph_ok r"
    using Inject.IH graph_ok_static(1) assms(2) by blast+
  have len: "length (nt_ims (w_net r)) = length (nt_ims (w_net r0))"
    by (rule net_staticD(3) [OF graph_staticD(1) [OF s]])
  show ?case
    using Inject.IH AddPacket_delivers [OF Inject.hyps(2) ok] len
      arrivals_bounded [OF s bounded_sent(2) [OF ok]]
    by (simp add: delivered_def flip: append_assoc)
next
  case (CloseInput sent taken r s st r')
  have s: "graph_static r = graph_static r0" and ok: "graph_ok r"
    using CloseInput.IH graph_ok_static(1) assms(2) by blast+
  note v = graph_viewD [OF CloseInputStream_view [OF CloseInput.hyps(2) ok]]
  show ?case
    using CloseInput.IH v net_staticD(3) [OF graph_staticD(1) [OF s]] by simp
next
  case (Run sent taken r n q)
  have s: "graph_static r = graph_static r0" and ok: "graph_ok r"
    using Run.IH graph_ok_static(1) assms(2) by blast+
  have len: "length (nt_ims (w_net r)) = length (nt_ims (w_net r0))"
    by (rule net_staticD(3) [OF graph_staticD(1) [OF s]])
  note f = RunNode_flow [OF ok Run.hyps(2) assms(3), where q = q]
  show ?case
    using Run.IH f len arrivals_bounded [OF s bounded_sent(1) [OF ok Run.hyps(2)]]
    by (simp flip: append_assoc) simp
next
  case (RunOpen sent taken r n q)
  have s: "graph_static r = graph_static r0" using RunOpen.IH by blast
  show ?case
    using RunOpen.IH RunNode_open_flow [OF RunOpen.hyps(2), where uc = uc and q = q]
      net_staticD(3) [OF graph_staticD(1) [OF s]] by simp
next
  case (Quiet sent taken r r')
  have s: "graph_static r = graph_static r0" using Quiet.IH by blast
  show ?case
    using Quiet.IH graph_viewD [OF Quiet.hyps(2)] net_staticD(3) [OF graph_staticD(1) [OF s]] by simp
qed simp

section \<open>A freshly initialised graph\<close>

text \<open>
  What the passes of \<open>Initialize\<close> keep: well-formed handlers, open empty queues, open streams, no
  bound at Done, no offset, known inputs.
\<close>

definition fresh_ism :: "'v ism \<Rightarrow> bool" where
  "fresh_ism s \<longleftrightarrow> ism_queue s = [] \<and> \<not> ism_closed s \<and> ism_next_bound s \<noteq> ts_Done"

definition fresh_osm :: "'v osm \<Rightarrow> bool" where
  "fresh_osm s \<longleftrightarrow> \<not> om_closed s \<and> om_next_bound s \<noteq> ts_Done \<and> \<not> os_offset_enabled (om_spec s)"

lemma fresh_new [simp]: "fresh_ism (ism_new x k)" "fresh_osm (osm_new x)"
  by (simp_all add: fresh_ism_def fresh_osm_def ism_new_def osm_new_def)

definition wiring_inv :: "('v, 'u, 'z) runtime_scheme \<Rightarrow> bool" where
  "wiring_inv r \<longleftrightarrow>
     (\<forall>h\<in>set (w_ohs r). managers_ok (w_net r) (oh_managers h)) \<and>
     (\<forall>n\<in>set (w_nodes r). \<forall>h. n_oh n = Some h \<longrightarrow> h < length (w_ohs r)) \<and>
     (\<forall>s\<in>set (nt_ims (w_net r)). fresh_ism s) \<and> (\<forall>s\<in>set (nt_oms (w_net r)). fresh_osm s) \<and>
     (\<forall>(s, m)\<in>set (rt_graph_inputs r). m < length (nt_oms (w_net r)))"

lemma managers_ok_extend:
  assumes "map osm_Name (nt_oms net') = map osm_Name (nt_oms net) @ xs" "managers_ok net ms"
  shows "managers_ok net' ms"
proof -
  have len: "length (nt_oms net) \<le> length (nt_oms net')"
    using arg_cong [OF assms(1), of length] by simp
  have "port_of net' m = port_of net m" if "m < length (nt_oms net)" for m
    using arg_cong [OF assms(1), of "\<lambda>xs. xs ! m"] that len by (simp add: port_of_def nth_append)
  then have "map (port_of net') ms = map (port_of net) ms"
    using assms(2) by (simp add: managers_ok_def)
  then show ?thesis
    using assms(2) len unfolding managers_ok_def by (auto simp del: map_eq_conv)
qed

text \<open>A step of the wiring that makes no handler.\<close>

lemma wiring_inv_step:
  assumes "wiring_inv r" "w_ohs r' = w_ohs r"
    and "\<forall>n\<in>set (w_nodes r'). \<exists>m\<in>set (w_nodes r). n_oh n = n_oh m"
    and "map osm_Name (nt_oms (w_net r')) = map osm_Name (nt_oms (w_net r)) @ xs"
    and "\<forall>s\<in>set (nt_ims (w_net r')). fresh_ism s" "\<forall>s\<in>set (nt_oms (w_net r')). fresh_osm s"
    and "\<forall>(s, m)\<in>set (rt_graph_inputs r'). m < length (nt_oms (w_net r'))"
  shows "wiring_inv r'"
  using assms managers_ok_extend [OF assms(4)] unfolding wiring_inv_def by simp metis

lemma set_update_at: "set (update_at n f xs) \<subseteq> set xs \<union> f ` set xs"
  by (auto simp: update_at_def list_update_beyond not_less dest!: set_update_subset_insert [THEN subsetD]
      split: if_splits)

lemma wiring_inv_upd_node:
  assumes "\<And>x. n_oh (f x) = n_oh x" "wiring_inv r"
  shows "wiring_inv (upd_node n f r)"
proof (rule wiring_inv_step [where xs = "[]", OF assms(2)])
  show "\<forall>x\<in>set (w_nodes (upd_node n f r)). \<exists>m\<in>set (w_nodes r). n_oh x = n_oh m"
    using set_update_at [of n f "w_nodes r"] assms(1) by (fastforce simp: upd_node_def)
qed (use assms(2) in \<open>auto simp: wiring_inv_def upd_node_def\<close>)

lemma wiring_inv_upd_ism:
  "(\<And>s. fresh_ism s \<Longrightarrow> fresh_ism (f s)) \<Longrightarrow> wiring_inv r \<Longrightarrow>
   wiring_inv (upd_ism m f r)"
  by (rule wiring_inv_step [where xs = "[]"])
    (use set_update_at [of m f "nt_ims (w_net r)"] in \<open>auto simp: wiring_inv_def\<close>)

lemma wiring_inv_add_ism: "wiring_inv r \<Longrightarrow> wiring_inv (add_ism (ism_new x k) r)"
  by (rule wiring_inv_step [where xs = "[]"]) (auto simp: wiring_inv_def)

lemma wiring_inv_add_osm: "fresh_osm o' \<Longrightarrow> wiring_inv r \<Longrightarrow> wiring_inv (add_osm o' r)"
  by (rule wiring_inv_step [where xs = "[osm_Name o']"]) (auto simp: wiring_inv_def)

lemma wiring_inv_fold: "(\<And>x r. wiring_inv r \<Longrightarrow> wiring_inv (f x r)) \<Longrightarrow> wiring_inv r \<Longrightarrow> wiring_inv (fold f xs r)"
  by (induction xs arbitrary: r) simp_all

lemma wiring_inv_fold_snd:
  "(\<And>x t r. wiring_inv r \<Longrightarrow> wiring_inv (snd (f x (t, r)))) \<Longrightarrow> wiring_inv r \<Longrightarrow>
   wiring_inv (snd (fold f xs (t, r)))"
proof (induction xs arbitrary: t r)
  case (Cons x xs)
  then show ?case by (cases "f x (t, r)") (metis fold_simps(2) snd_conv)
qed simp

lemma wiring_inv_inputs: "wiring_inv r \<Longrightarrow> wiring_inv (snd (init_node_inputs d (table, r)))"
proof -
  assume inv: "wiring_inv r"
  have "wiring_inv (snd (add_input n x (ms, s)))" if "wiring_inv s"
    for n x ms and s :: "('a, 'b, 'c) runtime_scheme"
    using that by (simp add: add_input_step wiring_inv_upd_node wiring_inv_add_ism node_SetInputPort_def)
  then show ?thesis
    using inv by (auto simp: init_node_inputs_def Let_def split_beta intro!: wiring_inv_fold_snd
        split: option.splits)
qed

lemma wiring_inv_callbacks: "wiring_inv r \<Longrightarrow> wiring_inv (wire_node_callbacks table d r)"
  by (auto simp: wire_node_callbacks_def wire_ism_def ism_SetArrivalCallback_def
      ism_SetQueueSizeCallbacks_def fresh_ism_def intro!: wiring_inv_fold wiring_inv_upd_ism split: option.splits)

lemma wiring_inv_handler: "wiring_inv r \<Longrightarrow> wiring_inv (init_node_handler table d r)"
proof -
  assume inv: "wiring_inv r"
  have core: "wiring_inv (r\<lparr>w_net := (w_net r)\<lparr>nt_ims := ims, nt_ihs := ihs\<rparr>\<rparr>)"
    if "map ism_core ims = map ism_core (nt_ims (w_net r))" for ims ihs
  proof -
    have "ism_core ` set ims = ism_core ` set (nt_ims (w_net r))"
      using that by (metis list.set_map)
    then have "\<forall>s\<in>set ims. \<exists>t\<in>set (nt_ims (w_net r)). ism_core s = ism_core t" by (metis imageE imageI)
    then show ?thesis
      using inv by (intro wiring_inv_step [where xs = "[]", OF inv])
        (auto simp: wiring_inv_def ism_core_def fresh_ism_def)
  qed
  show ?thesis
    using inv by (auto simp: init_node_handler_def Let_def dest: SetInputStreamManagers_spec
        intro!: wiring_inv_upd_node core split: option.splits prod.splits)
qed

lemma wiring_inv_graph_input: "wiring_inv r \<Longrightarrow> wiring_inv (snd (add_graph_input g (table, r)))"
proof -
  assume inv: "wiring_inv r"
  have name: "osm_Name (osm_new g) = g" by (simp add: osm_Name_def osm_new_def)
  have "set (omap_put k v m) \<subseteq> insert (k, v) (set m)" for k v and m :: "(string, nat) omap"
    by (induction k v m rule: omap_put.induct) auto
  then show ?thesis
    unfolding add_graph_input_def Let_def
    by (intro wiring_inv_step [where xs = "[g]", OF inv])
      (use inv name in \<open>force simp: wiring_inv_def\<close>)+
qed

lemma wiring_inv_mirrors: "wiring_inv r \<Longrightarrow> wiring_inv (wire_node_mirrors table d r)"
proof -
  assume inv: "wiring_inv r"
  have "wiring_inv (wire_mirror table h e s)" if "wiring_inv s"
    for h e and s :: "('a, 'b, 'c) runtime_scheme"
    using that
    by (intro wiring_inv_step [where xs = "[]", OF that])
      (use set_update_at [of _ "osm_AddMirror (Some h) _" "nt_oms (w_net s)"] in
        \<open>fastforce simp: wire_mirror_def wiring_inv_def map_update_at osm_AddMirror_def osm_Name_def fresh_osm_def
          split: option.splits prod.splits\<close>)+
  then show ?thesis
    using inv by (auto simp: wire_node_mirrors_def intro!: wiring_inv_fold split: option.splits)
qed

lemma wiring_inv_outputs:
  assumes inv: "wiring_inv r" and ports: "distinct (map PortName (nd_output_streams d))"
  shows "wiring_inv (init_node_outputs d r)"
proof (cases "nd_output_streams d = [] \<or> FindNode (nd_name d) r = None")
  case True
  then show ?thesis using inv by (auto simp: init_node_outputs_def)
next
  case False
  then obtain n where n: "FindNode (nd_name d) r = Some n" by auto
  obtain ms r1 where step: "fold add_output (nd_output_streams d) ([], r) = (ms, r1)"
    by (cases "fold add_output (nd_output_streams d) ([], r)") auto
  note s = fold_add_output [OF step]
  have "wiring_inv (snd (fold add_output (nd_output_streams d) ([], r)))"
    using inv by (intro wiring_inv_fold_snd) (simp_all add: add_output_step wiring_inv_add_osm)
  then have inv1: "wiring_inv r1" using step by simp
  let ?k = "length (nt_oms (w_net r))"
  have "map (port_of (w_net r1)) ms = map PortName (nd_output_streams d)"
    using s by (intro nth_equalityI) (simp_all add: port_of_def nth_append osm_Name_def osm_new_def)
  moreover have "distinct ms" "\<forall>m\<in>set ms. m < length (nt_oms (w_net r1))"
    using s by (simp_all add: distinct_upt)
  ultimately have "managers_ok (w_net r1) ms" using ports by (simp add: managers_ok_def)
  moreover define h where "h = fold (\<lambda>(stream_name, cb). oh_SetOutputStreamCallback stream_name cb)
      (rt_output_cbs r1) (oh_new ms)"
  then have "oh_managers h = ms" by (simp add: fold_SetCallback_managers oh_new_def)
  ultimately have new: "managers_ok (w_net r1) (oh_managers h)" by simp
  let ?r2 = "upd_node n (\<lambda>x. x\<lparr>n_oh := Some (length (w_ohs r1))\<rparr>) (r1\<lparr>w_ohs := w_ohs r1 @ [h]\<rparr>)"
  have nodes: "\<forall>x\<in>set (w_nodes ?r2). \<forall>h. n_oh x = Some h \<longrightarrow> h < Suc (length (w_ohs r1))"
    using inv1 set_update_at [of n "\<lambda>x. x\<lparr>n_oh := Some (length (w_ohs r1))\<rparr>" "w_nodes r1"]
    by (fastforce simp: wiring_inv_def upd_node_def)
  have "init_node_outputs d r = ?r2"
    using False n step by (simp add: init_node_outputs_def h_def)
  then show ?thesis
    using inv1 new nodes by (simp add: wiring_inv_def)
qed

lemma wiring_inv_graph:
  assumes inv: "wiring_inv r"
    and ports: "\<forall>d\<in>set (gc_nodes config). distinct (map PortName (nd_output_streams d))"
  shows "wiring_inv (wire_graph clock config r)"
proof -
  let ?nodes = "gc_nodes config" and ?gs = "gc_input_streams config"
  have upd: "wiring_inv (sc_SetProfiler p s) = wiring_inv s"
    "wiring_inv (sc_SetNodes ns s) = wiring_inv s"
    "wiring_inv (sc_SetTotalGraphInputStreams k s) = wiring_inv s"
    for p ns k and s :: "('a, 'b, 'c) runtime_scheme"
    by (simp_all add: wiring_inv_def sc_SetProfiler_def sc_SetNodes_def sc_SetTotalGraphInputStreams_def)
  have outs: "wiring_inv (fold init_node_outputs ds s)"
    if "set ds \<subseteq> set ?nodes" "wiring_inv s" for ds and s :: "('a, 'b, 'c) runtime_scheme"
    using that ports by (induction ds arbitrary: s) (simp_all add: wiring_inv_outputs)
  have count: "wiring_inv (fold count_graph_input ?gs s)" if "wiring_inv s"
    for s :: "('a, 'b, 'c) runtime_scheme"
    using that by (intro wiring_inv_fold) (simp_all add: count_graph_input_def wiring_inv_def)
  show ?thesis
    unfolding wire_graph_def Let_def split_beta
    by (intro wiring_inv_fold wiring_inv_fold_snd wiring_inv_mirrors wiring_inv_graph_input
        wiring_inv_handler wiring_inv_callbacks outs order_refl) 
      (simp_all add: upd count inv wiring_inv_fold_snd wiring_inv_inputs)
qed

lemma create_nodes_no_output:
  "create_nodes reg addr ds w = Inr w' \<Longrightarrow> \<forall>n\<in>set (w_nodes w). n_oh n = None \<Longrightarrow>
   \<forall>n\<in>set (w_nodes w'). n_oh n = None"
proof (induction ds arbitrary: w)
  case (Cons d ds)
  from Cons.prems(1) obtain n where n: "rg_CreateByName (nd_type d) (nd_name d) (nd_options d)
      (addr (length (w_nodes w))) reg = Some n"
    and rest: "create_nodes reg addr ds (w\<lparr>w_nodes := w_nodes w @
      [n\<lparr>n_executor_name := nd_executor d, n_source_layer := nd_source_layer d\<rparr>]\<rparr>) = Inr w'"
    by (auto split: option.splits)
  show ?case
    by (rule Cons.IH [OF rest]) (use Cons.prems(2) rg_CreateByName_Some [OF n] in auto)
qed simp

lemma Build_no_output:
  assumes "GraphBuilder_Build reg addr hw u config = Inr r"
  shows "\<forall>n\<in>set (w_nodes r). n_oh n = None"
proof -
  obtain w where w: "create_nodes reg addr (gc_nodes config) w = Inr r" "w_nodes w = []"
    using assms
    by (auto simp: GraphBuilder_Build_def Let_def sc_SetDefaultExecutor_def upd_queue_def
        GraphRuntime_new_def Scheduler_new_def world.defs split: if_splits)
  show ?thesis by (rule create_nodes_no_output [OF w(1)]) (simp add: w(2))
qed

lemma Initialize_inv:
  assumes "Initialize reg addr hw clock config options
      (GraphRuntime_new u :: ('v, 'u) runtime) = (st, r)" "st_ok st"
    and "\<forall>d\<in>set (gc_nodes config). distinct (map PortName (nd_output_streams d))"
  shows "wiring_inv r"
proof -
  obtain b :: "('v, 'u) runtime" where b: "GraphBuilder_Build reg addr hw u (Options_Apply options config) = Inr b"
    using assms(1,2) by (auto simp: Initialize_def Let_def dest: Build_error split: sum.splits)
  let ?n = "GraphRuntime_new u :: ('v, 'u) runtime"
  define r0 where "r0 = world.extend
      ((world.truncate b)\<lparr>w_net := w_net ?n, w_ohs := w_ohs ?n, w_log := w_log ?n\<rparr>)
      (runtime.fields config True (rt_graph_input_set ?n) (rt_num_open ?n) (rt_full ?n)
         (rt_closed_streams ?n) (rt_graph_inputs ?n) (rt_output_cbs ?n) (rt_side_packets ?n)
         (rt_side_cbs ?n) (rt_profiler_override ?n))"
  have r: "r = wire_graph clock config r0"
    using assms(1) b by (simp add: Initialize_def Let_def r0_def GraphRuntime_new_def world.defs
        Scheduler_new_def)
  have "wiring_inv r0"
    using Build_no_output [OF b]
    by (simp add: wiring_inv_def r0_def world.defs runtime.defs GraphRuntime_new_def Scheduler_new_def)
  then show ?thesis unfolding r by (rule wiring_inv_graph) (use assms(3) in simp)
qed

text \<open>The manager of the stream an input edge names: its last producer.\<close>

definition producer :: "graph_config \<Rightarrow> nat \<Rightarrow> nat option" where
  "producer config j =
     find (\<lambda>m. edge_sources config ! m = edge_sinks config ! j)
       (rev [0..<length (edge_sources config)])"

lemma producer_iff:
  "producer config j = Some m \<longleftrightarrow> m < length (edge_sources config) \<and>
     edge_sources config ! m = edge_sinks config ! j \<and>
     edge_sources config ! m \<notin> set (drop (Suc m) (edge_sources config))"
proof -
  let ?s = "edge_sources config" and ?t = "edge_sinks config ! j"
  have later: "?t \<in> set (drop (Suc m) ?s) \<longleftrightarrow> (\<exists>k < length ?s. m < k \<and> ?s ! k = ?t)"
  proof
    assume "?t \<in> set (drop (Suc m) ?s)"
    then obtain i where "i < length (drop (Suc m) ?s)" "drop (Suc m) ?s ! i = ?t"
      unfolding in_set_conv_nth by blast
    then show "\<exists>k < length ?s. m < k \<and> ?s ! k = ?t"
      by (intro exI [of _ "Suc m + i"]) simp
  next
    assume "\<exists>k < length ?s. m < k \<and> ?s ! k = ?t"
    then obtain k where "k < length ?s" "m < k" "?s ! k = ?t" by blast
    then show "?t \<in> set (drop (Suc m) ?s)"
      unfolding in_set_conv_nth by (intro exI [of _ "k - Suc m"]) simp
  qed
  then have last: "?t \<notin> set (drop (Suc m) ?s) \<longleftrightarrow> (\<forall>k < length ?s. m < k \<longrightarrow> ?s ! k \<noteq> ?t)"
    by blast
  show ?thesis
  proof
    assume "producer config j = Some m"
    then obtain i where i: "i < length ?s" "?s ! (length ?s - Suc i) = ?t" "m = length ?s - Suc i"
      "\<forall>k < i. ?s ! (length ?s - Suc k) \<noteq> ?t"
      unfolding producer_def find_Some_iff by (auto simp: rev_nth)
    have "?s ! k \<noteq> ?t" if "k < length ?s" "m < k" for k
      using i(4) [rule_format, of "length ?s - Suc k"] that i(1,3) by simp
    then show "m < length ?s \<and> ?s ! m = ?t \<and> ?s ! m \<notin> set (drop (Suc m) ?s)"
      using i last by simp
  next
    assume m: "m < length ?s \<and> ?s ! m = ?t \<and> ?s ! m \<notin> set (drop (Suc m) ?s)"
    then show "producer config j = Some m"
      unfolding producer_def find_Some_iff using last
      by (intro exI [of _ "length ?s - Suc m"]) (auto simp: rev_nth)
  qed
qed

definition sent_on :: "nat option \<Rightarrow> (nat \<times> 'v packet) list \<Rightarrow> 'v packet list" where
  "sent_on m sent = map snd (filter (\<lambda>(k, p). Some k = m) sent)"

lemma Initialize_graph:
  assumes "Initialize reg addr hw clock config options
      (GraphRuntime_new u :: ('v, 'u) runtime) = (st, r)" "st_ok st"
    and "\<forall>d\<in>set (gc_nodes config). distinct (map PortName (nd_output_streams d))"
  shows "graph_ok r" "length (nt_ims (w_net r)) = length (edge_sinks config)"
    "j < length (edge_sinks config) \<Longrightarrow> queue_at (w_net r) j = []"
    "j < length (edge_sinks config) \<Longrightarrow> bounded r sent \<Longrightarrow>
     arrivals (w_net r) j sent = sent_on (producer config j) sent"
proof -
  note inv = Initialize_inv [OF assms] and net = Initialize_net [OF assms(1,2)]
  have ims: "map ism_name (nt_ims (w_net r)) = concat (map nd_input_streams (gc_nodes config))"
    and oms: "length (nt_oms (w_net r)) = length (edge_sources config)"
    and t: "m < length (edge_sources config) \<Longrightarrow> targets (w_net r) m =
      (if edge_sources config ! m \<in> set (drop (Suc m) (edge_sources config)) then []
       else filter (\<lambda>j. edge_sinks config ! j = edge_sources config ! m)
              [0..<length (edge_sinks config)])" for m
    using net unfolding targets_def by blast+
  show len: "length (nt_ims (w_net r)) = length (edge_sinks config)"
    using arg_cong [OF ims, of length] by (simp add: edge_sinks_def)
  show "queue_at (w_net r) j = []" if "j < length (edge_sinks config)"
    using inv that len by (simp add: wiring_inv_def fresh_ism_def queue_at_def)
  have "distinct (targets (w_net r) m)" if "m < length (nt_oms (w_net r))" for m
    using t [of m] that oms by simp
  then have "net_ok (w_net r)" using inv by (simp add: net_ok_def wiring_inv_def fresh_ism_def)
  moreover have "m < length (nt_oms (w_net r))" if "omap_get (rt_graph_inputs r) s = Some m" for s m
    using inv that by (auto simp: wiring_inv_def omap_get_def dest!: map_of_SomeD)
  moreover have "managers_ok (w_net r) []" by (simp add: managers_ok_def)
  moreover have "h < length (w_ohs r) \<and> managers_ok (w_net r) (oh_managers (w_ohs r ! h))"
    if "n < length (w_nodes r)" "n_oh (w_nodes r ! n) = Some h" for n h
    using inv that unfolding wiring_inv_def by (metis nth_mem)
  ultimately show "graph_ok r"
    by (auto simp: graph_ok_def node_managers_def split: option.splits)
  show "arrivals (w_net r) j sent = sent_on (producer config j) sent"
    if j: "j < length (edge_sinks config)" and b: "bounded r sent"
  proof -
    have "j \<in> set (targets (w_net r) m) \<longleftrightarrow> Some m = producer config j"
      if m: "m < length (edge_sources config)" for m
    proof -
      have "j \<in> set (targets (w_net r) m) \<longleftrightarrow> producer config j = Some m"
        unfolding producer_iff t [OF m] using j m by auto
      then show ?thesis by metis
    qed
    then show ?thesis
      using b oms unfolding arrivals_def sent_on_def bounded_def
      by (intro arg_cong [of _ _ "map snd"] filter_cong) auto
  qed
qed

lemma history_bounded:
  assumes "history uc r0 sent taken r" "graph_ok r0" "respects_shards uc"
  shows "bounded r0 sent"
  using assms(1)
proof induction
  case (Inject sent taken r s p st r')
  have s: "graph_static r = graph_static r0" and ok: "graph_ok r"
    using history_conserves [OF Inject.hyps(1) assms(2,3)] graph_ok_static(1) assms(2) by blast+
  show ?case
    using Inject.IH bounded_sent(2) [OF ok, of s p] net_staticD(2) [OF graph_staticD(1) [OF s]]
    by (auto simp: bounded_def)
next
  case (Run sent taken r n q)
  have s: "graph_static r = graph_static r0" and ok: "graph_ok r"
    using history_conserves [OF Run.hyps(1) assms(2,3)] graph_ok_static(1) assms(2) by blast+
  show ?case
    using Run.IH bounded_sent(1) [OF ok Run.hyps(2), of uc q] net_staticD(2) [OF graph_staticD(1) [OF s]]
    by (auto simp: bounded_def)
qed (simp_all add: bounded_def)

lemma graph_delivery:
  assumes "Initialize reg addr hw clock config options
      (GraphRuntime_new u :: ('v, 'u) runtime) = (st, r0)" "st_ok st"
    and "\<forall>d\<in>set (gc_nodes config). distinct (map PortName (nd_output_streams d))"
    and "respects_shards uc" "history uc r0 sent taken r" "j < length (edge_sinks config)"
  shows "taken_from j taken @ ism_queue (nt_ims (w_net r) ! j) = sent_on (producer config j) sent"
proof -
  note i = Initialize_graph [OF assms(1-3)]
  have "queue_at (w_net r0) j @ arrivals (w_net r0) j sent = taken_from j taken @ queue_at (w_net r) j"
    using history_conserves [OF assms(5) i(1) assms(4)] assms(6) i(2) by simp
  then show ?thesis
    using i(3) [OF assms(6)] i(4) [OF assms(6) history_bounded [OF assms(5) i(1) assms(4)]]
    by (simp add: queue_at_def)
qed

section \<open>The other calls are quiet\<close>

lemma graph_view_fold: "(\<And>x r. graph_view (f x r) = graph_view r) \<Longrightarrow> graph_view (fold f xs r) = graph_view r"
  by (induction xs arbitrary: r) simp_all

lemma flow_part_open_all [simp]: "flow_part (snd (open_all uc b ns r)) = flow_part r"
  by (induction ns arbitrary: r) (simp_all add: split_beta Let_def)

lemma flow_part_start_ops [simp]:
  "flow_part (start_profiler r) = flow_part r" "flow_part (collect_sources r) = flow_part r"
  "flow_part (assign_all r) = flow_part r" "flow_part (wire_queue q r) = flow_part r"
  by (auto simp: start_profiler_def collect_sources_def assign_all_def sc_AssignNodeToQueue_def
      wire_queue_def Let_def intro!: flow_part_fold flow_part_upd_node split: option.splits)

text \<open>None of the calls of the public class but the two on graph inputs moves a packet.\<close>

lemma calls_keep_flow:
  "flow_part (snd (rt_Start uc r)) = flow_part r" "flow_part (rt_Cancel uc r) = flow_part r"
  "flow_part (snd (rt_Pause r)) = flow_part r" "flow_part (snd (rt_Resume uc r)) = flow_part r"
  "flow_part (rt_Shutdown r) = flow_part r" "flow_part (rt_SetErrorCallback b r) = flow_part r"
proof -
  have runs: "flow_part (sc_SetQueuesRunning b r) = flow_part r"
    for b and r :: "('a, 'b, 'c) runtime_scheme"
    unfolding sc_SetQueuesRunning_def by (rule flow_part_fold) simp
  have wait: "flow_part (fold sq_SubmitWaitingTasksToExecutor qs r) = flow_part r"
    for qs and r :: "('a, 'b, 'c) runtime_scheme"
    by (rule flow_part_fold) simp
  have wire: "flow_part (fold wire_queue qs r) = flow_part r"
    for qs and r :: "('a, 'b, 'c) runtime_scheme"
    by (rule flow_part_fold) simp
  show "flow_part (snd (rt_Start uc r)) = flow_part r" "flow_part (rt_Cancel uc r) = flow_part r"
    "flow_part (snd (rt_Pause r)) = flow_part r" "flow_part (snd (rt_Resume uc r)) = flow_part r"
    "flow_part (rt_Shutdown r) = flow_part r"
    by (simp_all add: rt_Start_def sc_Start_def rt_Cancel_def sc_Cancel_def rt_Pause_def sc_Pause_def
        rt_Resume_def sc_Resume_def rt_Shutdown_def sc_Shutdown_def sc_SetInputSidePackets_def
        Let_def split_beta runs wait wire)
  show "flow_part (rt_SetErrorCallback b r) = flow_part r"
    by (simp add: rt_SetErrorCallback_def sc_SetErrorCallback_def flow_part_def upd_queue_def)
qed

lemma calls_are_quiet:
  "graph_view (snd (rt_Start uc r)) = graph_view r" "graph_view (rt_Cancel uc r) = graph_view r"
  "graph_view (snd (rt_Pause r)) = graph_view r" "graph_view (snd (rt_Resume uc r)) = graph_view r"
  "graph_view (rt_Shutdown r) = graph_view r" "graph_view (rt_SetErrorCallback b r) = graph_view r"
  "graph_view (sc_HandleIdle uc r) = graph_view r"
  by (rule graph_view_flow, simp add: calls_keep_flow)+

lemma settings_are_quiet:
  "graph_view (UnthrottleSources r) = graph_view r"
  "graph_view (rt_SetOutputStreamCallback s cb r) = graph_view r"
  "graph_view (rt_ClearOutputStreamCallback s r) = graph_view r"
  "graph_view (snd (SetInputSidePacket s p r)) = graph_view r"
proof -
  have "graph_view (unthrottle m r) = graph_view r" for m and r :: "('a, 'b, 'c) runtime_scheme"
    by (simp add: unthrottle_def graph_view_def graph_static_def net_static_def map_update_at
        ism_SetMaxQueueSize_def)
  then have "graph_view (fold unthrottle ms r) = graph_view r" for ms
    by (rule graph_view_fold)
  then show "graph_view (UnthrottleSources r) = graph_view r"
    by (simp add: UnthrottleSources_def graph_view_def graph_static_def)
  have h: "graph_view (on_handlers f r) = graph_view r"
    if "\<And>h. oh_managers (f h) = oh_managers h" for f and r :: "('a, 'b, 'c) runtime_scheme"
  proof -
    have "map oh_managers (fold (\<lambda>n ohs. case n_oh n of Some h \<Rightarrow> update_at h f ohs | None \<Rightarrow> ohs) ns ohs) =
        map oh_managers ohs" for ns ohs
      by (induction ns arbitrary: ohs) (auto simp: map_update_at that split: option.splits)
    then show ?thesis by (simp add: on_handlers_def graph_view_def graph_static_def)
  qed
  show "graph_view (rt_SetOutputStreamCallback s cb r) = graph_view r"
    "graph_view (rt_ClearOutputStreamCallback s r) = graph_view r"
    by (simp_all add: rt_SetOutputStreamCallback_def rt_ClearOutputStreamCallback_def h
        oh_SetOutputStreamCallback_def oh_ClearOutputStreamCallback_def)
      (simp_all add: graph_view_def graph_static_def)
  show "graph_view (snd (SetInputSidePacket s p r)) = graph_view r"
    by (simp add: SetInputSidePacket_def graph_view_def graph_static_def)
qed

text \<open>One task of a worker continues a history: by one run of the node it takes, if any.\<close>

lemma worker_continues:
  assumes h: "history uc r0 sent taken r"
    and items: "\<forall>q. \<forall>i\<in>set (sq_items (w_queues r ! q)). \<forall>n. it_node i = Some n \<longrightarrow> n < length (w_nodes r)"
  shows "\<exists>sent' taken'. history uc r0 (sent @ sent') (taken @ taken') (worker_step (runtime_env uc) e r)"
proof (cases "pool_take (w_pools r ! e)")
  case (Some tp)
  show ?thesis
  proof (cases "fst tp")
    case (Some q)
    let ?r = "r\<lparr>w_pools := (w_pools r)[e := snd tp]\<rparr>"
    have step: "worker_step (runtime_env uc) e r = RunNextTask (runtime_env uc) q ?r"
      using Some \<open>pool_take (w_pools r ! e) = Some tp\<close> by (cases tp) (simp add: worker_step_def)
    obtain i r1 where pop: "TryPop q ?r = (i, r1)" by (cases "TryPop q ?r")
    have r1: "flow_part r1 = flow_part r" "w_nodes r1 = w_nodes r"
      using pop flow_part_queue_locks(1) [of q ?r]
      by (auto simp: TryPop_def upd_queue_def split: option.splits prod.splits)
    have h1: "history uc r0 sent taken r1"
      by (rule history.Quiet [OF h graph_view_flow [OF r1(1)]])
    show ?thesis
    proof (cases "case i of Some x \<Rightarrow> it_node x | None \<Rightarrow> None")
      case None
      have "flow_part (worker_step (runtime_env uc) e r) = flow_part r1"
        using None pop by (cases i) (simp_all add: step RunNextTask_def UpdateIdleState_def
            OnTaskFinished_def RunNode_def)
      then show ?thesis
        using history.Quiet [OF h1 graph_view_flow] by (metis append_Nil2)
    next
      case (Some n)
      then obtain x where x: "i = Some x" "it_node x = Some n" by (cases i) auto
      have "x \<in> set (sq_items (w_queues r ! q))"
      proof -
        have "x \<in> set (sq_items (w_queues ?r ! q))"
          using pop x(1) pq_top_in
          by (fastforce simp: TryPop_def pq_pop_def Let_def split: option.splits list.splits)
        then show ?thesis by simp
      qed
      then have n: "n < length (w_nodes r1)" using items x(2) r1(2) by simp
      have last: "flow_part (worker_step (runtime_env uc) e r) =
          flow_part (RunNode (runtime_env uc) q (Some n) (it_is_open x) r1)"
        using pop x by (simp add: step RunNextTask_def OnTaskFinished_def UpdateIdleState_def)
      show ?thesis
      proof (cases "it_is_open x")
        case True
        then have "graph_view (worker_step (runtime_env uc) e r) =
            graph_view (RunNode (runtime_env uc) q (Some n) True r1)"
          using graph_view_flow [OF last] by simp
        from history.Quiet [OF history.RunOpen [OF h1 n] this]
        show ?thesis by (metis append_Nil2)
      next
        case False
        then have "graph_view (worker_step (runtime_env uc) e r) =
            graph_view (RunNode (runtime_env uc) q (Some n) False r1)"
          using graph_view_flow [OF last] by simp
        from history.Quiet [OF history.Run [OF h1 n] this]
        show ?thesis by blast
      qed
    qed
  qed (use h \<open>pool_take (w_pools r ! e) = Some tp\<close> in
      \<open>cases tp; force simp: worker_step_def intro: exI [of _ "[]"]\<close>)
qed (use h in \<open>force simp: worker_step_def intro: exI [of _ "[]"]\<close>)

section \<open>Properties\<close>

text \<open>
  C1: the runtime delivers in order, exactly once. In the graph that \<open>Initialize\<close> makes of a
  configuration whose nodes name their output ports apart, after any history of injections,
  closings, runs of nodes and scheduling, the packets every input edge has taken followed by
  those it has still queued are exactly the packets sent on the stream it names (by the last
  producer of that name), in the order sent; an edge whose stream nobody produces gets nothing.
\<close>

theorem graph_delivers_in_order:
  assumes "Initialize reg addr hw clock config options
      (GraphRuntime_new u :: ('v, 'u) runtime) = (st, r0)" "st_ok st"
    and "\<forall>d\<in>set (gc_nodes config). distinct (map PortName (nd_output_streams d))"
    and "respects_shards uc" "history uc r0 sent taken r" "j < length (edge_sinks config)"
  shows "taken_from j taken @ ism_queue (nt_ims (w_net r) ! j) = sent_on (producer config j) sent"
  by (rule graph_delivery [OF assms])

lemma idle_respects: "respects_shards idle_code"
  by (simp add: respects_shards_def idle_code_def shard_path.Untouched)

theorem graph_delivers_in_order_witness:
  "ism_queue (nt_ims (w_net (snd (AddPacketToInputStream idle_code ''g'' (MakePacket 1 ''i'' 7)
     demo_runtime))) ! 1) = [MakePacket 1 ''i'' 7]"
proof -
  let ?new = "GraphRuntime_new () :: (int, unit) runtime" and ?p = "MakePacket 1 ''i'' (7 :: int)"
  have init: "Initialize demo_registry int 4 [] demo_config [] ?new =
      (fst (Initialize demo_registry int 4 [] demo_config [] ?new), demo_runtime)"
    by (simp add: demo_runtime_def)
  obtain st r where add: "AddPacketToInputStream idle_code ''g'' ?p demo_runtime = (st, r)"
    by (cases "AddPacketToInputStream idle_code ''g'' ?p demo_runtime")
  have h: "history idle_code demo_runtime (injected ''g'' ?p demo_runtime) [] r"
    using history.Inject [OF history.Begin add] by simp
  have sources: "edge_sources demo_config = [''s'', ''g'']" by code_simp
  have c: "(\<forall>d\<in>set (gc_nodes demo_config). distinct (map PortName (nd_output_streams d))) \<and>
      1 < length (edge_sinks demo_config) \<and> producer demo_config 1 = Some 1"
    by code_simp
  obtain m where "m < 2" "omap_get (rt_graph_inputs demo_runtime) ''g'' = Some m" "[''s'', ''g''] ! m = ''g''"
    using Initialize_net [OF init demo_created] sources by (auto simp: demo_config_def)
  then have "omap_get (rt_graph_inputs demo_runtime) ''g'' = Some 1" by (auto simp: less_2_cases_iff)
  moreover have "\<not> om_closed (nt_oms (w_net demo_runtime) ! 1)"
    using Initialize_inv [OF init demo_created] Initialize_net [OF init demo_created] sources c
    by (simp add: wiring_inv_def fresh_osm_def)
  ultimately have inj: "injected ''g'' ?p demo_runtime = [(1, ?p)]" by (simp add: injected_def)
  have "taken_from 1 [] @ ism_queue (nt_ims (w_net r) ! 1) =
      sent_on (producer demo_config 1) (injected ''g'' ?p demo_runtime)"
    using c by (intro graph_delivers_in_order [OF init demo_created _ idle_respects h]) auto
  then show ?thesis using c add inj by (simp add: sent_on_def)
qed

end
