(* ===== verification/Executions.thy ===== *)
theory Executions
  imports Histories
begin

text \<open>
  Every use of an initialised runtime: the calls of the public class and the tasks of the worker
  threads, in any order. No such use leaves a reference dangling (a queue, node, stream or
  executor the code reaches through a pointer is one that exists), and each is a history in the
  sense of \<open>Histories\<close>, so what holds of the packets of every history holds of every execution.
\<close>

section \<open>Arrival callbacks\<close>

text \<open>The nodes the arrival callbacks of the streams name, and those some events name.\<close>

definition named_by :: "'v ism list \<Rightarrow> nat set" where
  "named_by ims = {n. Some n \<in> ism_arrival_cb ` set ims}"

definition arrival_nodes :: "stream_event list \<Rightarrow> nat set" where
  "arrival_nodes evs = {n. PacketArrival n \<in> set evs}"

lemma arrival_nodes_simps [simp]:
  "arrival_nodes [] = {}" "arrival_nodes (xs @ ys) = arrival_nodes xs \<union> arrival_nodes ys"
  "arrival_nodes (fire PacketArrival cb) = (case cb of Some n \<Rightarrow> {n} | None \<Rightarrow> {})"
  "arrival_nodes (fire BecameFull cb) = {}" "arrival_nodes (fire BecameNotFull cb) = {}"
  by (auto simp: arrival_nodes_def fire_def split: option.splits)

lemma named_by_cbs: "map ism_arrival_cb ims' = map ism_arrival_cb ims \<Longrightarrow> named_by ims' = named_by ims"
  unfolding named_by_def by (metis list.set_map)

lemma named_by_nth: "j < length ims \<Longrightarrow> ism_arrival_cb (ims ! j) = Some n \<Longrightarrow> n \<in> named_by ims"
  unfolding named_by_def by (metis (mono_tags, lifting) image_eqI mem_Collect_eq nth_mem)

lemma map_cb_update:
  "ism_arrival_cb s = ism_arrival_cb (ims ! j) \<Longrightarrow>
   map ism_arrival_cb (ims[j := s]) = map ism_arrival_cb ims"
  by (cases "j < length ims") (simp_all add: map_update list_update_beyond list_update_same_conv)

text \<open>What one stream operation, one handler operation and one round over the mirrors fire.\<close>

lemma AddPackets_cb:
  "ism_AddPackets ps s = (s', st, b, evs) \<Longrightarrow> ism_arrival_cb s' = ism_arrival_cb s \<and>
     arrival_nodes evs \<subseteq> {n. ism_arrival_cb s = Some n}"
  by (cases "ism_closed s")
    (auto simp: ism_AddPackets_open ism_AddPackets_closed append_events_def appended_def
        split: option.splits if_splits)

lemma MovePackets_cb:
  "ism_MovePackets ps s = (s', st, b, left, evs) \<Longrightarrow> ism_arrival_cb s' = ism_arrival_cb s \<and>
     arrival_nodes evs \<subseteq> {n. ism_arrival_cb s = Some n}"
  using MovePackets_equiv [of ps s] AddPackets_cb [of ps s]
  by (cases "ism_AddPackets ps s") auto

lemma SetNextTimestampBound_cb:
  "ism_SetNextTimestampBound b s = (s', evs) \<Longrightarrow> ism_arrival_cb s' = ism_arrival_cb s \<and>
     arrival_nodes evs \<subseteq> {n. ism_arrival_cb s = Some n}"
  by (auto simp: ism_SetNextTimestampBound_def split: if_splits option.splits)

lemma handler_cbs:
  assumes "\<forall>m\<in>set (ih_managers h). m < length ims"
  shows "ih_AddPacketsToStream sid ps h ims = (ims', st, b, evs) \<Longrightarrow>
      map ism_arrival_cb ims' = map ism_arrival_cb ims \<and> arrival_nodes evs \<subseteq> named_by ims"
    "ih_MovePacketsToStream sid ps h ims = (ims', st, b, left, evs) \<Longrightarrow>
      map ism_arrival_cb ims' = map ism_arrival_cb ims \<and> arrival_nodes evs \<subseteq> named_by ims"
    "ih_SetNextTimestampBound sid bound h ims = (ims', evs) \<Longrightarrow>
      map ism_arrival_cb ims' = map ism_arrival_cb ims \<and> arrival_nodes evs \<subseteq> named_by ims"
proof -
  have t: "ih_managers h ! nat sid < length ims" if "0 \<le> sid" "sid < int (length (ih_managers h))"
    using assms that by simp
  show "map ism_arrival_cb ims' = map ism_arrival_cb ims \<and> arrival_nodes evs \<subseteq> named_by ims"
    if "ih_AddPacketsToStream sid ps h ims = (ims', st, b, evs)"
    using that t named_by_nth
    by (fastforce simp: AddPacketsToStream_defs Let_def split: ih_class.splits if_splits prod.splits
        intro!: map_cb_update dest!: AddPackets_cb)
  show "map ism_arrival_cb ims' = map ism_arrival_cb ims \<and> arrival_nodes evs \<subseteq> named_by ims"
    if "ih_MovePacketsToStream sid ps h ims = (ims', st, b, left, evs)"
    using that t named_by_nth
    by (fastforce simp: MovePacketsToStream_defs Let_def split: ih_class.splits if_splits prod.splits
        intro!: map_cb_update dest!: MovePackets_cb)
  show "map ism_arrival_cb ims' = map ism_arrival_cb ims \<and> arrival_nodes evs \<subseteq> named_by ims"
    if "ih_SetNextTimestampBound sid bound h ims = (ims', evs)"
    using that t named_by_nth
    by (fastforce simp: SetNextTimestampBound_defs Let_def split: ih_class.splits if_splits prod.splits
        intro!: map_cb_update dest!: SetNextTimestampBound_cb)
qed

lemma mirror_loop_cbs:
  "mirror_loop ihs nb sb ms ps ims = (ims', evs) \<Longrightarrow>
   \<forall>h\<in>set ihs. \<forall>m\<in>set (ih_managers h). m < length ims \<Longrightarrow>
   \<forall>m\<in>set ms. \<forall>h. mi_handler m = Some h \<longrightarrow> h < length ihs \<Longrightarrow>
   map ism_arrival_cb ims' = map ism_arrival_cb ims \<and> arrival_nodes evs \<subseteq> named_by ims"
proof (induction ms arbitrary: ps ims ims' evs)
  case (Cons m ms)
  show ?case
  proof (cases "mi_handler m")
    case None
    then show ?thesis using Cons by simp
  next
    case (Some h)
    define one where "one = (if ps \<noteq> []
        then if ms = []
             then let (ims', _, _, left, evs) = ih_MovePacketsToStream (mi_id m) ps (ihs ! h) ims in (left, ims', evs)
             else let (ims', _, _, evs) = ih_AddPacketsToStream (mi_id m) ps (ihs ! h) ims in (ps, ims', evs)
        else (ps, ims, []))"
    obtain ps1 ims1 ev1 where one1: "one = (ps1, ims1, ev1)" by (cases one) auto
    obtain ims2 ev2 where two: "(if sb then ih_SetNextTimestampBound (mi_id m) nb (ihs ! h) ims1
        else (ims1, [])) = (ims2, ev2)" by (meson surj_pair)
    obtain ims3 ev3 where three: "mirror_loop ihs nb sb ms ps1 ims2 = (ims3, ev3)" by (meson surj_pair)
    have res: "ims' = ims3" "evs = ev1 @ ev2 @ ev3"
      using Cons.prems(1) Some one1 two three by (simp_all add: Let_def one_def)
    have "h < length ihs" using Cons.prems(3) Some by simp
    then have h: "\<forall>k\<in>set (ih_managers (ihs ! h)). k < length ims" using Cons.prems(2) nth_mem by blast
    have c1: "map ism_arrival_cb ims1 = map ism_arrival_cb ims \<and> arrival_nodes ev1 \<subseteq> named_by ims"
      using one1 handler_cbs(1,2) [OF h] by (auto simp: one_def split: if_splits prod.splits)
    then have l1: "length ims1 = length ims" by (metis length_map)
    have c2: "map ism_arrival_cb ims2 = map ism_arrival_cb ims1 \<and> arrival_nodes ev2 \<subseteq> named_by ims1"
      using two handler_cbs(3) [of "ihs ! h" ims1] h l1 by (auto split: if_splits)
    then have l2: "length ims2 = length ims1" by (metis length_map)
    have "map ism_arrival_cb ims3 = map ism_arrival_cb ims2 \<and> arrival_nodes ev3 \<subseteq> named_by ims2"
      using Cons.prems(2,3) l1 l2 by (intro Cons.IH [OF three]) auto
    then show ?thesis using c1 c2 named_by_cbs unfolding res by (metis Un_least arrival_nodes_simps(2))
  qed
qed simp

lemma bound_to_mirrors_cbs:
  "bound_to_mirrors ihs b ms ims = (ims', evs) \<Longrightarrow>
   \<forall>h\<in>set ihs. \<forall>m\<in>set (ih_managers h). m < length ims \<Longrightarrow>
   \<forall>m\<in>set ms. \<forall>h. mi_handler m = Some h \<longrightarrow> h < length ihs \<Longrightarrow>
   map ism_arrival_cb ims' = map ism_arrival_cb ims \<and> arrival_nodes evs \<subseteq> named_by ims"
proof (induction ms arbitrary: ims ims' evs)
  case (Cons m ms)
  show ?case
  proof (cases "mi_handler m")
    case None
    then show ?thesis using Cons by simp
  next
    case (Some h)
    obtain ims1 ev1 where one: "ih_SetNextTimestampBound (mi_id m) b (ihs ! h) ims = (ims1, ev1)"
      by (meson surj_pair)
    obtain ims2 ev2 where two: "bound_to_mirrors ihs b ms ims1 = (ims2, ev2)" by (meson surj_pair)
    have res: "ims' = ims2" "evs = ev1 @ ev2" using Cons.prems(1) Some one two by simp_all
    have c1: "map ism_arrival_cb ims1 = map ism_arrival_cb ims \<and> arrival_nodes ev1 \<subseteq> named_by ims"
      using Cons.prems(2,3) Some by (intro handler_cbs(3) [OF _ one]) auto
    then have l1: "length ims1 = length ims" by (metis length_map)
    have "map ism_arrival_cb ims2 = map ism_arrival_cb ims1 \<and> arrival_nodes ev2 \<subseteq> named_by ims1"
      using Cons.prems(2,3) l1 by (intro Cons.IH [OF two]) auto
    then show ?thesis using c1 named_by_cbs unfolding res by (metis Un_least arrival_nodes_simps(2))
  qed
qed simp

section \<open>Links\<close>

text \<open>The handlers' managers and the mirrors' handlers exist.\<close>

definition links_ok :: "'v net \<Rightarrow> bool" where
  "links_ok net \<longleftrightarrow>
     (\<forall>h\<in>set (nt_ihs net). \<forall>m\<in>set (ih_managers h). m < length (nt_ims net)) \<and>
     (\<forall>o'\<in>set (nt_oms net). \<forall>m\<in>set (om_mirrors o'). \<forall>h. mi_handler m = Some h \<longrightarrow> h < length (nt_ihs net))"

lemma links_okD:
  assumes "links_ok net" "m < length (nt_oms net)"
  shows "\<forall>h\<in>set (nt_ihs net). \<forall>m\<in>set (ih_managers h). m < length (nt_ims net)"
    "\<forall>mi\<in>set (om_mirrors (nt_oms net ! m)). \<forall>h. mi_handler mi = Some h \<longrightarrow> h < length (nt_ihs net)"
  using assms nth_mem unfolding links_ok_def by blast+

text \<open>What no delivery changes in the streams, and the nodes some output events name.\<close>

definition same_links :: "'v net \<Rightarrow> 'v net \<Rightarrow> bool" where
  "same_links net net' \<longleftrightarrow> nt_ihs net' = nt_ihs net \<and> map om_mirrors (nt_oms net') = map om_mirrors (nt_oms net) \<and>
     map ism_arrival_cb (nt_ims net') = map ism_arrival_cb (nt_ims net)"

lemma same_links_refl [simp]: "same_links net net"
  by (simp add: same_links_def)

lemma same_links_trans: "same_links a b \<Longrightarrow> same_links b c \<Longrightarrow> same_links a c"
  by (simp add: same_links_def)

lemma same_linksD:
  assumes "same_links net net'"
  shows "links_ok net' = links_ok net" "named_by (nt_ims net') = named_by (nt_ims net)"
    "length (nt_ims net') = length (nt_ims net)" "length (nt_oms net') = length (nt_oms net)"
    "nt_ihs net' = nt_ihs net"
proof -
  show len: "length (nt_ims net') = length (nt_ims net)" "length (nt_oms net') = length (nt_oms net)"
    using assms map_eq_imp_length_eq unfolding same_links_def by blast+
  show "named_by (nt_ims net') = named_by (nt_ims net)" "nt_ihs net' = nt_ihs net"
    using assms named_by_cbs unfolding same_links_def by blast+
  have "om_mirrors ` set (nt_oms net') = om_mirrors ` set (nt_oms net)"
    using assms unfolding same_links_def by (metis list.set_map)
  from arg_cong [OF this, of "\<lambda>X. \<forall>x\<in>X. P x" for P]
  have "(\<forall>o'\<in>set (nt_oms net'). P (om_mirrors o')) = (\<forall>o'\<in>set (nt_oms net). P (om_mirrors o'))" for P
    by (simp only: ball_simps)
  from this [of "\<lambda>ms. \<forall>m\<in>set ms. \<forall>h. mi_handler m = Some h \<longrightarrow> h < length (nt_ihs net)"]
  show "links_ok net' = links_ok net"
    using assms len by (simp add: links_ok_def same_links_def)
qed

lemma same_links_upd:
  "map ism_arrival_cb ims = map ism_arrival_cb (nt_ims net) \<Longrightarrow>
   om_mirrors o1 = om_mirrors (nt_oms net ! m) \<Longrightarrow>
   same_links net (net\<lparr>nt_ims := ims, nt_oms := (nt_oms net)[m := o1]\<rparr>)"
  by (cases "m < length (nt_oms net)")
    (simp_all add: same_links_def map_update list_update_beyond list_update_same_conv)

definition out_nodes :: "'v out_event list \<Rightarrow> nat set" where
  "out_nodes evs = {n. StreamEv (PacketArrival n) \<in> set evs}"

lemma out_nodes_simps [simp]:
  "out_nodes [] = {}" "out_nodes (xs @ ys) = out_nodes xs \<union> out_nodes ys"
  "out_nodes (map StreamEv evs) = arrival_nodes evs" "out_nodes (map (OutputCb cb) ps) = {}"
  by (auto simp: out_nodes_def arrival_nodes_def)

lemma Propagate_links:
  assumes "osm_PropagateUpdatesToMirrors (nt_ihs net) b shard (nt_oms net ! m) (nt_ims net) = (o1, sh1, ims1, evs)"
    and "links_ok net" "m < length (nt_oms net)"
  shows "om_mirrors o1 = om_mirrors (nt_oms net ! m)" "om_closed o1 = om_closed (nt_oms net ! m)"
    "map ism_arrival_cb ims1 = map ism_arrival_cb (nt_ims net) \<and> arrival_nodes evs \<subseteq> named_by (nt_ims net)"
proof -
  show "om_mirrors o1 = om_mirrors (nt_oms net ! m)" "om_closed o1 = om_closed (nt_oms net ! m)"
    using Propagate_manager [OF assms(1)] by simp_all
  obtain sb where "mirror_loop (nt_ihs net) b sb (om_mirrors (nt_oms net ! m)) (sh_queue shard) (nt_ims net) = (ims1, evs)"
    using assms(1) by (auto simp: osm_PropagateUpdatesToMirrors_def Let_def split: prod.splits if_splits)
  then show "map ism_arrival_cb ims1 = map ism_arrival_cb (nt_ims net) \<and> arrival_nodes evs \<subseteq> named_by (nt_ims net)"
    using links_okD [OF assms(2,3)] by (intro mirror_loop_cbs)
qed

lemma osm_Close_links:
  assumes "osm_Close (nt_ihs net) o' ims = (o1, ims1, evs)"
    and "links_ok net" "m < length (nt_oms net)" "om_mirrors o' = om_mirrors (nt_oms net ! m)"
    and "map ism_arrival_cb ims = map ism_arrival_cb (nt_ims net)"
  shows "om_mirrors o1 = om_mirrors o'" "om_closed o1"
    "map ism_arrival_cb ims1 = map ism_arrival_cb (nt_ims net) \<and> arrival_nodes evs \<subseteq> named_by (nt_ims net)"
proof -
  show "om_mirrors o1 = om_mirrors o'" "om_closed o1"
    using assms(1) by (auto simp: osm_Close_def split: if_splits prod.splits)
  have "length ims = length (nt_ims net)" using assms(5) by (rule map_eq_imp_length_eq)
  then show "map ism_arrival_cb ims1 = map ism_arrival_cb (nt_ims net) \<and> arrival_nodes evs \<subseteq> named_by (nt_ims net)"
    using assms(1,4,5) links_okD [OF assms(2,3)] named_by_cbs [OF assms(5)]
      bound_to_mirrors_cbs [of "nt_ihs net" ts_Done "om_mirrors o'" ims ims1 evs]
    by (simp add: osm_Close_def split: if_splits prod.splits)
qed

text \<open>What the output side of a node does to the streams: the links stay, closed streams stay closed.\<close>

definition keeps_closed :: "'v net \<Rightarrow> 'v net \<Rightarrow> bool" where
  "keeps_closed net net' \<longleftrightarrow>
     (\<forall>i < length (nt_oms net). om_closed (nt_oms net ! i) \<longrightarrow> om_closed (nt_oms net' ! i))"

lemma keeps_closed_refl [simp]: "keeps_closed net net" "keeps_closed net (net\<lparr>nt_ims := ims\<rparr>)"
  by (simp_all add: keeps_closed_def)

lemma keeps_closed_trans:
  "keeps_closed a b \<Longrightarrow> keeps_closed b c \<Longrightarrow> length (nt_oms b) = length (nt_oms a) \<Longrightarrow> keeps_closed a c"
  by (simp add: keeps_closed_def)

lemma keeps_closed_upd:
  "(om_closed (nt_oms net ! m) \<longrightarrow> om_closed o1) \<Longrightarrow>
   keeps_closed net (net\<lparr>nt_ims := ims, nt_oms := (nt_oms net)[m := o1]\<rparr>)"
  by (cases "m < length (nt_oms net)") (auto simp: keeps_closed_def nth_list_update list_update_beyond)

lemma propagate_one_links:
  assumes "oh_propagate_one h t i (ss, net, evs) = (ss', net', evs')" "links_ok net" "i < length (nt_oms net)"
  shows "same_links net net' \<and> out_nodes evs' \<subseteq> out_nodes evs \<union> named_by (nt_ims net) \<and> keeps_closed net net'"
proof (cases "om_closed (nt_oms net ! i)")
  case False
  let ?mgr = "nt_oms net ! i"
  obtain sh ss1 where get: "oss_Get (PortName (osm_Name ?mgr)) ss = (sh, ss1)" by (meson surj_pair)
  obtain o1 sh1 ims1 ev1 where run: "osm_PropagateUpdatesToMirrors (nt_ihs net)
      (osm_ComputeOutputTimestampBound sh t ?mgr) sh ?mgr (nt_ims net) = (o1, sh1, ims1, ev1)"
    by (meson prod_cases4)
  note p = Propagate_links [OF run assms(2,3)]
  obtain o2 ims2 ev2 where cl: "(if sh_closed sh1 then osm_Close (nt_ihs net) o1 ims1 else (o1, ims1, [])) = (o2, ims2, ev2)"
    by (meson prod_cases3)
  have c: "om_mirrors o2 = om_mirrors o1 \<and> map ism_arrival_cb ims2 = map ism_arrival_cb (nt_ims net) \<and>
      arrival_nodes ev2 \<subseteq> named_by (nt_ims net)"
    using cl p osm_Close_links(1,3) [OF _ assms(2,3) p(1) p(3) [THEN conjunct1]] by (auto split: if_splits)
  have net': "net' = net\<lparr>nt_ims := ims2, nt_oms := (nt_oms net)[i := o2]\<rparr>"
    and out: "out_nodes evs' = out_nodes evs \<union> arrival_nodes ev1 \<union> arrival_nodes ev2"
    using assms(1) False get run cl
    by (auto simp: oh_propagate_one_def Let_def split: option.splits)
  show ?thesis
    unfolding net' out using c p False by (auto intro: same_links_upd keeps_closed_upd)
qed (use assms(1) in \<open>simp add: oh_propagate_one_def\<close>)

lemma close_one_links:
  assumes "oh_close_one i (sh, net, evs) = (sh', net', evs')" "links_ok net" "i < length (nt_oms net)"
  shows "same_links net net' \<and> out_nodes evs' \<subseteq> out_nodes evs \<union> named_by (nt_ims net) \<and> keeps_closed net net'"
proof -
  let ?mgr = "nt_oms net ! i"
  obtain sh1 o1 ims1 ev1 where one: "(case sh of
        None \<Rightarrow> (None, ?mgr, nt_ims net, [])
      | Some ss \<Rightarrow>
          let (shard, ss1) = oss_Get (PortName (osm_Name ?mgr)) ss;
              (mgr1, shard1, ims1, ev1) =
                osm_PropagateUpdatesToMirrors (nt_ihs net) ts_Done shard ?mgr (nt_ims net)
          in (Some (omap_put (PortName (osm_Name ?mgr)) shard1 ss1), mgr1, ims1, ev1)) = (sh1, o1, ims1, ev1)"
    by (meson prod_cases4)
  have p: "om_mirrors o1 = om_mirrors ?mgr \<and> map ism_arrival_cb ims1 = map ism_arrival_cb (nt_ims net) \<and>
      arrival_nodes ev1 \<subseteq> named_by (nt_ims net)"
    using one Propagate_links [OF _ assms(2,3)] by (auto split: option.splits prod.splits)
  obtain o2 ims2 ev2 where cl: "osm_Close (nt_ihs net) o1 ims1 = (o2, ims2, ev2)" by (meson prod_cases3)
  have c: "om_mirrors o2 = om_mirrors o1" "om_closed o2" "map ism_arrival_cb ims2 = map ism_arrival_cb (nt_ims net)"
      "arrival_nodes ev2 \<subseteq> named_by (nt_ims net)"
    using osm_Close_links [OF cl assms(2,3)] p by simp_all
  have net': "net' = net\<lparr>nt_ims := ims2, nt_oms := (nt_oms net)[i := o2]\<rparr>"
    and out: "out_nodes evs' = out_nodes evs \<union> arrival_nodes ev1 \<union> arrival_nodes ev2"
    using assms(1) one cl by (auto simp: oh_close_one_def Let_def)
  show ?thesis
    unfolding net' out using c p by (auto intro: same_links_upd keeps_closed_upd)
qed

lemma fold_links:
  assumes "\<And>i sh net evs sh' net' evs'. f i (sh, net, evs) = (sh', net', evs') \<Longrightarrow> links_ok net \<Longrightarrow>
      i < length (nt_oms net) \<Longrightarrow>
      same_links net net' \<and> out_nodes evs' \<subseteq> out_nodes evs \<union> named_by (nt_ims net) \<and> keeps_closed net net'"
    and "fold f is (sh, net, evs) = (sh', net', evs')" "links_ok net" "\<forall>i\<in>set is. i < length (nt_oms net)"
  shows "same_links net net' \<and> out_nodes evs' \<subseteq> out_nodes evs \<union> named_by (nt_ims net) \<and> keeps_closed net net'"
  using assms(2-4)
proof (induction "is" arbitrary: sh net evs)
  case (Cons i "is")
  obtain sh1 net1 ev1 where one: "f i (sh, net, evs) = (sh1, net1, ev1)" by (meson prod_cases3)
  have l: "same_links net net1 \<and> out_nodes ev1 \<subseteq> out_nodes evs \<union> named_by (nt_ims net) \<and> keeps_closed net net1"
    using Cons.prems by (intro assms(1) [OF one]) simp_all
  note d = same_linksD [OF l [THEN conjunct1]]
  have "same_links net1 net' \<and> out_nodes evs' \<subseteq> out_nodes ev1 \<union> named_by (nt_ims net1) \<and> keeps_closed net1 net'"
    using Cons.prems one d by (intro Cons.IH) simp_all
  then show ?case using l d same_links_trans keeps_closed_trans by blast
qed simp

lemmas propagate_all_links = fold_links [where f = "oh_propagate_one h t" for h t, OF propagate_one_links]

lemmas close_all_links = fold_links [where f = oh_close_one, OF close_one_links]

section \<open>No dangling references\<close>

text \<open>
  With \<open>k\<close> nodes and \<open>l\<close> queues: a queued item is a node that exists, and no open task; a task of
  a pool runs an existing queue; nodes refer to existing queues, handlers and streams; streams
  announce packets to existing nodes; handlers and mirrors refer to existing streams and handlers;
  the scheduler's own lists hold existing nodes and queues.
\<close>

definition item_ok :: "nat \<Rightarrow> item \<Rightarrow> bool" where
  "item_ok k i \<longleftrightarrow> \<not> it_is_open i \<and> (\<exists>n < k. it_node i = Some n)"

definition node_ok :: "nat \<Rightarrow> nat \<Rightarrow> nat \<Rightarrow> nat \<Rightarrow> node \<Rightarrow> bool" where
  "node_ok l hs os ss n \<longleftrightarrow> (\<forall>q. n_queue n = Some q \<longrightarrow> q < l) \<and> (\<forall>h. n_ih n = Some h \<longrightarrow> h < hs) \<and>
     (\<forall>h. n_oh n = Some h \<longrightarrow> h < os) \<and>
     (\<forall>m\<in>snd ` set (n_input_ports n). m < ss)"

definition sound :: "nat \<Rightarrow> nat \<Rightarrow> ('v, 'u, 'z) world_scheme \<Rightarrow> bool" where
  "sound k l w \<longleftrightarrow> length (w_nodes w) = k \<and> length (w_queues w) = l \<and> 0 < l \<and>
     (\<forall>n\<in>set (w_nodes w). node_ok l (length (nt_ihs (w_net w))) (length (w_ohs w)) (length (nt_ims (w_net w))) n) \<and>
     (\<forall>h\<in>set (w_ohs w). \<forall>m\<in>set (oh_managers h). m < length (nt_oms (w_net w))) \<and>
     (\<forall>s\<in>set (w_queues w). \<forall>i\<in>set (sq_items s). item_ok k i) \<and>
     (\<forall>p\<in>set (w_pools w). \<forall>q\<in>set (tp_tasks p). q < l) \<and>
     links_ok (w_net w) \<and> named_by (nt_ims (w_net w)) \<subseteq> {..<k} \<and>
     snd ` set (sc_active_sources w) \<subseteq> {..<k} \<and> set (sc_all_nodes w) \<subseteq> {..<k} \<and>
     snd ` set (sc_non_default_queues w) \<subseteq> {..<l} \<and> set (sc_all_queues w) \<subseteq> {..<l}"

lemma sound_simps [simp]:
  "sound k l (w\<lparr>w_user := u\<rparr>) = sound k l w" "sound k l (w\<lparr>w_perf := p\<rparr>) = sound k l w"
  "sound k l (w\<lparr>w_prof := f\<rparr>) = sound k l w" "sound k l (w\<lparr>w_log := g\<rparr>) = sound k l w"
  "sound k l (w\<lparr>sc_state := s\<rparr>) = sound k l w"
  "sound k l (w\<lparr>sc_stopping := b\<rparr>) = sound k l w" "sound k l (w\<lparr>sc_has_error := b\<rparr>) = sound k l w"
  "sound k l (w\<lparr>sc_handling_idle := i\<rparr>) = sound k l w" "sound k l (w\<lparr>sc_error_cb := b\<rparr>) = sound k l w"
  "sound k l (w\<lparr>sc_source_nodes := ns\<rparr>) = sound k l w" "sound k l (w\<lparr>sc_num_closed := i\<rparr>) = sound k l w"
  "sound k l (w\<lparr>sc_total := i\<rparr>) = sound k l w" "sound k l (w\<lparr>sc_side_packets := ps\<rparr>) = sound k l w"
  by (simp_all add: sound_def)

lemma sound_runtime_simps [simp]:
  "sound k l (r\<lparr>rt_full := f\<rparr>) = sound k l r" "sound k l (r\<lparr>rt_closed_streams := c\<rparr>) = sound k l r"
  "sound k l (r\<lparr>rt_output_cbs := cbs\<rparr>) = sound k l r" "sound k l (r\<lparr>rt_side_packets := ps\<rparr>) = sound k l r"
  "sound k l (r\<lparr>rt_graph_input_set := g\<rparr>) = sound k l r" "sound k l (r\<lparr>rt_num_open := i\<rparr>) = sound k l r"
  "sound k l (r\<lparr>rt_graph_inputs := gi\<rparr>) = sound k l r" "sound k l (r\<lparr>rt_side_cbs := sc\<rparr>) = sound k l r"
  "sound k l (r\<lparr>rt_profiler_override := pc\<rparr>) = sound k l r"
  by (simp_all add: sound_def)

lemma sound_fold:
  "sound k l w \<Longrightarrow> (\<And>x w. x \<in> set xs \<Longrightarrow> sound k l w \<Longrightarrow> sound k l (f x w)) \<Longrightarrow> sound k l (fold f xs w)"
  by (induction xs arbitrary: w) simp_all

lemma ball_update_at:
  "\<forall>x\<in>set xs. P x \<Longrightarrow> (\<And>x. P x \<Longrightarrow> P (f x)) \<Longrightarrow> \<forall>x\<in>set (update_at n f xs). P x"
  using set_update_at [of n f xs] by blast

lemma sound_upd_node:
  "sound k l w \<Longrightarrow> (\<And>x. node_ok l (length (nt_ihs (w_net w))) (length (w_ohs w)) (length (nt_ims (w_net w))) x \<Longrightarrow>
     node_ok l (length (nt_ihs (w_net w))) (length (w_ohs w)) (length (nt_ims (w_net w))) (f x)) \<Longrightarrow> sound k l (upd_node n f w)"
proof -
  assume w: "sound k l w" and f: "\<And>x. node_ok l (length (nt_ihs (w_net w))) (length (w_ohs w)) (length (nt_ims (w_net w))) x \<Longrightarrow>
      node_ok l (length (nt_ihs (w_net w))) (length (w_ohs w)) (length (nt_ims (w_net w))) (f x)"
  have "\<forall>x\<in>set (update_at n f (w_nodes w)). node_ok l (length (nt_ihs (w_net w))) (length (w_ohs w)) (length (nt_ims (w_net w))) x"
    using w f by (intro ball_update_at) (simp_all add: sound_def)
  then show "sound k l (upd_node n f w)" using w by (simp add: sound_def upd_node_def)
qed

lemma sound_pending [simp]:
  "sound k l w \<Longrightarrow> sound k l (upd_node n node_IncrementPending w)"
  "sound k l w \<Longrightarrow> sound k l (upd_node n node_DecrementPending w)"
  by (auto intro!: sound_upd_node simp: node_ok_def node_IncrementPending_def node_DecrementPending_def)

lemma sound_upd_queue:
  "sound k l w \<Longrightarrow> (\<And>s. \<forall>i\<in>set (sq_items s). item_ok k i \<Longrightarrow> \<forall>i\<in>set (sq_items (f s)). item_ok k i) \<Longrightarrow>
   sound k l (upd_queue q f w)"
proof -
  assume w: "sound k l w" and f: "\<And>s. \<forall>i\<in>set (sq_items s). item_ok k i \<Longrightarrow> \<forall>i\<in>set (sq_items (f s)). item_ok k i"
  have "\<forall>s\<in>set (update_at q f (w_queues w)). \<forall>i\<in>set (sq_items s). item_ok k i"
    using w f by (intro ball_update_at) (simp_all add: sound_def)
  then show "sound k l (upd_queue q f w)" using w by (simp add: sound_def upd_queue_def)
qed

lemma sound_net: "sound k l w \<Longrightarrow> same_links (w_net w) net \<Longrightarrow> sound k l (w\<lparr>w_net := net\<rparr>)"
  using same_linksD [of "w_net w" net] by (simp add: sound_def)

lemma soundD:
  assumes "sound k l w"
  shows "length (w_nodes w) = k" "length (w_queues w) = l" "n < k \<Longrightarrow> n_queue (w_nodes w ! n) = Some q \<Longrightarrow> q < l"
    "q < l \<Longrightarrow> i \<in> set (sq_items (w_queues w ! q)) \<Longrightarrow> item_ok k i" "links_ok (w_net w)"
    "named_by (nt_ims (w_net w)) \<subseteq> {..<k}" "q \<in> set (sc_all_queues w) \<Longrightarrow> q < l"
    "n \<in> set (sc_all_nodes w) \<Longrightarrow> n < k" "n \<in> snd ` set (sc_active_sources w) \<Longrightarrow> n < k"
    "n < k \<Longrightarrow> n_oh (w_nodes w ! n) = Some h \<Longrightarrow> m \<in> set (oh_managers (w_ohs w ! h)) \<Longrightarrow> m < length (nt_oms (w_net w))"
proof -
  show "m < length (nt_oms (w_net w))"
    if "n < k" "n_oh (w_nodes w ! n) = Some h" "m \<in> set (oh_managers (w_ohs w ! h))"
  proof -
    have "h < length (w_ohs w)" using assms that(1,2) nth_mem [of n "w_nodes w"] by (auto simp: sound_def node_ok_def)
    then show ?thesis using assms that(3) nth_mem [of h "w_ohs w"] by (auto simp: sound_def)
  qed
  show "length (w_nodes w) = k" "length (w_queues w) = l" "links_ok (w_net w)"
    "named_by (nt_ims (w_net w)) \<subseteq> {..<k}" "q \<in> set (sc_all_queues w) \<Longrightarrow> q < l"
    "n \<in> set (sc_all_nodes w) \<Longrightarrow> n < k" "n \<in> snd ` set (sc_active_sources w) \<Longrightarrow> n < k"
    using assms by (auto simp: sound_def)
  show "q < l" if "n < k" "n_queue (w_nodes w ! n) = Some q"
    using assms that nth_mem [of n "w_nodes w"] by (auto simp: sound_def node_ok_def)
  show "item_ok k i" if "q < l" "i \<in> set (sq_items (w_queues w ! q))"
    using assms that nth_mem [of q "w_queues w"] by (auto simp: sound_def)
qed

section \<open>The queues keep it\<close>

lemma sound_Submit: "sound k l w \<Longrightarrow> q < l \<Longrightarrow> sound k l (SubmitToExecutor q w)"
proof -
  assume w: "sound k l w" and q: "q < l"
  have "sound k l (v\<lparr>w_pools := update_at e (pool_AddTask q) (w_pools v)\<rparr>)" if "sound k l v"
    for e and v :: "('a, 'b, 'c) world_scheme"
    using that q set_update_at [of e "pool_AddTask q" "w_pools v"]
    by (fastforce simp: sound_def pool_AddTask_def pool_Schedule_def)
  moreover have "sound k l (Submit_locked q w)" using w by (simp add: Submit_locked_def sound_upd_queue)
  ultimately show ?thesis
    using w by (auto simp: SubmitToExecutor_def Submit_task_def Let_def split: option.split)
qed

lemma sound_submit_if: "sound k l (snd bw) \<Longrightarrow> q < l \<Longrightarrow> sound k l (submit_if q bw)"
  by (simp add: submit_if_def sound_Submit)

lemma sound_AddNode: "sound k l w \<Longrightarrow> q < l \<Longrightarrow> n < k \<Longrightarrow> sound k l (sq_AddNode q (Some n) w)"
  unfolding sq_AddNode_def
  by (rule sound_submit_if)
    (auto simp: AddNode_locked_def Let_def sq_push_def make_item_def item_ok_def intro!: sound_upd_queue)

lemma sound_reschedule: "sound k l w \<Longrightarrow> n < k \<Longrightarrow> sound k l (reschedule n w)"
  using soundD(3) [of k l w n] by (auto simp: reschedule_def intro: sound_AddNode split: option.splits)

lemma sound_queue_ops:
  "sound k l w \<Longrightarrow> q < l \<Longrightarrow> sound k l (sq_SetRunning q b w)"
  "sound k l w \<Longrightarrow> q < l \<Longrightarrow> sound k l (sq_SubmitWaitingTasksToExecutor q w)"
  "sound k l w \<Longrightarrow> q < l \<Longrightarrow> sound k l (submit_if q (Finished_locked q w))"
  "sound k l w \<Longrightarrow> sound k l (NoItem_locked q w)"
  "sound k l w \<Longrightarrow> sound k l (perf_add f q w)"
  "sound k l w \<Longrightarrow> sound k l (snd (queue_scope_begin q w))"
  "sound k l w \<Longrightarrow> sound k l (queue_scope_end q ty name start w)"
  by (simp_all add: sq_SetRunning_def SetRunning_locked_def sq_SubmitWaitingTasksToExecutor_def
      Finished_locked_def NoItem_locked_def perf_add_def queue_scope_begin_def queue_scope_end_def
      sq_dec_pending_def split_beta Let_def sound_submit_if sound_upd_queue)

lemma pq_pop_sub:
  assumes "pq_pop ns xs = Some (x, rest)"
  shows "x \<in> set xs \<and> set rest \<subseteq> set xs"
proof (cases xs)
  case (Cons y ys)
  then have "x = pq_top ns y ys" "rest = remove1 x xs" using assms by (auto simp: pq_pop_def Let_def)
  then show ?thesis using pq_top_in [of ns y ys] set_remove1_subset [of x xs] Cons by auto
qed (use assms in \<open>simp add: pq_pop_def\<close>)

lemma sound_TryPop:
  assumes "TryPop q w = (i, w')" "sound k l w" "q < l"
  shows "sound k l w'" "i = Some x \<Longrightarrow> item_ok k x"
proof -
  have items: "\<forall>x\<in>set (sq_items (w_queues w ! q)). item_ok k x" using soundD(4) [OF assms(2,3)] by blast
  show "sound k l w'" using assms(1,2) items pq_pop_sub
    by (fastforce simp: TryPop_def intro!: sound_upd_queue split: option.splits)
  show "item_ok k x" if "i = Some x"
    using assms(1) that items pq_pop_sub by (fastforce simp: TryPop_def split: option.splits)
qed

section \<open>The scheduler keeps it\<close>

lemma sound_close_nodes: "sound k l w \<Longrightarrow> sound k l (stop_profiler (sc_CloseAllNodes uc w))"
proof -
  have "sound k l (close_node uc n v) = sound k l v" for n and v :: "('a, 'b, 'c) world_scheme"
    by (simp add: close_node_def split_beta Let_def)
  then show "sound k l w \<Longrightarrow> sound k l (stop_profiler (sc_CloseAllNodes uc w))"
    by (simp add: stop_profiler_def sc_CloseAllNodes_def sound_fold)
qed

lemma sound_report: "sound k l (report_error st w) = sound k l w"
  by (simp add: report_error_def)

lemma sound_cleanup: "sound k l w \<Longrightarrow> sound k l (cleanup_queues w)"
  by (simp add: cleanup_queues_def sound_fold sound_upd_queue sq_CleanupAfterRun_def)

lemma sound_drain: "sound k l w \<Longrightarrow> sound k l (snd (sc_DrainInputQueues w))"
proof -
  assume w: "sound k l w"
  have "sound k l (drain_one n v)" if "sound k l v" "n < k" for n and v :: "('a, 'b, 'c) world_scheme"
    using that soundD(3) [of k l v n] by (auto simp: drain_one_def intro: sound_AddNode split: option.splits)
  then show ?thesis
    using w soundD(8) [OF w] by (auto simp: sc_DrainInputQueues_def Let_def find_Some_iff
        intro!: sound_fold sound_reschedule split: option.splits)
qed

lemma sound_sources: "sound k l w \<Longrightarrow> set srcs \<subseteq> set (sc_active_sources w) \<Longrightarrow> sound k l (w\<lparr>sc_active_sources := srcs\<rparr>)"
  using image_mono [of "set srcs" "set (sc_active_sources w)" snd] unfolding sound_def by simp (meson order_trans)

lemma sound_HandleIdle: "sound k l w \<Longrightarrow> sound k l (sc_HandleIdle uc w)"
proof -
  have pass: "sound k l (idle_pass uc v)" if v: "sound k l v" for v :: "('a, 'b, 'c) world_scheme"
  proof -
    define w1 where "w1 = (if sc_state v = kCancelling then v\<lparr>sc_active_sources := []\<rparr> else v)"
    have w1: "sound k l w1" using v by (simp add: w1_def sound_sources)
    obtain d w2 where w2: "(if sc_active_sources w1 = [] \<and> \<not> sc_has_error w1 \<and> \<not> inputs_remaining v \<and>
        sc_state w1 \<noteq> kCancelling then sc_DrainInputQueues w1 else (kDrained, w1)) = (d, w2)"
      by (meson surj_pair)
    then have s2: "sound k l w2" using w1 sound_drain [OF w1] by (auto split: if_splits)
    have "sound k l (fold reschedule (map snd (sc_active_sources w2)) w2)"
      using soundD(9) [OF s2] by (intro sound_fold s2 sound_reschedule) auto
    then show ?thesis
      using s2 w2 by (auto simp: idle_pass_def w1_def [symmetric] Let_def sound_report intro!: sound_close_nodes)
  qed
  show "sound k l w \<Longrightarrow> sound k l (sc_HandleIdle uc w)"
    by (simp add: sc_HandleIdle_def add_handling_def idle_body_def Let_def pass sound_cleanup)
qed

section \<open>The runtime keeps it\<close>

lemma sound_event:
  "sound k l r \<Longrightarrow> arrival_nodes [ev] \<subseteq> {..<k} \<Longrightarrow> sound k l (runtime_event uc ev r)"
  by (cases ev) (auto simp: runtime_event_def arrival_nodes_def OnInputStreamFull_def OnInputStreamNotFull_def Let_def
      intro!: sound_reschedule sound_HandleIdle split: option.splits)

lemma sound_stream_events:
  "sound k l r \<Longrightarrow> arrival_nodes evs \<subseteq> {..<k} \<Longrightarrow> sound k l (run_stream_events uc evs r)"
  unfolding run_stream_events_def
  by (rule sound_fold) (auto simp: arrival_nodes_def intro!: sound_event)

lemma sound_run_events:
  "sound k l r \<Longrightarrow> out_nodes evs \<subseteq> {..<k} \<Longrightarrow> sound k l (run_events (runtime_env uc) evs r)"
  unfolding run_events_def
  by (rule sound_fold)
    (auto simp: run_event_def out_nodes_def arrival_nodes_def intro!: sound_event split: out_event.splits)

lemma sound_post_process:
  assumes "post_process (runtime_env uc) n ts outs r = (outs', r')" "sound k l r" "n < k"
  shows "sound k l r'"
proof (cases "n_oh (w_nodes r ! n)")
  case (Some h)
  obtain net evs where run: "oh_PostProcess (w_ohs r ! h) ts outs (w_net r) = (outs', net, evs)"
    and r': "r' = run_events (runtime_env uc) evs (r\<lparr>w_net := net\<rparr>)"
    using assms(1) Some by (auto simp: post_process_def split: prod.splits)
  have "same_links (w_net r) net \<and> out_nodes evs \<subseteq> out_nodes ([] :: 'a out_event list) \<union> named_by (nt_ims (w_net r)) \<and>
      keeps_closed (w_net r) net"
    using run soundD(5,10) [OF assms(2)] assms(3) Some unfolding oh_PostProcess_def oh_PropagateOutputPackets_def
    by (intro propagate_all_links) auto
  then show ?thesis
    unfolding r' using soundD(6) [OF assms(2)] assms(2) by (intro sound_run_events sound_net) auto
qed (use assms in \<open>simp add: post_process_def\<close>)

lemma sound_close_outputs:
  assumes "sound k l r" "n < k"
  shows "sound k l (close_outputs (runtime_env uc) n outs r)"
proof (cases "n_oh (w_nodes r ! n)")
  case (Some h)
  obtain shs net evs where cl: "oh_Close (w_ohs r ! h) (Some outs) (w_net r) = (shs, net, evs)"
    by (meson prod_cases3)
  have "same_links (w_net r) net \<and> out_nodes evs \<subseteq> out_nodes ([] :: 'a out_event list) \<union> named_by (nt_ims (w_net r)) \<and>
      keeps_closed (w_net r) net"
    using cl soundD(5,10) [OF assms(1)] assms(2) Some unfolding oh_Close_def by (intro close_all_links) auto
  then show ?thesis
    using soundD(6) [OF assms(1)] assms(1) Some cl
    by (auto simp: close_outputs_def intro!: sound_run_events sound_net)
qed (use assms in \<open>simp add: close_outputs_def\<close>)

lemma populate_links:
  "populate_inputs c ports (inputs, ims, ws) = (inputs', ims', ws') \<Longrightarrow>
   map ism_arrival_cb ims' = map ism_arrival_cb ims"
proof (induction c ports "(inputs, ims, ws)" arbitrary: inputs ims ws rule: populate_inputs.induct)
  case (2 c port m ports inputs ims ws)
  obtain s pkt d where pop: "ism_PopQueueHead (ims ! m) = (s, pkt, d)" by (meson prod_cases3)
  have "ism_arrival_cb s = ism_arrival_cb (ims ! m)"
    using pop by (auto simp: PopQueueHead_cases split: list.splits)
  then have "map ism_arrival_cb (ims[m := s]) = map ism_arrival_cb ims" by (rule map_cb_update)
  then show ?case using 2 pop by (simp add: Let_def split: if_splits)
qed simp

lemma sound_stopped: "sound k l r \<Longrightarrow> sound k l (source_stopped uc n r)"
proof -
  assume r: "sound k l r"
  have "set (omap_erase a m) \<subseteq> set m" for a and m :: "(int, nat) omap" by (auto simp: omap_erase_def)
  then show ?thesis unfolding source_stopped_def by (intro sound_HandleIdle sound_sources r)
qed

lemma sound_error: "sound k l (queue_error st r) = sound k l r"
  by (simp add: queue_error_def sound_report)

lemma sound_RunNode:
  assumes "sound k l r" "n < k"
  shows "sound k l (RunNode (runtime_env uc) q (Some n) False r)"
proof -
  let ?node = "w_nodes r ! n"
  obtain inputs ims ws where pop: "populate_inputs (n_contract ?node) (n_input_ports ?node)
      ([], nt_ims (w_net r), []) = (inputs, ims, ws)" by (meson prod_cases3)
  let ?r1 = "r\<lparr>w_net := (w_net r)\<lparr>nt_ims := ims\<rparr>, w_log := w_log r @ ws\<rparr>"
  let ?r2 = "upd_queue q (\<lambda>s. s\<lparr>sq_timestamp_counter := to_i64 (sq_timestamp_counter (w_queues ?r1 ! q) + 1)\<rparr>) ?r1"
  have "same_links (w_net r) ((w_net r)\<lparr>nt_ims := ims\<rparr>)"
    using populate_links [OF pop] by (simp add: same_links_def)
  from sound_net [OF assms(1) this] have r2: "sound k l ?r2" by (intro sound_upd_queue) simp_all
  have ends: "sound k l (run_stopped (runtime_env uc) q n ts outs v)"
      "sound k l (run_failed (runtime_env uc) q n ts st outs v)"
      "sound k l (run_completed (runtime_env uc) q n ts outs v)"
    if v: "sound k l v" for ts outs st and v :: "('a, 'b, 'c) runtime_scheme"
  proof -
    obtain outs1 v1 where pp: "post_process (runtime_env uc) n ts outs v = (outs1, v1)" by (meson surj_pair)
    have v1: "sound k l v1" by (rule sound_post_process [OF pp v assms(2)])
    then show "sound k l (run_failed (runtime_env uc) q n ts st outs v)"
      by (simp add: run_failed_def pp sound_error Let_def)
    have "sound k l (upd_node n node_DecrementPending (close_outputs (runtime_env uc) n outs1 v1))"
      by (intro sound_pending sound_close_outputs v1 assms(2))
    then show "sound k l (run_stopped (runtime_env uc) q n ts outs v)"
      using assms(2) by (auto simp: run_stopped_def pp Let_def intro!: sound_HandleIdle sound_stopped sound_reschedule)
    obtain act s where dec: "decide_finalize n (input_port_count (w_nodes v1 ! n) > 0)
        (input_port_count (w_nodes v1 ! n) > 0 \<and> AllInputsDone n v1) (w_queues v1 ! q) = (act, s)"
      by (meson surj_pair)
    let ?v4 = "perf_add (\<lambda>c. c\<lparr>pk_tasks_completed := pk_tasks_completed c + 1,
        pk_packets_processed := pk_packets_processed c + 1\<rparr>) q
        (upd_node n node_DecrementPending (upd_queue q (\<lambda>_. s) v1))"
    have "sound k l (upd_queue q (\<lambda>_. s) v1)"
    proof (cases "q < l")
      case True
      have "sq_items s = sq_items (w_queues v1 ! q)"
        using dec by (auto simp: decide_finalize_def Let_def split: if_splits)
      then show ?thesis using soundD(4) [OF v1 True] by (intro sound_upd_queue [OF v1]) auto
    next
      case False
      then have "upd_queue q (\<lambda>_. s) v1 = v1"
        using soundD(2) [OF v1] by (simp add: upd_queue_def update_at_def list_update_beyond)
      then show ?thesis using v1 by simp
    qed
    then have "sound k l ?v4" by (intro sound_queue_ops sound_pending)
    then show "sound k l (run_completed (runtime_env uc) q n ts outs v)"
      using assms(2) unfolding run_completed_def pp Let_def
      by (auto simp: dec intro!: sound_reschedule sound_close_outputs split: finalize_action.split)
  qed
  have "sound k l (run_process (runtime_env uc) q n ts ins v)"
    if "sound k l v" for ts ins and v :: "('a, 'b, 'c) runtime_scheme"
    using that unfolding run_process_def Let_def split_beta
    by (auto intro!: sound_queue_ops(7) ends sound_queue_ops(6))
  then show ?thesis using r2 by (simp add: RunNode_def pop Let_def)
qed

lemma sound_worker:
  assumes r: "sound k l r" and e: "e < length (w_pools r)"
  shows "sound k l (worker_step (runtime_env uc) e r)"
proof -
  have task: "sound k l (RunNextTask (runtime_env uc) q v)" if v: "sound k l v" "q < l"
    for q and v :: "('a, 'b, 'c) runtime_scheme"
  proof -
    obtain i v1 where pop: "TryPop q v = (i, v1)" by (meson surj_pair)
    note p = sound_TryPop [OF pop v]
    show ?thesis
    proof (cases i)
      case (Some x)
      then obtain n where n: "n < k" "it_node x = Some n" "\<not> it_is_open x"
        using p(2) by (auto simp: item_ok_def)
      then show ?thesis
        using p(1) v(2) Some pop by (auto simp: RunNextTask_def OnTaskFinished_def UpdateIdleState_def
            intro!: sound_HandleIdle sound_queue_ops(3) sound_RunNode)
    qed (use p(1) v(2) pop in \<open>auto simp: RunNextTask_def UpdateIdleState_def
        intro!: sound_HandleIdle sound_queue_ops(4)\<close>)
  qed
  have "sound k l (RunNextTask (runtime_env uc) q (r\<lparr>w_pools := (w_pools r)[e := p]\<rparr>))"
    if "pool_take (w_pools r ! e) = Some (Some q, p)" for q p
  proof -
    have t: "tp_tasks (w_pools r ! e) = q # tp_tasks p"
      using that by (auto simp: pool_take_def split: if_splits)
    have tasks: "\<forall>x\<in>set (w_pools r). \<forall>i\<in>set (tp_tasks x). i < l" using r by (simp add: sound_def)
    then have "\<forall>i\<in>set (tp_tasks (w_pools r ! e)). i < l" using e nth_mem by blast
    then have q: "q < l" and p: "\<forall>i\<in>set (tp_tasks p). i < l" by (simp_all add: t)
    have "\<forall>x\<in>set ((w_pools r)[e := p]). \<forall>i\<in>set (tp_tasks x). i < l"
      using tasks p set_update_subset_insert [of "w_pools r" e p] by blast
    then have "sound k l (r\<lparr>w_pools := (w_pools r)[e := p]\<rparr>)" using r by (simp add: sound_def)
    then show ?thesis by (rule task) (rule q)
  qed
  then show ?thesis using r by (auto simp: worker_step_def split: option.splits)
qed

text \<open>The calls of the public class.\<close>

lemma sound_open_all:
  "sound k l r \<Longrightarrow> set ns \<subseteq> {..<k} \<Longrightarrow> sound k l (snd (open_all uc b ns r))"
proof (induction ns arbitrary: r b)
  case (Cons n ns)
  have act: "sound k l (v\<lparr>sc_active_sources := omap_put a n (sc_active_sources r)\<rparr>)"
    if "sound k l v" for a and v :: "('a, 'b, 'c) world_scheme"
  proof -
    have "snd ` set (omap_put a n m) \<subseteq> insert n (snd ` set m)" for m :: "(int, nat) omap"
      by (induction a n m rule: omap_put.induct) auto
    moreover have "snd ` set (sc_active_sources r) \<subseteq> {..<k}" using Cons.prems(1) by (simp add: sound_def)
    ultimately have "snd ` set (omap_put a n (sc_active_sources r)) \<subseteq> {..<k}"
      using Cons.prems(2) by (meson insert_subset order_trans set_subset_Cons list.set_intros(1) subsetD lessThan_iff)
    then show ?thesis using that by (simp add: sound_def)
  qed
  show ?case
    using Cons.prems by (auto simp: split_beta Let_def sound_report intro!: Cons.IH act sound_reschedule)
qed simp

lemma sound_start_ops:
  "sound k l r \<Longrightarrow> sound k l (assign_all (collect_sources r))"
proof -
  assume "sound k l r"
  then have r: "sound k l (collect_sources r)" by (simp add: collect_sources_def)
  have "sound k l (sc_AssignNodeToQueue n v)" if v: "sound k l v"
    for n and v :: "('a, 'b, 'c) world_scheme"
  proof -
    have queue: "sound k l (upd_node n (\<lambda>x. x\<lparr>n_queue := Some q\<rparr>) v)" if "q < l" for q
      by (rule sound_upd_node [OF v]) (simp add: node_ok_def that)
    have zero: "0 < l" using v by (simp add: sound_def)
    have "q < l" if "omap_get (sc_non_default_queues v) name = Some q" for name q
    proof -
      have "(name, q) \<in> set (sc_non_default_queues v)" using that by (auto simp: omap_get_def dest: map_of_SomeD)
      then show ?thesis using v by (force simp: sound_def)
    qed
    then show ?thesis
      using queue zero by (auto simp: sc_AssignNodeToQueue_def Let_def split: option.splits)
  qed
  then show ?thesis unfolding assign_all_def by (intro sound_fold r)
qed

lemma sound_SetQueuesRunning: "sound k l r \<Longrightarrow> sound k l (sc_SetQueuesRunning b r)"
  unfolding sc_SetQueuesRunning_def using soundD(7)
  by (intro sound_fold sound_queue_ops(1)) blast+

lemma sound_Start: "sound k l r \<Longrightarrow> sound k l (snd (rt_Start uc r))"
proof -
  assume r: "sound k l r"
  let ?r1 = "(start_profiler (sc_SetInputSidePackets (side_packet_set (rt_side_packets r)) r))\<lparr>sc_state := kRunning\<rparr>"
  obtain st r2 where o: "open_all uc True (sc_all_nodes ?r1) (assign_all (collect_sources ?r1)) = (st, r2)"
    by (meson surj_pair)
  have r1: "sound k l ?r1" using r by (simp add: start_profiler_def sc_SetInputSidePackets_def)
  have "set (sc_all_nodes ?r1) \<subseteq> {..<k}" using soundD(8) [OF r1] by blast
  from sound_open_all [OF sound_start_ops [OF r1] this, of uc True] have "sound k l r2" using o by simp
  moreover have "sound k l (fold wire_queue (sc_all_queues r2) r2)" if s2: "sound k l r2"
    unfolding wire_queue_def using soundD(7) [OF s2]
    by (intro sound_fold s2 sound_queue_ops(1) sound_upd_queue) auto
  ultimately show ?thesis
    using r o by (simp add: rt_Start_def sc_Start_def Let_def sound_HandleIdle)
qed

lemma sound_control:
  assumes "sound k l r"
  shows "sound k l (snd (rt_Pause r))" "sound k l (snd (rt_Resume uc r))" "sound k l (rt_Cancel uc r)"
    "sound k l (rt_Shutdown r)" "sound k l (rt_SetErrorCallback b r)"
    "sound k l (UnthrottleSources r)" "sound k l (rt_SetOutputStreamCallback s cb r)"
    "sound k l (rt_ClearOutputStreamCallback s r)" "sound k l (snd (SetInputSidePacket s p r))"
    "sound k l (sc_HandleIdle uc r)"
proof -
  show "sound k l (snd (rt_Pause r))" "sound k l (rt_Cancel uc r)" "sound k l (rt_Shutdown r)"
    "sound k l (rt_SetErrorCallback b r)" "sound k l (snd (SetInputSidePacket s p r))" "sound k l (sc_HandleIdle uc r)"
    using assms by (auto simp: rt_Pause_def sc_Pause_def rt_Cancel_def sc_Cancel_def rt_Shutdown_def sc_Shutdown_def
        rt_SetErrorCallback_def sc_SetErrorCallback_def SetInputSidePacket_def Let_def
        intro!: sound_SetQueuesRunning sound_HandleIdle sound_cleanup sound_upd_queue)
  have wait: "sound k l (fold sq_SubmitWaitingTasksToExecutor (sc_all_queues r) v)" if "sound k l v"
    for v :: "('a, 'b, 'c) runtime_scheme"
    using that soundD(7) [OF assms] by (intro sound_fold sound_queue_ops(2))
  show "sound k l (snd (rt_Resume uc r))"
    using assms by (auto simp: rt_Resume_def sc_Resume_def Let_def
        intro!: sound_HandleIdle wait sound_SetQueuesRunning)
  have unthrottle: "sound k l (unthrottle m v)" if "sound k l v" for m and v :: "('a, 'b, 'c) runtime_scheme"
  proof -
    have "map ism_arrival_cb (update_at m (\<lambda>s. ism_SetMaxQueueSize (max 1 (ism_max_size s + 1)) s) ims) =
        map ism_arrival_cb ims" for ims :: "'a ism list"
      by (simp add: update_at_def ism_SetMaxQueueSize_def map_cb_update)
    then show ?thesis unfolding unthrottle_def
      using sound_net [OF that, of "(w_net v)\<lparr>nt_ims := update_at m (\<lambda>s. ism_SetMaxQueueSize (max 1 (ism_max_size s + 1)) s) (nt_ims (w_net v))\<rparr>"]
      by (simp add: same_links_def upd_ism_def)
  qed
  show "sound k l (UnthrottleSources r)"
    unfolding UnthrottleSources_def using assms by (simp add: sound_fold unthrottle)
  have h: "sound k l (on_handlers f v)" if "\<And>h. oh_managers (f h) = oh_managers h" "sound k l v"
    for f and v :: "('a, 'b, 'c) runtime_scheme"
  proof -
    have "map oh_managers (fold (\<lambda>n ohs. case n_oh n of Some h \<Rightarrow> update_at h f ohs | None \<Rightarrow> ohs) ns ohs) =
        map oh_managers ohs" for ns ohs
      by (induction ns arbitrary: ohs) (auto simp: map_update_at that(1) split: option.splits)
    from this [of "w_nodes v" "w_ohs v"] have m: "map oh_managers (w_ohs (on_handlers f v)) = map oh_managers (w_ohs v)"
      by (simp add: on_handlers_def)
    then have len: "length (w_ohs (on_handlers f v)) = length (w_ohs v)" by (rule map_eq_imp_length_eq)
    have "oh_managers ` set (w_ohs (on_handlers f v)) = oh_managers ` set (w_ohs v)"
      using m by (metis list.set_map)
    from arg_cong [OF this, of "\<lambda>X. \<forall>ms\<in>X. \<forall>m\<in>set ms. m < length (nt_oms (w_net v))"]
    have "(\<forall>h\<in>set (w_ohs (on_handlers f v)). \<forall>m\<in>set (oh_managers h). m < length (nt_oms (w_net v))) =
        (\<forall>h\<in>set (w_ohs v). \<forall>m\<in>set (oh_managers h). m < length (nt_oms (w_net v)))"
      by (simp only: ball_simps)
    then show ?thesis using that(2) len by (simp add: sound_def on_handlers_def)
  qed
  show "sound k l (rt_SetOutputStreamCallback s cb r)" "sound k l (rt_ClearOutputStreamCallback s r)"
    using assms by (auto simp: rt_SetOutputStreamCallback_def rt_ClearOutputStreamCallback_def
        oh_SetOutputStreamCallback_def oh_ClearOutputStreamCallback_def intro!: h)
qed

lemma sound_graph_inputs:
  assumes "sound k l r" "\<forall>s m. omap_get (rt_graph_inputs r) s = Some m \<longrightarrow> m < length (nt_oms (w_net r))"
  shows "sound k l (snd (AddPacketToInputStream uc s p r))" "sound k l (snd (CloseInputStream uc s r))"
proof -
  note links = soundD(5) [OF assms(1)] and names = soundD(6) [OF assms(1)]
  show "sound k l (snd (AddPacketToInputStream uc s p r))"
  proof (cases "omap_get (rt_graph_inputs r) s")
    case (Some m)
    let ?net = "w_net r" and ?sh = "shard_AddPacket p (oshard_new (Some m))"
    obtain o1 sh1 ims1 evs where run: "osm_PropagateUpdatesToMirrors (nt_ihs ?net)
        (osm_ComputeOutputTimestampBound ?sh ts_Min (nt_oms ?net ! m)) ?sh
        (nt_oms ?net ! m) (nt_ims ?net) = (o1, sh1, ims1, evs)"
      by (meson prod_cases4)
    have m: "m < length (nt_oms ?net)" using assms(2) Some by simp
    note l = Propagate_links [OF run links m]
    have "sound k l (r\<lparr>w_net := ?net\<lparr>nt_ims := ims1, nt_oms := (nt_oms ?net)[m := o1]\<rparr>\<rparr>)"
      using l by (intro sound_net assms(1) same_links_upd) simp_all
    moreover have "arrival_nodes evs \<subseteq> {..<k}" using l(3) names by blast
    ultimately show ?thesis
      using assms(1) Some run by (auto simp: AddPacketToInputStream_def Let_def sc_AddedPacketToInputStream_def
          intro!: sound_HandleIdle sound_stream_events)
  qed (simp add: AddPacketToInputStream_def assms(1))
  show "sound k l (snd (CloseInputStream uc s r))"
  proof (cases "omap_get (rt_graph_inputs r) s")
    case (Some m)
    let ?net = "w_net r"
    obtain o1 ims1 evs where run: "osm_Close (nt_ihs ?net) (nt_oms ?net ! m) (nt_ims ?net) = (o1, ims1, evs)"
      by (meson prod_cases3)
    have m: "m < length (nt_oms ?net)" using assms(2) Some by simp
    note l = osm_Close_links [OF run links m refl refl]
    have "sound k l (r\<lparr>w_net := ?net\<lparr>nt_ims := ims1, nt_oms := (nt_oms ?net)[m := o1]\<rparr>\<rparr>)"
      using l by (intro sound_net assms(1) same_links_upd) simp_all
    moreover have "arrival_nodes evs \<subseteq> {..<k}" using l(3) names by blast
    ultimately show ?thesis
      using assms(1) Some run by (auto simp: CloseInputStream_def Let_def sc_AddedPacketToInputStream_def
          sc_IncClosedGraphInputStreams_def intro!: sound_HandleIdle sound_stream_events)
  qed (simp add: CloseInputStream_def assms(1))
qed

section \<open>Initialisation establishes it\<close>

text \<open>While the graph is wired: also the table of each node's streams names existing streams.\<close>

definition wiring_sound :: "nat \<Rightarrow> nat \<Rightarrow> managers_of \<Rightarrow> ('v, 'u, 'z) world_scheme \<Rightarrow> bool" where
  "wiring_sound k l table w \<longleftrightarrow> sound k l w \<and> (\<forall>(name, ms)\<in>set table. \<forall>m\<in>set ms. m < length (nt_ims (w_net w)))"

lemma set_omap_put: "set (omap_put k v m) \<subseteq> insert (k, v) (set m)"
  by (induction k v m rule: omap_put.induct) auto

lemma omap_get_in_set: "omap_get m k = Some v \<Longrightarrow> (k, v) \<in> set m"
  by (auto simp: omap_get_def dest: map_of_SomeD)

lemma FindNode_bound: "FindNode name w = Some n \<Longrightarrow> sound k l w \<Longrightarrow> n < k"
  by (auto simp: FindNode_def find_node_def find_Some_iff sound_def)

lemma sound_add_ism: "sound k l w \<Longrightarrow> sound k l (add_ism (ism_new x c) w)"
  by (auto simp: sound_def add_ism_def links_ok_def named_by_def ism_new_def node_ok_def less_Suc_eq
      intro: less_SucI)

lemma sound_add_osm: "sound k l w \<Longrightarrow> sound k l (add_osm (osm_new x) w)"
  by (auto simp: sound_def add_osm_def links_ok_def osm_new_def intro: less_SucI)

lemma sound_inputs:
  "fold (add_input n) xs (ms, w) = (ms', w') \<Longrightarrow> sound k l w \<Longrightarrow> \<forall>m\<in>set ms. m < length (nt_ims (w_net w)) \<Longrightarrow>
   sound k l w' \<and> (\<forall>m\<in>set ms'. m < length (nt_ims (w_net w'))) \<and> length (nt_ims (w_net w)) \<le> length (nt_ims (w_net w'))"
proof (induction xs arbitrary: ms w)
  case (Cons x xs)
  let ?m = "length (nt_ims (w_net w))"
  let ?w1 = "upd_node n (node_SetInputPort (PortName x) ?m) (add_ism (ism_new x (-1)) w)"
  have len: "length (nt_ims (w_net ?w1)) = Suc ?m" by (simp add: upd_node_def add_ism_def)
  have "sound k l ?w1"
    by (rule sound_upd_node [OF sound_add_ism [OF Cons.prems(2)]])
      (use set_omap_put in \<open>fastforce simp: node_ok_def node_SetInputPort_def add_ism_def\<close>)
  then have "sound k l w' \<and> (\<forall>m\<in>set ms'. m < length (nt_ims (w_net w'))) \<and>
      length (nt_ims (w_net ?w1)) \<le> length (nt_ims (w_net w'))"
    using Cons.prems len by (intro Cons.IH [of "ms @ [?m]"]) (auto simp: add_input_step)
  then show ?case unfolding len by simp
qed simp

lemma wiring_sound_inputs:
  "fold init_node_inputs ds (t, w) = (t', w') \<Longrightarrow> wiring_sound k l t w \<Longrightarrow> wiring_sound k l t' w'"
proof (induction ds arbitrary: t w)
  case (Cons d ds)
  obtain t1 w1 where one: "init_node_inputs d (t, w) = (t1, w1)" by (meson surj_pair)
  have "wiring_sound k l t1 w1"
  proof (cases "FindNode (nd_name d) w")
    case (Some n)
    define old where "old = (case omap_get t (nd_name d) of Some ms \<Rightarrow> ms | None \<Rightarrow> [])"
    obtain ms w2 where f: "fold (add_input n) (nd_input_streams d) (old, w) = (ms, w2)" by (meson surj_pair)
    have "\<forall>m\<in>set ms. m < length (nt_ims (w_net w))" if "omap_get t name = Some ms" for name ms
      using omap_get_in_set [OF that] Cons.prems(2) by (fastforce simp: wiring_sound_def)
    then have "\<forall>m\<in>set old. m < length (nt_ims (w_net w))"
      by (cases "omap_get t (nd_name d)") (simp_all add: old_def)
    then have "sound k l w2 \<and> (\<forall>m\<in>set ms. m < length (nt_ims (w_net w2))) \<and>
        length (nt_ims (w_net w)) \<le> length (nt_ims (w_net w2))"
      using Cons.prems(2) by (intro sound_inputs [OF f]) (simp_all add: wiring_sound_def)
    moreover have "t1 = omap_put (nd_name d) ms t" "w1 = w2"
      using one Some f by (auto simp: init_node_inputs_def Let_def old_def)
    ultimately show ?thesis
      using Cons.prems(2) set_omap_put [of "nd_name d" ms t] unfolding wiring_sound_def by fastforce
  qed (use one Cons.prems in \<open>simp add: init_node_inputs_def\<close>)
  then show ?case using Cons one by simp
qed simp

lemma wiring_sound_outputs: "wiring_sound k l t r \<Longrightarrow> wiring_sound k l t (init_node_outputs d r)"
proof (cases "nd_output_streams d = [] \<or> FindNode (nd_name d) r = None")
  case False
  assume r: "wiring_sound k l t r"
  obtain n where n: "FindNode (nd_name d) r = Some n" using False by auto
  obtain ms r1 where step: "fold add_output (nd_output_streams d) ([], r) = (ms, r1)" by (meson surj_pair)
  note s = fold_add_output [OF step]
  have "sound k l (snd (fold add_output xs (ms, v)))" if "sound k l v"
    for xs ms and v :: "('a, 'b, 'c) runtime_scheme"
    using that by (induction xs arbitrary: ms v) (simp_all add: add_output_step sound_add_osm)
  from this [of r] have r1: "sound k l r1" using r step by (metis wiring_sound_def snd_conv)
  define h where "h = fold (\<lambda>(stream_name, cb). oh_SetOutputStreamCallback stream_name cb) (rt_output_cbs r1) (oh_new ms)"
  have "oh_managers h = ms" by (simp add: h_def fold_SetCallback_managers oh_new_def)
  then have "\<forall>m\<in>set (oh_managers h). m < length (nt_oms (w_net r1))" using s by simp
  then have r2: "sound k l (r1\<lparr>w_ohs := w_ohs r1 @ [h]\<rparr>)"
    using r1 by (auto simp: sound_def node_ok_def intro: less_SucI)
  have "sound k l (upd_node n (\<lambda>x. x\<lparr>n_oh := Some (length (w_ohs r1))\<rparr>) (r1\<lparr>w_ohs := w_ohs r1 @ [h]\<rparr>))"
    by (rule sound_upd_node [OF r2]) (simp add: node_ok_def)
  moreover have "init_node_outputs d r = upd_node n (\<lambda>x. x\<lparr>n_oh := Some (length (w_ohs r1))\<rparr>) (r1\<lparr>w_ohs := w_ohs r1 @ [h]\<rparr>)"
    using False n step by (simp add: init_node_outputs_def h_def)
  ultimately show ?thesis using r s by (simp add: wiring_sound_def upd_node_def)
qed (auto simp: init_node_outputs_def)

lemma wiring_sound_callbacks: "wiring_sound k l t r \<Longrightarrow> wiring_sound k l t (wire_node_callbacks t' d r)"
proof -
  assume r: "wiring_sound k l t r"
  have "wiring_sound k l t (wire_ism n m v)" if "wiring_sound k l t v" "n < k"
    for n m and v :: "('a, 'b, 'c) world_scheme"
  proof -
    have "set (update_at m (wired_ism n m) (nt_ims (w_net v))) \<subseteq> set (nt_ims (w_net v)) \<union> wired_ism n m ` set (nt_ims (w_net v))"
      by (rule set_update_at)
    then have "named_by (update_at m (wired_ism n m) (nt_ims (w_net v))) \<subseteq> insert n (named_by (nt_ims (w_net v)))"
      unfolding named_by_def by (auto simp: wired_ism_def)
    moreover have "wire_ism n m v = v\<lparr>w_net := w_net (wire_ism n m v)\<rparr>" by (simp add: wire_ism_def upd_ism_def)
    ultimately show ?thesis
      using that unfolding wire_ism_net by (auto simp: wiring_sound_def sound_def links_ok_def)
  qed
  then have all: "wiring_sound k l t (fold (wire_ism n) ms v)" if "wiring_sound k l t v" "n < k"
    for n ms and v :: "('a, 'b, 'c) world_scheme"
    using that by (induction ms arbitrary: v) simp_all
  show ?thesis
  proof (cases "FindNode (nd_name d) r")
    case (Some n)
    then have "n < k" using r FindNode_bound by (auto simp: wiring_sound_def)
    then show ?thesis using r all by (simp add: wire_node_callbacks_def Some split: option.split)
  qed (use r in \<open>simp add: wire_node_callbacks_def\<close>)
qed

lemma wiring_sound_handler: "wiring_sound k l t r \<Longrightarrow> wiring_sound k l t (init_node_handler t d r)"
proof -
  assume r: "wiring_sound k l t r"
  have "wiring_sound k l t (upd_node n (\<lambda>x. x\<lparr>n_ih := Some (length (nt_ihs (w_net r)))\<rparr>)
      (r\<lparr>w_net := (w_net r)\<lparr>nt_ims := ims, nt_ihs := nt_ihs (w_net r) @ [h]\<rparr>\<rparr>))"
    if ms: "omap_get t name = Some ms" and set_ms: "ih_SetInputStreamManagers ms c (nt_ims (w_net r)) = (h, ims)"
    for n name ms c h ims
  proof -
    have core: "ih_managers h = ms" "map ism_core ims = map ism_core (nt_ims (w_net r))"
      using SetInputStreamManagers_spec [OF set_ms] by simp_all
    have len: "length ims = length (nt_ims (w_net r))" using core(2) by (rule map_eq_imp_length_eq)
    have "map ism_arrival_cb ims = map ism_arrival_cb (nt_ims (w_net r))"
      using arg_cong [OF core(2), of "map (\<lambda>x. fst (snd (snd (snd (snd x)))))"] by (simp add: comp_def ism_core_def)
    then have names: "named_by ims = named_by (nt_ims (w_net r))" by (rule named_by_cbs)
    have "\<forall>m\<in>set ms. m < length (nt_ims (w_net r))"
      using omap_get_in_set [OF ms] r by (fastforce simp: wiring_sound_def)
    then have "sound k l (r\<lparr>w_net := (w_net r)\<lparr>nt_ims := ims, nt_ihs := nt_ihs (w_net r) @ [h]\<rparr>\<rparr>)"
      using r core(1) len names
      by (auto simp: wiring_sound_def sound_def links_ok_def node_ok_def intro: less_SucI)
    from sound_upd_node [OF this, of "\<lambda>x. x\<lparr>n_ih := Some (length (nt_ihs (w_net r)))\<rparr>" n]
    show ?thesis using r len by (simp add: wiring_sound_def node_ok_def upd_node_def)
  qed
  then show ?thesis using r by (auto simp: init_node_handler_def Let_def split: option.splits prod.splits)
qed

lemma sound_graph_input: "sound k l r \<Longrightarrow> sound k l (snd (add_graph_input g (table, r)))"
  by (simp add: add_graph_input_def Let_def sound_add_osm)

lemma sound_mirrors: "sound k l r \<Longrightarrow> sound k l (wire_node_mirrors table d r)"
proof -
  assume r: "sound k l r"
  have one: "sound k l (wire_mirror table h e v) \<and> length (nt_ihs (w_net (wire_mirror table h e v))) = length (nt_ihs (w_net v))"
    if v: "sound k l v" "h < length (nt_ihs (w_net v))" for h e and v :: "('a, 'b, 'c) world_scheme"
  proof -
    have "\<forall>o'\<in>set (update_at m (osm_AddMirror (Some h) i) (nt_oms (w_net v))).
        \<forall>mi\<in>set (om_mirrors o'). \<forall>h. mi_handler mi = Some h \<longrightarrow> h < length (nt_ihs (w_net v))" for m i
      using v by (intro ball_update_at) (auto simp: sound_def links_ok_def osm_AddMirror_def)
    then have "sound k l (upd_osm m (osm_AddMirror (Some h) i) v)" for m i
      using v(1) by (simp add: sound_def links_ok_def upd_osm_def)
    then show ?thesis using v(1) by (auto simp: wire_mirror_def upd_osm_def split: option.splits prod.splits)
  qed
  have all: "sound k l (fold (wire_mirror table h) es v)" if "sound k l v" "h < length (nt_ihs (w_net v))"
    for h es and v :: "('a, 'b, 'c) world_scheme"
    using that one by (induction es arbitrary: v) auto
  have ih: "h < length (nt_ihs (w_net r))" if "n < k" "n_ih (w_nodes r ! n) = Some h" for n h
    using r that nth_mem [of n "w_nodes r"] by (auto simp: sound_def node_ok_def)
  show ?thesis
  proof (cases "FindNode (nd_name d) r")
    case (Some n)
    then have "n < k" using r FindNode_bound by blast
    then show ?thesis using r all ih by (simp add: wire_node_mirrors_def Some split: option.split)
  qed (use r in \<open>simp add: wire_node_mirrors_def\<close>)
qed

lemma sound_graph: "sound k l r \<Longrightarrow> length (w_nodes r) = k \<Longrightarrow> sound k l (wire_graph clock config r)"
proof -
  let ?nodes = "gc_nodes config" and ?gs = "gc_input_streams config"
  assume r: "sound k l r" "length (w_nodes r) = k"
  let ?r2 = "sc_SetProfiler (Some (pf_Initialize (gc_profiler_config config)
      (map n_name (w_nodes (sc_SetNodes [0..<length (w_nodes r)] r))) (pf_SetClock clock profiler_new)))
      (sc_SetNodes [0..<length (w_nodes r)] r)"
  have "wiring_sound k l [] ?r2"
    using r by (auto simp: wiring_sound_def sound_def sc_SetProfiler_def sc_SetNodes_def)
  moreover obtain t r3 where r3: "fold init_node_inputs ?nodes ([], ?r2) = (t, r3)" by (meson surj_pair)
  ultimately have "wiring_sound k l t r3" by (metis wiring_sound_inputs)
  moreover define r4 where "r4 = fold count_graph_input ?gs r3"
  ultimately have "wiring_sound k l t r4"
  proof -
    assume "wiring_sound k l t r3"
    then have "wiring_sound k l t (fold count_graph_input gs r3)" for gs
      by (induction gs arbitrary: r3) (simp_all add: count_graph_input_def wiring_sound_def)
    then show ?thesis by (simp add: r4_def)
  qed
  then have "wiring_sound k l t (sc_SetTotalGraphInputStreams (rt_num_open r4) r4)"
    by (simp add: wiring_sound_def sc_SetTotalGraphInputStreams_def)
  moreover have fold: "wiring_sound k l t (fold f xs v)"
    if "wiring_sound k l t v" "\<And>x v. wiring_sound k l t v \<Longrightarrow> wiring_sound k l t (f x v)"
    for f :: "node_def \<Rightarrow> ('a, 'b, 'c) runtime_scheme \<Rightarrow> ('a, 'b, 'c) runtime_scheme" and xs v
    using that by (induction xs arbitrary: v) simp_all
  moreover define r8 where "r8 = fold (init_node_handler t) ?nodes (fold (wire_node_callbacks t) ?nodes
      (fold init_node_outputs ?nodes (sc_SetTotalGraphInputStreams (rt_num_open r4) r4)))"
  ultimately have "wiring_sound k l t r8"
    by (auto intro!: fold wiring_sound_handler wiring_sound_callbacks wiring_sound_outputs)
  then have r8: "sound k l r8" by (simp add: wiring_sound_def)
  have gi: "sound k l (snd (fold add_graph_input gs (table, v)))" if "sound k l v"
    for gs table and v :: "('a, 'b, 'c) runtime_scheme"
    using that
  proof (induction gs arbitrary: table v)
    case (Cons g gs)
    then show ?case using sound_graph_input [of k l v g table] by (cases "add_graph_input g (table, v)") simp
  qed simp
  have "sound k l (fold (wire_node_mirrors table) ?nodes (snd (fold add_graph_input ?gs (table', r8))))" for table table'
    by (rule sound_fold [OF gi [OF r8]]) (rule sound_mirrors)
  moreover have "wire_graph clock config r = fold (wire_node_mirrors (fst (fold add_graph_input ?gs (fold (node_outputs r8) ?nodes [], r8))))
      ?nodes (snd (fold add_graph_input ?gs (fold (node_outputs r8) ?nodes [], r8)))"
    using r3 unfolding wire_graph_def Let_def r8_def r4_def by (simp add: split_beta)
  ultimately show "sound k l (wire_graph clock config r)" by simp
qed

lemma create_nodes_sound:
  "create_nodes reg addr ds w = Inr w' \<Longrightarrow> sound (length (w_nodes w)) l w \<Longrightarrow>
   sound (length (w_nodes w')) l w'"
proof (induction ds arbitrary: w)
  case (Cons d ds)
  from Cons.prems(1) obtain n where n: "rg_CreateByName (nd_type d) (nd_name d) (nd_options d)
      (addr (length (w_nodes w))) reg = Some n"
    and rest: "create_nodes reg addr ds (w\<lparr>w_nodes := w_nodes w @
      [n\<lparr>n_executor_name := nd_executor d, n_source_layer := nd_source_layer d\<rparr>]\<rparr>) = Inr w'"
    by (auto split: option.splits)
  show ?case
    by (rule Cons.IH [OF rest]) (use Cons.prems(2) rg_CreateByName_Some [OF n] in
      \<open>auto simp: sound_def node_ok_def item_ok_def less_Suc_eq; force\<close>)
qed simp

lemma Build_sound:
  assumes "GraphBuilder_Build reg addr hw u config = Inr (b :: ('v, 'u) runtime)"
  shows "sound (length (w_nodes b)) (length (w_queues b)) b"
    "w_net b = w_net (GraphRuntime_new u :: ('v, 'u) runtime)" "w_ohs b = w_ohs (GraphRuntime_new u :: ('v, 'u) runtime)"
proof -
  let ?new = "GraphRuntime_new u :: ('v, 'u) runtime"
  define ok :: "('v, 'u) runtime \<Rightarrow> bool"
    where "ok w \<longleftrightarrow> w_nodes w = [] \<and> w_net w = w_net ?new \<and> w_ohs w = w_ohs ?new \<and>
      sound 0 (length (w_queues w)) w" for w
  have new: "ok (?new\<lparr>rt_config := config\<rparr>)"
    by (simp add: ok_def sound_def GraphRuntime_new_def Scheduler_new_def world.defs sq_new_def links_ok_def named_by_def)
  have tasks: "tp_tasks (ThreadPoolExecutor_Create hw' n) = []" for hw' n
    by (simp add: ThreadPoolExecutor_Create_def pool_new_def Let_def)
  have default: "ok (snd (sc_SetDefaultExecutor (ThreadPoolExecutor_Create hw' n) w))" if w: "ok w" for hw' n w
  proof -
    let ?w1 = "w\<lparr>w_pools := w_pools w @ [ThreadPoolExecutor_Create hw' n], sc_default_executor := Some (length (w_pools w))\<rparr>"
    have "sound 0 (length (w_queues w)) w" using w by (simp add: ok_def)
    then have "sound 0 (length (w_queues w)) ?w1" using tasks by (simp add: sound_def)
    then have "sound 0 (length (w_queues w)) (upd_queue 0 (\<lambda>s. s\<lparr>sq_executor := Some (length (w_pools w))\<rparr>) ?w1)"
      by (rule sound_upd_queue) simp
    then show ?thesis using w by (simp add: ok_def sc_SetDefaultExecutor_def Let_def upd_queue_def)
  qed
  have sub: "snd ` set (omap_put name q m) \<subseteq> {..<Suc q}" if "snd ` set m \<subseteq> {..<q}"
    for q and m :: "(string, nat) omap" and name
  proof -
    have "snd ` set (omap_put name q m) \<subseteq> insert q (snd ` set m)"
      using image_mono [OF set_omap_put [of name q m], of snd] by simp
    also have "\<dots> \<subseteq> {..<Suc q}" using that by auto
    finally show ?thesis .
  qed
  have named: "ok (snd (sc_SetNonDefaultExecutor name (ThreadPoolExecutor_Create hw' n) w))" if w: "ok w" for name hw' n w
  proof -
    have "sound 0 (length (w_queues w)) w" using w by (simp add: ok_def)
    then have "sound 0 (Suc (length (w_queues w))) (snd (sc_SetNonDefaultExecutor name (ThreadPoolExecutor_Create hw' n) w))"
      using w tasks sub [where q = "length (w_queues w)" and m = "sc_non_default_queues w" and name = name]
      by (auto simp: ok_def sound_def sc_SetNonDefaultExecutor_def Let_def sq_new_def less_Suc_eq)
    then show ?thesis using w by (simp add: ok_def sc_SetNonDefaultExecutor_def Let_def)
  qed
  have "ok (fold (add_executor hw) ds w)" if "ok w" for ds w
    using that by (induction ds arbitrary: w) (simp_all add: add_executor_def Let_def default named)
  note run = this [OF new, of "gc_executors config"]
  obtain w where w: "create_nodes reg addr (gc_nodes config) w = Inr b" "ok w"
  proof (cases "gc_executors config = []")
    case True
    then show ?thesis
      using assms that [OF _ default [OF new]] by (simp add: GraphBuilder_Build_def Let_def split: if_splits)
  next
    case False
    then show ?thesis
      using assms that [OF _ run] by (simp add: GraphBuilder_Build_def Let_def split: if_splits)
  qed
  have frame: "w_net b' = w_net w' \<and> w_ohs b' = w_ohs w' \<and> length (w_queues b') = length (w_queues w')"
    if "create_nodes reg addr ds w' = Inr b'" for ds and w' b' :: "('v, 'u) runtime"
    using that by (induction ds arbitrary: w') (auto split: option.splits)
  show "w_net b = w_net ?new" "w_ohs b = w_ohs ?new"
    using frame [OF w(1)] w(2) by (simp_all add: ok_def)
  have "sound (length (w_nodes w)) (length (w_queues w)) w" using w(2) by (simp add: ok_def)
  from create_nodes_sound [OF w(1) this] show "sound (length (w_nodes b)) (length (w_queues b)) b"
    using frame [OF w(1)] by simp
qed

lemma Initialize_sound:
  assumes "Initialize reg addr hw clock config options
      (GraphRuntime_new u :: ('v, 'u) runtime) = (st, r)" "st_ok st"
  shows "sound (length (w_nodes r)) (length (w_queues r)) r"
proof -
  obtain b :: "('v, 'u) runtime" where b: "GraphBuilder_Build reg addr hw u (Options_Apply options config) = Inr b"
    using assms(1,2) by (auto simp: Initialize_def Let_def dest: Build_error split: sum.splits)
  let ?n = "GraphRuntime_new u :: ('v, 'u) runtime"
  define r0 where "r0 = world.extend
      ((world.truncate b)\<lparr>w_net := w_net ?n, w_ohs := w_ohs ?n, w_log := w_log ?n\<rparr>)
      (runtime.fields config True (rt_graph_input_set ?n) (rt_num_open ?n) (rt_full ?n)
         (rt_closed_streams ?n) (rt_graph_inputs ?n) (rt_output_cbs ?n) (rt_side_packets ?n)
         (rt_side_cbs ?n) (rt_profiler_override ?n))"
  have r: "r = wire_graph clock config r0"
    using assms(1) b by (simp add: Initialize_def Let_def r0_def GraphRuntime_new_def world.defs
        Scheduler_new_def)
  have "sound (length (w_nodes b)) (length (w_queues b)) r0"
    using Build_sound [OF b] by (simp add: sound_def r0_def world.defs)
  moreover have "w_nodes r0 = w_nodes b" by (simp add: r0_def world.defs)
  ultimately have "sound (length (w_nodes b)) (length (w_queues b)) r"
    unfolding r by (simp add: sound_graph)
  then show ?thesis using soundD(1,2) by metis
qed

section \<open>Executions\<close>

datatype 'v call =
  CallStart | CallPause | CallResume | CallCancel | CallShutdown | CallSetErrorCallback bool
| CallSetOutputStreamCallback string nat | CallClearOutputStreamCallback string
| CallSetInputSidePacket string "'v packet" | CallSetOutputSidePacketCallback string nat
| CallSetProfilerConfig profiler_config

fun api_call :: "('v, 'u) user_code \<Rightarrow> 'v call \<Rightarrow> ('v, 'u, 'z) runtime_scheme \<Rightarrow> ('v, 'u, 'z) runtime_scheme" where
  "api_call uc CallStart r = snd (rt_Start uc r)"
| "api_call uc CallPause r = snd (rt_Pause r)"
| "api_call uc CallResume r = snd (rt_Resume uc r)"
| "api_call uc CallCancel r = rt_Cancel uc r"
| "api_call uc CallShutdown r = rt_Shutdown r"
| "api_call uc (CallSetErrorCallback b) r = rt_SetErrorCallback b r"
| "api_call uc (CallSetOutputStreamCallback s cb) r = rt_SetOutputStreamCallback s cb r"
| "api_call uc (CallClearOutputStreamCallback s) r = rt_ClearOutputStreamCallback s r"
| "api_call uc (CallSetInputSidePacket s p) r = snd (SetInputSidePacket s p r)"
| "api_call uc (CallSetOutputSidePacketCallback s cb) r = SetOutputSidePacketCallback s cb r"
| "api_call uc (CallSetProfilerConfig c) r = SetProfilerConfig c r"

text \<open>The node the next task of pool \<open>e\<close> runs, with its queue and the state it starts from.\<close>

definition worker_run ::
  "nat \<Rightarrow> ('v, 'u, 'z) runtime_scheme \<Rightarrow> (nat \<times> nat \<times> ('v, 'u, 'z) runtime_scheme) option" where
  "worker_run e r =
     (case pool_take (w_pools r ! e) of
        Some (Some q, p) \<Rightarrow>
          (case TryPop q (r\<lparr>w_pools := (w_pools r)[e := p]\<rparr>) of
             (Some i, r1) \<Rightarrow> map_option (\<lambda>n. (q, n, r1)) (it_node i) | _ \<Rightarrow> None)
      | _ \<Rightarrow> None)"

definition worker_sent :: "('v, 'u) user_code \<Rightarrow> nat \<Rightarrow> ('v, 'u, 'z) runtime_scheme \<Rightarrow> (nat \<times> 'v packet) list" where
  "worker_sent uc e r = (case worker_run e r of Some (q, n, r1) \<Rightarrow> run_sent uc q n r1 | None \<Rightarrow> [])"

definition worker_taken :: "nat \<Rightarrow> ('v, 'u, 'z) runtime_scheme \<Rightarrow> (nat \<times> 'v packet) list" where
  "worker_taken e r = (case worker_run e r of Some (q, n, r1) \<Rightarrow> run_taken n r1 | None \<Rightarrow> [])"

inductive execution ::
  "('v, 'u) user_code \<Rightarrow> ('v, 'u, 'z) runtime_scheme \<Rightarrow> (nat \<times> 'v packet) list \<Rightarrow>
     (nat \<times> 'v packet) list \<Rightarrow> ('v, 'u, 'z) runtime_scheme \<Rightarrow> bool"
  for uc r0 where
  Begin: "execution uc r0 [] [] r0"
| Call: "execution uc r0 sent taken r \<Longrightarrow> execution uc r0 sent taken (api_call uc c r)"
| Inject: "execution uc r0 sent taken r \<Longrightarrow>
     execution uc r0 (sent @ injected s p r) taken (snd (AddPacketToInputStream uc s p r))"
| CloseInput: "execution uc r0 sent taken r \<Longrightarrow> execution uc r0 sent taken (snd (CloseInputStream uc s r))"
| Worker: "execution uc r0 sent taken r \<Longrightarrow> e < length (w_pools r) \<Longrightarrow>
     execution uc r0 (sent @ worker_sent uc e r) (taken @ worker_taken e r) (worker_step (runtime_env uc) e r)"

lemma call_quiet: "graph_view (api_call uc c r) = graph_view r"
proof -
  have "graph_view (r\<lparr>rt_side_cbs := x\<rparr>) = graph_view r" "graph_view (r\<lparr>rt_profiler_override := y\<rparr>) = graph_view r" for x y
    by (simp_all add: graph_view_def graph_static_def)
  then show ?thesis
    by (cases c) (simp_all add: calls_are_quiet settings_are_quiet SetOutputSidePacketCallback_def SetProfilerConfig_def)
qed

lemma sound_call: "sound k l r \<Longrightarrow> sound k l (api_call uc c r)"
  by (cases c) (simp_all add: sound_Start sound_control SetOutputSidePacketCallback_def SetProfilerConfig_def)

lemma worker_cases:
  assumes "sound k l r" "e < length (w_pools r)"
  shows "case worker_run e r of
      None \<Rightarrow> flow_part (worker_step (runtime_env uc) e r) = flow_part r
    | Some (q, n, r1) \<Rightarrow> n < k \<and> flow_part r1 = flow_part r \<and> w_nodes r1 = w_nodes r \<and>
        flow_part (worker_step (runtime_env uc) e r) = flow_part (RunNode (runtime_env uc) q (Some n) False r1)"
proof (cases "\<exists>q p. pool_take (w_pools r ! e) = Some (Some q, p)")
  case True
  then obtain q p where take: "pool_take (w_pools r ! e) = Some (Some q, p)" by blast
  let ?r = "r\<lparr>w_pools := (w_pools r)[e := p]\<rparr>"
  obtain i r1 where pop: "TryPop q ?r = (i, r1)" by (cases "TryPop q ?r")
  have r1: "flow_part r1 = flow_part r" "w_nodes r1 = w_nodes r"
    using pop flow_part_queue_locks(1) [of q ?r]
    by (auto simp: TryPop_def upd_queue_def split: option.splits prod.splits)
  have step: "worker_step (runtime_env uc) e r = RunNextTask (runtime_env uc) q ?r"
    using take by (simp add: worker_step_def)
  show ?thesis
  proof (cases i)
    case None
    then show ?thesis
      using pop take r1 by (simp add: worker_run_def step RunNextTask_def UpdateIdleState_def)
  next
    case (Some x)
    have "q < l"
    proof -
      have "q \<in> set (tp_tasks (w_pools r ! e))" using take by (auto simp: pool_take_def split: if_splits)
      then show ?thesis using assms nth_mem by (auto simp: sound_def)
    qed
    have "x \<in> set (sq_items (w_queues r ! q))"
      using pop Some by (auto simp: TryPop_def dest: pq_pop_sub split: option.splits)
    with soundD(4) [OF assms(1) \<open>q < l\<close>] have "item_ok k x" by blast
    then obtain n where n: "n < k" "it_node x = Some n" "\<not> it_is_open x" by (auto simp: item_ok_def)
    then show ?thesis
      using pop take r1 Some
      by (simp add: worker_run_def step RunNextTask_def OnTaskFinished_def UpdateIdleState_def)
  qed
next
  case False
  then show ?thesis
    by (auto simp: worker_run_def worker_step_def split: option.splits)
qed

lemma execution_sound:
  assumes "execution uc r0 sent taken r" "sound k l r0" "graph_ok r0" "respects_shards uc"
  shows "sound k l r \<and> history uc r0 sent taken r"
  using assms(1)
proof induction
  case Begin
  then show ?case using assms(2) by (simp add: history.Begin)
next
  case (Call sent taken r c)
  then show ?case by (simp add: sound_call history.Quiet [OF _ call_quiet])
next
  case (Inject sent taken r s p)
  then have "graph_ok r" using history_conserves assms(3,4) graph_ok_static(1) by blast
  then have "sound k l (snd (AddPacketToInputStream uc s p r))"
    using Inject.IH sound_graph_inputs(1) by (auto simp: graph_ok_def)
  then show ?case using Inject.IH history.Inject [of uc r0 sent taken r s p] by (metis prod.collapse)
next
  case (CloseInput sent taken r s)
  then have "graph_ok r" using history_conserves assms(3,4) graph_ok_static(1) by blast
  then have "sound k l (snd (CloseInputStream uc s r))"
    using CloseInput.IH sound_graph_inputs(2) by (auto simp: graph_ok_def)
  then show ?case using CloseInput.IH history.CloseInput [of uc r0 sent taken r s] by (metis prod.collapse)
next
  case (Worker sent taken r e)
  let ?r' = "worker_step (runtime_env uc) e r"
  note s = sound_worker [OF Worker.IH [THEN conjunct1] Worker.hyps(2)]
    and c = worker_cases [OF Worker.IH [THEN conjunct1] Worker.hyps(2), of uc]
  have "history uc r0 (sent @ worker_sent uc e r) (taken @ worker_taken e r) ?r'"
  proof (cases "worker_run e r")
    case None
    then show ?thesis using c history.Quiet [OF Worker.IH [THEN conjunct2] graph_view_flow]
      by (simp add: worker_sent_def worker_taken_def)
  next
    case (Some x)
    then obtain q n r1 where x: "x = (q, n, r1)" by (cases x)
    have f: "n < k" "flow_part r1 = flow_part r" "w_nodes r1 = w_nodes r"
      "flow_part ?r' = flow_part (RunNode (runtime_env uc) q (Some n) False r1)"
      using c Some x by simp_all
    have h: "history uc r0 sent taken r1"
      by (rule history.Quiet [OF Worker.IH [THEN conjunct2] graph_view_flow [OF f(2)]])
    have "n < length (w_nodes r1)" using f(1,3) soundD(1) Worker.IH by metis
    from history.Quiet [OF history.Run [OF h this] graph_view_flow [OF f(4)]]
    show ?thesis using Some x by (simp add: worker_sent_def worker_taken_def)
  qed
  then show ?case using s by blast
qed

lemma Initialize_execution:
  assumes "Initialize reg addr hw clock config options
      (GraphRuntime_new u :: ('v, 'u) runtime) = (st, r0)" "st_ok st"
    and "\<forall>d\<in>set (gc_nodes config). distinct (map PortName (nd_output_streams d))"
    and "respects_shards uc" "execution uc r0 sent taken r"
  shows "sound (length (w_nodes r0)) (length (w_queues r0)) r" "history uc r0 sent taken r" "graph_ok r"
proof -
  note g = Initialize_graph(1) [OF assms(1-3)]
  note e = execution_sound [OF assms(5) Initialize_sound [OF assms(1,2)] g assms(4)]
  show "sound (length (w_nodes r0)) (length (w_queues r0)) r" "history uc r0 sent taken r"
    using e by simp_all
  then show "graph_ok r" using history_conserves [OF _ g assms(4)] graph_ok_static(1) g by blast
qed

section \<open>Properties\<close>



end
