(* ===== verification/Node_Ports.thy ===== *)
theory Node_Ports
  imports Executions
begin

text \<open>
  Which queue each input port of a node reads, and which managers its output ports write, in the
  graph \<open>Initialize\<close> makes: the blocks of \<open>Wiring\<close>, node by node.
\<close>

section \<open>Input ports\<close>

definition port_maps where
  "port_maps w = map n_input_ports (w_nodes w)"

lemma ports_upd_node: "(\<And>x. n_input_ports (f x) = n_input_ports x) \<Longrightarrow> port_maps (upd_node n f w) = port_maps w"
  by (simp add: port_maps_def upd_node_def map_update_at)

lemma ports_fold: "(\<And>x w. port_maps (f x w) = port_maps w) \<Longrightarrow> port_maps (fold f xs w) = port_maps w"
  by (induction xs arbitrary: w) simp_all

lemma fold_add_input_ports:
  "fold (add_input n) xs (ms, w) = (ms', w') \<Longrightarrow> n < length (w_nodes w) \<Longrightarrow>
   port_maps w' = (port_maps w)[n := put_all (zip (map PortName xs)
     [length (nt_ims (w_net w))..<length (nt_ims (w_net w)) + length xs]) (port_maps w ! n)]"
proof (induction xs arbitrary: ms w)
  case Nil
  then have "w' = w" by simp
  then show ?case using list_update_id [of "port_maps w" n] by simp
next
  case (Cons x xs)
  let ?m = "length (nt_ims (w_net w))"
  let ?w = "upd_node n (node_SetInputPort (PortName x) ?m) (add_ism (ism_new x (-1)) w)"
  have step: "fold (add_input n) xs (ms @ [?m], ?w) = (ms', w')"
    using Cons.prems(1) by (simp add: add_input_step)
  have "port_maps ?w = (port_maps w)[n := omap_put (PortName x) ?m (port_maps w ! n)]"
    using Cons.prems(2) by (simp add: port_maps_def upd_node_def update_at_def map_update node_SetInputPort_def)
  then show ?case
    using Cons.IH [OF step] Cons.prems(2)
    by (simp add: upd_node_def port_maps_def upt_Cons_length [symmetric] del: upt_Suc)
qed

lemma fold_init_inputs_ports:
  assumes "fold init_node_inputs xs (table, w) = (table', w')"
    and "names w = map nd_name (pre @ xs)" "distinct (map nd_name (pre @ xs))"
  shows "length (w_nodes w') = length (w_nodes w) \<and>
    (\<forall>i < length pre. port_maps w' ! i = port_maps w ! i) \<and>
    (\<forall>i < length xs. port_maps w' ! (length pre + i) =
       put_all (zip (map PortName (nd_input_streams (xs ! i)))
         (blocks (length (nt_ims (w_net w))) (map nd_input_streams xs) ! i)) (port_maps w ! (length pre + i)))"
  using assms
proof (induction xs arbitrary: pre table w)
  case (Cons d xs)
  let ?p = "length pre" and ?k = "length (nt_ims (w_net w))"
  have f: "FindNode (nd_name d) w = Some ?p"
    by (rule FindNode_at [of w pre d xs]) (use Cons.prems in simp_all)
  have len: "?p < length (w_nodes w)"
    using arg_cong [OF Cons.prems(2), of length] by (simp add: names_def)
  define old where "old = (case omap_get table (nd_name d) of Some ms \<Rightarrow> ms | None \<Rightarrow> [])"
  obtain ms w1 where step: "fold (add_input ?p) (nd_input_streams d) (old, w) = (ms, w1)"
    by (cases "fold (add_input ?p) (nd_input_streams d) (old, w)") auto
  note s = fold_add_input [OF step] and p = fold_add_input_ports [OF step len]
  have "init_node_inputs d (table, w) = (omap_put (nd_name d) ms table, w1)"
    using f step by (simp add: init_node_inputs_def Let_def old_def)
  then have rest: "fold init_node_inputs xs (omap_put (nd_name d) ms table, w1) = (table', w')"
    using Cons.prems(1) by simp
  have n1: "names w1 = map nd_name ((pre @ [d]) @ xs)" "distinct (map nd_name ((pre @ [d]) @ xs))"
    using s Cons.prems(2,3) by simp_all
  have len1: "length (w_nodes w1) = length (w_nodes w)"
    using arg_cong [OF conjunct1 [OF conjunct2 [OF conjunct2 [OF s]]], of length] by (simp add: names_def)
  note IH = Cons.IH [OF rest n1]
  have far: "port_maps w1 ! i = port_maps w ! i" if "i \<noteq> ?p" for i using p that by simp
  have here: "port_maps w' ! ?p = put_all (zip (map PortName (nd_input_streams d))
      [?k..<?k + length (nd_input_streams d)]) (port_maps w ! ?p)"
    using IH p len by (simp add: port_maps_def)
  have later: "port_maps w' ! (?p + Suc i) = put_all (zip (map PortName (nd_input_streams (xs ! i)))
      (blocks (?k + length (nd_input_streams d)) (map nd_input_streams xs) ! i)) (port_maps w ! (?p + Suc i))"
    if "i < length xs" for i
    using IH that s far [of "?p + Suc i"] by simp
  have "port_maps w' ! (?p + i) = put_all (zip (map PortName (nd_input_streams ((d # xs) ! i)))
      (blocks ?k (map nd_input_streams (d # xs)) ! i)) (port_maps w ! (?p + i))" if "i < length (d # xs)" for i
    using that here later by (cases i) simp_all
  then show ?case using IH len1 far by simp
qed simp

text \<open>No other pass touches an input port.\<close>

lemma ports_outputs: "port_maps (init_node_outputs d r) = port_maps r"
proof -
  obtain ms r1 where step: "fold add_output (nd_output_streams d) ([], r) = (ms, r1)"
    by (cases "fold add_output (nd_output_streams d) ([], r)") auto
  have "port_maps r1 = port_maps r" using fold_add_output [OF step] by (simp add: port_maps_def)
  moreover have "port_maps (r1\<lparr>w_ohs := x\<rparr>) = port_maps r1" for x by (simp add: port_maps_def)
  ultimately show ?thesis using step by (simp add: init_node_outputs_def ports_upd_node split: option.splits)
qed

lemma ports_passes:
  "port_maps (wire_node_callbacks table d r) = port_maps r" "port_maps (init_node_handler table d r) = port_maps r"
  "port_maps (wire_node_mirrors by_stream d r) = port_maps r"
proof -
  have nodes: "w_nodes w' = w_nodes w \<Longrightarrow> port_maps w' = port_maps w" for w w' :: "('a, 'b, 'c) world_scheme"
    by (simp add: port_maps_def)
  have "port_maps (fold (wire_ism n) ms r) = port_maps r" for n ms
    by (intro ports_fold nodes) (simp add: wire_ism_def)
  then show "port_maps (wire_node_callbacks table d r) = port_maps r"
    by (simp add: wire_node_callbacks_def split: option.splits)
  show "port_maps (init_node_handler table d r) = port_maps r"
    by (auto simp: init_node_handler_def Let_def ports_upd_node port_maps_def split: option.splits prod.splits)
      (simp_all add: upd_node_def map_update_at)
  have "port_maps (fold (wire_mirror by_stream h) es r) = port_maps r" for h es
    using fold_wire_mirror [of by_stream h es r] by (intro nodes) simp
  then show "port_maps (wire_node_mirrors by_stream d r) = port_maps r"
    by (simp add: wire_node_mirrors_def split: option.splits)
qed

section \<open>Output ports\<close>

text \<open>A node without output streams gets no handler.\<close>

lemma init_outputs_none:
  assumes "names r = map nd_name (pre @ xs)" "distinct (map nd_name (pre @ xs))"
    and "i < length xs" "nd_output_streams (xs ! i) = []"
  shows "n_oh (w_nodes (fold init_node_outputs xs r) ! (length pre + i)) = n_oh (w_nodes r ! (length pre + i))"
  using assms
proof (induction xs arbitrary: pre r i)
  case (Cons d xs)
  let ?r = "init_node_outputs d r"
  have f: "FindNode (nd_name d) r = Some (length pre)"
    by (rule FindNode_at [of r pre d xs]) (use Cons.prems in simp_all)
  obtain ms r1 where step: "fold add_output (nd_output_streams d) ([], r) = (ms, r1)"
    by (cases "fold add_output (nd_output_streams d) ([], r)") auto
  note s = fold_add_output [OF step]
  have nm: "names ?r = names r"
    using s f step by (simp add: init_node_outputs_def names_def upd_node_def map_update_at)
  have far: "n_oh (w_nodes ?r ! j) = n_oh (w_nodes r ! j)" if "j \<noteq> length pre" for j
    using s f step that by (simp add: init_node_outputs_def upd_node_def)
  have n1: "names ?r = map nd_name ((pre @ [d]) @ xs)" "distinct (map nd_name ((pre @ [d]) @ xs))"
    using nm Cons.prems by simp_all
  show ?case
  proof (cases i)
    case 0
    then have "?r = r" using Cons.prems(4) by (simp add: init_node_outputs_def)
    then show ?thesis using fold_init_outputs [OF n1] 0 by simp
  next
    case (Suc j)
    then show ?thesis using Cons.IH [OF n1, of j] Cons.prems(3,4) far [of "length pre + i"] by simp
  qed
qed simp

lemma handlers_passes:
  "same_outputs w (wire_node_callbacks table d w)" "same_outputs w (init_node_handler table d w)"
proof -
  have "same_outputs w (fold (wire_ism n) ms w)" for n ms
    using fold_wire_ism [of n ms w] by (simp add: same_outputs_def)
  then show "same_outputs w (wire_node_callbacks table d w)"
    by (simp add: wire_node_callbacks_def split: option.splits)
  show "same_outputs w (init_node_handler table d w)"
    by (auto simp: init_node_handler_def Let_def same_outputs_def upd_node_def map_update_at
        split: option.splits prod.splits)
qed

text \<open>The passes \<open>wire_graph\<close> makes over the nodes keep what the earlier ones recorded.\<close>

lemma same_outputs_fold: "(\<And>x w. same_outputs w (f x w)) \<Longrightarrow> same_outputs w (fold f xs w)"
proof (induction xs arbitrary: w)
  case (Cons x xs)
  then show ?case using same_trans(1) [of w "f x w"] by simp
qed simp

lemma fold_graph_input_frame:
  "w_nodes (snd (fold add_graph_input gs (table, r))) = w_nodes r"
  "w_ohs (snd (fold add_graph_input gs (table, r))) = w_ohs r"
  by (induction gs arbitrary: table r) (simp_all add: add_graph_input_def Let_def)

lemma fold_mirrors_ohs: "w_ohs (fold (wire_node_mirrors table) ds w) = w_ohs w"
proof -
  have step: "w_ohs (wire_mirror table h e w) = w_ohs w" for h e and w :: "('a, 'b, 'c) world_scheme"
    by (simp add: wire_mirror_def split: prod.splits option.splits)
  have "w_ohs (fold (wire_mirror table h) es w) = w_ohs w" for h es and w :: "('a, 'b, 'c) world_scheme"
    by (induction es arbitrary: w) (simp_all add: step)
  then have "w_ohs (wire_node_mirrors table d w) = w_ohs w" for d and w :: "('a, 'b, 'c) world_scheme"
    by (simp add: wire_node_mirrors_def split: option.splits)
  then show ?thesis by (induction ds arbitrary: w) simp_all
qed

text \<open>The block of node \<open>i\<close> starts where the blocks before it end.\<close>

lemma blocks_nth:
  "i < length xss \<Longrightarrow>
   blocks k xss ! i = [k + length (concat (take i xss))..<k + length (concat (take i xss)) + length (xss ! i)]"
  by (induction xss arbitrary: k i) (auto simp: nth_Cons' take_Cons' add.assoc)

lemma blocks_start: "i < j \<Longrightarrow> j \<le> length xss \<Longrightarrow> length (concat (take i xss)) + length (xss ! i) \<le> length (concat (take j xss))"
proof -
  assume ij: "i < j" "j \<le> length xss"
  have "take j xss = take i xss @ xss ! i # drop (Suc i) (take j xss)"
    using ij id_take_nth_drop [of i "take j xss"] by (simp add: min_def)
  then have "concat (take j xss) = concat (take i xss) @ xss ! i @ concat (drop (Suc i) (take j xss))"
    by (metis concat.simps(2) concat_append)
  then show ?thesis by simp
qed

lemma blocks_disjoint:
  assumes "i < length xss" "i' < length xss" "m \<in> set (blocks k xss ! i)" "m \<in> set (blocks k xss ! i')"
  shows "i = i'"
proof (rule ccontr)
  assume "i \<noteq> i'"
  then consider "i < i'" | "i' < i" by linarith
  then show False
  proof cases
    case 1
    then show False using assms blocks_start [of i i' xss] by (simp add: blocks_nth)
  next
    case 2
    then show False using assms blocks_start [of i' i xss] by (simp add: blocks_nth)
  qed
qed

lemma wire_graph_ports:
  assumes nm: "names r = map nd_name (gc_nodes config)" "distinct (map nd_name (gc_nodes config))"
    and new: "nt_ims (w_net r) = []" "nt_oms (w_net r) = []" "rt_graph_inputs r = []"
    and bare: "\<forall>n\<in>set (w_nodes r). n_input_ports n = [] \<and> n_oh n = None"
    and r'_def: "r' = wire_graph clock config r"
  shows "i < length (gc_nodes config) \<Longrightarrow>
      n_input_ports (w_nodes r' ! i) = put_all (zip (map PortName (nd_input_streams (gc_nodes config ! i)))
        (blocks 0 (map nd_input_streams (gc_nodes config)) ! i)) []"
    "i < length (gc_nodes config) \<Longrightarrow> node_managers r' i = blocks 0 (map nd_output_streams (gc_nodes config)) ! i"
    "length (w_nodes r') = length (gc_nodes config)"
    "map osm_Name (nt_oms (w_net r')) = concat (map nd_output_streams (gc_nodes config)) @ gc_input_streams config"
proof -
  let ?nodes = "gc_nodes config" and ?gs = "gc_input_streams config"
  let ?r2 = "sc_SetProfiler (Some (pf_Initialize (gc_profiler_config config)
      (map n_name (w_nodes (sc_SetNodes [0..<length (w_nodes r)] r))) (pf_SetClock clock profiler_new)))
      (sc_SetNodes [0..<length (w_nodes r)] r)"
  obtain table r3 where r3: "fold init_node_inputs ?nodes ([], ?r2) = (table, r3)"
    by (cases "fold init_node_inputs ?nodes ([], ?r2)") auto
  define r5 where "r5 = sc_SetTotalGraphInputStreams (rt_num_open (fold count_graph_input ?gs r3)) (fold count_graph_input ?gs r3)"
  define r6 where "r6 = fold init_node_outputs ?nodes r5"
  define r8 where "r8 = fold (init_node_handler table) ?nodes (fold (wire_node_callbacks table) ?nodes r6)"
  have nm2: "names ?r2 = map nd_name ([] @ ?nodes)" "distinct (map nd_name ([] @ ?nodes))"
    and new2: "nt_ims (w_net ?r2) = []" "nt_oms (w_net ?r2) = []" "rt_graph_inputs ?r2 = []"
    using nm new by (simp_all add: names_def sc_SetProfiler_def sc_SetNodes_def)
  note p = node_passes [OF nm2(1) [unfolded append_Nil] nm(2) new2 r3 r5_def r8_def [unfolded r6_def]]
  obtain by_stream r9 where r9: "fold add_graph_input ?gs (fold (node_outputs r8) ?nodes [], r8) = (by_stream, r9)"
    by (cases "fold add_graph_input ?gs (fold (node_outputs r8) ?nodes [], r8)") auto
  have r': "r' = fold (wire_node_mirrors by_stream) ?nodes r9"
    using r3 r9 unfolding r'_def wire_graph_def Let_def by (simp add: r5_def r6_def r8_def split_beta)
  have f9: "w_nodes r9 = w_nodes r8" "w_ohs r9 = w_ohs r8"
    using fold_graph_input_frame [of ?gs "fold (node_outputs r8) ?nodes []" r8] r9 by simp_all
  have f': "w_nodes r' = w_nodes r8" "w_ohs r' = w_ohs r8"
    using wire_mirrors_frame [of by_stream ?nodes r9] fold_mirrors_ohs [of by_stream ?nodes r9] f9
    unfolding r' by simp_all
  have len: "length (w_nodes r) = length ?nodes"
    using arg_cong [OF nm(1), of length] by (simp add: names_def)
  show l': "length (w_nodes r') = length ?nodes"
    using arg_cong [OF p(1), of length] f' by (simp add: names_def)
  have r5: "w_nodes r5 = w_nodes r3" by (simp add: r5_def)
  have "port_maps r' = port_maps r5"
    unfolding r8_def r6_def using f'(1)
    by (simp add: port_maps_def [of r'] r8_def r6_def ports_fold ports_passes ports_outputs flip: port_maps_def)
  also have "\<dots> = port_maps r3" using r5 by (simp add: port_maps_def)
  finally have pr: "port_maps r' = port_maps r3" .
  show "n_input_ports (w_nodes r' ! i) = put_all (zip (map PortName (nd_input_streams (?nodes ! i)))
      (blocks 0 (map nd_input_streams ?nodes) ! i)) []" if i: "i < length ?nodes"
  proof -
    have "port_maps r3 ! i = put_all (zip (map PortName (nd_input_streams (?nodes ! i)))
        (blocks 0 (map nd_input_streams ?nodes) ! i)) (port_maps ?r2 ! i)"
      using fold_init_inputs_ports [OF r3 nm2] i new2 by simp
    moreover have "port_maps ?r2 ! i = []" using bare i len by (simp add: port_maps_def)
    moreover have "port_maps r' ! i = n_input_ports (w_nodes r' ! i)" using i l' by (simp add: port_maps_def)
    ultimately show ?thesis using pr by simp
  qed
  have s68: "same_outputs r6 r8"
    unfolding r8_def by (rule same_trans(1); rule same_outputs_fold; rule handlers_passes)
  show "node_managers r' i = blocks 0 (map nd_output_streams ?nodes) ! i" if i: "i < length ?nodes"
  proof (cases "nd_output_streams (?nodes ! i) = []")
    case True
    have nm5: "names r5 = map nd_name ([] @ ?nodes)"
      using fold_init_inputs [OF r3 nm2] nm2(1) by (simp add: r5_def names_def)
    have "n_oh (w_nodes r3 ! i) = n_oh (w_nodes ?r2 ! i)"
    proof -
      have "map n_oh (w_nodes r3) = map n_oh (w_nodes ?r2)"
        using fold_init_inputs [OF r3 nm2] by (simp add: same_outputs_def)
      then show ?thesis using i len by (metis length_map nth_map sched_setters(1,3))
    qed
    then have "n_oh (w_nodes r3 ! i) = None" using bare i len by simp
    then have "n_oh (w_nodes r6 ! i) = None"
      using init_outputs_none [OF nm5 nm2(2), of i] i True r5 by (simp add: r6_def)
    moreover have "n_oh (w_nodes r8 ! i) = n_oh (w_nodes r6 ! i)"
      using s68 i l' f'(1) unfolding same_outputs_def by (metis length_map nth_map)
    moreover have "blocks 0 (map nd_output_streams ?nodes) ! i = []"
      using blocks_nth [of i "map nd_output_streams ?nodes" 0] True i by simp
    ultimately show ?thesis by (simp add: node_managers_def f')
  next
    case False
    then show ?thesis using p(4) i unfolding outputs_at_def by (auto simp: node_managers_def f')
  qed
  have "map osm_rest (nt_oms (w_net r')) = map osm_rest (nt_oms (w_net r9))"
    using wire_mirrors_frame [of by_stream ?nodes r9] unfolding r' by simp
  then have "map (os_name \<circ> fst) (map osm_rest (nt_oms (w_net r'))) = map (os_name \<circ> fst) (map osm_rest (nt_oms (w_net r9)))"
    by simp
  then have "map osm_Name (nt_oms (w_net r')) = map osm_Name (nt_oms (w_net r9))"
    by (simp add: comp_def osm_rest_def osm_Name_def [abs_def])
  then show "map osm_Name (nt_oms (w_net r')) = concat (map nd_output_streams ?nodes) @ ?gs"
    using producers_table(2) [OF p(1) nm(2) p(4) p(6) r9] by (simp add: comp_def osm_Name_def osm_new_def)
qed

text \<open>The nodes the builder makes have neither input ports nor an output handler.\<close>

lemma create_nodes_ports:
  "create_nodes reg addr ds w = Inr w' \<Longrightarrow> \<forall>n\<in>set (w_nodes w). n_input_ports n = [] \<Longrightarrow>
   \<forall>n\<in>set (w_nodes w'). n_input_ports n = []"
proof (induction ds arbitrary: w)
  case (Cons d ds)
  from Cons.prems(1) obtain n where n: "rg_CreateByName (nd_type d) (nd_name d) (nd_options d)
      (addr (length (w_nodes w))) reg = Some n"
    and rest: "create_nodes reg addr ds (w\<lparr>w_nodes := w_nodes w @
      [n\<lparr>n_executor_name := nd_executor d, n_source_layer := nd_source_layer d\<rparr>]\<rparr>) = Inr w'"
    by (auto split: option.splits)
  show ?case
    by (rule Cons.IH [OF rest]) (use Cons.prems(2) rg_CreateByName_Some [OF n] in auto)
qed simp

lemma Build_ports:
  assumes "GraphBuilder_Build reg addr hw u config = Inr r"
  shows "\<forall>n\<in>set (w_nodes r). n_input_ports n = []"
proof -
  obtain w where w: "create_nodes reg addr (gc_nodes config) w = Inr r" "w_nodes w = []"
    using assms
    by (auto simp: GraphBuilder_Build_def Let_def sc_SetDefaultExecutor_def upd_queue_def
        GraphRuntime_new_def Scheduler_new_def world.defs split: if_splits)
  show ?thesis by (rule create_nodes_ports [OF w(1)]) (simp add: w(2))
qed

lemma Initialize_ports:
  assumes "Initialize reg addr hw clock config options
      (GraphRuntime_new u :: ('v, 'u) runtime) = (st, r)" "st_ok st"
  shows "length (w_nodes r) = length (gc_nodes config)"
    "map osm_Name (nt_oms (w_net r)) = concat (map nd_output_streams (gc_nodes config)) @ gc_input_streams config"
    "rt_graph_inputs r = put_all (zip (gc_input_streams config)
       [length (concat (map nd_output_streams (gc_nodes config)))..<length (edge_sources config)]) []"
    "i < length (gc_nodes config) \<Longrightarrow>
     n_input_ports (w_nodes r ! i) = put_all (zip (map PortName (nd_input_streams (gc_nodes config ! i)))
       (blocks 0 (map nd_input_streams (gc_nodes config)) ! i)) []"
    "i < length (gc_nodes config) \<Longrightarrow>
     node_managers r i = blocks 0 (map nd_output_streams (gc_nodes config)) ! i"
proof -
  obtain b :: "('v, 'u) runtime" where b: "GraphBuilder_Build reg addr hw u (Options_Apply options config) = Inr b"
    using assms by (auto simp: Initialize_def Let_def dest: Build_error split: sum.splits)
  let ?n = "GraphRuntime_new u :: ('v, 'u) runtime"
  define r0 where "r0 = world.extend
      ((world.truncate b)\<lparr>w_net := w_net ?n, w_ohs := w_ohs ?n, w_log := w_log ?n\<rparr>)
      (runtime.fields config True (rt_graph_input_set ?n) (rt_num_open ?n) (rt_full ?n)
         (rt_closed_streams ?n) (rt_graph_inputs ?n) (rt_output_cbs ?n) (rt_side_packets ?n)
         (rt_side_cbs ?n) (rt_profiler_override ?n))"
  have r: "r = wire_graph clock config r0"
    using assms b by (simp add: Initialize_def Let_def r0_def GraphRuntime_new_def world.defs
        Scheduler_new_def)
  have names: "names r0 = map nd_name (gc_nodes config)" "distinct (map nd_name (gc_nodes config))"
    using Build_names [OF b] by (simp_all add: r0_def names_def world.defs)
  have new: "nt_ims (w_net r0) = []" "nt_oms (w_net r0) = []" "rt_graph_inputs r0 = []"
    by (simp_all add: r0_def world.defs runtime.defs GraphRuntime_new_def Scheduler_new_def)
  have bare: "\<forall>n\<in>set (w_nodes r0). n_input_ports n = [] \<and> n_oh n = None"
    using Build_ports [OF b] Build_no_output [OF b] by (simp add: r0_def world.defs)
  note p = wire_graph_ports [OF names new bare r]
  show "rt_graph_inputs r = put_all (zip (gc_input_streams config)
       [length (concat (map nd_output_streams (gc_nodes config)))..<length (edge_sources config)]) []"
    using wire_graph_net [OF names new r] by blast
  show "n_input_ports (w_nodes r ! i) = put_all (zip (map PortName (nd_input_streams (gc_nodes config ! i)))
       (blocks 0 (map nd_input_streams (gc_nodes config)) ! i)) []"
    "node_managers r i = blocks 0 (map nd_output_streams (gc_nodes config)) ! i" if "i < length (gc_nodes config)"
    using p that by blast+
  show "length (w_nodes r) = length (gc_nodes config)"
    "map osm_Name (nt_oms (w_net r)) = concat (map nd_output_streams (gc_nodes config)) @ gc_input_streams config"
    using p(3,4) .
qed

end
