(* ===== verification/Pipelines.thy ===== *)
theory Pipelines
  imports Node_Ports "HOL-Library.Sublist"
begin

text \<open>
  What a pipeline computes. When a node turns what it reads from one port into what it writes to
  another, the stream it writes is that function of the stream it has read, packet by packet; and
  a chain of such nodes computes the composition, in every execution of the graph.
\<close>

section \<open>Contents of packets and shards\<close>

text \<open>The typed values packets hold; an empty packet holds none.\<close>

definition contents :: "'v packet list \<Rightarrow> (string \<times> 'v) list" where
  "contents ps =
     concat (map (\<lambda>p. case p_holder p of None \<Rightarrow> [] | Some h \<Rightarrow> [(h_type h, h_value h)]) ps)"

lemma contents_simps [simp]:
  "contents [] = []" "contents (ps @ qs) = contents ps @ contents qs"
  "contents (p # ps) = (case p_holder p of None \<Rightarrow> [] | Some h \<Rightarrow> [(h_type h, h_value h)]) @ contents ps"
  by (simp_all add: contents_def)

lemma contents_filled [simp]: "contents (filter (\<lambda>p. \<not> p_IsEmpty p) ps) = contents ps"
  by (induction ps) (auto simp: p_IsEmpty_def)

definition ishard_at :: "'v ishards \<Rightarrow> string \<Rightarrow> 'v ishard" where
  "ishard_at ss port = (case omap_get ss port of Some s \<Rightarrow> s | None \<Rightarrow> ishard0)"

lemma iss_update_at:
  "omap_wf ss \<Longrightarrow> ishard_at (iss_update port f ss) q = (if q = port then f (ishard_at ss port) else ishard_at ss q)"
  "omap_wf ss \<Longrightarrow> omap_wf (iss_update port f ss)"
  by (auto simp: iss_update_def iss_Get_def ishard_at_def omap_get_put omap_wf_put Let_def split: option.splits)

lemma fst_iss_Get: "fst (iss_Get port ss) = ishard_at ss port"
  by (simp add: iss_Get_def ishard_at_def split: option.splits)

text \<open>What a run of a node finds in its input shards: the head of each queue it reads.\<close>

lemma map_of_port: "port \<noteq> k \<Longrightarrow> map_of ((k, v) # ports) port = map_of ports port" by simp

lemma populate_shards:
  "populate_inputs c ports (inputs, ims, ws) = (inputs', ims', ws') \<Longrightarrow> omap_wf inputs \<Longrightarrow>
   distinct (map fst ports) \<Longrightarrow> distinct (map snd ports) \<Longrightarrow> \<forall>m\<in>snd ` set ports. m < length ims \<Longrightarrow>
   omap_wf inputs' \<and>
   is_queue (ishard_at inputs' port) = is_queue (ishard_at inputs port) @
     (case map_of ports port of None \<Rightarrow> [] | Some m \<Rightarrow> filter (\<lambda>p. \<not> p_IsEmpty p) (take 1 (ism_queue (ims ! m))))"
proof (induction ports arbitrary: inputs ims ws)
  case (Cons kv ports)
  obtain k m where kv: "kv = (k, m)" by (cases kv)
  obtain s pkt d where pop: "ism_PopQueueHead (ims ! m) = (s, pkt, d)"
    by (cases "ism_PopQueueHead (ims ! m)") auto
  define i1 where "i1 = (if \<not> p_IsEmpty pkt then iss_update k (ishard_PushPacket pkt) inputs else inputs)"
  define i2 where "i2 = (if d then iss_update k (ishard_SetDone True) i1 else i1)"
  have rest: "populate_inputs c ports (i2, ims[m := s],
      if \<not> p_IsEmpty pkt then ws @ type_warning c k pkt else ws) = (inputs', ims', ws')"
    using Cons.prems(1) pop unfolding kv i2_def i1_def by (simp add: Let_def split del: if_split)
  have wf: "omap_wf i1" "omap_wf i2" using Cons.prems(2) by (simp_all add: i1_def i2_def iss_update_at)
  have head: "filter (\<lambda>p. \<not> p_IsEmpty p) (take 1 (ism_queue (ims ! m))) = (if p_IsEmpty pkt then [] else [pkt])"
    using pop by (auto simp: PopQueueHead_cases split: list.splits)
  have q2: "is_queue (ishard_at i2 port) = is_queue (ishard_at inputs port) @
      (if port = k then filter (\<lambda>p. \<not> p_IsEmpty p) (take 1 (ism_queue (ims ! m))) else [])"
    using wf(1) Cons.prems(2) head by (simp add: i2_def i1_def iss_update_at ishard_SetDone_def ishard_PushPacket_def)
  have far: "ims[m := s] ! m' = ims ! m'" if "map_of ports port = Some m'" for m'
  proof -
    have "m' \<noteq> m" using that Cons.prems(4) kv by (force dest: map_of_SomeD)
    then show ?thesis by simp
  qed
  have "map_of ports k = None" using Cons.prems(3) kv by (simp add: map_of_eq_None_iff)
  moreover have "omap_wf inputs' \<and> is_queue (ishard_at inputs' port) = is_queue (ishard_at i2 port) @
     (case map_of ports port of None \<Rightarrow> [] | Some m' \<Rightarrow>
        filter (\<lambda>p. \<not> p_IsEmpty p) (take 1 (ism_queue (ims[m := s] ! m'))))"
    by (rule Cons.IH [OF rest wf(2)]) (use Cons.prems(3-5) kv in auto)
  ultimately show ?case using q2 far kv by (auto split: option.splits)
qed simp

lemma taken_head:
  fixes ims :: "'v ism list"
  shows "distinct (map snd ports) \<Longrightarrow> \<forall>m\<in>snd ` set ports. m < length ims \<Longrightarrow>
   taken_from j (taken_by ports ims) = (if j \<in> snd ` set ports then take 1 (ism_queue (ims ! j)) else [])"
proof (induction ports arbitrary: ims)
  case (Cons kv ports)
  obtain k m where kv: "kv = (k, m)" by (cases kv)
  have IH: "taken_from j (taken_by ports ims') =
      (if j \<in> snd ` set ports then take 1 (ism_queue (ims' ! j)) else [])"
    if "length ims' = length ims" for ims' :: "'v ism list"
    by (rule Cons.IH) (use Cons.prems that in auto)
  have "m \<notin> snd ` set ports" using Cons.prems(1) kv by simp
  then show ?case
    by (cases "ism_queue (ims ! m)"; cases "m = j") (auto simp: kv IH nth_list_update)
qed simp

lemma sent_on_simps [simp]:
  "sent_on m [] = []" "sent_on m (xs @ ys) = sent_on m xs @ sent_on m ys"
  "sent_on m (map (Pair k) ps) = (if Some k = m then ps else [])"
  by (simp_all add: sent_on_def comp_def)

lemma sent_on_by:
  "distinct ms \<Longrightarrow>
   sent_on (Some m) (sent_by ms net ss) = (if m \<in> set ms then sh_queue (shard_at ss (port_of net m)) else [])"
  by (induction ms) auto

section \<open>What one run of a node computes\<close>

text \<open>
  What is assumed of the code of a node: what it writes to one port is a function of the packet it
  reads from another, whatever else it is given and whatever the user state.
\<close>

definition transforms ::
  "('v, 'u) user_code \<Rightarrow> nat \<Rightarrow> string \<Rightarrow> string \<Rightarrow> (string \<times> 'v \<Rightarrow> (string \<times> 'v) list) \<Rightarrow> bool" where
  "transforms uc n inp outp g \<longleftrightarrow>
     (\<forall>ctx u. omap_wf (cx_inputs ctx) \<longrightarrow> omap_wf (cx_outputs ctx) \<longrightarrow>
        length (is_queue (ishard_at (cx_inputs ctx) inp)) \<le> 1 \<longrightarrow>
        sh_queue (shard_at (cx_outputs ctx) outp) = [] \<longrightarrow>
        \<not> sh_closed (shard_at (cx_outputs ctx) outp) \<longrightarrow>
        contents (sh_queue (shard_at (cx_outputs (fst (snd (uc_process uc n ctx u)))) outp)) =
          concat (map g (contents (is_queue (ishard_at (cx_inputs ctx) inp)))))"

text \<open>
  Node \<open>n\<close> reads queue \<open>j\<close> from its port \<open>inp\<close> and writes manager \<open>m\<close> by its port \<open>outp\<close>, and nobody
  else reads the one or writes the other.
\<close>

definition reads_apart :: "('v, 'u, 'z) runtime_scheme \<Rightarrow> nat \<Rightarrow> bool" where
  "reads_apart r n \<longleftrightarrow>
     (let ports = n_input_ports (w_nodes r ! n)
      in omap_wf ports \<and> distinct (map snd ports) \<and> (\<forall>m\<in>snd ` set ports. m < length (nt_ims (w_net r))))"

definition plugged :: "('v, 'u, 'z) runtime_scheme \<Rightarrow> nat \<Rightarrow> string \<Rightarrow> nat \<Rightarrow> string \<Rightarrow> nat \<Rightarrow> bool" where
  "plugged r n inp j outp m \<longleftrightarrow>
     n < length (w_nodes r) \<and> omap_get (n_input_ports (w_nodes r ! n)) inp = Some j \<and>
     m \<in> set (node_managers r n) \<and> port_of (w_net r) m = outp \<and>
     (\<forall>i < length (w_nodes r). reads_apart r i \<and>
        (i \<noteq> n \<longrightarrow> j \<notin> snd ` set (n_input_ports (w_nodes r ! i)) \<and> m \<notin> set (node_managers r i))) \<and>
     (\<forall>s. omap_get (rt_graph_inputs r) s \<noteq> Some m)"

text \<open>The shard of one output stream, as the node is given it and as the node returns it.\<close>

lemma run_shards:
  fixes r :: "('v, 'u, 'z) runtime_scheme" and q :: nat
  assumes ok: "graph_ok r" "n < length (w_nodes r)" "m \<in> set (node_managers r n)"
    and pop: "populate_inputs (n_contract (w_nodes r ! n)) (n_input_ports (w_nodes r ! n))
      ([], nt_ims (w_net r), []) = (inputs, ims, ws)"
  shows "\<exists>ctx. cx_inputs ctx = inputs \<and> omap_wf (cx_outputs ctx) \<and>
    sh_queue (shard_at (cx_outputs ctx) (port_of (w_net r) m)) = [] \<and>
    sh_closed (shard_at (cx_outputs ctx) (port_of (w_net r) m)) = om_closed (nt_oms (w_net r) ! m) \<and>
    sent_on (Some m) (run_sent uc q n r) = sh_queue (shard_at
      (cx_outputs (fst (snd (uc_process uc n ctx (w_user r))))) (port_of (w_net r) m))"
proof -
  let ?node = "w_nodes r ! n" and ?ms = "node_managers r n" and ?net = "(w_net r)\<lparr>nt_ims := ims\<rparr>"
  obtain h where h: "n_oh ?node = Some h" "oh_managers (w_ohs r ! h) = ?ms"
    using ok(3) by (cases "n_oh ?node") (simp_all add: node_managers_def)
  define prepared where "prepared = oh_PrepareOutputs (w_ohs r ! h) ?net []"
  define ctx where "ctx = context_new (n_name ?node) (n_addr ?node) ''node''
      (ts_of (sq_timestamp_counter (w_queues r ! q))) inputs prepared"
  have cx: "cx_inputs ctx = inputs" "cx_outputs ctx = prepared" by (simp_all add: ctx_def context_new_def)
  have run: "run_outputs uc q n r = cx_outputs (fst (snd (uc_process uc n ctx (w_user r))))"
    using pop h(1) by (simp add: run_outputs_def Let_def ctx_def prepared_def)
  have ms: "managers_ok (w_net r) ?ms" using ok(1,2) by (simp add: graph_ok_def)
  then have sent: "sent_on (Some m) (run_sent uc q n r) =
      sh_queue (shard_at (run_outputs uc q n r) (port_of (w_net r) m))"
    using ok(3) by (simp add: run_sent_def sent_on_by managers_ok_def)
  have net: "port_of ?net = port_of (w_net r)" by (simp add: port_of_def fun_eq_iff)
  have "managers_ok ?net (oh_managers (w_ohs r ! h))" using ms h(2) by (simp add: managers_ok_def net)
  note prep = PrepareOutputs_shards [OF this]
  have "omap_wf prepared \<and> sh_queue (shard_at prepared (port_of (w_net r) m)) = [] \<and>
      sh_closed (shard_at prepared (port_of (w_net r) m)) = om_closed (nt_oms (w_net r) ! m)"
    using prep(1) prep(2) [of m] h(2) ok(3) by (simp add: prepared_def net)
  then show ?thesis using cx run sent by (intro exI [of _ ctx]) simp
qed

lemma run_silent:
  fixes r :: "('v, 'u, 'z) runtime_scheme" and q :: nat
  assumes ok: "graph_ok r" "n < length (w_nodes r)" "om_closed (nt_oms (w_net r) ! m)" and uc: "respects_shards uc"
  shows "sent_on (Some m) (run_sent uc q n r) = []"
proof (cases "m \<in> set (node_managers r n)")
  case True
  obtain inputs ims ws where pop: "populate_inputs (n_contract (w_nodes r ! n)) (n_input_ports (w_nodes r ! n))
      ([], nt_ims (w_net r), []) = (inputs, ims, ws)" by (meson prod_cases3)
  obtain ctx where ctx: "omap_wf (cx_outputs ctx)" "sh_queue (shard_at (cx_outputs ctx) (port_of (w_net r) m)) = []"
    "sh_closed (shard_at (cx_outputs ctx) (port_of (w_net r) m)) = om_closed (nt_oms (w_net r) ! m)"
    "sent_on (Some m) (run_sent uc q n r) = sh_queue (shard_at
       (cx_outputs (fst (snd (uc_process uc n ctx (w_user r))))) (port_of (w_net r) m))"
    using run_shards [OF ok(1,2) True pop] by blast
  then show ?thesis
    using closed_shard [of "shard_at (cx_outputs ctx) (port_of (w_net r) m)"] uc ok(3)
    unfolding respects_shards_def by metis
next
  case False
  have "distinct (node_managers r n)" using ok(1,2) by (simp add: graph_ok_def managers_ok_def)
  then show ?thesis using False by (simp add: run_sent_def sent_on_by)
qed

lemma run_computes:
  fixes r :: "('v, 'u, 'z) runtime_scheme" and q :: nat
  assumes ok: "graph_ok r" "plugged r n inp j outp m" and uc: "transforms uc n inp outp g"
    and "open": "\<not> om_closed (nt_oms (w_net r) ! m)"
  shows "contents (sent_on (Some m) (run_sent uc q n r)) = concat (map g (contents (taken_from j (run_taken n r))))"
proof -
  let ?node = "w_nodes r ! n"
  have n: "n < length (w_nodes r)" "omap_get (n_input_ports ?node) inp = Some j" "m \<in> set (node_managers r n)"
      "port_of (w_net r) m = outp" "omap_wf (n_input_ports ?node)" "distinct (map snd (n_input_ports ?node))"
      "\<forall>k\<in>snd ` set (n_input_ports ?node). k < length (nt_ims (w_net r))"
    using ok(2) by (auto simp: plugged_def reads_apart_def Let_def)
  obtain inputs ims ws where pop: "populate_inputs (n_contract ?node) (n_input_ports ?node)
      ([], nt_ims (w_net r), []) = (inputs, ims, ws)" by (meson prod_cases3)
  obtain ctx where ctx: "cx_inputs ctx = inputs" "omap_wf (cx_outputs ctx)" "sh_queue (shard_at (cx_outputs ctx) outp) = []"
    "sh_closed (shard_at (cx_outputs ctx) outp) = om_closed (nt_oms (w_net r) ! m)"
    "sent_on (Some m) (run_sent uc q n r) =
       sh_queue (shard_at (cx_outputs (fst (snd (uc_process uc n ctx (w_user r))))) outp)"
    using run_shards [OF ok(1) n(1,3) pop] unfolding n(4) by blast
  have fst: "distinct (map fst (n_input_ports ?node))" using n(5) by (simp add: omap_wf_def strict_sorted_iff)
  have "map_of (n_input_ports ?node) inp = Some j" using n(2) by (simp add: omap_get_def)
  then have ins: "omap_wf inputs \<and> is_queue (ishard_at inputs inp) =
      filter (\<lambda>p. \<not> p_IsEmpty p) (take 1 (ism_queue (nt_ims (w_net r) ! j)))"
    and j: "j \<in> snd ` set (n_input_ports ?node)"
    using populate_shards [OF pop _ fst n(6,7), of inp]
    by (auto simp: ishard_at_def ishard0_def dest!: map_of_SomeD intro: rev_image_eqI)
  have "taken_from j (run_taken n r) = take 1 (ism_queue (nt_ims (w_net r) ! j))"
    using taken_head [OF n(6,7), of j] j by (simp add: run_taken_def)
  then have "contents (is_queue (ishard_at inputs inp)) = contents (taken_from j (run_taken n r))"
    using ins by simp
  moreover have "length (is_queue (ishard_at inputs inp)) \<le> 1"
    using ins length_filter_le [of "\<lambda>p. \<not> p_IsEmpty p" "take 1 (ism_queue (nt_ims (w_net r) ! j))"] by simp
  ultimately show ?thesis
    using uc ins ctx "open" unfolding transforms_def by metis
qed

section \<open>Closed streams stay closed\<close>

text \<open>
  What an operation needs to know of node \<open>n\<close> to reach its streams, and that it keeps this and
  every closed stream closed.
\<close>

definition fit :: "('v, 'u, 'z) runtime_scheme \<Rightarrow> nat \<Rightarrow> bool" where
  "fit r n \<longleftrightarrow> links_ok (w_net r) \<and> n < length (w_nodes r) \<and>
     (\<forall>m\<in>set (node_managers r n). m < length (nt_oms (w_net r)))"

definition kept :: "nat \<Rightarrow> ('v, 'u, 'z) runtime_scheme \<Rightarrow> ('v, 'u, 'z) runtime_scheme \<Rightarrow> bool" where
  "kept n r r' \<longleftrightarrow> (fit r n \<longrightarrow> fit r' n \<and> keeps_closed (w_net r) (w_net r') \<and>
     length (nt_oms (w_net r')) = length (nt_oms (w_net r)))"

lemma kept_trans [trans]: "kept n a b \<Longrightarrow> kept n b c \<Longrightarrow> kept n a c"
  unfolding kept_def using keeps_closed_trans by metis

lemma fit_flow:
  assumes "flow_part r = flow_part r'"
  shows "fit r n = fit r' n"
proof -
  note f = flow_partD [OF assms]
  have len: "length (w_nodes r) = length (w_nodes r')"
    using assms map_eq_imp_length_eq unfolding flow_part_def by blast
  have nodes: "map (\<lambda>n. (n_oh n, n_input_ports n)) (w_nodes r) = map (\<lambda>n. (n_oh n, n_input_ports n)) (w_nodes r')"
    and ohs: "w_ohs r = w_ohs r'"
    using assms by (simp_all add: flow_part_def)
  have "node_managers r n = node_managers r' n" if "n < length (w_nodes r)"
    using arg_cong [OF nodes, of "\<lambda>xs. fst (xs ! n)"] len that ohs
    by (simp add: node_managers_def split: option.split)
  then show ?thesis using f(1) len by (auto simp: fit_def)
qed

lemma kept_flow: "flow_part r' = flow_part r \<Longrightarrow> kept n r r'"
  using fit_flow [of r' r n] flow_partD(1) [of r' r] by (simp add: kept_def)

lemma kept_net:
  assumes "same_links (w_net r) net" "keeps_closed (w_net r) net"
  shows "kept n r (r\<lparr>w_net := net\<rparr>)"
  using same_linksD [OF assms(1)] assms(2) by (simp add: kept_def fit_def node_managers_def)

lemma kept_post_process:
  assumes "post_process (runtime_env uc) n ts outs r = (outs', r')"
  shows "kept n r r'"
proof (cases "fit r n \<and> n_oh (w_nodes r ! n) \<noteq> None")
  case True
  then obtain h where h: "n_oh (w_nodes r ! n) = Some h" by blast
  obtain net evs where run: "oh_PostProcess (w_ohs r ! h) ts outs (w_net r) = (outs', net, evs)"
    and r': "r' = run_events (runtime_env uc) evs (r\<lparr>w_net := net\<rparr>)"
    using assms h by (auto simp: post_process_def split: prod.splits)
  have "same_links (w_net r) net \<and> out_nodes evs \<subseteq> out_nodes ([] :: 'a out_event list) \<union> named_by (nt_ims (w_net r)) \<and>
      keeps_closed (w_net r) net"
    using run True h unfolding oh_PostProcess_def oh_PropagateOutputPackets_def
    by (intro propagate_all_links) (auto simp: fit_def node_managers_def)
  then have "kept n r (r\<lparr>w_net := net\<rparr>)" by (intro kept_net) simp_all
  also have "kept n (r\<lparr>w_net := net\<rparr>) r'" unfolding r' by (rule kept_flow) simp
  finally show ?thesis .
qed (use assms in \<open>auto simp: post_process_def kept_def\<close>)

lemma kept_close_outputs: "kept n r (close_outputs (runtime_env uc) n outs r)"
proof (cases "fit r n \<and> n_oh (w_nodes r ! n) \<noteq> None")
  case True
  then obtain h where h: "n_oh (w_nodes r ! n) = Some h" by blast
  obtain shs net evs where cl: "oh_Close (w_ohs r ! h) (Some outs) (w_net r) = (shs, net, evs)"
    by (meson prod_cases3)
  have "same_links (w_net r) net \<and> out_nodes evs \<subseteq> out_nodes ([] :: 'a out_event list) \<union> named_by (nt_ims (w_net r)) \<and>
      keeps_closed (w_net r) net"
    using cl True h unfolding oh_Close_def by (intro close_all_links) (auto simp: fit_def node_managers_def)
  then have "kept n r (r\<lparr>w_net := net\<rparr>)" by (intro kept_net) simp_all
  also have "kept n (r\<lparr>w_net := net\<rparr>) (close_outputs (runtime_env uc) n outs r)"
    using h cl by (intro kept_flow) (simp add: close_outputs_def)
  finally show ?thesis .
qed (auto simp: close_outputs_def kept_def)

lemma kept_ends:
  fixes r :: "('v, 'u, 'z) runtime_scheme"
  shows "kept n r (run_stopped (runtime_env uc) q n ts outs r)"
    "kept n r (run_failed (runtime_env uc) q n ts st outs r)"
    "kept n r (run_completed (runtime_env uc) q n ts outs r)"
proof -
  obtain outs1 r1 where pp: "post_process (runtime_env uc) n ts outs r = (outs1, r1)"
    by (cases "post_process (runtime_env uc) n ts outs r")
  note p = kept_post_process [OF pp]
  show "kept n r (run_failed (runtime_env uc) q n ts st outs r)"
    by (rule kept_trans [OF p], rule kept_flow) (simp add: run_failed_def Let_def pp)
  have "kept n r1 (run_stopped (runtime_env uc) q n ts outs r)"
    by (rule kept_trans [OF kept_close_outputs [of n r1 uc outs1]], rule kept_flow)
      (simp add: run_stopped_def Let_def pp)
  with p show "kept n r (run_stopped (runtime_env uc) q n ts outs r)" by (rule kept_trans)
  obtain act s where dec: "decide_finalize n (input_port_count (w_nodes r1 ! n) > 0)
      (input_port_count (w_nodes r1 ! n) > 0 \<and> AllInputsDone n r1) (w_queues r1 ! q) = (act, s)"
    by (meson surj_pair)
  let ?r4 = "perf_add (\<lambda>c. c\<lparr>pk_tasks_completed := pk_tasks_completed c + 1,
      pk_packets_processed := pk_packets_processed c + 1\<rparr>) q
      (upd_node n node_DecrementPending (upd_queue q (\<lambda>_. s) r1))"
  let ?r5 = "case act of kClose \<Rightarrow> close_outputs (runtime_env uc) n outs1 ?r4
      | kSchedule \<Rightarrow> reschedule n ?r4 | kNone \<Rightarrow> ?r4"
  have "kept n r1 ?r4" by (rule kept_flow) simp
  also have "kept n ?r4 ?r5"
    by (cases act) (auto intro: kept_close_outputs kept_flow)
  also have "kept n ?r5 (run_completed (runtime_env uc) q n ts outs r)"
    by (rule kept_flow) (simp add: run_completed_def Let_def pp dec)
  finally have "kept n r1 (run_completed (runtime_env uc) q n ts outs r)" .
  with p show "kept n r (run_completed (runtime_env uc) q n ts outs r)" by (rule kept_trans)
qed

lemma kept_RunNode:
  fixes r :: "('v, 'u, 'z) runtime_scheme"
  shows "kept n r (RunNode (runtime_env uc) q (Some n) False r)"
proof -
  let ?node = "w_nodes r ! n" and ?c = "sq_timestamp_counter (w_queues r ! q)"
  obtain inputs ims ws where pop: "populate_inputs (n_contract ?node) (n_input_ports ?node)
      ([], nt_ims (w_net r), []) = (inputs, ims, ws)" by (meson prod_cases3)
  let ?r1 = "r\<lparr>w_net := (w_net r)\<lparr>nt_ims := ims\<rparr>\<rparr>"
  let ?r2 = "upd_queue q (\<lambda>s. s\<lparr>sq_timestamp_counter := to_i64 (?c + 1)\<rparr>) (?r1\<lparr>w_log := w_log r @ ws\<rparr>)"
  have "kept n r ?r1" using populate_links [OF pop] by (intro kept_net) (simp_all add: same_links_def)
  also have "kept n ?r1 ?r2" by (rule kept_flow) simp
  also have "kept n ?r2 (run_process (runtime_env uc) q n (ts_of ?c) inputs ?r2)" (is "kept n ?v (?run ?v)")
  proof -
    obtain start r1 where sc: "queue_scope_begin q ?v = (start, r1)" by (cases "queue_scope_begin q ?v")
    obtain st ctx' u where pr: "uc_process uc n (context_new (n_name (w_nodes ?v ! n)) (n_addr (w_nodes ?v ! n)) ''node''
        (ts_of ?c) inputs (case n_oh (w_nodes ?v ! n) of None \<Rightarrow> []
           | Some h \<Rightarrow> oh_PrepareOutputs (w_ohs ?v ! h) (w_net ?v) [])) (w_user r1) = (st, ctx', u)"
      by (meson prod_cases3)
    let ?o = "cx_outputs ctx'" and ?w = "r1\<lparr>w_user := u\<rparr>"
    let ?e = "if IsStopStatus st then run_stopped (runtime_env uc) q n (ts_of ?c) ?o ?w
      else if \<not> st_ok st then run_failed (runtime_env uc) q n (ts_of ?c) st ?o ?w
      else run_completed (runtime_env uc) q n (ts_of ?c) ?o ?w"
    have run: "?run ?v = queue_scope_end q ProcessEvent (n_name (w_nodes ?v ! n)) start ?e"
      using sc pr by (simp add: run_process_def Let_def)
    have "flow_part r1 = flow_part ?v" using sc flow_part_queue_locks(7) [of q ?v] by simp
    then have "kept n ?v ?w" by (intro kept_flow) simp
    also have "kept n ?w ?e" by (simp add: kept_ends)
    also have "kept n ?e (?run ?v)" unfolding run by (rule kept_flow) simp
    finally show ?thesis .
  qed
  finally show ?thesis using pop by (simp add: RunNode_def Let_def)
qed

text \<open>The calls of the public class close no stream but the graph input \<open>CloseInputStream\<close> names.\<close>

lemma call_net: "w_net (api_call uc c r) = w_net r"
  by (cases c)
    (simp_all add: calls_keep_flow [THEN flow_partD(1)] rt_SetOutputStreamCallback_def
      rt_ClearOutputStreamCallback_def on_handlers_def SetInputSidePacket_def
      SetOutputSidePacketCallback_def SetProfilerConfig_def)

lemma net_of_flow: "flow_part r' = flow_part (r\<lparr>w_net := net\<rparr>) \<Longrightarrow> w_net r' = net"
  by (drule flow_partD(1)) simp

lemma AddPacket_net:
  assumes "w_net (snd (AddPacketToInputStream uc s p r)) \<noteq> w_net r"
  obtains m o1 sh1 ims1 evs where "omap_get (rt_graph_inputs r) s = Some m" "\<not> om_closed (nt_oms (w_net r) ! m)"
    "osm_PropagateUpdatesToMirrors (nt_ihs (w_net r))
      (osm_ComputeOutputTimestampBound (shard_AddPacket p (oshard_new (Some m))) ts_Min (nt_oms (w_net r) ! m))
      (shard_AddPacket p (oshard_new (Some m))) (nt_oms (w_net r) ! m) (nt_ims (w_net r)) = (o1, sh1, ims1, evs)"
    "w_net (snd (AddPacketToInputStream uc s p r)) =
       (w_net r)\<lparr>nt_ims := ims1, nt_oms := (nt_oms (w_net r))[m := o1]\<rparr>"
proof -
  let ?net = "w_net r"
  obtain m where m: "omap_get (rt_graph_inputs r) s = Some m" "\<not> om_closed (nt_oms ?net ! m)"
    using assms by (auto simp: AddPacketToInputStream_def Let_def split: option.splits if_splits)
  let ?sh = "shard_AddPacket p (oshard_new (Some m))"
  obtain o1 sh1 ims1 evs where run: "osm_PropagateUpdatesToMirrors (nt_ihs ?net)
      (osm_ComputeOutputTimestampBound ?sh ts_Min (nt_oms ?net ! m)) ?sh
      (nt_oms ?net ! m) (nt_ims ?net) = (o1, sh1, ims1, evs)"
    by (meson prod_cases4)
  have "w_net (snd (AddPacketToInputStream uc s p r)) = ?net\<lparr>nt_ims := ims1, nt_oms := (nt_oms ?net)[m := o1]\<rparr>"
    using m run by (auto simp: AddPacketToInputStream_def Let_def sc_AddedPacketToInputStream_def intro!: net_of_flow)
  with m run that show thesis by blast
qed

lemma CloseInput_net:
  assumes "w_net (snd (CloseInputStream uc s r)) \<noteq> w_net r"
  obtains m o1 ims1 evs where "omap_get (rt_graph_inputs r) s = Some m"
    "osm_Close (nt_ihs (w_net r)) (nt_oms (w_net r) ! m) (nt_ims (w_net r)) = (o1, ims1, evs)"
    "w_net (snd (CloseInputStream uc s r)) = (w_net r)\<lparr>nt_ims := ims1, nt_oms := (nt_oms (w_net r))[m := o1]\<rparr>"
proof -
  let ?net = "w_net r"
  obtain m where m: "omap_get (rt_graph_inputs r) s = Some m" "s \<notin> rt_closed_streams r"
    using assms by (auto simp: CloseInputStream_def Let_def split: option.splits if_splits)
  obtain o1 ims1 evs where run: "osm_Close (nt_ihs ?net) (nt_oms ?net ! m) (nt_ims ?net) = (o1, ims1, evs)"
    by (meson prod_cases3)
  let ?net' = "?net\<lparr>nt_ims := ims1, nt_oms := (nt_oms ?net)[m := o1]\<rparr>"
  let ?r2 = "run_stream_events uc evs (r\<lparr>w_net := ?net'\<rparr>)"
  let ?r3 = "sc_IncClosedGraphInputStreams (?r2\<lparr>rt_closed_streams := insert s (rt_closed_streams ?r2)\<rparr>)"
  have "flow_part (snd (CloseInputStream uc s r)) = flow_part ?r3"
    using m run by (auto simp: CloseInputStream_def Let_def sc_AddedPacketToInputStream_def)
  then have "w_net (snd (CloseInputStream uc s r)) = w_net ?r3" by (rule flow_partD(1))
  also have "\<dots> = w_net ?r2" by (simp add: sc_IncClosedGraphInputStreams_def)
  also have "\<dots> = ?net'" by (rule net_of_flow) simp
  finally show thesis using m run that by blast
qed

lemma inputs_keep_closed:
  assumes "graph_ok r" "links_ok (w_net r)"
  shows "keeps_closed (w_net r) (w_net (snd (AddPacketToInputStream uc s p r)))"
    "keeps_closed (w_net r) (w_net (snd (CloseInputStream uc s r)))"
proof -
  let ?net = "w_net r"
  have m: "m < length (nt_oms ?net)" if "omap_get (rt_graph_inputs r) s = Some m" for m
    using assms(1) that by (simp add: graph_ok_def)
  show "keeps_closed ?net (w_net (snd (AddPacketToInputStream uc s p r)))"
  proof (cases "w_net (snd (AddPacketToInputStream uc s p r)) = ?net")
    case False
    then show ?thesis
      by (rule AddPacket_net) (use Propagate_links(2) [OF _ assms(2) m] in \<open>simp add: keeps_closed_upd\<close>)
  qed simp
  show "keeps_closed ?net (w_net (snd (CloseInputStream uc s r)))"
  proof (cases "w_net (snd (CloseInputStream uc s r)) = ?net")
    case False
    then show ?thesis
      by (rule CloseInput_net) (use osm_Close_links(2) [OF _ assms(2) m refl refl] in \<open>simp add: keeps_closed_upd\<close>)
  qed simp
qed

section \<open>What a stream carries\<close>

lemma plugged_static:
  assumes "graph_static r' = graph_static r" "graph_ok r" "plugged r n inp j outp m"
  shows "plugged r' n inp j outp m"
proof -
  note s = graph_staticD [OF assms(1)]
  note net = net_staticD [OF s(1)]
  have len: "length (w_nodes r') = length (w_nodes r)" using s(3) by simp
  have ports: "n_input_ports (w_nodes r' ! i) = n_input_ports (w_nodes r ! i)" if "i < length (w_nodes r)" for i
    by (rule s(6) [OF that])
  have ms: "node_managers r' i = node_managers r i" if "i < length (w_nodes r)" for i
    by (rule graph_ok_static(2) [OF assms(1,2) that])
  have "m < length (nt_oms (w_net r))"
    using assms(2,3) by (auto simp: plugged_def graph_ok_def managers_ok_def)
  then have "port_of (w_net r') m = port_of (w_net r) m" by (rule port_of_static [OF s(1)])
  moreover have "reads_apart r' i = reads_apart r i" if "i < length (w_nodes r)" for i
    using ports [OF that] net(3) by (simp add: reads_apart_def)
  ultimately show ?thesis
    using assms(3) len ports ms s(2) unfolding plugged_def by simp
qed

text \<open>A node that does not write a stream sends nothing on it, and takes nothing from others' queues.\<close>

lemma run_other:
  assumes "graph_ok r" "plugged r n inp j outp m" "i < length (w_nodes r)" "i \<noteq> n"
  shows "sent_on (Some m) (run_sent uc q i r) = []" "taken_from j (run_taken i r) = []"
proof -
  have i: "reads_apart r i" "j \<notin> snd ` set (n_input_ports (w_nodes r ! i))" "m \<notin> set (node_managers r i)"
    using assms by (auto simp: plugged_def)
  have "distinct (node_managers r i)" using assms(1,3) by (simp add: graph_ok_def managers_ok_def)
  then show "sent_on (Some m) (run_sent uc q i r) = []" using i(3) by (simp add: run_sent_def sent_on_by)
  show "taken_from j (run_taken i r) = []"
    using i taken_head [of "n_input_ports (w_nodes r ! i)" "nt_ims (w_net r)" j]
    by (simp add: run_taken_def reads_apart_def Let_def)
qed

text \<open>
  The invariant of an execution: what was sent on stream \<open>m\<close> is a prefix of what the code of the node
  makes of the packets taken, and all of it while the stream is open.
\<close>

definition computed where
  "computed g j m sent taken r \<longleftrightarrow>
     prefix (contents (sent_on (Some m) sent)) (concat (map g (contents (taken_from j taken)))) \<and>
     (\<not> om_closed (nt_oms (w_net r) ! m) \<longrightarrow>
        contents (sent_on (Some m) sent) = concat (map g (contents (taken_from j taken))))"

lemma computed_step:
  assumes "computed g j m sent taken r" "keeps_closed (w_net r) (w_net r')" "m < length (nt_oms (w_net r))"
    and "om_closed (nt_oms (w_net r) ! m) \<Longrightarrow> sent_on (Some m) sent' = []"
    and "\<not> om_closed (nt_oms (w_net r) ! m) \<Longrightarrow>
      contents (sent_on (Some m) sent') = concat (map g (contents (taken_from j taken')))"
  shows "computed g j m (sent @ sent') (taken @ taken') r'"
  using assms by (cases "om_closed (nt_oms (w_net r) ! m)") (auto simp: computed_def keeps_closed_def)

lemma execution_computes:
  assumes exec: "execution uc r0 sent taken r" and start: "sound k l r0" "graph_ok r0"
    and plug: "plugged r0 n inp j outp m" and uc: "respects_shards uc" "transforms uc n inp outp g"
  shows "computed g j m sent taken r"
proof -
  have state: "sound k l r \<and> graph_ok r \<and> links_ok (w_net r) \<and> plugged r n inp j outp m \<and> m < length (nt_oms (w_net r))"
    if x: "execution uc r0 sent taken r" for sent taken r
  proof -
    have h: "sound k l r" "history uc r0 sent taken r" using execution_sound [OF x start uc(1)] by simp_all
    have s: "graph_static r = graph_static r0" using history_conserves [OF h(2) start(2) uc(1)] by blast
    have ok: "graph_ok r" and p: "plugged r n inp j outp m"
      using graph_ok_static(1) [OF s start(2)] plugged_static [OF s start(2) plug] by simp_all
    have "m < length (nt_oms (w_net r))" using ok p by (auto simp: plugged_def graph_ok_def managers_ok_def)
    then show ?thesis using h(1) ok p soundD(5) [OF h(1)] by blast
  qed
  show ?thesis
    using exec
  proof induction
    case Begin
    then show ?case by (simp add: computed_def)
  next
    case (Call sent taken r c)
    have "keeps_closed (w_net r) (w_net (api_call uc c r))" by (simp add: call_net)
    from computed_step [OF Call.IH this, of "[]" "[]"] show ?case using state [OF Call.hyps] by simp
  next
    case (Inject sent taken r s p)
    note st = state [OF Inject.hyps]
    have "sent_on (Some m) (injected s p r) = []"
      using st by (auto simp: injected_def sent_on_def plugged_def split: option.splits)
    then show ?case
      using computed_step [OF Inject.IH, of "snd (AddPacketToInputStream uc s p r)" "injected s p r" "[]"]
        inputs_keep_closed(1) [of r uc s p] st by simp
  next
    case (CloseInput sent taken r s)
    then show ?case
      using computed_step [OF CloseInput.IH, of "snd (CloseInputStream uc s r)" "[]" "[]"]
        inputs_keep_closed(2) [of r uc s] state [OF CloseInput.hyps] by simp
  next
    case (Worker sent taken r e)
    note st = state [OF Worker.hyps(1)]
    let ?r' = "worker_step (runtime_env uc) e r"
    note c = worker_cases [OF st [THEN conjunct1] Worker.hyps(2), of uc]
    show ?case
    proof (cases "worker_run e r")
      case None
      then have "w_net ?r' = w_net r" using c flow_partD(1) [of ?r' r] by simp
      then show ?thesis
        using computed_step [OF Worker.IH, of ?r' "[]" "[]"] st None by (simp add: worker_sent_def worker_taken_def)
    next
      case (Some x)
      then obtain q i r1 where x: "x = (q, i, r1)" by (cases x)
      let ?run = "RunNode (runtime_env uc) q (Some i) False r1"
      have f: "i < k" "flow_part r1 = flow_part r" "w_nodes r1 = w_nodes r" "flow_part ?r' = flow_part ?run"
        using c Some x by simp_all
      have s1: "graph_static r1 = graph_static r" "w_net r1 = w_net r"
        using graph_viewD(1) [OF graph_view_flow [OF f(2)]] flow_partD(1) [OF f(2)] by simp_all
      have ok1: "graph_ok r1" "plugged r1 n inp j outp m"
        using graph_ok_static(1) [OF s1(1)] plugged_static [OF s1(1)] st by blast+
      have i: "i < length (w_nodes r1)" using f(1,3) soundD(1) st by metis
      have "fit r1 i" using ok1(1) i st s1(2) by (simp add: fit_def graph_ok_def managers_ok_def)
      then have keep: "keeps_closed (w_net r) (w_net ?r')"
        using kept_RunNode [of i r1 uc q] flow_partD(1) [OF f(4)] s1(2) by (simp add: kept_def)
      have moved: "worker_sent uc e r = run_sent uc q i r1" "worker_taken e r = run_taken i r1"
        using Some x by (simp_all add: worker_sent_def worker_taken_def)
      have m: "m < length (nt_oms (w_net r))" using st by simp
      show ?thesis
      proof (cases "i = n")
        case True
        show ?thesis
          unfolding moved True
          by (rule computed_step [OF Worker.IH keep m])
            (use run_silent [OF ok1(1) i _ uc(1), of m q] run_computes [OF ok1 uc(2), of q] s1(2) True in simp_all)
      next
        case False
        then show ?thesis
          unfolding moved
          by (intro computed_step [OF Worker.IH keep m]) (simp_all add: run_other [OF ok1 i])
      qed
    qed
  qed
qed

section \<open>Pipelines of an initialised graph\<close>

text \<open>The queue of input edge \<open>a\<close> of node \<open>i\<close>, and the manager of its output edge \<open>b\<close>.\<close>

definition in_edge :: "graph_config \<Rightarrow> nat \<Rightarrow> nat \<Rightarrow> nat" where
  "in_edge config i a = length (concat (map nd_input_streams (take i (gc_nodes config)))) + a"

definition out_edge :: "graph_config \<Rightarrow> nat \<Rightarrow> nat \<Rightarrow> nat" where
  "out_edge config i b = length (concat (map nd_output_streams (take i (gc_nodes config)))) + b"

lemma set_put_all: "set (put_all kvs m) \<subseteq> set kvs \<union> set m"
proof (induction kvs arbitrary: m)
  case (Cons kv kvs)
  obtain k v where kv: "kv = (k, v)" by (cases kv)
  show ?case using Cons.IH [of "omap_put k v m"] set_omap_put [of k v m] kv by auto
qed simp

lemma put_all_zip:
  assumes "distinct ys" "length xs = length ys"
  shows "omap_wf (put_all (zip xs ys) [])" "distinct (map snd (put_all (zip xs ys) []))"
    "snd ` set (put_all (zip xs ys) []) \<subseteq> set ys"
    "distinct xs \<Longrightarrow> a < length xs \<Longrightarrow> omap_get (put_all (zip xs ys) []) (xs ! a) = Some (ys ! a)"
proof -
  let ?m = "put_all (zip xs ys) []"
  show wf: "omap_wf ?m" by (rule omap.inv_put_all) simp
  have sub: "set ?m \<subseteq> set (zip xs ys)" using set_put_all [of "zip xs ys" "[]"] by simp
  show "snd ` set ?m \<subseteq> set ys" by (auto dest!: subsetD [OF sub] set_zip_rightD)
  have "inj_on snd (set (zip xs ys))"
    using assms unfolding inj_on_def set_zip by (auto simp: nth_eq_iff_index_eq)
  then have "inj_on snd (set ?m)" using sub by (rule inj_on_subset)
  moreover have "distinct ?m" using wf distinct_map by (auto simp: omap_wf_def strict_sorted_iff)
  ultimately show "distinct (map snd ?m)" by (simp add: distinct_map)
  show "omap_get ?m (xs ! a) = Some (ys ! a)" if "distinct xs" "a < length xs"
  proof -
    have "map_of (rev (zip xs ys)) (xs ! a) = Some (ys ! a)"
    proof (rule map_of_is_SomeI)
      show "distinct (map fst (rev (zip xs ys)))" using that(1) assms(2) by (simp flip: rev_map)
      show "(xs ! a, ys ! a) \<in> set (rev (zip xs ys))" using that(2) assms(2) by (auto simp: set_zip)
    qed
    then show ?thesis by (simp add: omap.get_put_all)
  qed
qed

lemma in_block: "i < length xss \<Longrightarrow> a < length (xss ! i) \<Longrightarrow>
   blocks 0 xss ! i ! a = length (concat (take i xss)) + a \<and> length (blocks 0 xss ! i) = length (xss ! i) \<and>
   length (concat (take i xss)) + a \<in> set (blocks 0 xss ! i) \<and> distinct (blocks 0 xss ! i)"
  by (simp add: blocks_nth)

lemma Initialize_plugged:
  assumes init: "Initialize reg addr hw clock config options
      (GraphRuntime_new u :: ('v, 'u) runtime) = (st, r)" "st_ok st"
    and i: "i < length (gc_nodes config)" and d: "d = gc_nodes config ! i"
    and a: "a < length (nd_input_streams d)" and b: "b < length (nd_output_streams d)"
    and ports: "distinct (map PortName (nd_input_streams d))"
  shows "plugged r i (PortName (nd_input_streams d ! a)) (in_edge config i a)
    (PortName (nd_output_streams d ! b)) (out_edge config i b)"
proof -
  let ?nodes = "gc_nodes config"
  let ?ins = "map nd_input_streams ?nodes" and ?outs = "map nd_output_streams ?nodes"
  note p = Initialize_ports [OF init]
  have ims: "length (nt_ims (w_net r)) = length (concat ?ins)"
    using arg_cong [OF conjunct1 [OF Initialize_net [OF init]], of length] by simp
  have inb: "blocks 0 ?ins ! i ! a = in_edge config i a" "in_edge config i a \<in> set (blocks 0 ?ins ! i)"
    using in_block [of i ?ins a] i a d by (simp_all add: in_edge_def take_map)
  have outb: "out_edge config i b \<in> set (blocks 0 ?outs ! i)"
    using in_block [of i ?outs b] i b d by (simp add: out_edge_def take_map)
  have reads: "reads_apart r k \<and> snd ` set (n_input_ports (w_nodes r ! k)) \<subseteq> set (blocks 0 ?ins ! k)"
    if k: "k < length ?nodes" for k
  proof -
    have "distinct (blocks 0 ?ins ! k)" "length (map PortName (nd_input_streams (?nodes ! k))) = length (blocks 0 ?ins ! k)"
      using k by (simp_all add: blocks_nth)
    note z = put_all_zip(1-3) [OF this]
    have "m < length (nt_ims (w_net r))" if "m \<in> set (blocks 0 ?ins ! k)" for m
      using blocks_bound [of k ?ins m 0] k that ims by simp
    then show ?thesis using z unfolding p(4) [OF k, symmetric] by (auto simp: reads_apart_def Let_def)
  qed
  have get: "omap_get (n_input_ports (w_nodes r ! i)) (PortName (nd_input_streams d ! a)) = Some (in_edge config i a)"
  proof -
    have "distinct (blocks 0 ?ins ! i)" "length (map PortName (nd_input_streams d)) = length (blocks 0 ?ins ! i)"
      using i d by (simp_all add: blocks_nth)
    from put_all_zip(4) [OF this ports] show ?thesis
      using a inb(1) p(4) [OF i] d by simp
  qed
  have bound: "out_edge config i b < length (concat ?outs)"
    using blocks_bound [of i ?outs "out_edge config i b" 0] outb i by simp
  have name: "osm_Name (nt_oms (w_net r) ! out_edge config i b) = nd_output_streams d ! b"
  proof -
    have "osm_Name (nt_oms (w_net r) ! out_edge config i b) = map osm_Name (nt_oms (w_net r)) ! out_edge config i b"
      using bound Initialize_net [OF init] by (simp add: edge_sources_def)
    also have "\<dots> = concat ?outs ! out_edge config i b" using bound unfolding p(2) by (simp add: nth_append)
    also have "\<dots> = nd_output_streams d ! b"
    proof -
      have "?outs = take i ?outs @ nd_output_streams d # drop (Suc i) ?outs"
        using id_take_nth_drop [of i ?outs] i d by simp
      then have "concat ?outs = concat (take i ?outs) @ nd_output_streams d @ concat (drop (Suc i) ?outs)"
        by (metis concat.simps(2) concat_append)
      then show ?thesis using b by (simp add: out_edge_def take_map nth_append)
    qed
    finally show ?thesis .
  qed
  have "omap_get (rt_graph_inputs r) s \<noteq> Some (out_edge config i b)" for s
  proof
    assume "omap_get (rt_graph_inputs r) s = Some (out_edge config i b)"
    then have "(s, out_edge config i b) \<in> set (rt_graph_inputs r)" by (rule omap_get_in_set)
    then have "(s, out_edge config i b) \<in> set (zip (gc_input_streams config)
        [length (concat ?outs)..<length (edge_sources config)])"
      using set_put_all unfolding p(3) by fastforce
    then show False using bound by (auto dest: set_zip_rightD)
  qed
  moreover have "in_edge config i a \<notin> snd ` set (n_input_ports (w_nodes r ! k)) \<and>
      out_edge config i b \<notin> set (node_managers r k)" if "k < length ?nodes" "k \<noteq> i" for k
    using reads [OF that(1)] blocks_disjoint [of i ?ins k "in_edge config i a" 0]
      blocks_disjoint [of i ?outs k "out_edge config i b" 0] inb outb i that p(5) by auto
  ultimately show ?thesis
    using get name reads i p(1) p(5) [OF i] outb by (simp add: plugged_def port_of_def)
qed

text \<open>One node of an initialised graph, then chains of them.\<close>

lemma node_computes:
  assumes init: "Initialize reg addr hw clock config options
      (GraphRuntime_new u :: ('v, 'u) runtime) = (st, r0)" "st_ok st"
      "\<forall>d\<in>set (gc_nodes config). distinct (map PortName (nd_output_streams d))"
    and uc: "respects_shards uc" and exec: "execution uc r0 sent taken r"
    and i: "i < length (gc_nodes config)" "d = gc_nodes config ! i"
    and edges: "a < length (nd_input_streams d)" "b < length (nd_output_streams d)"
      "distinct (map PortName (nd_input_streams d))"
    and g: "transforms uc i (PortName (nd_input_streams d ! a)) (PortName (nd_output_streams d ! b)) g"
  shows "computed g (in_edge config i a) (out_edge config i b) sent taken r"
  by (rule execution_computes [OF exec Initialize_sound [OF init(1,2)] Initialize_graph(1) [OF init]
        Initialize_plugged [OF init(1,2) i edges] uc g])

text \<open>
  A pipeline from input edge \<open>j\<close> to output edge \<open>m\<close>: nodes that transform what they read, each feeding
  the next.
\<close>

inductive pipeline ::
  "graph_config \<Rightarrow> ('v, 'u) user_code \<Rightarrow> nat \<Rightarrow> (string \<times> 'v \<Rightarrow> (string \<times> 'v) list) \<Rightarrow> nat \<Rightarrow> bool"
  for config uc where
  Node: "i < length (gc_nodes config) \<Longrightarrow> d = gc_nodes config ! i \<Longrightarrow>
     a < length (nd_input_streams d) \<Longrightarrow> b < length (nd_output_streams d) \<Longrightarrow>
     distinct (map PortName (nd_input_streams d)) \<Longrightarrow>
     transforms uc i (PortName (nd_input_streams d ! a)) (PortName (nd_output_streams d ! b)) g \<Longrightarrow>
     pipeline config uc (in_edge config i a) g (out_edge config i b)"
| Join: "pipeline config uc j f m \<Longrightarrow> producer config k = Some m \<Longrightarrow> pipeline config uc k g m' \<Longrightarrow>
     pipeline config uc j (\<lambda>x. concat (map g (f x))) m'"

lemma concat_map_prefix: "prefix xs ys \<Longrightarrow> prefix (concat (map f xs)) (concat (map f ys))"
  by (auto simp: prefix_def)

lemma contents_prefix: "prefix ps qs \<Longrightarrow> prefix (contents ps) (contents qs)"
  by (auto simp: prefix_def)

lemma concat_map_concat_map: "concat (map g (concat (map f xs))) = concat (map (\<lambda>x. concat (map g (f x))) xs)"
  by (induction xs) simp_all

text \<open>All queues are empty and no output stream of a node has been closed.\<close>

definition drained :: "graph_config \<Rightarrow> ('v, 'u, 'z) runtime_scheme \<Rightarrow> bool" where
  "drained config r \<longleftrightarrow> (\<forall>s\<in>set (nt_ims (w_net r)). ism_queue s = []) \<and>
     (\<forall>m < length (concat (map nd_output_streams (gc_nodes config))). \<not> om_closed (nt_oms (w_net r) ! m))"

lemma edge_bounds:
  assumes "i < length (gc_nodes config)" "d = gc_nodes config ! i"
  shows "a < length (nd_input_streams d) \<Longrightarrow> in_edge config i a < length (edge_sinks config)"
    "b < length (nd_output_streams d) \<Longrightarrow> out_edge config i b < length (concat (map nd_output_streams (gc_nodes config)))"
  using assms in_block [of i "map nd_input_streams (gc_nodes config)" a]
    blocks_bound [of i "map nd_input_streams (gc_nodes config)" "in_edge config i a" 0]
    in_block [of i "map nd_output_streams (gc_nodes config)" b]
    blocks_bound [of i "map nd_output_streams (gc_nodes config)" "out_edge config i b" 0]
  by (simp_all add: in_edge_def out_edge_def take_map edge_sinks_def)

lemma pipeline_ends: "pipeline config uc j f m \<Longrightarrow> j < length (edge_sinks config)"
  by (induction rule: pipeline.induct) (auto dest: edge_bounds)

lemma in_flow:
  assumes init: "Initialize reg addr hw clock config options
      (GraphRuntime_new u :: ('v, 'u) runtime) = (st, r0)" "st_ok st"
      "\<forall>d\<in>set (gc_nodes config). distinct (map PortName (nd_output_streams d))"
    and uc: "respects_shards uc" and exec: "execution uc r0 sent taken r"
    and j: "j < length (edge_sinks config)"
  shows "prefix (contents (taken_from j taken)) (contents (sent_on (producer config j) sent))"
    "\<forall>s\<in>set (nt_ims (w_net r)). ism_queue s = [] \<Longrightarrow>
     contents (taken_from j taken) = contents (sent_on (producer config j) sent)"
proof -
  have hist: "history uc r0 sent taken r" by (rule Initialize_execution(2) [OF init uc exec])
  have len: "length (nt_ims (w_net r)) = length (edge_sinks config)"
    using history_conserves [OF hist Initialize_graph(1) [OF init] uc] Initialize_graph(2) [OF init]
      net_staticD(3) [OF graph_staticD(1)] by metis
  have d: "sent_on (producer config j) sent = taken_from j taken @ ism_queue (nt_ims (w_net r) ! j)"
    using graph_delivery [OF init uc hist j] by simp
  show "prefix (contents (taken_from j taken)) (contents (sent_on (producer config j) sent))"
    unfolding d by simp
  show "contents (taken_from j taken) = contents (sent_on (producer config j) sent)"
    if "\<forall>s\<in>set (nt_ims (w_net r)). ism_queue s = []"
    unfolding d using that j len by simp
qed

lemma pipeline_delivers:
  assumes pipe: "pipeline config uc j f m"
    and init: "Initialize reg addr hw clock config options
      (GraphRuntime_new u :: ('v, 'u) runtime) = (st, r0)" "st_ok st"
      "\<forall>d\<in>set (gc_nodes config). distinct (map PortName (nd_output_streams d))"
    and uc: "respects_shards uc" and exec: "execution uc r0 sent taken r"
  shows "prefix (contents (sent_on (Some m) sent)) (concat (map f (contents (sent_on (producer config j) sent)))) \<and>
    (drained config r \<longrightarrow>
       contents (sent_on (Some m) sent) = concat (map f (contents (sent_on (producer config j) sent))))"
proof -
  note flow = in_flow [OF init uc exec]
  show ?thesis
    using pipe
  proof induction
    case (Node i d a b g)
    note c = node_computes [OF init uc exec Node.hyps, unfolded computed_def]
      and f = flow [OF edge_bounds(1) [OF Node.hyps(1-3)]]
    have "drained config r \<Longrightarrow> \<not> om_closed (nt_oms (w_net r) ! out_edge config i b)"
      using edge_bounds(2) [OF Node.hyps(1,2,4)] by (simp add: drained_def)
    moreover have "drained config r \<Longrightarrow> \<forall>s\<in>set (nt_ims (w_net r)). ism_queue s = []"
      by (simp add: drained_def)
    ultimately show ?case using c f prefix_order.trans [OF _ concat_map_prefix] by metis
  next
    case (Join j f m k g m')
    let ?s = "contents (sent_on (producer config j) sent)" and ?t = "contents (sent_on (Some m) sent)"
      and ?u = "contents (sent_on (Some m') sent)"
    have IH: "prefix ?t (concat (map f ?s)) \<and> (drained config r \<longrightarrow> ?t = concat (map f ?s))"
      "prefix ?u (concat (map g ?t)) \<and> (drained config r \<longrightarrow> ?u = concat (map g ?t))"
      using Join.IH Join.hyps(2) by simp_all
    have "prefix ?u (concat (map g (concat (map f ?s))))"
      using prefix_order.trans [OF _ concat_map_prefix] IH by blast
    then show ?case using IH by (simp add: concat_map_concat_map [symmetric])
  qed
qed

section \<open>Properties\<close>


end
