(* ===== verification/Completion.thy ===== *)
theory Completion
  imports Pipelines
begin

text \<open>
  Nothing is lost when a graph winds down. The bound of a queue is Done only once its producer is
  closed, and a node that never stops closes its streams only when its inputs are done: so no
  packet arrives at a node after it closed its outputs.
\<close>

section \<open>Done bounds and closed streams\<close>

text \<open>
  While a stream is open neither its manager's bound nor the bound of a queue it feeds is Done;
  no two streams feed one queue.
\<close>

definition ends_match :: "'v net \<Rightarrow> bool" where
  "ends_match net \<longleftrightarrow>
     (\<forall>m < length (nt_oms net). \<not> om_closed (nt_oms net ! m) \<longrightarrow>
        om_next_bound (nt_oms net ! m) \<noteq> ts_Done \<and> \<not> os_offset_enabled (om_spec (nt_oms net ! m)) \<and>
        (\<forall>j\<in>set (targets net m). j < length (nt_ims net) \<longrightarrow> ism_next_bound (nt_ims net ! j) \<noteq> ts_Done))"

definition apart :: "'v net \<Rightarrow> bool" where
  "apart net \<longleftrightarrow>
     (\<forall>m < length (nt_oms net). \<forall>k < length (nt_oms net). m \<noteq> k \<longrightarrow> set (targets net m) \<inter> set (targets net k) = {})"

lemma apart_static:
  assumes "net_static net' = net_static net"
  shows "apart net' = apart net"
  using net_staticD(2,5) [OF assms] by (simp add: apart_def)

lemma ends_matchD:
  assumes "ends_match net" "m < length (nt_oms net)" "\<not> om_closed (nt_oms net ! m)"
  shows "om_next_bound (nt_oms net ! m) \<noteq> ts_Done" "\<not> os_offset_enabled (om_spec (nt_oms net ! m))"
    "j \<in> set (targets net m) \<Longrightarrow> j < length (nt_ims net) \<Longrightarrow> ism_next_bound (nt_ims net ! j) \<noteq> ts_Done"
  using assms by (simp_all add: ends_match_def)

text \<open>An operation on manager \<open>i\<close> and the queues it feeds.\<close>

lemma ends_match_upd:
  assumes "ends_match net" "apart net" "i < length (nt_oms net)"
    and "om_mirrors o1 = om_mirrors (nt_oms net ! i)" "length ims = length (nt_ims net)"
    and "\<And>j. j < length (nt_ims net) \<Longrightarrow> j \<notin> set (targets net i) \<Longrightarrow> ims ! j = nt_ims net ! j"
    and "\<not> om_closed o1 \<Longrightarrow> om_next_bound o1 \<noteq> ts_Done \<and> \<not> os_offset_enabled (om_spec o1) \<and>
      (\<forall>j\<in>set (targets net i). j < length (nt_ims net) \<longrightarrow> ism_next_bound (ims ! j) \<noteq> ts_Done)"
  shows "ends_match (net\<lparr>nt_ims := ims, nt_oms := (nt_oms net)[i := o1]\<rparr>)"
proof -
  let ?net = "net\<lparr>nt_ims := ims, nt_oms := (nt_oms net)[i := o1]\<rparr>"
  have t: "targets ?net m = targets net m" if "m < length (nt_oms net)" for m
    using assms(3,4) that by (cases "m = i") (simp_all add: targets_def)
  have far: "ims ! j = nt_ims net ! j" if "m < length (nt_oms net)" "m \<noteq> i" "j \<in> set (targets net m)"
    "j < length (nt_ims net)" for m j
    using assms(2,3,6) that unfolding apart_def by (metis disjoint_iff)
  show ?thesis
    unfolding ends_match_def
  proof (intro allI impI)
    fix m assume m: "m < length (nt_oms ?net)" "\<not> om_closed (nt_oms ?net ! m)"
    show "om_next_bound (nt_oms ?net ! m) \<noteq> ts_Done \<and> \<not> os_offset_enabled (om_spec (nt_oms ?net ! m)) \<and>
        (\<forall>j\<in>set (targets ?net m). j < length (nt_ims ?net) \<longrightarrow> ism_next_bound (nt_ims ?net ! j) \<noteq> ts_Done)"
    proof (cases "m = i")
      case True
      then show ?thesis using m assms(3,5,7) t by simp
    next
      case False
      then show ?thesis using m assms(5) t far ends_matchD [OF assms(1)] by simp
    qed
  qed
qed

lemma Propagate_ends:
  assumes "osm_PropagateUpdatesToMirrors ihs b shard o' ims = (o1, shard1, ims1, evs)"
    and "distinct (mirror_targets ihs (om_mirrors o'))"
  shows "om_mirrors o1 = om_mirrors o'" "om_closed o1 = om_closed o'" "om_spec o1 = om_spec o'"
    "shard1 = shard\<lparr>sh_queue := []\<rparr>" "length ims1 = length ims"
    "j < length ims \<Longrightarrow> j \<notin> set (mirror_targets ihs (om_mirrors o')) \<Longrightarrow> ims1 ! j = ims ! j"
    "b \<noteq> ts_Done \<Longrightarrow> om_next_bound o' \<noteq> ts_Done \<Longrightarrow> om_next_bound o1 \<noteq> ts_Done"
    "b \<noteq> ts_Done \<Longrightarrow> j < length ims \<Longrightarrow> ism_next_bound (ims ! j) \<noteq> ts_Done \<Longrightarrow> ism_next_bound (ims1 ! j) \<noteq> ts_Done"
proof -
  define sb where "sb \<longleftrightarrow> b \<noteq> ts_Unset \<and> (sh_queue shard \<noteq> [] \<longrightarrow>
      NextAllowedInStream (shard_LastAddedPacketTimestamp shard) \<noteq> b)"
  have ims1: "ims1 = fst (mirror_loop ihs b sb (om_mirrors o') (sh_queue shard) ims)"
    and o1: "o1 = (if b \<noteq> ts_Unset then o'\<lparr>om_next_bound := b,
        om_num_added := om_num_added o' + int (length (sh_queue shard))\<rparr> else o')"
    and sh: "shard1 = shard\<lparr>sh_queue := []\<rparr>"
    using assms(1) by (auto simp: osm_PropagateUpdatesToMirrors_def Let_def sb_def split: prod.splits if_splits)
  show "om_mirrors o1 = om_mirrors o'" "om_closed o1 = om_closed o'" "om_spec o1 = om_spec o'"
    "b \<noteq> ts_Done \<Longrightarrow> om_next_bound o' \<noteq> ts_Done \<Longrightarrow> om_next_bound o1 \<noteq> ts_Done"
    using o1 by auto
  show "shard1 = shard\<lparr>sh_queue := []\<rparr>" "length ims1 = length ims" using sh ims1 by simp_all
  show "ims1 ! j = ims ! j" if "j < length ims" "j \<notin> set (mirror_targets ihs (om_mirrors o'))"
    using that by (simp add: ims1 mirror_loop_nth [OF assms(2)])
  show "ism_next_bound (ims1 ! j) \<noteq> ts_Done" if "b \<noteq> ts_Done" "j < length ims" "ism_next_bound (ims ! j) \<noteq> ts_Done"
    using that
    by (auto simp: ims1 mirror_loop_nth [OF assms(2)] deliver_def Let_def enq_bound ism_SetNextTimestampBound_def)
qed

lemma Close_ends:
  assumes "osm_Close ihs o' ims = (o1, ims1, evs)"
  shows "om_mirrors o1 = om_mirrors o'" "om_closed o1" "length ims1 = length ims"
    "j < length ims \<Longrightarrow> j \<notin> set (mirror_targets ihs (om_mirrors o')) \<Longrightarrow> ims1 ! j = ims ! j"
proof -
  have "ims1 = ims \<or> ims1 = fst (bound_to_mirrors ihs ts_Done (om_mirrors o') ims)"
    using assms by (auto simp: osm_Close_def split: if_splits prod.splits)
  then show "length ims1 = length ims"
    "j < length ims \<Longrightarrow> j \<notin> set (mirror_targets ihs (om_mirrors o')) \<Longrightarrow> ims1 ! j = ims ! j"
    using bound_to_mirrors_nth [of j ims] by auto
  show "om_mirrors o1 = om_mirrors o'" "om_closed o1"
    using assms by (auto simp: osm_Close_def split: if_splits prod.splits)
qed

lemma bound_not_Done:
  assumes "om_next_bound o' \<noteq> ts_Done" "\<not> os_offset_enabled (om_spec o')" "sh_updated_bound shard \<noteq> ts_Done"
  shows "osm_ComputeOutputTimestampBound shard t o' \<noteq> ts_Done"
  using assms by (auto simp: osm_ComputeOutputTimestampBound_def Let_def)

section \<open>The output side of a node\<close>

text \<open>Shards in which no bound is Done; what one round of the two loops over the managers keeps.\<close>

definition unended :: "'v oshards \<Rightarrow> bool" where
  "unended ss \<longleftrightarrow> omap_wf ss \<and> (\<forall>port. sh_updated_bound (shard_at ss port) \<noteq> ts_Done)"

lemma propagate_one_ends:
  assumes one: "oh_propagate_one h t i (ss, net, evs) = (ss', net', evs')"
    and ok: "net_ok net" "apart net" "ends_match net" "i < length (nt_oms net)" and ss: "unended ss"
  shows "ends_match net'" "unended ss'" "sh_closed (shard_at ss' port) = sh_closed (shard_at ss port)"
    "k \<noteq> i \<Longrightarrow> nt_oms net' ! k = nt_oms net ! k"
    "\<not> sh_closed (shard_at ss (port_of net i)) \<Longrightarrow> om_closed (nt_oms net' ! i) = om_closed (nt_oms net ! i)"
proof -
  let ?goal = "ends_match net' \<and> unended ss' \<and> (\<forall>port. sh_closed (shard_at ss' port) = sh_closed (shard_at ss port)) \<and>
    (\<forall>k. k \<noteq> i \<longrightarrow> nt_oms net' ! k = nt_oms net ! k) \<and>
    (\<not> sh_closed (shard_at ss (port_of net i)) \<longrightarrow> om_closed (nt_oms net' ! i) = om_closed (nt_oms net ! i))"
  have ?goal
  proof (cases "om_closed (nt_oms net ! i)")
    case True
    then show ?thesis using one ok ss by (simp add: oh_propagate_one_def)
  next
    case False
    let ?mgr = "nt_oms net ! i" and ?sh = "shard_at ss (port_of net i)"
    note e = ends_matchD [OF ok(3,4) False]
    have dist: "distinct (mirror_targets (nt_ihs net) (om_mirrors ?mgr))"
      using ok(1,4) by (simp add: net_ok_def targets_def)
    let ?b = "osm_ComputeOutputTimestampBound ?sh t ?mgr"
    obtain o1 sh1 ims1 ev1 where run: "osm_PropagateUpdatesToMirrors (nt_ihs net) ?b ?sh ?mgr (nt_ims net) =
        (o1, sh1, ims1, ev1)" by (meson prod_cases4)
    note p = Propagate_ends [OF run dist]
    obtain o2 ims2 ev2 where cl: "(if sh_closed sh1 then osm_Close (nt_ihs net) o1 ims1 else (o1, ims1, [])) =
        (o2, ims2, ev2)" by (meson prod_cases3)
    have res: "ss' = omap_put (port_of net i) sh1 (snd (oss_Get (port_of net i) ss))"
      "net' = net\<lparr>nt_ims := ims2, nt_oms := (nt_oms net)[i := o2]\<rparr>"
      using one run cl False
      by (auto simp: oh_propagate_one_def Let_def split_beta fst_oss_Get port_of_def split: option.splits)
    have b: "?b \<noteq> ts_Done" using bound_not_Done e(1,2) ss by (auto simp: unended_def)
    have c: "om_mirrors o2 = om_mirrors o1" "length ims2 = length ims1"
      "j < length ims1 \<Longrightarrow> j \<notin> set (targets net i) \<Longrightarrow> ims2 ! j = ims1 ! j"
      "\<not> om_closed o2 \<Longrightarrow> o2 = o1 \<and> ims2 = ims1" "\<not> sh_closed ?sh \<Longrightarrow> o2 = o1" for j
      using cl Close_ends [of "nt_ihs net" o1 ims1 o2 ims2 ev2] p(1,4)
      by (auto simp: targets_def split: if_splits)
    have "ends_match net'"
      unfolding res(2)
    proof (rule ends_match_upd [OF ok(3,2,4)])
      show "om_mirrors o2 = om_mirrors ?mgr" "length ims2 = length (nt_ims net)" using c(1,2) p(1,5) by simp_all
      show "ims2 ! j = nt_ims net ! j" if "j < length (nt_ims net)" "j \<notin> set (targets net i)" for j
        using that c(3) p(5,6) by (simp add: targets_def)
      assume "\<not> om_closed o2"
      then have "o2 = o1" "ims2 = ims1" using c(4) by simp_all
      then show "om_next_bound o2 \<noteq> ts_Done \<and> \<not> os_offset_enabled (om_spec o2) \<and>
          (\<forall>j\<in>set (targets net i). j < length (nt_ims net) \<longrightarrow> ism_next_bound (ims2 ! j) \<noteq> ts_Done)"
        using p(3,7,8) b e by simp
    qed
    moreover have wf: "omap_wf (snd (oss_Get (port_of net i) ss))"
      using ss by (auto simp: unended_def oss_Get_def omap_wf_put split: option.splits)
    ultimately show ?thesis
      using ss p(2,4) c(5) ok(4) False
      by (auto simp: unended_def res shard_at_put shard_at_Get omap_wf_put)
  qed
  then show "ends_match net'" "unended ss'" "sh_closed (shard_at ss' port) = sh_closed (shard_at ss port)"
    "k \<noteq> i \<Longrightarrow> nt_oms net' ! k = nt_oms net ! k"
    "\<not> sh_closed (shard_at ss (port_of net i)) \<Longrightarrow> om_closed (nt_oms net' ! i) = om_closed (nt_oms net ! i)"
    by blast+
qed

lemma propagate_all_ends:
  assumes "fold (oh_propagate_one h t) ms (ss, net, evs) = (ss', net', evs')"
    and "net_ok net" "apart net" "ends_match net" "managers_ok net ms" "unended ss" "silent net ms ss"
  shows "ends_match net' \<and> (\<forall>k. k \<notin> set ms \<longrightarrow> nt_oms net' ! k = nt_oms net ! k) \<and>
    ((\<forall>m\<in>set ms. \<not> om_closed (nt_oms net ! m) \<longrightarrow> \<not> sh_closed (shard_at ss (port_of net m))) \<longrightarrow>
       (\<forall>m\<in>set ms. om_closed (nt_oms net' ! m) = om_closed (nt_oms net ! m)))"
  using assms
proof (induction ms arbitrary: ss net evs)
  case (Cons m ms)
  obtain ss1 net1 ev1 where one: "oh_propagate_one h t m (ss, net, evs) = (ss1, net1, ev1)" by (meson prod_cases3)
  have m: "m < length (nt_oms net)" "m \<notin> set ms" "managers_ok net ms" "silent net ms ss"
    and sil: "om_closed (nt_oms net ! m) \<longrightarrow> sh_queue (shard_at ss (port_of net m)) = []"
    using Cons.prems(5,7) by (auto simp: managers_ok_def silent_def)
  have ports: "port_of net m \<notin> port_of net ` set ms" and bound: "\<forall>k\<in>set ms. k < length (nt_oms net)"
    using Cons.prems(5) by (auto simp: managers_ok_def)
  have wf: "omap_wf ss" using Cons.prems(6) by (simp add: unended_def)
  note e = propagate_one_ends [OF one Cons.prems(2-4) m(1) Cons.prems(6)]
    and f = propagate_one_flow [OF one wf Cons.prems(2) m(1) sil]
  have p1: "port_of net1 k = port_of net k" if "k \<in> set ms" for k
    using port_of_static [OF f(1)] bound that by blast
  have same: "nt_oms net1 ! k = nt_oms net ! k" if "k \<in> set ms" for k using e(4) m(2) that by metis
  have sh: "shard_at ss1 (port_of net k) = shard_at ss (port_of net k)" if "k \<in> set ms" for k
    using f(3) ports that by (metis imageI)
  have "silent net1 ms ss1" using m(4) p1 same sh by (simp add: silent_def)
  moreover have "managers_ok net1 ms" using managers_ok_static [OF f(1)] m(3) by simp
  ultimately have IH: "ends_match net' \<and> (\<forall>k. k \<notin> set ms \<longrightarrow> nt_oms net' ! k = nt_oms net1 ! k) \<and>
      ((\<forall>m\<in>set ms. \<not> om_closed (nt_oms net1 ! m) \<longrightarrow> \<not> sh_closed (shard_at ss1 (port_of net1 m))) \<longrightarrow>
         (\<forall>m\<in>set ms. om_closed (nt_oms net' ! m) = om_closed (nt_oms net1 ! m)))"
    using Cons.prems(1-3) one e(1,2) net_staticD(4) [OF f(1)] apart_static [OF f(1)]
    by (intro Cons.IH [of ss1 net1 ev1]) simp_all
  have closed_m: "om_closed (nt_oms net1 ! m) = om_closed (nt_oms net ! m)"
    if "\<not> om_closed (nt_oms net ! m) \<longrightarrow> \<not> sh_closed (shard_at ss (port_of net m))"
  proof (cases "om_closed (nt_oms net ! m)")
    case True
    then show ?thesis using one by (simp add: oh_propagate_one_def)
  qed (use e(5) that in simp)
  show ?case using IH e(4) closed_m same sh p1 m(2) by simp
qed simp

lemma close_one_ends:
  assumes one: "oh_close_one i (Some ss, net, evs) = (shs, net', evs')"
    and ok: "net_ok net" "apart net" "ends_match net" "i < length (nt_oms net)"
  shows "ends_match net'" "k \<noteq> i \<Longrightarrow> nt_oms net' ! k = nt_oms net ! k"
proof -
  let ?mgr = "nt_oms net ! i" and ?sh = "shard_at ss (port_of net i)"
  have dist: "distinct (mirror_targets (nt_ihs net) (om_mirrors ?mgr))"
    using ok(1,4) by (simp add: net_ok_def targets_def)
  obtain o1 sh1 ims1 ev1 where run: "osm_PropagateUpdatesToMirrors (nt_ihs net) ts_Done ?sh ?mgr
      (nt_ims net) = (o1, sh1, ims1, ev1)" by (meson prod_cases4)
  obtain o2 ims2 ev2 where cl: "osm_Close (nt_ihs net) o1 ims1 = (o2, ims2, ev2)" by (meson prod_cases3)
  have res: "net' = net\<lparr>nt_ims := ims2, nt_oms := (nt_oms net)[i := o2]\<rparr>"
    using one run cl by (auto simp: oh_close_one_def Let_def split_beta fst_oss_Get port_of_def)
  note p = Propagate_ends [OF run dist] and c = Close_ends [OF cl]
  show "ends_match net'"
    unfolding res
    by (rule ends_match_upd [OF ok(3,2,4)]) (use p c in \<open>simp_all add: targets_def\<close>)
  show "nt_oms net' ! k = nt_oms net ! k" if "k \<noteq> i" using that by (simp add: res)
qed

lemma close_all_ends:
  assumes "fold oh_close_one ms (Some ss, net, evs) = (shs, net', evs')"
    and "net_ok net" "apart net" "ends_match net" "\<forall>m\<in>set ms. m < length (nt_oms net)" "omap_wf ss"
    and "\<forall>m\<in>set ms. sh_queue (shard_at ss (port_of net m)) = []"
  shows "ends_match net' \<and> (\<forall>k. k \<notin> set ms \<longrightarrow> nt_oms net' ! k = nt_oms net ! k)"
  using assms
proof (induction ms arbitrary: ss net evs)
  case (Cons m ms)
  obtain shs1 net1 ev1 where one: "oh_close_one m (Some ss, net, evs) = (shs1, net1, ev1)" by (meson prod_cases3)
  have m: "m < length (nt_oms net)" "sh_queue (shard_at ss (port_of net m)) = []" using Cons.prems(5,7) by simp_all
  note e = close_one_ends [OF one Cons.prems(2-4) m(1)]
  obtain ss1 where ss1: "shs1 = Some ss1" "omap_wf ss1" "net_static net1 = net_static net"
    "\<forall>q. sh_queue (shard_at ss q) = [] \<longrightarrow> sh_queue (shard_at ss1 q) = []"
    using close_one_flow [OF one Cons.prems(6,2) m] by blast
  have "ends_match net' \<and> (\<forall>k. k \<notin> set ms \<longrightarrow> nt_oms net' ! k = nt_oms net1 ! k)"
    using Cons.prems one e(1) ss1 net_staticD(2,4) [OF ss1(3)] apart_static [OF ss1(3)] port_of_static [OF ss1(3)]
    by (intro Cons.IH [of ss1 net1 ev1]) auto
  then show ?case using e(2) by simp
qed simp

section \<open>One run of a node\<close>

text \<open>
  What is assumed of the code: no node sets a bound to Done, and (of one node) it neither stops
  nor closes its own shards.
\<close>

definition open_ended :: "('v, 'u) user_code \<Rightarrow> bool" where
  "open_ended uc \<longleftrightarrow>
     (\<forall>n ctx u. unended (cx_outputs ctx) \<longrightarrow> unended (cx_outputs (fst (snd (uc_process uc n ctx u)))))"

definition steady :: "('v, 'u) user_code \<Rightarrow> nat \<Rightarrow> bool" where
  "steady uc n \<longleftrightarrow>
     (\<forall>ctx u. \<not> IsStopStatus (fst (uc_process uc n ctx u)) \<and>
        (omap_wf (cx_outputs ctx) \<longrightarrow>
          (\<forall>port. sh_closed (shard_at (cx_outputs (fst (snd (uc_process uc n ctx u)))) port) =
             sh_closed (shard_at (cx_outputs ctx) port))))"

definition sane :: "('v, 'u, 'z) runtime_scheme \<Rightarrow> bool" where
  "sane r \<longleftrightarrow> graph_ok r \<and> links_ok (w_net r) \<and> apart (w_net r) \<and> ends_match (w_net r)"

lemma sane_flow:
  assumes "flow_part r' = flow_part r"
  shows "sane r' = sane r"
  using graph_ok_static(1) [OF graph_viewD(1) [OF graph_view_flow [OF assms]]]
    graph_ok_static(1) [OF graph_viewD(1) [OF graph_view_flow [OF assms [symmetric]]]]
    flow_partD(1) [OF assms]
  by (auto simp: sane_def)

text \<open>What a step on the outputs of node \<open>n\<close> keeps.\<close>

definition winds :: "nat \<Rightarrow> ('v, 'u, 'z) runtime_scheme \<Rightarrow> ('v, 'u, 'z) runtime_scheme \<Rightarrow> bool" where
  "winds n r r' \<longleftrightarrow> sane r' \<and> graph_static r' = graph_static r \<and> keeps_closed (w_net r) (w_net r') \<and>
     (\<forall>k. k \<notin> set (node_managers r n) \<longrightarrow> om_closed (nt_oms (w_net r') ! k) = om_closed (nt_oms (w_net r) ! k))"

lemma winds_trans:
  assumes "winds n a b" "winds n b c" "sane a" "n < length (w_nodes a)"
  shows "winds n a c"
proof -
  have s: "graph_static b = graph_static a" using assms(1) by (simp add: winds_def)
  have "node_managers b n = node_managers a n"
    using graph_ok_static(2) [OF s] assms(3,4) by (simp add: sane_def)
  moreover have "length (nt_oms (w_net b)) = length (nt_oms (w_net a))"
    by (rule net_staticD(2) [OF graph_staticD(1) [OF s]])
  ultimately show ?thesis using assms(1,2) keeps_closed_trans by (auto simp: winds_def)
qed

lemma winds_flow: "flow_part r' = flow_part r \<Longrightarrow> sane r \<Longrightarrow> winds n r r'"
  using sane_flow [of r' r] graph_viewD(1) [OF graph_view_flow, of r' r] flow_partD(1) [of r' r]
  by (simp add: winds_def)

lemma sane_fit: "sane r \<Longrightarrow> n < length (w_nodes r) \<Longrightarrow> fit r n"
  by (simp add: sane_def fit_def graph_ok_def managers_ok_def)

lemma post_process_winds:
  assumes run: "post_process (runtime_env uc) n ts outs r = (outs', r')"
    and ok: "sane r" "n < length (w_nodes r)"
    and shards: "unended outs" "silent (w_net r) (node_managers r n) outs"
  shows "winds n r r'"
    "\<forall>m\<in>set (node_managers r n). \<not> om_closed (nt_oms (w_net r) ! m) \<longrightarrow>
       \<not> sh_closed (shard_at outs (port_of (w_net r) m)) \<Longrightarrow>
     m \<in> set (node_managers r n) \<Longrightarrow> om_closed (nt_oms (w_net r') ! m) = om_closed (nt_oms (w_net r) ! m)"
proof -
  let ?ms = "node_managers r n"
  have g: "graph_ok r" and wf: "omap_wf outs" using ok shards by (simp_all add: sane_def unended_def)
  note d = post_process_delivers [OF run g ok(2) wf shards(2)]
  have static: "graph_static r' = graph_static r" using d(1) by (simp add: delivered_def)
  note k = kept_post_process [OF run, unfolded kept_def, rule_format, OF sane_fit [OF ok]]
  have "ends_match (w_net r') \<and> (\<forall>k. k \<notin> set ?ms \<longrightarrow> nt_oms (w_net r') ! k = nt_oms (w_net r) ! k) \<and>
    ((\<forall>m\<in>set ?ms. \<not> om_closed (nt_oms (w_net r) ! m) \<longrightarrow> \<not> sh_closed (shard_at outs (port_of (w_net r) m))) \<longrightarrow>
       (\<forall>m\<in>set ?ms. om_closed (nt_oms (w_net r') ! m) = om_closed (nt_oms (w_net r) ! m)))"
  proof (cases "n_oh (w_nodes r ! n)")
    case None
    then have "r' = r" using run by (simp add: post_process_def)
    then show ?thesis using None ok by (simp add: node_managers_def sane_def)
  next
    case (Some h)
    obtain net evs where pp: "oh_PostProcess (w_ohs r ! h) ts outs (w_net r) = (outs', net, evs)"
      and r': "r' = run_events (runtime_env uc) evs (r\<lparr>w_net := net\<rparr>)"
      using run Some by (auto simp: post_process_def split: prod.splits)
    have ms: "oh_managers (w_ohs r ! h) = ?ms" using Some by (simp add: node_managers_def)
    have "flow_part r' = flow_part (r\<lparr>w_net := net\<rparr>)" unfolding r' by simp
    then have net: "w_net r' = net" by (drule_tac flow_partD(1)) simp
    have "net_ok (w_net r)" "managers_ok (w_net r) ?ms" using g ok(2) by (simp_all add: graph_ok_def)
    then show ?thesis
      unfolding net
      using propagate_all_ends [OF pp [unfolded oh_PostProcess_def oh_PropagateOutputPackets_def ms]] ok(1) shards
      by (simp add: sane_def)
  qed
  moreover have "graph_ok r'" "apart (w_net r')" "links_ok (w_net r')"
    using graph_ok_static(1) [OF static g] apart_static [OF graph_staticD(1) [OF static]] ok(1) k
    by (simp_all add: sane_def fit_def)
  ultimately show "winds n r r'"
    "\<forall>m\<in>set (node_managers r n). \<not> om_closed (nt_oms (w_net r) ! m) \<longrightarrow>
       \<not> sh_closed (shard_at outs (port_of (w_net r) m)) \<Longrightarrow>
     m \<in> set (node_managers r n) \<Longrightarrow> om_closed (nt_oms (w_net r') ! m) = om_closed (nt_oms (w_net r) ! m)"
    using static k by (simp_all add: winds_def sane_def)
qed

lemma close_outputs_winds:
  assumes ok: "sane r" "n < length (w_nodes r)" "omap_wf outs"
    and empty: "\<forall>m\<in>set (node_managers r n). sh_queue (shard_at outs (port_of (w_net r) m)) = []"
  shows "winds n r (close_outputs (runtime_env uc) n outs r)"
proof -
  let ?ms = "node_managers r n" and ?r' = "close_outputs (runtime_env uc) n outs r"
  have g: "graph_ok r" using ok by (simp add: sane_def)
  have static: "graph_static ?r' = graph_static r"
    by (rule graph_viewD(1) [OF close_outputs_view [OF g ok(2,3) empty]])
  note k = kept_close_outputs [of n r uc outs, unfolded kept_def, rule_format, OF sane_fit [OF ok(1,2)]]
  have "ends_match (w_net ?r') \<and> (\<forall>k. k \<notin> set ?ms \<longrightarrow> nt_oms (w_net ?r') ! k = nt_oms (w_net r) ! k)"
  proof (cases "n_oh (w_nodes r ! n)")
    case None
    then show ?thesis using ok(1) by (simp add: close_outputs_def sane_def)
  next
    case (Some h)
    obtain shs net evs where cl: "oh_Close (w_ohs r ! h) (Some outs) (w_net r) = (shs, net, evs)"
      by (meson prod_cases3)
    have ms: "oh_managers (w_ohs r ! h) = ?ms" using Some by (simp add: node_managers_def)
    have "flow_part ?r' = flow_part (r\<lparr>w_net := net\<rparr>)" using Some cl by (simp add: close_outputs_def)
    then have net: "w_net ?r' = net" by (drule_tac flow_partD(1)) simp
    have "net_ok (w_net r)" "\<forall>m\<in>set ?ms. m < length (nt_oms (w_net r))"
      using g ok(2) by (simp_all add: graph_ok_def managers_ok_def)
    then show ?thesis
      unfolding net using close_all_ends [OF cl [unfolded oh_Close_def ms]] ok empty by (simp add: sane_def)
  qed
  moreover have "graph_ok ?r'" "apart (w_net ?r')" "links_ok (w_net ?r')"
    using graph_ok_static(1) [OF static g] apart_static [OF graph_staticD(1) [OF static]] ok(1) k
    by (simp_all add: sane_def fit_def)
  ultimately show ?thesis using static k by (simp add: winds_def sane_def)
qed

text \<open>The inputs of node \<open>n\<close> are over: nothing is queued and every stream that feeds them is closed.\<close>

definition inputs_over :: "nat \<Rightarrow> ('v, 'u, 'z) runtime_scheme \<Rightarrow> bool" where
  "inputs_over n r \<longleftrightarrow> (\<forall>j\<in>snd ` set (n_input_ports (w_nodes r ! n)). queue_at (w_net r) j = [] \<and>
     (\<forall>k < length (nt_oms (w_net r)). j \<in> set (targets (w_net r) k) \<longrightarrow> om_closed (nt_oms (w_net r) ! k)))"

definition reads_bound :: "nat \<Rightarrow> ('v, 'u, 'z) runtime_scheme \<Rightarrow> bool" where
  "reads_bound n r \<longleftrightarrow> (\<forall>j\<in>snd ` set (n_input_ports (w_nodes r ! n)). j < length (nt_ims (w_net r)))"

lemma reads_bound_static:
  "graph_static r' = graph_static r \<Longrightarrow> n < length (w_nodes r) \<Longrightarrow> reads_bound n r' = reads_bound n r"
  using graph_staticD(1,6) [of r' r] net_staticD(3) [of "w_net r'" "w_net r"] by (simp add: reads_bound_def)

lemma inputs_over_keep:
  assumes "inputs_over n r" "graph_view r' = graph_view r" "keeps_closed (w_net r) (w_net r')"
    and "reads_bound n r" "n < length (w_nodes r)"
  shows "inputs_over n r'"
proof -
  note v = graph_viewD [OF assms(2)]
  note s = graph_staticD [OF v(1)] and net = net_staticD [OF graph_staticD(1) [OF v(1)]]
  show ?thesis
    unfolding inputs_over_def s(6) [OF assms(5)]
  proof (intro ballI conjI allI impI)
    fix j assume j: "j \<in> snd ` set (n_input_ports (w_nodes r ! n))"
    show "queue_at (w_net r') j = []" using j assms(1,4) v(2) unfolding inputs_over_def reads_bound_def by metis
    fix k assume k: "k < length (nt_oms (w_net r'))" "j \<in> set (targets (w_net r') k)"
    then have "om_closed (nt_oms (w_net r) ! k)" using j assms(1) net(2,5) unfolding inputs_over_def by metis
    then show "om_closed (nt_oms (w_net r') ! k)" using k assms(3) net(2) by (simp add: keeps_closed_def)
  qed
qed

lemma done_inputs_over:
  assumes "AllInputsDone n r" "sane r" "reads_bound n r"
  shows "inputs_over n r"
  unfolding inputs_over_def
proof (intro ballI conjI allI impI)
  fix j assume j: "j \<in> snd ` set (n_input_ports (w_nodes r ! n))"
  then have d: "ism_IsDone (nt_ims (w_net r) ! j)" using assms(1) by (auto simp: AllInputsDone_def input_managers_def)
  then show "queue_at (w_net r) j = []" by (simp add: ism_IsDone_def queue_at_def)
  fix k assume k: "k < length (nt_oms (w_net r))" "j \<in> set (targets (w_net r) k)"
  show "om_closed (nt_oms (w_net r) ! k)"
    using ends_matchD(3) [OF _ k(1) _ k(2)] d j assms(2,3) by (auto simp: ism_IsDone_def sane_def reads_bound_def)
qed

text \<open>The three ways a run ends; a run that closes a stream without being told to has its inputs over.\<close>

lemma run_ends_wind:
  fixes r :: "('v, 'u, 'z) runtime_scheme"
  assumes ok: "sane r" "n < length (w_nodes r)" "reads_bound n r"
    and shards: "unended outs" "silent (w_net r) (node_managers r n) outs"
  defines "told \<equiv> \<not> (\<forall>m\<in>set (node_managers r n). \<not> om_closed (nt_oms (w_net r) ! m) \<longrightarrow>
      \<not> sh_closed (shard_at outs (port_of (w_net r) m)))"
  shows "winds n r (run_stopped (runtime_env uc) q n ts outs r)"
    "winds n r (run_failed (runtime_env uc) q n ts st outs r)"
    "winds n r (run_completed (runtime_env uc) q n ts outs r)"
    "\<not> told \<Longrightarrow> m \<in> set (node_managers r n) \<Longrightarrow>
     om_closed (nt_oms (w_net (run_failed (runtime_env uc) q n ts st outs r)) ! m) = om_closed (nt_oms (w_net r) ! m)"
    "\<not> told \<Longrightarrow> m \<in> set (node_managers r n) \<Longrightarrow>
     om_closed (nt_oms (w_net (run_completed (runtime_env uc) q n ts outs r)) ! m) = om_closed (nt_oms (w_net r) ! m) \<or>
     inputs_over n (run_completed (runtime_env uc) q n ts outs r)"
proof -
  obtain outs1 r1 where pp: "post_process (runtime_env uc) n ts outs r = (outs1, r1)"
    by (cases "post_process (runtime_env uc) n ts outs r")
  have g: "graph_ok r" and wf: "omap_wf outs" using ok shards by (simp_all add: sane_def unended_def)
  note d = post_process_delivers [OF pp g ok(2) wf shards(2)]
  note w = post_process_winds [OF pp ok(1,2) shards]
  have static: "graph_static r1 = graph_static r" and sane1: "sane r1" using w(1) by (simp_all add: winds_def)
  have n1: "n < length (w_nodes r1)" using graph_staticD(3) [OF static] ok(2) by simp
  have ms1: "node_managers r1 n = node_managers r n" by (rule graph_ok_static(2) [OF static g ok(2)])
  have empty: "\<forall>m\<in>set (node_managers r1 n). sh_queue (shard_at outs1 (port_of (w_net r1) m)) = []" by (rule d(3))
  note step = winds_trans [OF w(1) _ ok(1,2)]
  have quiet: "om_closed (nt_oms (w_net r1) ! m) = om_closed (nt_oms (w_net r) ! m)"
    if "\<not> told" "m \<in> set (node_managers r n)"
    by (rule w(2)) (use that in \<open>unfold told_def, blast+\<close>)
  have failed: "flow_part (run_failed (runtime_env uc) q n ts st outs r) = flow_part r1"
    by (simp add: run_failed_def Let_def pp)
  show "winds n r (run_failed (runtime_env uc) q n ts st outs r)"
    by (rule step [OF winds_flow [OF failed sane1]])
  show "om_closed (nt_oms (w_net (run_failed (runtime_env uc) q n ts st outs r)) ! m) = om_closed (nt_oms (w_net r) ! m)"
    if "\<not> told" "m \<in> set (node_managers r n)"
    using quiet [OF that] flow_partD(1) [OF failed] by simp
  note c = close_outputs_winds [OF sane1 n1 d(2) empty, of uc]
  have c': "flow_part (run_stopped (runtime_env uc) q n ts outs r) = flow_part (close_outputs (runtime_env uc) n outs1 r1)"
    by (simp add: run_stopped_def Let_def pp)
  have "sane (close_outputs (runtime_env uc) n outs1 r1)" using c by (simp add: winds_def)
  then show "winds n r (run_stopped (runtime_env uc) q n ts outs r)"
    by (intro step winds_trans [OF c winds_flow [OF c'] sane1 n1])
  obtain act s where dec: "decide_finalize n (input_port_count (w_nodes r1 ! n) > 0)
      (input_port_count (w_nodes r1 ! n) > 0 \<and> AllInputsDone n r1) (w_queues r1 ! q) = (act, s)"
    by (meson surj_pair)
  let ?r4 = "perf_add (\<lambda>c. c\<lparr>pk_tasks_completed := pk_tasks_completed c + 1,
      pk_packets_processed := pk_packets_processed c + 1\<rparr>) q
      (upd_node n node_DecrementPending (upd_queue q (\<lambda>_. s) r1))"
  let ?r5 = "case act of kClose \<Rightarrow> close_outputs (runtime_env uc) n outs1 ?r4
      | kSchedule \<Rightarrow> reschedule n ?r4 | kNone \<Rightarrow> ?r4"
  let ?r' = "run_completed (runtime_env uc) q n ts outs r"
  have f': "flow_part ?r' = flow_part ?r5" by (simp add: run_completed_def Let_def pp dec)
  have f4: "flow_part ?r4 = flow_part r1" by simp
  have sane4: "sane ?r4" using sane_flow [OF f4] sane1 by simp
  note s4 = graph_viewD(1) [OF graph_view_flow [OF f4]]
  have n4: "n < length (w_nodes ?r4)" using graph_staticD(3) [OF s4] n1 by simp
  have g1: "graph_ok r1" using sane1 by (simp add: sane_def)
  have empty4: "\<forall>m\<in>set (node_managers ?r4 n). sh_queue (shard_at outs1 (port_of (w_net ?r4) m)) = []"
    using empty graph_ok_static(2) [OF s4 g1 n1] flow_partD(1) [OF f4] by simp
  note c4 = close_outputs_winds [OF sane4 n4 d(2) empty4, of uc]
  have w4: "winds n r1 ?r4" by (rule winds_flow [OF f4 sane1])
  have w5: "winds n r1 ?r5 \<and> (act \<noteq> kClose \<longrightarrow> flow_part ?r5 = flow_part r1)"
  proof (cases act)
    case kClose
    then show ?thesis using winds_trans [OF w4 c4 sane1 n1] by simp
  next
    case kSchedule
    then have "flow_part ?r5 = flow_part r1" by simp
    then show ?thesis using winds_flow [OF _ sane1] by blast
  qed (use w4 f4 in simp)
  then have "sane ?r5" by (simp add: winds_def)
  from winds_trans [OF conjunct1 [OF w5] winds_flow [OF f' this] sane1 n1]
  have w': "winds n r1 ?r'" .
  then show "winds n r ?r'" by (rule step)
  show "om_closed (nt_oms (w_net ?r') ! m) = om_closed (nt_oms (w_net r) ! m) \<or> inputs_over n ?r'"
    if t: "\<not> told" "m \<in> set (node_managers r n)"
  proof (cases "act = kClose")
    case False
    then have "flow_part ?r' = flow_part r1" using conjunct2 [OF w5] f' by (simp only: simp_thms)
    then have "w_net ?r' = w_net r1" by (rule flow_partD(1))
    then show ?thesis using quiet [OF t] by simp
  next
    case True
    have "AllInputsDone n r1"
      using dec True by (auto simp: decide_finalize_def Let_def split: if_splits)
    then have over: "inputs_over n r1"
      using done_inputs_over sane1 ok(2,3) reads_bound_static [OF static] by blast
    have "graph_view ?r5 = graph_view ?r4"
      using True close_outputs_view [OF _ n4 d(2) empty4] sane4 by (simp add: sane_def)
    then have v: "graph_view ?r' = graph_view r1"
      using graph_view_flow [OF f'] graph_view_flow [OF f4] by simp
    have "keeps_closed (w_net r1) (w_net ?r')" using w' unfolding winds_def by blast
    moreover have "reads_bound n r1" using reads_bound_static [OF static ok(2)] ok(3) by simp
    ultimately have "inputs_over n ?r'" by (intro inputs_over_keep [OF over v _ _ n1])
    then show ?thesis by simp
  qed
qed

lemma populate_bounds:
  "populate_inputs c ports (inputs, ims, ws) = (inputs', ims', ws') \<Longrightarrow>
   map ism_next_bound ims' = map ism_next_bound ims"
proof (induction c ports "(inputs, ims, ws)" arbitrary: inputs ims ws rule: populate_inputs.induct)
  case (2 c port m ports inputs ims ws)
  obtain s pkt d where pop: "ism_PopQueueHead (ims ! m) = (s, pkt, d)" by (meson prod_cases3)
  have "ism_next_bound s = ism_next_bound (ims ! m)"
    using pop by (auto simp: PopQueueHead_cases split: list.splits)
  then have "map ism_next_bound (ims[m := s]) = map ism_next_bound ims"
    by (cases "m < length ims") (simp_all add: map_update list_update_beyond list_update_same_conv)
  then show ?case using 2 pop by (simp add: Let_def split: if_splits)
qed simp

text \<open>What holds of the shards a node is given, and of those it returns.\<close>

lemma prepared_unended:
  assumes "managers_ok net (oh_managers h)"
  shows "unended (oh_PrepareOutputs h net [])"
proof -
  have step: "unended (oss_update p (osm_ResetShard o') ss)" if "unended ss" for p o' and ss :: "'a oshards"
    using that by (auto simp: unended_def oss_update_wf shard_at_update osm_ResetShard_def shard_Reset_def)
  have "unended (fold (\<lambda>i. oss_update (PortName (osm_Name (nt_oms net ! i))) (osm_ResetShard (nt_oms net ! i))) is ss)"
    if "unended ss" for "is" ss
    using that by (induction "is" arbitrary: ss) (simp_all add: step)
  then show ?thesis by (simp add: oh_PrepareOutputs_def unended_def shard_at_def oshard0_def)
qed

lemma RunNode_winds:
  fixes r :: "('v, 'u, 'z) runtime_scheme" and q :: nat
  assumes ok: "sane r" "n < length (w_nodes r)" "reads_bound n r" and uc: "respects_shards uc" "open_ended uc"
  defines "r' \<equiv> RunNode (runtime_env uc) q (Some n) False r"
  shows "winds n r r'"
    "steady uc n \<Longrightarrow> m \<in> set (node_managers r n) \<Longrightarrow>
     om_closed (nt_oms (w_net r') ! m) = om_closed (nt_oms (w_net r) ! m) \<or> inputs_over n r'"
proof -
  let ?node = "w_nodes r ! n" and ?c = "sq_timestamp_counter (w_queues r ! q)" and ?ms = "node_managers r n"
  obtain inputs ims ws where pop: "populate_inputs (n_contract ?node) (n_input_ports ?node)
      ([], nt_ims (w_net r), []) = (inputs, ims, ws)" by (meson prod_cases3)
  let ?r1 = "r\<lparr>w_net := (w_net r)\<lparr>nt_ims := ims\<rparr>\<rparr>"
  let ?r2 = "upd_queue q (\<lambda>s. s\<lparr>sq_timestamp_counter := to_i64 (?c + 1)\<rparr>) (?r1\<lparr>w_log := w_log r @ ws\<rparr>)"
  have bounds: "map ism_next_bound ims = map ism_next_bound (nt_ims (w_net r))" by (rule populate_bounds [OF pop])
  then have len: "length ims = length (nt_ims (w_net r))" by (rule map_eq_imp_length_eq)
  have nb: "ism_next_bound (ims ! j) = ism_next_bound (nt_ims (w_net r) ! j)" if "j < length ims" for j
    using arg_cong [OF bounds, of "\<lambda>xs. xs ! j"] that len by simp
  have static: "graph_static ?r1 = graph_static r"
    using run_frame(1) [OF pop] by (simp add: graph_static_def)
  have links: "links_ok (w_net ?r1) = links_ok (w_net r)"
    using same_linksD(1) [of "w_net r" "w_net ?r1"] populate_links [OF pop] by (simp add: same_links_def)
  have "ends_match (w_net ?r1)"
    using ok(1) nb len by (simp add: sane_def ends_match_def targets_def)
  moreover have "graph_ok ?r1" using graph_ok_static(1) [OF static] ok(1) by (simp add: sane_def)
  ultimately have sane1: "sane ?r1"
    using apart_static [OF graph_staticD(1) [OF static]] links ok(1) by (simp add: sane_def)
  have w1: "winds n r ?r1" using sane1 static by (simp add: winds_def)
  obtain start r3 where sc: "queue_scope_begin q ?r2 = (start, r3)" by (cases "queue_scope_begin q ?r2")
  define prepared where "prepared = (case n_oh ?node of None \<Rightarrow> [] | Some h \<Rightarrow> oh_PrepareOutputs (w_ohs r ! h) (w_net ?r1) [])"
  define ctx where "ctx = context_new (n_name ?node) (n_addr ?node) ''node'' (ts_of ?c) inputs prepared"
  obtain st ctx' u where pr: "uc_process uc n ctx (w_user r) = (st, ctx', u)" by (meson prod_cases3)
  let ?o = "cx_outputs ctx'" and ?w = "r3\<lparr>w_user := u\<rparr>"
  let ?e = "if IsStopStatus st then run_stopped (runtime_env uc) q n (ts_of ?c) ?o ?w
    else if \<not> st_ok st then run_failed (runtime_env uc) q n (ts_of ?c) st ?o ?w
    else run_completed (runtime_env uc) q n (ts_of ?c) ?o ?w"
  have user: "w_user r3 = w_user r" "w_nodes ?r2 = w_nodes r" "w_ohs ?r2 = w_ohs r" "w_net ?r2 = w_net ?r1"
    using sc queue_scope_begin_user(1) [of q ?r2] by (simp_all add: upd_queue_def)
  have run: "r' = queue_scope_end q ProcessEvent (n_name ?node) start ?e"
    using pop sc pr user
    by (simp add: r'_def RunNode_def run_process_def Let_def ctx_def prepared_def cong: option.case_cong)
  have fw: "flow_part ?w = flow_part ?r1" using sc flow_part_queue_locks(7) [of q ?r2] by simp
  have sane_w: "sane ?w" using sane_flow [OF fw] sane1 by simp
  have static_w: "graph_static ?w = graph_static r"
    using graph_viewD(1) [OF graph_view_flow [OF fw]] static by simp
  have net_w: "w_net ?w = w_net ?r1" by (rule flow_partD(1) [OF fw])
  have n_w: "n < length (w_nodes ?w)" using graph_staticD(3) [OF static_w] ok(2) by simp
  have g: "graph_ok r" using ok(1) by (simp add: sane_def)
  have ms_w: "node_managers ?w n = ?ms" by (rule graph_ok_static(2) [OF static_w g ok(2)])
  have bound_w: "reads_bound n ?w" using reads_bound_static [OF static_w ok(2)] ok(3) by simp
  have cx: "cx_outputs ctx = prepared" by (simp add: ctx_def context_new_def)
  have o': "?o = cx_outputs (fst (snd (uc_process uc n ctx (w_user r))))" using pr by simp
  have prep: "unended prepared" "m \<in> set ?ms \<Longrightarrow> sh_queue (shard_at prepared (port_of (w_net ?r1) m)) = [] \<and>
      sh_closed (shard_at prepared (port_of (w_net ?r1) m)) = om_closed (nt_oms (w_net r) ! m)" for m
  proof -
    have "managers_ok (w_net ?r1) ?ms"
      using g ok(2) managers_ok_static [OF graph_staticD(1) [OF static]] by (simp add: graph_ok_def)
    then have "unended prepared \<and> (\<forall>m\<in>set ?ms. sh_queue (shard_at prepared (port_of (w_net ?r1) m)) = [] \<and>
        sh_closed (shard_at prepared (port_of (w_net ?r1) m)) = om_closed (nt_oms (w_net r) ! m))"
    proof (cases "n_oh ?node")
      case None
      then show ?thesis by (simp add: prepared_def node_managers_def unended_def shard_at_def oshard0_def)
    next
      case (Some h)
      then have "managers_ok (w_net ?r1) (oh_managers (w_ohs r ! h))"
        using \<open>managers_ok (w_net ?r1) ?ms\<close> by (simp add: node_managers_def)
      from PrepareOutputs_shards [OF this] prepared_unended [OF this] show ?thesis
        using Some by (simp add: prepared_def node_managers_def)
    qed
    then show "unended prepared" "m \<in> set ?ms \<Longrightarrow> sh_queue (shard_at prepared (port_of (w_net ?r1) m)) = [] \<and>
        sh_closed (shard_at prepared (port_of (w_net ?r1) m)) = om_closed (nt_oms (w_net r) ! m)"
      by simp_all
  qed
  have un: "unended ?o" using uc(2) prep(1) unfolding open_ended_def o' by (metis cx)
  have path: "shard_path (shard_at prepared port) (shard_at ?o port)" for port
    using uc(1) prep(1) unfolding respects_shards_def o' unended_def by (metis cx)
  have sil: "silent (w_net ?w) (node_managers ?w n) ?o"
    using closed_shard [OF path] prep(2) unfolding ms_w net_w by (simp add: silent_def)
  note e = run_ends_wind [OF sane_w n_w bound_w un sil]
  have we: "winds n ?w ?e" using e(1-3) by simp
  have f': "flow_part r' = flow_part ?e" unfolding run by simp
  have "winds n ?w r'"
    using winds_trans [OF we winds_flow [OF f'] sane_w n_w] we by (simp add: winds_def)
  moreover have "winds n r ?w" using winds_trans [OF w1 winds_flow [OF fw sane1] ok(1,2)] .
  ultimately show "winds n r r'" using winds_trans ok(1,2) by blast
  show "om_closed (nt_oms (w_net r') ! m) = om_closed (nt_oms (w_net r) ! m) \<or> inputs_over n r'"
    if s: "steady uc n" and m: "m \<in> set ?ms"
  proof -
    have "\<not> IsStopStatus st" using s pr unfolding steady_def by (metis fst_conv)
    moreover have "sh_closed (shard_at ?o port) = sh_closed (shard_at prepared port)" for port
      using s prep(1) unfolding steady_def o' unended_def by (metis cx)
    then have "\<forall>m\<in>set (node_managers ?w n). \<not> om_closed (nt_oms (w_net ?w) ! m) \<longrightarrow>
        \<not> sh_closed (shard_at ?o (port_of (w_net ?w) m))"
      using prep(2) unfolding ms_w net_w by simp
    ultimately have "om_closed (nt_oms (w_net ?e) ! m) = om_closed (nt_oms (w_net r) ! m) \<or> inputs_over n ?e"
      using e(4) [of m uc q "ts_of ?c" st] e(5) [of m uc q "ts_of ?c"] m net_w ms_w by simp
    moreover have "inputs_over n ?e \<Longrightarrow> inputs_over n r'"
    proof (rule inputs_over_keep [OF _ graph_view_flow [OF f']])
      have s: "graph_static ?e = graph_static ?w" using we by (simp add: winds_def)
      show "keeps_closed (w_net ?e) (w_net r')" using flow_partD(1) [OF f'] by simp
      show "reads_bound n ?e" using reads_bound_static [OF s n_w] bound_w by simp
      show "n < length (w_nodes ?e)" using graph_staticD(3) [OF s] n_w by simp
    qed
    ultimately show ?thesis using flow_partD(1) [OF f'] by auto
  qed
qed

section \<open>Executions\<close>

lemma injected_bound: "sh_updated_bound (shard_AddPacket p (oshard_new m)) \<noteq> ts_Done"
  by (simp add: shard_AddPacket_def oshard_new_def oshard0_def shard_SetNextTimestampBound_def)

text \<open>An operation on the manager of a graph input and what it feeds.\<close>

lemma input_step_sane:
  assumes "sane r" "omap_get (rt_graph_inputs r) s = Some m" "graph_static r' = graph_static r"
    and net: "w_net r' = (w_net r)\<lparr>nt_ims := ims, nt_oms := (nt_oms (w_net r))[m := o1]\<rparr>"
    and o1: "om_mirrors o1 = om_mirrors (nt_oms (w_net r) ! m)"
    and ims: "map ism_arrival_cb ims = map ism_arrival_cb (nt_ims (w_net r))"
      "\<And>j. j < length (nt_ims (w_net r)) \<Longrightarrow> j \<notin> set (targets (w_net r) m) \<Longrightarrow> ims ! j = nt_ims (w_net r) ! j"
    and bound: "\<not> om_closed o1 \<Longrightarrow> om_next_bound o1 \<noteq> ts_Done \<and> \<not> os_offset_enabled (om_spec o1) \<and>
      (\<forall>j\<in>set (targets (w_net r) m). j < length (nt_ims (w_net r)) \<longrightarrow> ism_next_bound (ims ! j) \<noteq> ts_Done)"
  shows "sane r'"
proof -
  have m: "m < length (nt_oms (w_net r))" using assms(1,2) by (auto simp: sane_def graph_ok_def)
  have same: "same_links (w_net r) (w_net r')" unfolding net by (rule same_links_upd [OF ims(1) o1])
  have "links_ok (w_net r')" using same_linksD(1) [OF same] assms(1) by (simp add: sane_def)
  moreover have "ends_match (w_net r')"
    unfolding net using assms(1) map_eq_imp_length_eq [OF ims(1)]
    by (intro ends_match_upd [OF _ _ m o1 _ ims(2) bound]) (simp_all add: sane_def)
  ultimately show ?thesis
    using assms(1) graph_ok_static(1) [OF assms(3)] apart_static [OF graph_staticD(1) [OF assms(3)]]
    by (simp add: sane_def)
qed

lemma inputs_sane:
  assumes r: "sane r"
  shows "sane (snd (AddPacketToInputStream uc s p r))" "sane (snd (CloseInputStream uc s r))"
    "omap_get (rt_graph_inputs r) s \<noteq> Some k \<Longrightarrow>
     om_closed (nt_oms (w_net (snd (AddPacketToInputStream uc s p r))) ! k) = om_closed (nt_oms (w_net r) ! k)"
    "omap_get (rt_graph_inputs r) s \<noteq> Some k \<Longrightarrow>
     om_closed (nt_oms (w_net (snd (CloseInputStream uc s r))) ! k) = om_closed (nt_oms (w_net r) ! k)"
proof -
  let ?net = "w_net r" and ?add = "snd (AddPacketToInputStream uc s p r)" and ?close = "snd (CloseInputStream uc s r)"
  have g: "graph_ok r" "links_ok ?net" and ok: "net_ok ?net" "ends_match ?net"
    using r by (simp_all add: sane_def graph_ok_def)
  have m: "m < length (nt_oms ?net)" "distinct (mirror_targets (nt_ihs ?net) (om_mirrors (nt_oms ?net ! m)))"
    if "omap_get (rt_graph_inputs r) s = Some m" for m
    using that g(1) ok(1) by (auto simp: graph_ok_def net_ok_def targets_def)
  have same: "sane r'" if "graph_static r' = graph_static r" "w_net r' = ?net" for r' :: "('a, 'b, 'c) runtime_scheme"
    using that r graph_ok_static(1) [OF that(1)] by (simp add: sane_def)
  have add: "graph_static ?add = graph_static r"
    using AddPacket_delivers [OF prod.collapse [symmetric] g(1)] by (simp add: delivered_def)
  have close: "graph_static ?close = graph_static r"
    by (rule graph_viewD(1) [OF CloseInputStream_view [OF prod.collapse [symmetric] g(1)]])
  show "sane ?add"
  proof (cases "w_net ?add = ?net")
    case False
    then show ?thesis
    proof (rule AddPacket_net)
      fix m o1 sh1 ims1 evs
      assume i: "omap_get (rt_graph_inputs r) s = Some m" "\<not> om_closed (nt_oms ?net ! m)"
        and run: "osm_PropagateUpdatesToMirrors (nt_ihs ?net)
          (osm_ComputeOutputTimestampBound (shard_AddPacket p (oshard_new (Some m))) ts_Min (nt_oms ?net ! m))
          (shard_AddPacket p (oshard_new (Some m))) (nt_oms ?net ! m) (nt_ims ?net) = (o1, sh1, ims1, evs)"
        and net: "w_net ?add = ?net\<lparr>nt_ims := ims1, nt_oms := (nt_oms ?net)[m := o1]\<rparr>"
      note e = ends_matchD [OF ok(2) m(1) [OF i(1)] i(2)]
      note pe = Propagate_ends [OF run m(2) [OF i(1)]]
      note l = Propagate_links [OF run g(2) m(1) [OF i(1)]]
      show "sane ?add"
        by (rule input_step_sane [OF r i(1) add net l(1)])
          (use l(3) pe e bound_not_Done [OF e(1,2) injected_bound] in \<open>simp_all add: targets_def\<close>)
    qed
  qed (rule same [OF add])
  show "sane ?close"
  proof (cases "w_net ?close = ?net")
    case False
    then show ?thesis
    proof (rule CloseInput_net)
      fix m o1 ims1 evs
      assume i: "omap_get (rt_graph_inputs r) s = Some m"
        and run: "osm_Close (nt_ihs ?net) (nt_oms ?net ! m) (nt_ims ?net) = (o1, ims1, evs)"
        and net: "w_net ?close = ?net\<lparr>nt_ims := ims1, nt_oms := (nt_oms ?net)[m := o1]\<rparr>"
      note l = osm_Close_links [OF run g(2) m(1) [OF i] refl refl] and c = Close_ends [OF run]
      show "sane ?close"
        by (rule input_step_sane [OF r i close net c(1)]) (use l(3) c in \<open>simp_all add: targets_def\<close>)
    qed
  qed (rule same [OF close])
  show "om_closed (nt_oms (w_net ?add) ! k) = om_closed (nt_oms ?net ! k)" if "omap_get (rt_graph_inputs r) s \<noteq> Some k"
  proof (cases "w_net ?add = ?net")
    case False
    then show ?thesis by (rule AddPacket_net) (use that in auto)
  qed simp
  show "om_closed (nt_oms (w_net ?close) ! k) = om_closed (nt_oms ?net ! k)" if "omap_get (rt_graph_inputs r) s \<noteq> Some k"
  proof (cases "w_net ?close = ?net")
    case False
    then show ?thesis by (rule CloseInput_net) (use that in auto)
  qed simp
qed

text \<open>Queue \<open>j\<close> is over: empty, and every stream that feeds it is closed.\<close>

definition over :: "nat \<Rightarrow> ('v, 'u, 'z) runtime_scheme \<Rightarrow> bool" where
  "over j r \<longleftrightarrow> queue_at (w_net r) j = [] \<and>
     (\<forall>k < length (nt_oms (w_net r)). j \<in> set (targets (w_net r) k) \<longrightarrow> om_closed (nt_oms (w_net r) ! k))"

lemma over_step:
  assumes "over j r" "graph_static r' = graph_static r" "keeps_closed (w_net r) (w_net r')"
    and "queue_at (w_net r) j @ arrivals (w_net r) j sent = taken @ queue_at (w_net r') j"
    and "\<forall>(k, p)\<in>set sent. k < length (nt_oms (w_net r)) \<and> \<not> om_closed (nt_oms (w_net r) ! k)"
  shows "over j r'"
proof -
  note net = net_staticD [OF graph_staticD(1) [OF assms(2)]]
  have "arrivals (w_net r) j sent = []"
    using assms(1,5) by (fastforce simp: arrivals_def over_def filter_empty_conv)
  then have "queue_at (w_net r') j = []" using assms(1,4) by (simp add: over_def)
  then show ?thesis using assms(1,3) net(2,5) by (simp add: over_def keeps_closed_def)
qed

lemma sends_open:
  assumes "graph_ok r" "n < length (w_nodes r)" "respects_shards uc"
  shows "\<forall>(k, p)\<in>set (run_sent uc q n r). k < length (nt_oms (w_net r)) \<and> \<not> om_closed (nt_oms (w_net r) ! k)"
proof -
  have "k < length (nt_oms (w_net r))" if "(k, p) \<in> set (run_sent uc q n r)" for k p
    using bounded_sent(1) [OF assms(1,2), of uc q] that by (auto simp: bounded_def)
  moreover have "\<not> om_closed (nt_oms (w_net r) ! k)" if "(k, p) \<in> set (run_sent uc q n r)" for k p
    using run_silent [OF assms(1,2) _ assms(3), of k q] that by (auto simp: sent_on_def filter_empty_conv)
  ultimately show ?thesis by blast
qed

lemma injected_open:
  "graph_ok r \<Longrightarrow> \<forall>(k, p)\<in>set (injected s x r). k < length (nt_oms (w_net r)) \<and> \<not> om_closed (nt_oms (w_net r) ! k)"
  by (auto simp: injected_def graph_ok_def split: option.splits)

text \<open>
  The invariant: all that was taken has been computed and sent, and once the stream is closed
  nothing more can be taken.
\<close>

definition complete where
  "complete g j m sent taken r \<longleftrightarrow>
     contents (sent_on (Some m) sent) = concat (map g (contents (taken_from j taken))) \<and>
     (om_closed (nt_oms (w_net r) ! m) \<longrightarrow> over j r)"

lemma execution_completes:
  assumes exec: "execution uc r0 sent taken r" and start: "sound k l r0" "sane r0"
    and plug: "plugged r0 n inp j outp m" and begun: "\<not> om_closed (nt_oms (w_net r0) ! m)"
    and uc: "respects_shards uc" "open_ended uc" "steady uc n" "transforms uc n inp outp g"
  shows "sane r \<and> complete g j m sent taken r"
proof -
  have g0: "graph_ok r0" using start(2) by (simp add: sane_def)
  have state: "sound k l r \<and> graph_ok r \<and> plugged r n inp j outp m" if x: "execution uc r0 sent taken r" for sent taken r
  proof -
    have h: "sound k l r" "history uc r0 sent taken r" using execution_sound [OF x start(1) g0 uc(1)] by simp_all
    have s: "graph_static r = graph_static r0" using history_conserves [OF h(2) g0 uc(1)] by blast
    then show ?thesis using graph_ok_static(1) [OF s g0] plugged_static [OF s g0 plug] h(1) by simp
  qed
  have ims: "j < length (nt_ims (w_net r))" if "plugged r n inp j outp m" for r
  proof -
    have "(inp, j) \<in> set (n_input_ports (w_nodes r ! n))" using that by (auto simp: plugged_def intro: omap_get_in_set)
    then show ?thesis using that by (force simp: plugged_def reads_apart_def Let_def)
  qed
  have not_input: "omap_get (rt_graph_inputs r) s \<noteq> Some m" if "plugged r n inp j outp m" for r s
    using that by (simp add: plugged_def)
  show ?thesis
    using exec
  proof induction
    case Begin
    show ?case using start(2) begun by (simp add: complete_def)
  next
    case (Call sent taken r c)
    have v: "graph_static (api_call uc c r) = graph_static r" by (rule graph_viewD(1) [OF call_quiet])
    have "graph_ok (api_call uc c r)" using graph_ok_static(1) [OF v] state [OF Call.hyps] by blast
    then show ?case using Call.IH by (simp add: sane_def complete_def over_def call_net)
  next
    case (Inject sent taken r s p)
    let ?r' = "snd (AddPacketToInputStream uc s p r)"
    have st: "graph_ok r" "plugged r n inp j outp m" and sane: "sane r" and c: "complete g j m sent taken r"
      using state [OF Inject.hyps] Inject.IH by simp_all
    have "sent_on (Some m) (injected s p r) = []"
      using not_input [OF st(2), of s] by (auto simp: injected_def sent_on_def split: option.splits)
    moreover have "over j r \<Longrightarrow> over j ?r'"
    proof (rule over_step [where sent = "injected s p r" and taken = "[]"])
      have d: "delivered (injected s p r) r ?r'" by (rule AddPacket_delivers [OF prod.collapse [symmetric] st(1)])
      show "graph_static ?r' = graph_static r" using d by (simp add: delivered_def)
      show "keeps_closed (w_net r) (w_net ?r')" using inputs_keep_closed(1) [OF st(1)] sane by (simp add: sane_def)
      show "queue_at (w_net r) j @ arrivals (w_net r) j (injected s p r) = [] @ queue_at (w_net ?r') j"
        using d ims [OF st(2)] by (simp add: delivered_def)
      show "\<forall>(k, p)\<in>set (injected s p r). k < length (nt_oms (w_net r)) \<and> \<not> om_closed (nt_oms (w_net r) ! k)"
        by (rule injected_open [OF st(1)])
    qed
    ultimately show ?case
      using c inputs_sane(1,3) [OF sane] not_input [OF st(2)] by (simp add: complete_def)
  next
    case (CloseInput sent taken r s)
    let ?r' = "snd (CloseInputStream uc s r)"
    have st: "graph_ok r" "plugged r n inp j outp m" and sane: "sane r" and c: "complete g j m sent taken r"
      using state [OF CloseInput.hyps] CloseInput.IH by simp_all
    note v = graph_viewD [OF CloseInputStream_view [OF prod.collapse [symmetric] st(1), of uc s]]
    have "over j r \<Longrightarrow> over j ?r'"
    proof (rule over_step [where sent = "[]" and taken = "[]"])
      show "graph_static ?r' = graph_static r" by (rule v(1))
      show "keeps_closed (w_net r) (w_net ?r')" using inputs_keep_closed(2) [OF st(1)] sane by (simp add: sane_def)
      show "queue_at (w_net r) j @ arrivals (w_net r) j [] = [] @ queue_at (w_net ?r') j"
        using v(2) [OF ims [OF st(2)]] by (simp add: arrivals_def)
    qed simp_all
    then show ?case
      using c inputs_sane(2,4) [OF sane] not_input [OF st(2)] by (simp add: complete_def)
  next
    case (Worker sent taken r e)
    have st: "sound k l r" "graph_ok r" "plugged r n inp j outp m" and sane: "sane r" and c: "complete g j m sent taken r"
      using state [OF Worker.hyps(1)] Worker.IH by simp_all
    let ?r' = "worker_step (runtime_env uc) e r"
    note cases = worker_cases [OF st(1) Worker.hyps(2), of uc]
    show ?case
    proof (cases "worker_run e r")
      case None
      then have f: "flow_part ?r' = flow_part r" using cases by simp
      then show ?thesis
        using c sane sane_flow [OF f] flow_partD(1) [OF f] None
        by (simp add: worker_sent_def worker_taken_def complete_def over_def)
    next
      case (Some x)
      then obtain q i r1 where x: "x = (q, i, r1)" by (cases x)
      let ?run = "RunNode (runtime_env uc) q (Some i) False r1"
      have f: "i < k" "flow_part r1 = flow_part r" "w_nodes r1 = w_nodes r" "flow_part ?r' = flow_part ?run"
        using cases Some x by simp_all
      have s1: "graph_static r1 = graph_static r" "w_net r1 = w_net r"
        using graph_viewD(1) [OF graph_view_flow [OF f(2)]] flow_partD(1) [OF f(2)] by simp_all
      have ok1: "graph_ok r1" "plugged r1 n inp j outp m" "sane r1"
        using graph_ok_static(1) [OF s1(1)] plugged_static [OF s1(1)] st sane_flow [OF f(2)] sane by blast+
      have i: "i < length (w_nodes r1)" using f(1,3) soundD(1) [OF st(1)] by simp
      have bound: "reads_bound i r1"
        using ok1(2) i by (simp add: plugged_def reads_apart_def reads_bound_def Let_def)
      note w = RunNode_winds [OF ok1(3) i bound uc(1,2), where q = q]
      have net': "w_net ?r' = w_net ?run" and sane': "sane ?r'"
        using flow_partD(1) [OF f(4)] sane_flow [OF f(4)] w(1) by (simp_all add: winds_def)
      have moved: "worker_sent uc e r = run_sent uc q i r1" "worker_taken e r = run_taken i r1"
        using Some x by (simp_all add: worker_sent_def worker_taken_def)
      have keep: "over j r \<Longrightarrow> over j ?r'"
      proof (rule over_step [where sent = "run_sent uc q i r1" and taken = "taken_from j (run_taken i r1)"])
        show "graph_static ?r' = graph_static r"
          using graph_viewD(1) [OF graph_view_flow [OF f(4)]] w(1) s1(1) by (simp add: winds_def)
        show "keeps_closed (w_net r) (w_net ?r')" using w(1) net' s1(2) by (simp add: winds_def)
        show "queue_at (w_net r) j @ arrivals (w_net r) j (run_sent uc q i r1) =
            taken_from j (run_taken i r1) @ queue_at (w_net ?r') j"
          using RunNode_flow(2) [OF ok1(1) i uc(1), of j q] ims [OF ok1(2)] net' s1(2) by simp
        show "\<forall>(k, p)\<in>set (run_sent uc q i r1). k < length (nt_oms (w_net r)) \<and> \<not> om_closed (nt_oms (w_net r) ! k)"
          using sends_open [OF ok1(1) i uc(1), of q] s1(2) by simp
      qed
      have "complete g j m (sent @ run_sent uc q i r1) (taken @ run_taken i r1) ?r'"
      proof (cases "i = n")
        case False
        have "m \<notin> set (node_managers r1 i)" using ok1(2) i False by (simp add: plugged_def)
        then have "om_closed (nt_oms (w_net ?r') ! m) = om_closed (nt_oms (w_net r) ! m)"
          using w(1) net' s1(2) by (simp add: winds_def)
        then show ?thesis using c keep run_other [OF ok1(1,2) i False] by (simp add: complete_def)
      next
        case True
        show ?thesis
        proof (cases "om_closed (nt_oms (w_net r) ! m)")
          case closed: True
          then have o': "over j r" using c by (simp add: complete_def)
          have "reads_apart r1 n" "queue_at (w_net r1) j = []"
            using ok1(2) o' s1(2) by (simp_all add: plugged_def over_def)
          then have "taken_from j (run_taken n r1) = []"
            using taken_head [of "n_input_ports (w_nodes r1 ! n)" "nt_ims (w_net r1)" j]
            unfolding reads_apart_def Let_def run_taken_def queue_at_def by simp
          then show ?thesis
            using c o' keep closed run_silent [OF ok1(1) i _ uc(1), of m q] s1(2) True by (simp add: complete_def)
        next
          case open': False
          have "(inp, j) \<in> set (n_input_ports (w_nodes r1 ! n))" "m \<in> set (node_managers r1 n)"
            using ok1(2) by (auto simp: plugged_def intro: omap_get_in_set)
          moreover have "om_closed (nt_oms (w_net ?run) ! m) = om_closed (nt_oms (w_net r1) ! m) \<or> inputs_over n ?run"
            using w(2) [of m] uc(3) True calculation(2) by simp
          moreover have "inputs_over n ?run \<Longrightarrow> (inp, j) \<in> set (n_input_ports (w_nodes ?run ! n)) \<Longrightarrow> over j ?r'"
            unfolding inputs_over_def over_def net' by force
          moreover have "n_input_ports (w_nodes ?run ! n) = n_input_ports (w_nodes r1 ! n)"
            using w(1) i True graph_staticD(6) by (metis winds_def)
          ultimately have "om_closed (nt_oms (w_net ?r') ! m) \<longrightarrow> over j ?r'"
            using open' net' s1(2) by metis
          moreover have "contents (sent_on (Some m) (run_sent uc q n r1)) =
              concat (map g (contents (taken_from j (run_taken n r1))))"
            by (rule run_computes [OF ok1(1,2) uc(4)]) (use open' s1(2) in simp)
          ultimately show ?thesis using c True by (simp add: complete_def)
        qed
      qed
      then show ?thesis using sane' by (simp add: moved)
    qed
  qed
qed

section \<open>From the initialised graph\<close>

lemma Initialize_sane:
  assumes init: "Initialize reg addr hw clock config options
      (GraphRuntime_new u :: ('v, 'u) runtime) = (st, r)" "st_ok st"
      "\<forall>d\<in>set (gc_nodes config). distinct (map PortName (nd_output_streams d))"
  shows "sane r" "m < length (edge_sources config) \<Longrightarrow> \<not> om_closed (nt_oms (w_net r) ! m)"
proof -
  note inv = Initialize_inv [OF init] and net = Initialize_net [OF init(1,2)]
  have len: "length (nt_oms (w_net r)) = length (edge_sources config)" using net by blast
  have t: "targets (w_net r) m =
      (if edge_sources config ! m \<in> set (drop (Suc m) (edge_sources config)) then []
       else filter (\<lambda>j. edge_sinks config ! j = edge_sources config ! m) [0..<length (edge_sinks config)])"
    if "m < length (edge_sources config)" for m
    using net that unfolding targets_def by blast
  have osm: "fresh_osm (nt_oms (w_net r) ! m)" if "m < length (edge_sources config)" for m
    using inv that len by (simp add: wiring_inv_def)
  have ism: "fresh_ism (nt_ims (w_net r) ! j)" if "j < length (nt_ims (w_net r))" for j
    using inv that by (simp add: wiring_inv_def)
  show "\<not> om_closed (nt_oms (w_net r) ! m)" if "m < length (edge_sources config)"
    using osm [OF that] by (simp add: fresh_osm_def)
  have "ends_match (w_net r)" using osm ism len by (simp add: ends_match_def fresh_osm_def fresh_ism_def)
  moreover have "apart (w_net r)"
    unfolding apart_def len
  proof (intro allI impI)
    fix m k assume mk: "m < length (edge_sources config)" "k < length (edge_sources config)" "m \<noteq> k"
    have later: "edge_sources config ! b \<in> set (drop (Suc a) (edge_sources config))"
      if "a < b" "b < length (edge_sources config)" for a b
      using that nth_mem [of "b - Suc a" "drop (Suc a) (edge_sources config)"] by (simp add: Suc_le_eq)
    show "set (targets (w_net r) m) \<inter> set (targets (w_net r) k) = {}"
      using t [OF mk(1)] t [OF mk(2)] later [of m k] later [of k m] mk by (auto simp: neq_iff)
  qed
  ultimately show "sane r"
    using Initialize_graph(1) [OF init] soundD(5) [OF Initialize_sound [OF init(1,2)]] by (simp add: sane_def)
qed

text \<open>A node that reads streams leaves their ends to the runtime.\<close>

definition settled :: "graph_config \<Rightarrow> ('v, 'u) user_code \<Rightarrow> bool" where
  "settled config uc \<longleftrightarrow> open_ended uc \<and>
     (\<forall>i < length (gc_nodes config). nd_input_streams (gc_nodes config ! i) \<noteq> [] \<longrightarrow> steady uc i)"

lemma node_completes:
  assumes init: "Initialize reg addr hw clock config options
      (GraphRuntime_new u :: ('v, 'u) runtime) = (st, r0)" "st_ok st"
      "\<forall>d\<in>set (gc_nodes config). distinct (map PortName (nd_output_streams d))"
    and uc: "respects_shards uc" "settled config uc" and exec: "execution uc r0 sent taken r"
    and i: "i < length (gc_nodes config)" "d = gc_nodes config ! i"
    and edges: "a < length (nd_input_streams d)" "b < length (nd_output_streams d)"
      "distinct (map PortName (nd_input_streams d))"
    and g: "transforms uc i (PortName (nd_input_streams d ! a)) (PortName (nd_output_streams d ! b)) g"
  shows "contents (sent_on (Some (out_edge config i b)) sent) =
    concat (map g (contents (taken_from (in_edge config i a) taken)))"
proof -
  have "steady uc i" "open_ended uc" using uc(2) i edges(1) by (auto simp: settled_def)
  moreover have "\<not> om_closed (nt_oms (w_net r0) ! out_edge config i b)"
    by (rule Initialize_sane(2) [OF init])
      (use edge_bounds(2) [OF i edges(2)] in \<open>simp add: edge_sources_def\<close>)
  ultimately show ?thesis
    using execution_completes [OF exec Initialize_sound [OF init(1,2)] Initialize_sane(1) [OF init]
        Initialize_plugged [OF init(1,2) i edges] _ uc(1) _ _ g]
    by (simp add: complete_def)
qed

lemma pipeline_complete:
  assumes pipe: "pipeline config uc j f m"
    and init: "Initialize reg addr hw clock config options
      (GraphRuntime_new u :: ('v, 'u) runtime) = (st, r0)" "st_ok st"
      "\<forall>d\<in>set (gc_nodes config). distinct (map PortName (nd_output_streams d))"
    and uc: "respects_shards uc" "settled config uc" and exec: "execution uc r0 sent taken r"
    and empty: "\<forall>s\<in>set (nt_ims (w_net r)). ism_queue s = []"
  shows "contents (sent_on (Some m) sent) = concat (map f (contents (sent_on (producer config j) sent)))"
  using pipe
proof induction
  case (Node i d a b g)
  then show ?case
    using node_completes [OF init uc exec Node.hyps]
      in_flow(2) [OF init uc(1) exec edge_bounds(1) [OF Node.hyps(1-3)] empty] by simp
next
  case (Join j f m k g m')
  then show ?case by (simp add: concat_map_concat_map)
qed

section \<open>Properties\<close>


end
