(* ===== verification/Evaluation.thy ===== *)
theory Evaluation
  imports Executions
begin

text \<open>
  Code equations for evaluating runs of the runtime in the kernel. The functions that thread the state
  through a chain of local definitions are evaluated stage by stage: every stage is a function of the
  value of the one before, so that a state is computed once and not once for each of its uses.
\<close>

section \<open>Initialising\<close>

definition profile_stage :: "int list \<Rightarrow> graph_config \<Rightarrow> ('v, 'u, 'z) runtime_scheme \<Rightarrow> ('v, 'u, 'z) runtime_scheme" where
  "profile_stage clock config r =
     sc_SetProfiler (Some (pf_Initialize (gc_profiler_config config) (map n_name (w_nodes r))
       (pf_SetClock clock profiler_new))) r"

definition total_stage :: "('v, 'u, 'z) runtime_scheme \<Rightarrow> ('v, 'u, 'z) runtime_scheme" where
  "total_stage r = sc_SetTotalGraphInputStreams (rt_num_open r) r"

definition outputs_stage ::
  "graph_config \<Rightarrow> managers_of \<times> ('v, 'u, 'z) runtime_scheme \<Rightarrow> managers_of \<times> ('v, 'u, 'z) runtime_scheme" where
  "outputs_stage config p =
     (fst p, fold init_node_outputs (gc_nodes config)
        (total_stage (fold count_graph_input (gc_input_streams config) (snd p))))"

definition callbacks_stage ::
  "graph_config \<Rightarrow> managers_of \<times> ('v, 'u, 'z) runtime_scheme \<Rightarrow> managers_of \<times> ('v, 'u, 'z) runtime_scheme" where
  "callbacks_stage config p = (fst p, fold (wire_node_callbacks (fst p)) (gc_nodes config) (snd p))"

definition handlers_stage ::
  "graph_config \<Rightarrow> managers_of \<times> ('v, 'u, 'z) runtime_scheme \<Rightarrow> ('v, 'u, 'z) runtime_scheme" where
  "handlers_stage config p = fold (init_node_handler (fst p)) (gc_nodes config) (snd p)"

definition sources_stage ::
  "graph_config \<Rightarrow> ('v, 'u, 'z) runtime_scheme \<Rightarrow> (string, nat) omap \<times> ('v, 'u, 'z) runtime_scheme" where
  "sources_stage config r =
     fold add_graph_input (gc_input_streams config) (fold (node_outputs r) (gc_nodes config) [], r)"

definition mirrors_stage ::
  "graph_config \<Rightarrow> (string, nat) omap \<times> ('v, 'u, 'z) runtime_scheme \<Rightarrow> ('v, 'u, 'z) runtime_scheme" where
  "mirrors_stage config p = fold (wire_node_mirrors (fst p)) (gc_nodes config) (snd p)"

lemma wire_graph_stages [code]:
  "wire_graph clock config r =
     mirrors_stage config (sources_stage config (handlers_stage config (callbacks_stage config
       (outputs_stage config (fold init_node_inputs (gc_nodes config)
         ([], profile_stage clock config (sc_SetNodes [0..<length (w_nodes r)] r)))))))"
  by (simp add: wire_graph_def Let_def profile_stage_def total_stage_def outputs_stage_def
      callbacks_stage_def handlers_stage_def sources_stage_def mirrors_stage_def case_prod_unfold)

section \<open>Running a node\<close>

definition decide_stage ::
  "nat \<Rightarrow> nat \<Rightarrow> 'v oshards \<times> ('v, 'u, 'z) qworld_scheme \<Rightarrow>
     'v oshards \<times> ('v, 'u, 'z) qworld_scheme \<times> bool \<times> finalize_action \<times> sq" where
  "decide_stage q n p =
     (fst p, snd p, input_port_count (w_nodes (snd p) ! n) > 0,
      decide_finalize n (input_port_count (w_nodes (snd p) ! n) > 0)
        (input_port_count (w_nodes (snd p) ! n) > 0 \<and> AllInputsDone n (snd p)) (w_queues (snd p) ! q))"

fun count_stage ::
  "nat \<Rightarrow> nat \<Rightarrow> 'v oshards \<times> ('v, 'u, 'z) qworld_scheme \<times> bool \<times> finalize_action \<times> sq \<Rightarrow>
     'v oshards \<times> bool \<times> finalize_action \<times> ('v, 'u, 'z) qworld_scheme" where
  "count_stage q n (outs, w, has_inputs, action, s) =
     (outs, has_inputs, action,
      perf_add (\<lambda>c. c\<lparr>pk_tasks_completed := pk_tasks_completed c + 1,
                      pk_packets_processed := pk_packets_processed c + 1\<rparr>) q
        (upd_node n node_DecrementPending (upd_queue q (\<lambda>_. s) w)))"

fun act_stage ::
  "('v, 'u, ('v, 'u, 'z) qworld_scheme) env \<Rightarrow> nat \<Rightarrow>
     'v oshards \<times> bool \<times> finalize_action \<times> ('v, 'u, 'z) qworld_scheme \<Rightarrow>
     bool \<times> finalize_action \<times> ('v, 'u, 'z) qworld_scheme" where
  "act_stage env n (outs, has_inputs, kClose, w) = (has_inputs, kClose, close_outputs env n outs w)"
| "act_stage env n (outs, has_inputs, kSchedule, w) = (has_inputs, kSchedule, reschedule n w)"
| "act_stage env n (outs, has_inputs, kNone, w) = (has_inputs, kNone, w)"

fun pending_stage ::
  "nat \<Rightarrow> bool \<times> finalize_action \<times> ('v, 'u, 'z) qworld_scheme \<Rightarrow>
     bool \<times> finalize_action \<times> ('v, 'u, 'z) qworld_scheme" where
  "pending_stage n (has_inputs, action, w) =
     (has_inputs, action, (if has_inputs \<and> HasPendingInput n w then reschedule n w else w))"

fun source_stage ::
  "nat \<Rightarrow> bool \<times> finalize_action \<times> ('v, 'u, 'z) qworld_scheme \<Rightarrow>
     bool \<times> finalize_action \<times> ('v, 'u, 'z) qworld_scheme" where
  "source_stage n (has_inputs, action, w) =
     (has_inputs, action, (if \<not> has_inputs then reschedule n w else w))"

fun done_stage ::
  "nat \<Rightarrow> nat \<Rightarrow> bool \<times> finalize_action \<times> ('v, 'u, 'z) qworld_scheme \<Rightarrow> ('v, 'u, 'z) qworld_scheme" where
  "done_stage q n (has_inputs, action, w) =
     (if has_inputs \<and> action \<noteq> kSchedule \<and> \<not> sq_IsFinalized n (w_queues w ! q)
      then if AllInputsDone n w then reschedule n w else w
      else w)"

lemma run_completed_stages [code]:
  "run_completed env q n ts outputs w =
     done_stage q n (source_stage n (pending_stage n (act_stage env n (count_stage q n
       (decide_stage q n (post_process env n ts outputs w))))))"
proof -
  obtain outs1 w1 where post: "post_process env n ts outputs w = (outs1, w1)" by (cases "post_process env n ts outputs w")
  let ?has = "input_port_count (w_nodes w1 ! n) > 0"
  obtain action s where act: "decide_finalize n ?has (?has \<and> AllInputsDone n w1) (w_queues w1 ! q) = (action, s)"
    by (cases "decide_finalize n ?has (?has \<and> AllInputsDone n w1) (w_queues w1 ! q)")
  show ?thesis
    by (cases action)
      (simp_all only: run_completed_def decide_stage_def post prod.case fst_conv snd_conv act Let_def
        count_stage.simps act_stage.simps pending_stage.simps source_stage.simps done_stage.simps
        finalize_action.case)
qed

definition context_stage ::
  "nat \<Rightarrow> nat \<Rightarrow> timestamp \<Rightarrow> 'v ishards \<Rightarrow> ('v, 'u, 'z) qworld_scheme \<Rightarrow>
     'v context' \<times> int \<times> ('v, 'u, 'z) qworld_scheme" where
  "context_stage q n ts inputs w =
     (context_new (n_name (w_nodes w ! n)) (n_addr (w_nodes w ! n)) ''node'' ts inputs
        (case n_oh (w_nodes w ! n) of
           None \<Rightarrow> [] | Some h \<Rightarrow> oh_PrepareOutputs (w_ohs w ! h) (w_net w) []),
      queue_scope_begin q w)"

fun process_stage ::
  "('v, 'u, ('v, 'u, 'z) qworld_scheme) env \<Rightarrow> nat \<Rightarrow> 'v context' \<times> int \<times> ('v, 'u, 'z) qworld_scheme \<Rightarrow>
     int \<times> (status \<times> 'v context' \<times> 'u) \<times> ('v, 'u, 'z) qworld_scheme" where
  "process_stage env n (ctx, start, w) = (start, en_process env n ctx (w_user w), w)"

fun outcome_stage ::
  "('v, 'u, ('v, 'u, 'z) qworld_scheme) env \<Rightarrow> nat \<Rightarrow> nat \<Rightarrow> timestamp \<Rightarrow> status \<Rightarrow> bool \<Rightarrow> bool \<Rightarrow>
     'v oshards \<Rightarrow> ('v, 'u, 'z) qworld_scheme \<Rightarrow> ('v, 'u, 'z) qworld_scheme" where
  "outcome_stage env q n ts st True ok outs w = run_stopped env q n ts outs w"
| "outcome_stage env q n ts st False False outs w = run_failed env q n ts st outs w"
| "outcome_stage env q n ts st False True outs w = run_completed env q n ts outs w"

fun finish_stage ::
  "('v, 'u, ('v, 'u, 'z) qworld_scheme) env \<Rightarrow> nat \<Rightarrow> nat \<Rightarrow> timestamp \<Rightarrow>
     int \<times> (status \<times> 'v context' \<times> 'u) \<times> ('v, 'u, 'z) qworld_scheme \<Rightarrow> int \<times> ('v, 'u, 'z) qworld_scheme" where
  "finish_stage env q n ts (start, (st, ctx, u), w) =
     (start, outcome_stage env q n ts st (IsStopStatus st) (st_ok st) (cx_outputs ctx) (w\<lparr>w_user := u\<rparr>))"

definition scope_stage ::
  "nat \<Rightarrow> string \<Rightarrow> int \<times> ('v, 'u, 'z) qworld_scheme \<Rightarrow> ('v, 'u, 'z) qworld_scheme" where
  "scope_stage q name p = queue_scope_end q ProcessEvent name (fst p) (snd p)"

lemma run_process_stages [code]:
  "run_process env q n ts inputs w =
     scope_stage q (n_name (w_nodes w ! n))
       (finish_stage env q n ts (process_stage env n (context_stage q n ts inputs w)))"
proof -
  obtain start w1 where scope: "queue_scope_begin q w = (start, w1)" by (cases "queue_scope_begin q w")
  obtain st ctx u where p: "en_process env n (fst (context_stage q n ts inputs w)) (w_user w1) = (st, ctx, u)"
    by (cases "en_process env n (fst (context_stage q n ts inputs w)) (w_user w1)")
  show ?thesis
    using p by (cases "IsStopStatus st"; cases "st_ok st")
      (simp_all add: run_process_def context_stage_def scope scope_stage_def Let_def)
qed

definition inputs_stage ::
  "nat \<Rightarrow> ('v, 'u, 'z) qworld_scheme \<Rightarrow> ('v ishards \<times> 'v ism list \<times> 'v log_event list) \<times> ('v, 'u, 'z) qworld_scheme" where
  "inputs_stage n w =
     (populate_inputs (n_contract (w_nodes w ! n)) (n_input_ports (w_nodes w ! n)) ([], nt_ims (w_net w), []), w)"

fun taken_stage ::
  "('v ishards \<times> 'v ism list \<times> 'v log_event list) \<times> ('v, 'u, 'z) qworld_scheme \<Rightarrow> 'v ishards \<times> ('v, 'u, 'z) qworld_scheme" where
  "taken_stage ((inputs, ims, warnings), w) =
     (inputs, w\<lparr>w_net := (w_net w)\<lparr>nt_ims := ims\<rparr>, w_log := w_log w @ warnings\<rparr>)"

fun step_stage ::
  "('v, 'u, ('v, 'u, 'z) qworld_scheme) env \<Rightarrow> nat \<Rightarrow> nat \<Rightarrow> bool \<Rightarrow>
     'v ishards \<times> ('v, 'u, 'z) qworld_scheme \<Rightarrow> ('v, 'u, 'z) qworld_scheme" where
  "step_stage env q n True (inputs, w) = run_open env q n inputs w"
| "step_stage env q n False (inputs, w) =
     run_process env q n (ts_of (sq_timestamp_counter (w_queues w ! q))) inputs
       (upd_queue q (\<lambda>s. s\<lparr>sq_timestamp_counter :=
          to_i64 (sq_timestamp_counter (w_queues w ! q) + 1)\<rparr>) w)"

lemma RunNode_stages [code]:
  "RunNode env q None is_open w = w"
  "RunNode env q (Some n) is_open w = step_stage env q n is_open (taken_stage (inputs_stage n w))"
  by (cases is_open; simp add: RunNode_def inputs_stage_def Let_def split: prod.split)+

section \<open>A worker\<close>

fun task_stage ::
  "('v, 'u, ('v, 'u, 'z) qworld_scheme) env \<Rightarrow> nat \<Rightarrow> item option \<times> ('v, 'u, 'z) qworld_scheme \<Rightarrow>
     ('v, 'u, 'z) qworld_scheme" where
  "task_stage env q (None, w) = UpdateIdleState env q (NoItem_locked q w)"
| "task_stage env q (Some i, w) = OnTaskFinished env q (RunNode env q (it_node i) (it_is_open i) w)"

fun pool_stage ::
  "('v, 'u, ('v, 'u, 'z) qworld_scheme) env \<Rightarrow> nat \<Rightarrow> ('v, 'u, 'z) qworld_scheme \<Rightarrow>
     (nat option \<times> pool) option \<Rightarrow> ('v, 'u, 'z) qworld_scheme" where
  "pool_stage env e w None = w"
| "pool_stage env e w (Some (None, p)) = w"
| "pool_stage env e w (Some (Some q, p)) = RunNextTask env q (w\<lparr>w_pools := (w_pools w)[e := p]\<rparr>)"

lemma worker_stages [code]:
  "RunNextTask env q w = task_stage env q (TryPop q w)"
  "worker_step env e w = pool_stage env e w (pool_take (w_pools w ! e))"
  by (auto simp: RunNextTask_def worker_step_def split: prod.split option.split)

section \<open>Idling\<close>

definition error_stage :: "('v, 'u, 'z) world_scheme \<Rightarrow> ('v, 'u, 'z) world_scheme" where
  "error_stage w =
     (if sc_has_error w then report_error (Status CInternal ''Graph execution error'') w else w)"

fun drain_stage ::
  "bool \<Rightarrow> ('v, 'u, 'z) world_scheme \<Rightarrow> drain_status \<times> ('v, 'u, 'z) world_scheme" where
  "drain_stage remaining w =
     (if sc_active_sources w = [] \<and> \<not> sc_has_error w \<and> \<not> remaining \<and> sc_state w \<noteq> kCancelling
      then sc_DrainInputQueues w else (kDrained, w))"

fun end_stage ::
  "('v, 'u) user_code \<Rightarrow> ('v, 'u, 'z) world_scheme \<Rightarrow> bool \<Rightarrow> ('v, 'u, 'z) world_scheme" where
  "end_stage uc w True = (stop_profiler (sc_CloseAllNodes uc (error_stage w)))\<lparr>sc_state := kTerminated\<rparr>"
| "end_stage uc w False =
     (if sc_active_sources w \<noteq> [] then fold reschedule (map snd (sc_active_sources w)) w else w)"

fun quit_stage ::
  "('v, 'u) user_code \<Rightarrow> bool \<Rightarrow> bool \<Rightarrow> drain_status \<times> ('v, 'u, 'z) world_scheme \<Rightarrow> ('v, 'u, 'z) world_scheme" where
  "quit_stage uc no_more remaining (drained, w) =
     (if drained = kScheduled then w else end_stage uc w (sc_has_error w \<or> no_more \<and> \<not> remaining))"

definition sources_cleared :: "('v, 'u, 'z) world_scheme \<Rightarrow> ('v, 'u, 'z) world_scheme" where
  "sources_cleared w = (if sc_state w = kCancelling then w\<lparr>sc_active_sources := []\<rparr> else w)"

lemma idle_pass_stages [code]:
  "idle_pass uc w =
     quit_stage uc (sc_active_sources (sources_cleared w) = []) (inputs_remaining w)
       (drain_stage (inputs_remaining w) (sources_cleared w))"
  by (cases "sc_DrainInputQueues (sources_cleared w)")
    (auto simp: idle_pass_def Let_def sources_cleared_def error_stage_def)

fun guard_stage ::
  "('v, 'u) user_code \<Rightarrow> ('v, 'u, 'z) world_scheme \<Rightarrow> bool \<Rightarrow> ('v, 'u, 'z) world_scheme" where
  "guard_stage uc w True = add_handling (-1) w"
| "guard_stage uc w False = add_handling (-1) (idle_body uc w)"

definition handling_stage :: "('v, 'u) user_code \<Rightarrow> ('v, 'u, 'z) world_scheme \<Rightarrow> ('v, 'u, 'z) world_scheme" where
  "handling_stage uc w = guard_stage uc w (sc_handling_idle w > 1)"

lemma HandleIdle_stages [code]: "sc_HandleIdle uc w = handling_stage uc (add_handling 1 w)"
  by (simp add: sc_HandleIdle_def handling_stage_def Let_def)

section \<open>Executions as programs\<close>

text \<open>A sequence of calls and worker tasks, run one after the other; it keeps what was sent and taken.\<close>

datatype 'v step = Do "'v call" | Add string "'v packet" | End string | Work nat

fun take_step ::
  "('v, 'u) user_code \<Rightarrow> 'v step \<Rightarrow>
     (nat \<times> 'v packet) list \<times> (nat \<times> 'v packet) list \<times> ('v, 'u, 'z) runtime_scheme \<Rightarrow>
     (nat \<times> 'v packet) list \<times> (nat \<times> 'v packet) list \<times> ('v, 'u, 'z) runtime_scheme" where
  "take_step uc (Do c) (sent, taken, r) = (sent, taken, api_call uc c r)"
| "take_step uc (Add s p) (sent, taken, r) =
     (sent @ injected s p r, taken, snd (AddPacketToInputStream uc s p r))"
| "take_step uc (End s) (sent, taken, r) = (sent, taken, snd (CloseInputStream uc s r))"
| "take_step uc (Work e) (sent, taken, r) =
     (if e < length (w_pools r)
      then (sent @ worker_sent uc e r, taken @ worker_taken e r, worker_step (runtime_env uc) e r)
      else (sent, taken, r))"

fun run_steps ::
  "('v, 'u) user_code \<Rightarrow> 'v step list \<Rightarrow>
     (nat \<times> 'v packet) list \<times> (nat \<times> 'v packet) list \<times> ('v, 'u, 'z) runtime_scheme \<Rightarrow>
     (nat \<times> 'v packet) list \<times> (nat \<times> 'v packet) list \<times> ('v, 'u, 'z) runtime_scheme" where
  "run_steps uc [] x = x"
| "run_steps uc (s # ss) x = run_steps uc ss (take_step uc s x)"

lemma take_step_execution:
  assumes "execution uc r0 sent taken r" "take_step uc s (sent, taken, r) = (sent', taken', r')"
  shows "execution uc r0 sent' taken' r'"
  using assms by (cases s) (auto split: if_splits intro: execution.intros)

lemma run_steps_execution:
  assumes "execution uc r0 sent taken r" "run_steps uc ss (sent, taken, r) = (sent', taken', r')"
  shows "execution uc r0 sent' taken' r'"
  using assms
proof (induction ss arbitrary: sent taken r)
  case (Cons s ss)
  obtain s1 t1 r1 where s: "take_step uc s (sent, taken, r) = (s1, t1, r1)" by (metis prod_cases3)
  then show ?case using Cons.IH [OF take_step_execution [OF Cons.prems(1) s]] Cons.prems(2) by simp
qed simp

lemmas steps_execution = run_steps_execution [OF execution.Begin]

end
