(* ===== verification/String_Pipeline.thy ===== *)
theory String_Pipeline
  imports Delivery
begin

text \<open>
  \<open>examples/string_pipeline.cc\<close>: three nodes (a producer, an upper-case transformer, a consumer) and
  the driver that opens them, hands packets from one to the next, and closes them. The members of
  the nodes, the lines they log and the next free heap address are one record; the name \<open>typeid\<close>
  gives \<open>std::string\<close> is the one of the Itanium ABI (any name would do).
\<close>

section \<open>State\<close>

definition std_string :: string where
  "std_string = ''NSt7__cxx1112basic_stringIcSt11char_traitsIcESaIcEEE''"

record pipeline =
  pl_sent :: int
  pl_total :: int
  pl_result :: "string list"
  pl_log :: "string list"
  pl_heap :: nat

definition pipeline0 :: pipeline where
  "pipeline0 = \<lparr>pl_sent = 0, pl_total = 5, pl_result = [], pl_log = [], pl_heap = 0\<rparr>"

definition log_info :: "string \<Rightarrow> 'z pipeline_scheme \<Rightarrow> 'z pipeline_scheme" where
  "log_info line u = u\<lparr>pl_log := pl_log u @ [line]\<rparr>"

text \<open>\<open>MakePacket<std::string>\<close> allocates a holder; \<open>Get<std::string>\<close> of a shard reads its first packet.\<close>

definition make_string :: "string \<Rightarrow> 'z pipeline_scheme \<Rightarrow> string packet \<times> 'z pipeline_scheme" where
  "make_string s u = (MakePacket (pl_heap u) std_string s, u\<lparr>pl_heap := pl_heap u + 1\<rparr>)"

definition ishard_Get :: "string \<Rightarrow> 'v ishard \<Rightarrow> 'v status_or" where
  "ishard_Get ty s = p_Get ty (ishard_Value s)"

definition dquoted :: "string \<Rightarrow> string" where
  "dquoted s = [CHR 0x22] @ s @ [CHR 0x22]"

text \<open>\<open>std::toupper\<close> in the C locale.\<close>

definition to_upper :: "char \<Rightarrow> char" where
  "to_upper c =
     (if of_char CHR ''a'' \<le> (of_char c :: nat) \<and> (of_char c :: nat) \<le> of_char CHR ''z''
      then char_of ((of_char c :: nat) - 32) else c)"

section \<open>The nodes\<close>

text \<open>Every method takes its context and the state, and returns its status and both.\<close>

type_synonym 'z node_method =
  "string context' \<Rightarrow> 'z pipeline_scheme \<Rightarrow> status \<times> string context' \<times> 'z pipeline_scheme"

definition cx_put :: "string \<Rightarrow> 'v packet \<Rightarrow> 'v context' \<Rightarrow> 'v context'" where
  "cx_put port p c = c\<lparr>cx_outputs := oss_update port (shard_AddPacket p) (cx_outputs c)\<rparr>"

definition cx_get :: "string \<Rightarrow> 'v context' \<Rightarrow> 'v ishard \<times> 'v context'" where
  "cx_get port c = (let (s, ins) = iss_Get port (cx_inputs c) in (s, c\<lparr>cx_inputs := ins\<rparr>))"

definition declare_input :: "string \<Rightarrow> string \<Rightarrow> node_contract \<Rightarrow> node_contract" where
  "declare_input port ty c =
     (let (p, s) = pts_Get port (ct_inputs c) in c\<lparr>ct_inputs := omap_put port (pt_Set ty p) s\<rparr>)"

definition declare_output :: "string \<Rightarrow> string \<Rightarrow> node_contract \<Rightarrow> node_contract" where
  "declare_output port ty c =
     (let (p, s) = pts_Get port (ct_outputs c) in c\<lparr>ct_outputs := omap_put port (pt_Set ty p) s\<rparr>)"

definition StringProducer_GetContract :: "node_contract \<Rightarrow> status \<times> node_contract" where
  "StringProducer_GetContract c =
     (ok_status, declare_output ''output'' std_string c)"

definition StringUppercase_GetContract :: "node_contract \<Rightarrow> status \<times> node_contract" where
  "StringUppercase_GetContract c =
     (ok_status, declare_output ''output'' std_string (declare_input ''input'' std_string c))"

definition StringConsumer_GetContract :: "node_contract \<Rightarrow> status \<times> node_contract" where
  "StringConsumer_GetContract c = (ok_status, declare_input ''input'' std_string c)"

definition StringProducer_Open :: "'z node_method" where
  "StringProducer_Open ctx u = (ok_status, ctx, log_info ''[PRODUCER] Open'' u)"

definition StringProducer_Process :: "'z node_method" where
  "StringProducer_Process ctx u =
     (if pl_sent u \<ge> pl_total u then (StatusStop, ctx, log_info ''[PRODUCER] Done'' u)
      else
        let payload = ''hello_'' @ dec_of_int (pl_sent u);
            (p, u1) = make_string payload u;
            ctx1 = cx_put ''output'' (p_At (cx_timestamp ctx) p) ctx;
            u2 = log_info (''[PRODUCER] Sent '' @ dquoted payload) u1
        in (ok_status, ctx1, u2\<lparr>pl_sent := pl_sent u2 + 1\<rparr>))"

definition StringProducer_Close :: "'z node_method" where
  "StringProducer_Close ctx u =
     (ok_status, ctx, log_info (''[PRODUCER] Close, sent='' @ dec_of_int (pl_sent u)) u)"

definition StringUppercase_Open :: "'z node_method" where
  "StringUppercase_Open ctx u = (ok_status, ctx, log_info ''[TRANSFORMER] Open'' u)"

definition StringUppercase_Process :: "'z node_method" where
  "StringUppercase_Process ctx u =
     (let (shard, ctx1) = cx_get ''input'' ctx
      in if ishard_IsEmpty shard then (ok_status, ctx1, u)
         else case ishard_Get std_string shard of
                Inl _ \<Rightarrow> (ok_status, ctx1, u)
              | Inr r \<Rightarrow>
                  let up = map to_upper r; (p, u1) = make_string up u
                  in (ok_status, cx_put ''output'' (p_At (cx_timestamp ctx1) p) ctx1,
                      log_info (''[TRANSFORMER] '' @ dquoted r @ '' -> '' @ dquoted up) u1))"

definition StringUppercase_Close :: "'z node_method" where
  "StringUppercase_Close ctx u = (ok_status, ctx, log_info ''[TRANSFORMER] Close'' u)"

definition StringConsumer_Open :: "'z node_method" where
  "StringConsumer_Open ctx u = (ok_status, ctx, log_info ''[CONSUMER] Open'' u)"

definition StringConsumer_Process :: "'z node_method" where
  "StringConsumer_Process ctx u =
     (let (shard, ctx1) = cx_get ''input'' ctx
      in if ishard_IsEmpty shard then (ok_status, ctx1, u)
         else case ishard_Get std_string shard of
                Inl _ \<Rightarrow> (ok_status, ctx1, u)
              | Inr r \<Rightarrow>
                  (ok_status, ctx1, log_info (''[CONSUMER] Received '' @ dquoted r)
                     (u\<lparr>pl_result := pl_result u @ [r]\<rparr>)))"

definition StringConsumer_Close :: "'z node_method" where
  "StringConsumer_Close ctx u =
     (ok_status, ctx,
      log_info (''[CONSUMER] Close, received='' @ dec_of_int (int (length (pl_result u)))) u)"

section \<open>The driver\<close>

text \<open>Taking the first packet of an output port's queue, when there is one.\<close>

definition take_output :: "string \<Rightarrow> 'v oshards \<Rightarrow> 'v packet" where
  "take_output port outs =
     (case sh_queue (fst (oss_Get port outs)) of [] \<Rightarrow> Packet0 | p # _ \<Rightarrow> p)"

definition run_method ::
  "unit node_method \<Rightarrow> string \<Rightarrow> int \<Rightarrow> string \<Rightarrow> timestamp \<Rightarrow> string ishards \<Rightarrow> pipeline \<Rightarrow>
     status \<times> string oshards \<times> pipeline" where
  "run_method f name sid ty ts ins u =
     (let (st, ctx, u1) = f (context_new name sid ty ts ins []) u in (st, cx_outputs ctx, u1))"

fun process_rounds :: "int list \<Rightarrow> pipeline \<Rightarrow> pipeline" where
  "process_rounds [] u = u"
| "process_rounds (i # is) u =
     (let ts = ts_of i;
          (status, po, u1) = run_method StringProducer_Process ''p'' 1 ''SP'' ts [] u
      in if IsStopStatus status then u1
         else
           let pkt = take_output ''output'' po
           in if p_IsEmpty pkt then u1
              else
                let ti = iss_update ''input'' (ishard_PushPacket pkt) [];
                    (_, to, u2) = run_method StringUppercase_Process ''t'' 2 ''SU'' ts ti u1;
                    tp = take_output ''output'' to
                in if p_IsEmpty tp then process_rounds is u2
                   else
                     let ci = iss_update ''input'' (ishard_PushPacket tp) [];
                         (_, _, u3) = run_method StringConsumer_Process ''c'' 3 ''SC'' ts ci u2
                     in process_rounds is u3)"

definition run_phase :: "timestamp \<Rightarrow> unit node_method \<Rightarrow> unit node_method \<Rightarrow> unit node_method \<Rightarrow> pipeline \<Rightarrow> pipeline" where
  "run_phase ts p t c u =
     (let (_, _, u1) = run_method p ''p'' 1 ''SP'' ts [] u;
          (_, _, u2) = run_method t ''t'' 2 ''SU'' ts [] u1;
          (_, _, u3) = run_method c ''c'' 3 ''SC'' ts [] u2
      in u3)"

definition string_pipeline_main :: pipeline where
  "string_pipeline_main =
     (let u0 = log_info ''=== String Pipeline (RunOnce) ==='' pipeline0;
          u1 = run_phase ts_Unstarted StringProducer_Open StringUppercase_Open StringConsumer_Open
                 (log_info ''--- Open ---'' u0);
          u2 = process_rounds [0..9] (log_info ''--- Process ---'' u1);
          u3 = run_phase ts_Done StringProducer_Close StringUppercase_Close StringConsumer_Close
                 (log_info ''--- Close ---'' u2)
      in log_info ''=== Done ==='' u3)"

section \<open>One round\<close>

lemma log_info_simps [simp]:
  "pl_sent (log_info s u) = pl_sent u" "pl_total (log_info s u) = pl_total u"
  "pl_result (log_info s u) = pl_result u" "pl_heap (log_info s u) = pl_heap u"
  by (simp_all add: log_info_def)

lemma cx_simps [simp]:
  "cx_outputs (context_new n i t ts ins outs) = outs" "cx_inputs (context_new n i t ts ins outs) = ins"
  "cx_timestamp (context_new n i t ts ins outs) = ts"
  by (simp_all add: context_new_def)

lemma take_put: "\<not> p_IsEmpty p \<Longrightarrow> take_output port (oss_update port (shard_AddPacket p) []) = p"
  by (simp add: take_output_def oss_update_def oss_Get_def omap_get_put shard_AddPacket_def oshard0_def)

lemma get_pushed:
  "iss_Get port (iss_update port (ishard_PushPacket p) []) =
     (ishard0\<lparr>is_queue := [p]\<rparr>, iss_update port (ishard_PushPacket p) [])"
  by (simp add: iss_Get_def iss_update_def omap_get_put ishard_PushPacket_def ishard0_def)

lemma make_string_packet: "\<not> p_IsEmpty (p_At ts (fst (make_string s u)))"
  by (simp add: make_string_def)

lemma producer_round:
  assumes "pl_sent u < pl_total u"
  shows "\<exists>p u1. run_method StringProducer_Process n i t ts ins u =
      (ok_status, oss_update ''output'' (shard_AddPacket p) [], u1) \<and> \<not> p_IsEmpty p \<and>
    p_Get std_string p = Inr (''hello_'' @ dec_of_int (pl_sent u)) \<and>
    pl_sent u1 = pl_sent u + 1 \<and> pl_total u1 = pl_total u \<and> pl_result u1 = pl_result u"
  using assms
  by (auto simp: run_method_def StringProducer_Process_def Let_def make_string_def cx_put_def
      p_Get_def MakePacket_def p_IsEmpty_def)

lemma uppercase_round:
  assumes "\<not> p_IsEmpty p" "p_Get std_string p = Inr s"
  shows "\<exists>st p' u1. run_method StringUppercase_Process n i t ts
        (iss_update ''input'' (ishard_PushPacket p) []) u =
      (st, oss_update ''output'' (shard_AddPacket p') [], u1) \<and> \<not> p_IsEmpty p' \<and>
    p_Get std_string p' = Inr (map to_upper s) \<and>
    pl_sent u1 = pl_sent u \<and> pl_total u1 = pl_total u \<and> pl_result u1 = pl_result u"
  using assms
  by (auto simp: run_method_def StringUppercase_Process_def Let_def make_string_def cx_put_def cx_get_def
      get_pushed ishard_IsEmpty_def ishard_Get_def ishard_Value_def p_Get_def MakePacket_def p_IsEmpty_def)

lemma consumer_round:
  assumes "\<not> p_IsEmpty p" "p_Get std_string p = Inr s"
  shows "\<exists>st outs u1. run_method StringConsumer_Process n i t ts
        (iss_update ''input'' (ishard_PushPacket p) []) u = (st, outs, u1) \<and>
    pl_sent u1 = pl_sent u \<and> pl_total u1 = pl_total u \<and> pl_result u1 = pl_result u @ [s]"
  using assms
  by (auto simp: run_method_def StringConsumer_Process_def Let_def cx_get_def
      get_pushed ishard_IsEmpty_def ishard_Get_def ishard_Value_def p_IsEmpty_def)

lemma full_round:
  assumes "pl_sent u < pl_total u"
  shows "\<exists>u'. process_rounds (i # is) u = process_rounds is u' \<and> pl_sent u' = pl_sent u + 1 \<and>
    pl_total u' = pl_total u \<and>
    pl_result u' = pl_result u @ [map to_upper (''hello_'' @ dec_of_int (pl_sent u))]"
proof -
  obtain p u1 where p: "run_method StringProducer_Process ''p'' 1 ''SP'' (ts_of i) [] u =
      (ok_status, oss_update ''output'' (shard_AddPacket p) [], u1)" "\<not> p_IsEmpty p"
    "p_Get std_string p = Inr (''hello_'' @ dec_of_int (pl_sent u))"
    "pl_sent u1 = pl_sent u + 1" "pl_total u1 = pl_total u" "pl_result u1 = pl_result u"
    using producer_round [OF assms] by blast
  obtain st p' u2 where t: "run_method StringUppercase_Process ''t'' 2 ''SU'' (ts_of i)
      (iss_update ''input'' (ishard_PushPacket p) []) u1 =
      (st, oss_update ''output'' (shard_AddPacket p') [], u2)" "\<not> p_IsEmpty p'"
    "p_Get std_string p' = Inr (map to_upper (''hello_'' @ dec_of_int (pl_sent u)))"
    "pl_sent u2 = pl_sent u1" "pl_total u2 = pl_total u1" "pl_result u2 = pl_result u1"
    using uppercase_round [OF p(2,3)] by blast
  obtain st' outs u3 where c: "run_method StringConsumer_Process ''c'' 3 ''SC'' (ts_of i)
      (iss_update ''input'' (ishard_PushPacket p') []) u2 = (st', outs, u3)"
    "pl_sent u3 = pl_sent u2" "pl_total u3 = pl_total u2"
    "pl_result u3 = pl_result u2 @ [map to_upper (''hello_'' @ dec_of_int (pl_sent u))]"
    using consumer_round [OF t(2,3)] by blast
  have "process_rounds (i # is) u = process_rounds is u3"
    using p(1,2) t(1,2) c(1) by (simp add: take_put Let_def)
  then show ?thesis using p(4-6) t(4-6) c(2-4) by auto
qed

lemma last_round: "\<not> pl_sent u < pl_total u \<Longrightarrow> pl_result (process_rounds is u) = pl_result u"
  by (cases "is") (simp_all add: run_method_def StringProducer_Process_def)

section \<open>Properties\<close>

text \<open>
  C29: the pipeline of \<open>string_pipeline.cc\<close> delivers what it produces: after any number of rounds the
  consumer holds, in order and once each, the upper-cased payloads of the packets the producer sent
  in those rounds, and the producer sends one a round until its total is reached. The program's ten
  rounds give the consumer HELLO_0 to HELLO_4.
\<close>

theorem string_pipeline_result:
  "pl_result (process_rounds is u) = pl_result u @
     map (\<lambda>k. map to_upper (''hello_'' @ dec_of_int k))
       [pl_sent u..min (pl_total u) (pl_sent u + int (length is)) - 1] \<and>
   pl_result string_pipeline_main = [''HELLO_0'', ''HELLO_1'', ''HELLO_2'', ''HELLO_3'', ''HELLO_4'']"
proof
  show "pl_result (process_rounds is u) = pl_result u @
     map (\<lambda>k. map to_upper (''hello_'' @ dec_of_int k))
       [pl_sent u..min (pl_total u) (pl_sent u + int (length is)) - 1]"
  proof (induction "is" arbitrary: u)
    case (Cons i "is")
    show ?case
    proof (cases "pl_sent u < pl_total u")
      case True
      obtain u' where u': "process_rounds (i # is) u = process_rounds is u'" "pl_sent u' = pl_sent u + 1"
        "pl_total u' = pl_total u"
        "pl_result u' = pl_result u @ [map to_upper (''hello_'' @ dec_of_int (pl_sent u))]"
        using full_round [OF True] by blast
      have "[pl_sent u..min (pl_total u) (pl_sent u + int (length (i # is))) - 1] =
          pl_sent u # [pl_sent u + 1..min (pl_total u) (pl_sent u + 1 + int (length is)) - 1]"
        using True by (subst upto_rec1) (auto simp: algebra_simps)
      then show ?thesis unfolding u'(1) using Cons.IH [of u'] u'(2-4) by simp
    next
      case False
      then show ?thesis by (simp add: last_round [OF False] del: process_rounds.simps)
    qed
  qed simp
  show "pl_result string_pipeline_main = [''HELLO_0'', ''HELLO_1'', ''HELLO_2'', ''HELLO_3'', ''HELLO_4'']"
    by code_simp
qed

end
