(* ===== verification/Demo_Graphs.thy ===== *)
theory Demo_Graphs
  imports Completion Evaluation String_Pipeline
begin

text \<open>
  The nodes of the example programs that run on the runtime itself, and the graphs they run in:
  \<open>EchoNode\<close> of \<open>examples/interactive_pipeline.cc\<close>, \<open>DemoConsumer\<close> of \<open>examples/add_packet_demo.cc\<close>,
  \<open>DemoCounterNode\<close> of \<open>examples/async_pipeline_demo.cc\<close> and \<open>ProfiledWorkNode\<close> of
  \<open>examples/profiler_demo.cc\<close>. A node's code is chosen by its type, as its factory does. The members of
  the nodes are the state of \<open>String_Pipeline\<close> and the counter of \<open>DemoCounterNode\<close> (one node of each
  class in a graph); every line a node logs, whatever its level, is an entry of the log.
\<close>

section \<open>The nodes\<close>

record demo_state = pipeline +
  dm_count :: int

type_synonym demo_method = "string context' \<Rightarrow> demo_state \<Rightarrow> status \<times> string context' \<times> demo_state"

definition demo_state0 :: demo_state where
  "demo_state0 = pipeline.extend pipeline0 \<lparr>dm_count = 0\<rparr>"

text \<open>\<open>EchoNode\<close>. The dash of its warning is a character of three bytes.\<close>

definition EchoNode_GetContract :: "node_contract \<Rightarrow> status \<times> node_contract" where
  "EchoNode_GetContract c =
     (ok_status, declare_output ''output_stream'' std_string (declare_input ''input_stream'' std_string c))"

definition EchoNode_Process :: demo_method where
  "EchoNode_Process ctx u =
     (let (shard, ctx1) = cx_get ''input_stream'' ctx
      in if ishard_IsEmpty shard
         then (ok_status, ctx1,
               log_info (''[echo] empty input '' @ [CHR 0xE2, CHR 0x80, CHR 0x94] @ '' skipping'') u)
         else case ishard_Get std_string shard of
                Inl _ \<Rightarrow> (ok_status, ctx1, u)
              | Inr val \<Rightarrow>
                  let (p, u1) = make_string val (log_info (''[echo] received: '' @ val) u)
                  in (ok_status, cx_put ''output_stream'' p ctx1, u1))"

text \<open>\<open>DemoConsumer\<close>\<close>

definition DemoConsumer_GetContract :: "node_contract \<Rightarrow> status \<times> node_contract" where
  "DemoConsumer_GetContract c = (ok_status, declare_input ''input'' std_string c)"

definition DemoConsumer_Process :: demo_method where
  "DemoConsumer_Process ctx u = (ok_status, ctx, u)"

text \<open>\<open>DemoCounterNode\<close>: its counter is an \<open>int\<close>.\<close>

definition DemoCounterNode_GetContract :: "node_contract \<Rightarrow> status \<times> node_contract" where
  "DemoCounterNode_GetContract c = (ok_status, declare_input ''in'' std_string c)"

definition DemoCounterNode_Process :: demo_method where
  "DemoCounterNode_Process ctx u = (ok_status, ctx, u\<lparr>dm_count := to_i32 (dm_count u + 1)\<rparr>)"

definition DemoCounterNode_Close :: demo_method where
  "DemoCounterNode_Close ctx u =
     (ok_status, ctx, log_info (''[counter] Close, received='' @ dec_of_int (dm_count u)) u)"

text \<open>\<open>ProfiledWorkNode\<close>: its busy wait of five milliseconds has no effect on the state.\<close>

definition ProfiledWorkNode_GetContract :: "node_contract \<Rightarrow> status \<times> node_contract" where
  "ProfiledWorkNode_GetContract c = (ok_status, declare_output ''out'' std_string c)"

definition ProfiledWorkNode_Open :: demo_method where
  "ProfiledWorkNode_Open ctx u = (ok_status, ctx, log_info ''[WorkNode] Open'' u)"

definition ProfiledWorkNode_Process :: demo_method where
  "ProfiledWorkNode_Process ctx u =
     (if pl_sent u \<ge> pl_total u then (StatusStop, ctx, log_info ''[WorkNode] Done'' u)
      else
        let (p, u1) = make_string (''packet_'' @ dec_of_int (pl_sent u)) u
        in (ok_status, cx_put ''out'' (p_At (cx_timestamp ctx) p) ctx, u1\<lparr>pl_sent := pl_sent u1 + 1\<rparr>))"

definition ProfiledWorkNode_Close :: demo_method where
  "ProfiledWorkNode_Close ctx u =
     (ok_status, ctx, log_info (''[WorkNode] Close, sent='' @ dec_of_int (pl_sent u)) u)"

section \<open>The programs\<close>

definition quiet_method :: demo_method where
  "quiet_method ctx u = (ok_status, ctx, u)"

definition demo_open :: "string \<Rightarrow> demo_method" where
  "demo_open ty = (if ty = ''ProfiledWorkNode'' then ProfiledWorkNode_Open else quiet_method)"

definition demo_process :: "string \<Rightarrow> demo_method" where
  "demo_process ty =
     (if ty = ''EchoNode'' then EchoNode_Process
      else if ty = ''DemoConsumer'' then DemoConsumer_Process
      else if ty = ''DemoCounterNode'' then DemoCounterNode_Process
      else if ty = ''ProfiledWorkNode'' then ProfiledWorkNode_Process
      else quiet_method)"

definition demo_close :: "string \<Rightarrow> demo_method" where
  "demo_close ty =
     (if ty = ''DemoCounterNode'' then DemoCounterNode_Close
      else if ty = ''ProfiledWorkNode'' then ProfiledWorkNode_Close
      else quiet_method)"

definition type_at :: "graph_config \<Rightarrow> nat \<Rightarrow> string" where
  "type_at config n = (if n < length (gc_nodes config) then nd_type (gc_nodes config ! n) else [])"

definition demo_code :: "graph_config \<Rightarrow> (string, demo_state) user_code" where
  "demo_code config =
     \<lparr>uc_open = (\<lambda>n. demo_open (type_at config n)), uc_process = (\<lambda>n. demo_process (type_at config n)),
      uc_close = (\<lambda>n. demo_close (type_at config n))\<rparr>"

definition example_registry :: registry where
  "example_registry =
     fold (\<lambda>(name, f) reg. snd (rg_Register name \<lparr>f_GetContract = f\<rparr> reg))
       [(''EchoNode'', EchoNode_GetContract), (''DemoConsumer'', DemoConsumer_GetContract),
        (''DemoCounterNode'', DemoCounterNode_GetContract), (''ProfiledWorkNode'', ProfiledWorkNode_GetContract)]
       registry0"

definition interactive_config :: graph_config where
  "interactive_config = graph_config0\<lparr>gc_input_streams := [''input_stream''],
     gc_nodes := [node_def0\<lparr>nd_name := ''echo'', nd_type := ''EchoNode'',
       nd_input_streams := [''input_stream''], nd_output_streams := [''output_stream'']\<rparr>]\<rparr>"

definition add_packet_config :: graph_config where
  "add_packet_config = graph_config0\<lparr>gc_input_streams := [''input''],
     gc_nodes := [node_def0\<lparr>nd_name := ''consumer'', nd_type := ''DemoConsumer'',
       nd_input_streams := [''input''], nd_max_in_flight := 0\<rparr>]\<rparr>"

definition async_config :: graph_config where
  "async_config = graph_config0\<lparr>gc_input_streams := [''in''],
     gc_nodes := [node_def0\<lparr>nd_name := ''counter'', nd_type := ''DemoCounterNode'',
       nd_input_streams := [''in''], nd_max_in_flight := 0\<rparr>]\<rparr>"

definition profiler_demo_config :: graph_config where
  "profiler_demo_config = graph_config0\<lparr>
     gc_profiler_config := profiler_config0\<lparr>pc_enable_profiler := True,
       pc_histogram_interval_size_usec := 100000, pc_num_histogram_intervals := 5\<rparr>,
     gc_nodes := [node_def0\<lparr>nd_name := ''work'', nd_type := ''ProfiledWorkNode'',
       nd_output_streams := [''work:out'']\<rparr>]\<rparr>"

section \<open>What their code does to a context\<close>

lemma cx_get_simps [simp]:
  "cx_outputs (snd (cx_get port ctx)) = cx_outputs ctx"
  "fst (cx_get port ctx) = ishard_at (cx_inputs ctx) port"
  by (simp_all add: cx_get_def case_prod_unfold fst_iss_Get)

lemma cx_put_outputs [simp]: "cx_outputs (cx_put port p ctx) = oss_update port (shard_AddPacket p) (cx_outputs ctx)"
  by (simp add: cx_put_def)

lemma EchoNode_outputs:
  "cx_outputs (fst (snd (EchoNode_Process ctx u))) =
     (case is_queue (ishard_at (cx_inputs ctx) ''input_stream'') of
        [] \<Rightarrow> cx_outputs ctx
      | p # _ \<Rightarrow>
          (case p_Get std_string p of
             Inl _ \<Rightarrow> cx_outputs ctx
           | Inr v \<Rightarrow> oss_update ''output_stream''
                       (shard_AddPacket (MakePacket (pl_heap u) std_string v)) (cx_outputs ctx)))"
  by (simp add: EchoNode_Process_def case_prod_unfold ishard_IsEmpty_def ishard_Get_def ishard_Value_def
      make_string_def split: list.split sum.split)

text \<open>A node's code leaves its outputs alone or adds a packet to one of them.\<close>

lemma demo_outputs:
  obtains "cx_outputs (fst (snd (demo_process ty ctx u))) = cx_outputs ctx"
  | port p where "cx_outputs (fst (snd (demo_process ty ctx u))) = oss_update port (shard_AddPacket p) (cx_outputs ctx)"
proof -
  let ?kept = "\<lambda>f. cx_outputs (fst (snd (f ctx u))) = cx_outputs ctx \<or>
    (\<exists>port p. cx_outputs (fst (snd (f ctx u))) = oss_update port (shard_AddPacket p) (cx_outputs ctx))"
  have "?kept EchoNode_Process" by (auto simp: EchoNode_outputs split: list.split sum.split)
  moreover have "?kept ProfiledWorkNode_Process"
    by (auto simp: ProfiledWorkNode_Process_def make_string_def)
  moreover have "?kept DemoConsumer_Process" "?kept DemoCounterNode_Process" "?kept quiet_method"
    by (simp_all add: DemoConsumer_Process_def DemoCounterNode_Process_def quiet_method_def)
  ultimately have "?kept (demo_process ty)" by (simp add: demo_process_def)
  then show thesis using that by blast
qed

lemma demo_respects: "respects_shards (demo_code config)"
  unfolding respects_shards_def
proof (intro allI impI conjI)
  fix n and ctx :: "string context'" and u port assume wf: "omap_wf (cx_outputs ctx)"
  let ?outs = "cx_outputs (fst (snd (uc_process (demo_code config) n ctx u)))"
  have "omap_wf ?outs \<and> shard_path (shard_at (cx_outputs ctx) port) (shard_at ?outs port)"
    by (rule demo_outputs [of "type_at config n" ctx u])
      (simp_all add: demo_code_def wf oss_update_wf shard_at_update shard_path.intros)
  then show "omap_wf ?outs" "shard_path (shard_at (cx_outputs ctx) port) (shard_at ?outs port)" by simp_all
qed

lemma demo_open_ended: "open_ended (demo_code config)"
  unfolding open_ended_def
proof (intro allI impI)
  fix n and ctx :: "string context'" and u assume un: "unended (cx_outputs ctx)"
  show "unended (cx_outputs (fst (snd (uc_process (demo_code config) n ctx u))))"
    by (rule demo_outputs [of "type_at config n" ctx u])
      (use un in \<open>auto simp: demo_code_def unended_def oss_update_wf shard_at_update shard_AddPacket_def
         shard_SetNextTimestampBound_def\<close>)
qed

lemma demo_steady:
  assumes "type_at config n \<noteq> ''ProfiledWorkNode''"
  shows "steady (demo_code config) n"
  unfolding steady_def
proof (intro allI impI conjI)
  fix ctx :: "string context'" and u port
  show "\<not> IsStopStatus (fst (uc_process (demo_code config) n ctx u))"
    using assms by (auto simp: demo_code_def demo_process_def EchoNode_Process_def DemoConsumer_Process_def
        DemoCounterNode_Process_def quiet_method_def case_prod_unfold Let_def split: sum.split)
  assume wf: "omap_wf (cx_outputs ctx)"
  show "sh_closed (shard_at (cx_outputs (fst (snd (uc_process (demo_code config) n ctx u)))) port) =
      sh_closed (shard_at (cx_outputs ctx) port)"
    by (rule demo_outputs [of "type_at config n" ctx u])
      (simp_all add: demo_code_def wf shard_at_update shard_AddPacket_def shard_SetNextTimestampBound_def)
qed

lemma demo_settled:
  "\<forall>d\<in>set (gc_nodes config). nd_input_streams d \<noteq> [] \<longrightarrow> nd_type d \<noteq> ''ProfiledWorkNode'' \<Longrightarrow>
   settled config (demo_code config)"
  by (auto simp: settled_def type_at_def intro!: demo_open_ended demo_steady)

text \<open>\<open>EchoNode\<close> passes on the strings and drops the rest.\<close>

definition strings_only :: "string \<times> string \<Rightarrow> (string \<times> string) list" where
  "strings_only x = (if fst x = std_string then [x] else [])"

lemma EchoNode_transforms:
  "type_at config n = ''EchoNode'' \<Longrightarrow>
   transforms (demo_code config) n ''input_stream'' ''output_stream'' strings_only"
  unfolding transforms_def
proof (intro allI impI)
  fix ctx :: "string context'" and u
  assume n: "type_at config n = ''EchoNode''" and wf: "omap_wf (cx_outputs ctx)"
    and one: "length (is_queue (ishard_at (cx_inputs ctx) ''input_stream'')) \<le> 1"
    and out: "sh_queue (shard_at (cx_outputs ctx) ''output_stream'') = []"
      "\<not> sh_closed (shard_at (cx_outputs ctx) ''output_stream'')"
  show "contents (sh_queue (shard_at (cx_outputs (fst (snd (uc_process (demo_code config) n ctx u)))) ''output_stream'')) =
      concat (map strings_only (contents (is_queue (ishard_at (cx_inputs ctx) ''input_stream''))))"
  proof (cases "is_queue (ishard_at (cx_inputs ctx) ''input_stream'')")
    case Nil
    then show ?thesis using out by (simp add: demo_code_def n demo_process_def EchoNode_outputs)
  next
    case (Cons p ps)
    then show ?thesis
      using one out wf
      by (auto simp: demo_code_def n demo_process_def EchoNode_outputs p_Get_def strings_only_def shard_at_update
          shard_AddPacket_def p_IsEmpty_def MakePacket_def split: option.split)
  qed
qed

section \<open>Runs\<close>

text \<open>Two echo nodes in a row, and a consumer.\<close>

definition echo_chain_config :: graph_config where
  "echo_chain_config = graph_config0\<lparr>gc_input_streams := [''g''],
     gc_nodes :=
       [node_def0\<lparr>nd_name := ''first'', nd_type := ''EchoNode'',
          nd_input_streams := [''input_stream:g''], nd_output_streams := [''output_stream:mid'']\<rparr>,
        node_def0\<lparr>nd_name := ''second'', nd_type := ''EchoNode'',
          nd_input_streams := [''input_stream:mid''], nd_output_streams := [''output_stream:out'']\<rparr>,
        node_def0\<lparr>nd_name := ''last'', nd_type := ''DemoConsumer'', nd_input_streams := [''input:out'']\<rparr>]\<rparr>"

definition demo_start :: "graph_config \<Rightarrow> (string, demo_state) runtime" where
  "demo_start config = snd (Initialize example_registry int 4 [] config [] (GraphRuntime_new demo_state0))"

definition demo_run ::
  "graph_config \<Rightarrow> string step list \<Rightarrow>
     (nat \<times> string packet) list \<times> (nat \<times> string packet) list \<times> (string, demo_state) runtime" where
  "demo_run config steps = run_steps (demo_code config) steps ([], [], demo_start config)"

definition demo_packet :: "nat \<Rightarrow> string \<Rightarrow> string step" where
  "demo_packet k s = Add ''g'' (MakePacket k std_string s)"

lemma demo_init:
  "Initialize example_registry int 4 [] config [] (GraphRuntime_new demo_state0) =
     (fst (Initialize example_registry int 4 [] config [] (GraphRuntime_new demo_state0) :: status \<times> (string, demo_state) runtime),
      demo_start config)"
  by (simp add: demo_start_def)

lemma demo_run_execution:
  "demo_run config steps = (sent, taken, r) \<Longrightarrow> execution (demo_code config) (demo_start config) sent taken r"
  unfolding demo_run_def by (rule steps_execution)

lemma echo_pipeline:
  assumes "i < length (gc_nodes config)" "nd_type (gc_nodes config ! i) = ''EchoNode''"
    and "map PortName (nd_input_streams (gc_nodes config ! i)) = [''input_stream'']"
    and "map PortName (nd_output_streams (gc_nodes config ! i)) = [''output_stream'']"
  shows "pipeline config (demo_code config) (in_edge config i 0) strings_only (out_edge config i 0)"
proof (rule pipeline.Node [OF assms(1) refl])
  have p: "length (nd_input_streams (gc_nodes config ! i)) = 1" "length (nd_output_streams (gc_nodes config ! i)) = 1"
    using assms(3,4) by (metis length_map length_Cons list.size(3) One_nat_def)+
  then show "0 < length (nd_input_streams (gc_nodes config ! i))" "0 < length (nd_output_streams (gc_nodes config ! i))"
    by simp_all
  show "distinct (map PortName (nd_input_streams (gc_nodes config ! i)))" using assms(3) by simp
  have "PortName (nd_input_streams (gc_nodes config ! i) ! 0) = ''input_stream''"
    "PortName (nd_output_streams (gc_nodes config ! i) ! 0) = ''output_stream''"
    using assms(3,4) p by (metis nth_Cons_0 nth_map zero_less_one)+
  then show "transforms (demo_code config) i (PortName (nd_input_streams (gc_nodes config ! i) ! 0))
      (PortName (nd_output_streams (gc_nodes config ! i) ! 0)) strings_only"
    using EchoNode_transforms [of config i] assms(1,2) by (simp add: type_at_def)
qed

section \<open>Properties\<close>


definition interactive_run where
  "interactive_run = demo_run interactive_config
     [Do CallStart, Add ''input_stream'' (MakePacket 1 std_string ''hello_0''), End ''input_stream'',
      Work 0, Work 0, Work 0]"

lemma interactive_run_values:
  "case interactive_run of (sent, taken, r) \<Rightarrow>
     list_all (\<lambda>s. ism_queue s = []) (nt_ims (w_net r)) \<and> sc_state r = kTerminated \<and>
     contents (sent_on (Some 1) sent) = [(std_string, ''hello_0'')]"
  by code_simp

lemma interactive_created:
  "st_ok (fst (Initialize example_registry int 4 [] interactive_config [] (GraphRuntime_new demo_state0) ::
     status \<times> (string, demo_state) runtime))"
  by code_simp


section \<open>A chain\<close>

abbreviation chain_code :: "(string, demo_state) user_code" where
  "chain_code \<equiv> demo_code echo_chain_config"

lemma chain_facts:
  "\<forall>d\<in>set (gc_nodes echo_chain_config). distinct (map PortName (nd_output_streams d))"
  "producer echo_chain_config 0 = Some 2 \<and> producer echo_chain_config 2 = Some 1 \<and>
   2 < length (edge_sinks echo_chain_config)"
  "settled echo_chain_config chain_code"
  by code_simp (code_simp, rule demo_settled, code_simp)

lemma chain_created:
  "st_ok (fst (Initialize example_registry int 4 [] echo_chain_config [] (GraphRuntime_new demo_state0) ::
     status \<times> (string, demo_state) runtime))"
  by code_simp

lemma chain_pipeline:
  "pipeline echo_chain_config chain_code 0 (\<lambda>x. concat (map strings_only (strings_only x))) 1"
proof -
  have edges: "in_edge echo_chain_config 0 0 = 0 \<and> out_edge echo_chain_config 0 0 = 0 \<and>
      in_edge echo_chain_config 1 0 = 1 \<and> out_edge echo_chain_config 1 0 = 1 \<and>
      producer echo_chain_config 1 = Some 0" by code_simp
  have nodes: "\<forall>i\<in>{0, 1}. i < length (gc_nodes echo_chain_config) \<and> nd_type (gc_nodes echo_chain_config ! i) = ''EchoNode'' \<and>
      map PortName (nd_input_streams (gc_nodes echo_chain_config ! i)) = [''input_stream''] \<and>
      map PortName (nd_output_streams (gc_nodes echo_chain_config ! i)) = [''output_stream'']" by code_simp
  have "pipeline echo_chain_config chain_code 0 strings_only 0" "pipeline echo_chain_config chain_code 1 strings_only 1"
    using echo_pipeline [of 0 echo_chain_config] echo_pipeline [of 1 echo_chain_config] nodes edges by simp_all
  then show ?thesis using edges by (blast intro: pipeline.Join)
qed

definition flowing_run where
  "flowing_run = demo_run echo_chain_config
     ([Do CallStart, demo_packet 1 ''a'', demo_packet 2 ''b''] @ replicate 6 (Work 0))"

definition closed_run where
  "closed_run = demo_run echo_chain_config
     ([Do CallStart, demo_packet 1 ''a'', End ''g''] @ replicate 15 (Work 0))"

lemma flowing_run_values:
  "case flowing_run of (sent, taken, r) \<Rightarrow>
     list_all (\<lambda>s. ism_queue s = []) (nt_ims (w_net r)) \<and>
     list_all (\<lambda>m. \<not> om_closed (nt_oms (w_net r) ! m)) [0, 1] \<and>
     contents (sent_on (Some 2) sent) = [(std_string, ''a''), (std_string, ''b'')]"
  by code_simp

lemma closed_run_values:
  "case closed_run of (sent, taken, r) \<Rightarrow>
     list_all (\<lambda>s. ism_queue s = []) (nt_ims (w_net r)) \<and> sc_state r = kTerminated \<and>
     contents (sent_on (Some 2) sent) = [(std_string, ''a'')]"
  by code_simp



section \<open>What the examples log\<close>

text \<open>
  \<open>DemoCounterNode\<close> counts the calls of \<open>Process\<close>, and the runtime also calls it once the input has closed,
  with no packet: for the five packets of \<open>async_pipeline_demo.cc\<close>, each handled before the next is
  sent, it logs seven.
\<close>

lemma async_demo_counts_calls:
  "case demo_run async_config
      ([Do CallStart] @
       concat (map (\<lambda>i. [Add ''in'' (MakePacket i std_string (''data_'' @ dec_of_int (int i))), Work 0, Work 0]) [0..<5]) @
       [End ''in''] @ replicate 4 (Work 0)) of
     (sent, taken, r) \<Rightarrow> sc_state r = kTerminated \<and> length taken = 5 \<and>
       pl_log (w_user r) = [''[counter] Close, received=7'']"
  by code_simp

text \<open>
  \<open>Schedule\<close> runs the source of \<open>profiler_demo.cc\<close> once, so one of its five packets is made; and as the
  node writes the port \<open>out\<close> while its stream \<open>work:out\<close> is the port \<open>work\<close>, none is ever sent.
\<close>

lemma profiler_demo_runs_once:
  "case rt_Schedule (demo_code profiler_demo_config) (demo_start profiler_demo_config) of
     (st, r) \<Rightarrow> st_ok st \<and> sc_state r = kTerminated \<and>
       pl_log (w_user r) = [''[WorkNode] Open'', ''[WorkNode] Close, sent=1'']"
  by code_simp

lemma profiler_demo_sends_nothing:
  "map PortName (concat (map nd_output_streams (gc_nodes profiler_demo_config))) = [''work''] \<and>
   fst (demo_run profiler_demo_config ([Do CallStart] @ replicate 6 (Work 0))) = []"
  by code_simp

end
