(* ===== verification/Synchronous.thy ===== *)
theory Synchronous
  imports Delivery
begin

text \<open>
  The synchronous run of \<open>Scheduler::Schedule\<close>: which nodes it calls. The calls are observed through
  user code that keeps a trace of them beside its own state.
\<close>

section \<open>Traced user code\<close>

definition traced :: "('v, 'u) user_code \<Rightarrow> ('v, 'u \<times> nat list) user_code" where
  "traced uc =
     \<lparr>uc_open = (\<lambda>n c (u, t). case uc_open uc n c u of (st, c', u') \<Rightarrow> (st, c', (u', t))),
      uc_process = (\<lambda>n c (u, t). case uc_process uc n c u of (st, c', u') \<Rightarrow> (st, c', (u', t @ [n]))),
      uc_close = (\<lambda>n c (u, t). case uc_close uc n c u of (st, c', u') \<Rightarrow> (st, c', (u', t)))\<rparr>"

definition calls :: "('v, 'u \<times> nat list, 'z) qworld_scheme \<Rightarrow> nat list" where
  "calls w = snd (w_user w)"

text \<open>What fixes the course of the run: the calls made, the ports of the nodes, and the two flags.\<close>

definition run_part where
  "run_part r = (calls r, map (\<lambda>n. (n_input_ports n, n_addr n)) (w_nodes r), sc_all_nodes r, sc_stopping r, sc_has_error r)"

lemma run_part_simps [simp]:
  "run_part (w\<lparr>w_queues := b\<rparr>) = run_part w" "run_part (w\<lparr>w_net := d\<rparr>) = run_part w"
  "run_part (w\<lparr>w_pools := c\<rparr>) = run_part w"
  "run_part (w\<lparr>w_perf := f\<rparr>) = run_part w" "run_part (w\<lparr>w_prof := g\<rparr>) = run_part w"
  "run_part (w\<lparr>w_log := h\<rparr>) = run_part w" "run_part (w\<lparr>sc_state := i\<rparr>) = run_part w"
  "run_part (w\<lparr>sc_active_sources := k\<rparr>) = run_part w"
  "run_part (w\<lparr>sc_handling_idle := l\<rparr>) = run_part w"
  "run_part (w\<lparr>sc_processed := m\<rparr>) = run_part w" "run_part (w\<lparr>sc_source_nodes := n\<rparr>) = run_part w"
  "run_part (w\<lparr>sc_side_packets := e\<rparr>) = run_part w"
  "run_part (r\<lparr>rt_full := q\<rparr>) = run_part r"
  by (simp_all add: run_part_def calls_def)

lemma run_part_upd_node:
  "(\<And>x. n_input_ports (f x) = n_input_ports x \<and> n_addr (f x) = n_addr x) \<Longrightarrow> run_part (upd_node n f w) = run_part w"
  by (simp add: upd_node_def run_part_def calls_def map_update_at)

lemma run_part_upd [simp]:
  "run_part (upd_queue q f w) = run_part w"
  "run_part (upd_node n node_IncrementPending w) = run_part w"
  "run_part (report_error st w) = run_part w" "run_part (stop_profiler w) = run_part w"
  "run_part (start_profiler w) = run_part w" "run_part (add_handling j w) = run_part w"
  "run_part (end_scope n start w) = run_part w" "run_part (collect_sources w) = run_part w"
  by (simp_all add: upd_queue_def run_part_upd_node node_IncrementPending_def report_error_def
      stop_profiler_def start_profiler_def add_handling_def end_scope_def collect_sources_def)

lemma run_part_fold:
  "(\<And>x w. run_part (f x w) = run_part w) \<Longrightarrow> run_part (fold f xs w) = run_part w"
  by (induction xs arbitrary: w) simp_all

lemma run_part_queue_ops [simp]:
  "run_part (reschedule m w) = run_part w" "run_part (drain_one m w) = run_part w"
  by (simp_all add: reschedule_def drain_one_def sq_AddNode_def submit_if_def AddNode_locked_def
      SubmitToExecutor_def Submit_task_def Submit_locked_def Let_def split: option.splits)

lemma run_part_close_node [simp]: "run_part (close_node (traced uc) n w) = run_part w"
  by (simp add: close_node_def Let_def split_beta traced_def run_part_def calls_def)

lemma run_part_idle [simp]:
  "run_part (sc_CloseAllNodes (traced uc) w) = run_part w" "run_part (cleanup_queues w) = run_part w"
  "run_part (snd (sc_DrainInputQueues w)) = run_part w" "run_part (assign_all w) = run_part w"
  by (auto simp: sc_CloseAllNodes_def cleanup_queues_def sc_DrainInputQueues_def assign_all_def
      sc_AssignNodeToQueue_def Let_def intro!: run_part_fold run_part_upd_node
      split: prod.splits option.splits)

lemma run_part_HandleIdle [simp]: "run_part (sc_HandleIdle (traced uc) w) = run_part w"
  by (simp add: sc_HandleIdle_def idle_body_def idle_pass_def Let_def split_beta run_part_fold)

lemma run_part_event [simp]: "run_part (runtime_event (traced uc) ev r) = run_part r"
  by (auto simp: runtime_event_def OnInputStreamFull_def OnInputStreamNotFull_def Let_def
      split: option.splits stream_event.splits)

lemma run_part_run_events [simp]:
  fixes r :: "('v, 'u \<times> nat list, 'z) runtime_scheme"
  shows "run_part (run_events (runtime_env (traced uc)) evs r) = run_part r"
proof -
  have "run_part (run_event (runtime_env (traced uc)) e s) = run_part s"
    for e and s :: "('v, 'u \<times> nat list, 'z) runtime_scheme"
    by (cases e) (simp_all add: run_event_def)
  then show ?thesis unfolding run_events_def by (rule run_part_fold)
qed

lemma run_part_post_process [simp]:
  "run_part (snd (post_process (runtime_env (traced uc)) n ts outs r)) = run_part r"
  by (simp add: post_process_def split_beta split: option.splits)

lemma run_partD:
  assumes "run_part r' = run_part r"
  shows "calls r' = calls r" "sc_stopping r' = sc_stopping r" "sc_has_error r' = sc_has_error r"
    "sc_all_nodes r' = sc_all_nodes r"
    "map (\<lambda>n. (n_input_ports n, n_addr n)) (w_nodes r') = map (\<lambda>n. (n_input_ports n, n_addr n)) (w_nodes r)"
  using assms by (simp_all add: run_part_def)

section \<open>The calls of the run\<close>

definition is_source :: "node list \<Rightarrow> nat \<Rightarrow> bool" where
  "is_source nodes n \<longleftrightarrow> input_port_count (nodes ! n) = 0"

text \<open>The ports and addresses a run never changes, and nodes that exist.\<close>

definition same_nodes :: "node list \<Rightarrow> node list \<Rightarrow> bool" where
  "same_nodes xs ys \<longleftrightarrow>
     map (\<lambda>n. (n_input_ports n, n_addr n)) xs = map (\<lambda>n. (n_input_ports n, n_addr n)) ys"

lemma same_nodesD:
  assumes "same_nodes xs ys" "n < length ys"
  shows "is_source xs n = is_source ys n" "n_addr (xs ! n) = n_addr (ys ! n)"
    "(input_port_count (xs ! n) = 0) = is_source ys n"
proof -
  have eq: "map (\<lambda>n. (n_input_ports n, n_addr n)) xs = map (\<lambda>n. (n_input_ports n, n_addr n)) ys"
    using assms(1) by (simp add: same_nodes_def)
  then have "length xs = length ys" by (rule map_eq_imp_length_eq)
  then show "is_source xs n = is_source ys n" "n_addr (xs ! n) = n_addr (ys ! n)"
    "(input_port_count (xs ! n) = 0) = is_source ys n"
    using arg_cong [OF eq, of "\<lambda>zs. zs ! n"] assms(2) by (simp_all add: is_source_def input_port_count_def)
qed

lemma same_nodes_run:
  "run_part r' = run_part r \<Longrightarrow> same_nodes (w_nodes r) nodes \<Longrightarrow> same_nodes (w_nodes r') nodes"
  by (simp add: same_nodes_def run_part_def)

lemma call_process_calls:
  fixes w :: "('v, 'u \<times> nat list, 'z) runtime_scheme"
  assumes "call_process (runtime_env (traced uc)) n ts w = (start, st, outs, w1)"
  shows "calls w1 = calls w @ [n]" "w_nodes w1 = w_nodes w" "sc_stopping w1 = sc_stopping w"
    "sc_has_error w1 = sc_has_error w" "sc_all_nodes w1 = sc_all_nodes w"
  using assms by (auto simp: call_process_def Let_def traced_def calls_def split: prod.splits)

lemma run_downstream_calls:
  fixes w :: "('v, 'u \<times> nat list, 'z) runtime_scheme"
  assumes "\<forall>n\<in>set ns. n < length nodes" "same_nodes (w_nodes w) nodes"
  shows "filter (is_source nodes) (calls (run_downstream (runtime_env (traced uc)) ts ns w)) =
      filter (is_source nodes) (calls w) \<and>
    same_nodes (w_nodes (run_downstream (runtime_env (traced uc)) ts ns w)) nodes \<and>
    sc_stopping (run_downstream (runtime_env (traced uc)) ts ns w) = sc_stopping w \<and>
    sc_all_nodes (run_downstream (runtime_env (traced uc)) ts ns w) = sc_all_nodes w"
  using assms
proof (induction ns arbitrary: w)
  case (Cons n ns)
  let ?env = "runtime_env (traced uc)"
  have n: "(input_port_count (w_nodes w ! n) = 0) = is_source nodes n"
    using same_nodesD(3) [OF Cons.prems(2)] Cons.prems(1) by simp
  obtain start st outs w1 where call: "call_process ?env n ts w = (start, st, outs, w1)"
    by (meson prod_cases4)
  note c = call_process_calls [OF call]
  let ?e = "end_scope n start w1" and ?f = "end_scope n start ((report_error st w1)\<lparr>sc_has_error := True\<rparr>)"
  have e: "calls ?e = calls w @ [n]" "w_nodes ?e = w_nodes w" "sc_stopping ?e = sc_stopping w"
    "sc_all_nodes ?e = sc_all_nodes w"
    and f: "calls ?f = calls w @ [n]" "w_nodes ?f = w_nodes w" "sc_stopping ?f = sc_stopping w"
    "sc_all_nodes ?f = sc_all_nodes w"
    using c by (simp_all add: end_scope_def report_error_def calls_def)
  have step: "run_downstream ?env ts (n # ns) w =
      (if sc_stopping w \<or> sc_has_error w then w
       else if is_source nodes n then run_downstream ?env ts ns w
       else if \<not> st_ok st \<and> \<not> IsStopStatus st then ?f else run_downstream ?env ts ns ?e)"
    using n call by simp
  show ?case
    unfolding step using Cons.IH [of w] Cons.IH [of ?e] Cons.prems e f by simp
qed simp

lemma run_sources_calls:
  fixes w :: "('v, 'u \<times> nat list, 'z) runtime_scheme"
  assumes "\<forall>n\<in>set (sc_all_nodes w). n < length nodes" "same_nodes (w_nodes w) nodes"
    and "\<forall>n\<in>snd ` set xs. is_source nodes n"
  shows "\<exists>k. filter (is_source nodes) (calls (run_sources (runtime_env (traced uc)) xs w)) =
      filter (is_source nodes) (calls w) @ take k (map snd xs) \<and>
    (\<not> sc_stopping w \<and> \<not> sc_has_error (run_sources (runtime_env (traced uc)) xs w) \<longrightarrow> length xs \<le> k)"
  using assms
proof (induction xs arbitrary: w)
  case (Cons x xs)
  let ?env = "runtime_env (traced uc)"
  obtain addr n where x: "x = (addr, n)" by (cases x)
  have src: "is_source nodes n" using Cons.prems(3) x by simp
  show ?case
  proof (cases "sc_stopping w \<or> sc_has_error w")
    case True
    then show ?thesis by (intro exI [of _ 0]) (auto simp: x)
  next
    case False
    let ?ts = "ts_of (sc_processed w)"
    obtain start st outs w1 where call: "call_process ?env n ?ts w = (start, st, outs, w1)"
      by (meson prod_cases4)
    note c = call_process_calls [OF call]
    obtain outs2 w2 where pp: "post_process ?env n ?ts outs w1 = (outs2, w2)"
      by (cases "post_process ?env n ?ts outs w1")
    have w2: "run_part w2 = run_part w1"
      using run_part_post_process [of uc n ?ts outs w1] pp by simp
    have s1: "same_nodes (w_nodes w1) nodes" using c(2) Cons.prems(2) by simp
    have s2: "same_nodes (w_nodes w2) nodes" by (rule same_nodes_run [OF w2 s1])
    have src1: "filter (is_source nodes) (calls w1) = filter (is_source nodes) (calls w) @ [n]"
      using c(1) src by simp
    let ?stop = "end_scope n start (w2\<lparr>sc_active_sources := omap_erase addr (sc_active_sources w2)\<rparr>)"
    let ?w3 = "run_downstream ?env ?ts (sc_all_nodes w2) w2"
    let ?go = "end_scope n start (?w3\<lparr>sc_processed := sc_processed ?w3 + 1\<rparr>)"
    have all2: "sc_all_nodes w2 = sc_all_nodes w" using run_partD(4) [OF w2] c(5) by simp
    note d = run_downstream_calls [of "sc_all_nodes w2" nodes w2 uc ?ts, OF _ s2]
    have go: "filter (is_source nodes) (calls w') = filter (is_source nodes) (calls w) @ [n] \<and>
        sc_stopping w' = sc_stopping w \<and> sc_all_nodes w' = sc_all_nodes w \<and> same_nodes (w_nodes w') nodes"
      if "w' = ?stop \<or> w' = ?go" for w'
      using that
    proof
      assume w': "w' = ?stop"
      have "run_part w' = run_part w1" using w2 unfolding w' by simp
      then show ?thesis
        using run_partD(1,2,4) [of w' w1] same_nodes_run [OF _ s1] c(3,5) src1 by metis
    next
      assume w': "w' = ?go"
      have "run_part w' = run_part ?w3" unfolding w' by simp
      then show ?thesis
        using run_partD(1,2,4) [of w' ?w3] same_nodes_run [of w' ?w3 nodes] d all2 Cons.prems(1) run_partD(1,2) [OF w2]
          c(3) src1 by simp
    qed
    have step: "run_sources ?env (x # xs) w =
        (if \<not> st_ok st \<and> \<not> IsStopStatus st
         then end_scope n start ((report_error st w1)\<lparr>sc_has_error := True\<rparr>)
         else run_sources ?env xs (if IsStopStatus st then ?stop else ?go))"
      using False call pp by (simp add: x Let_def)
    show ?thesis
    proof (cases "\<not> st_ok st \<and> \<not> IsStopStatus st")
      case True
      have "calls (end_scope n start ((report_error st w1)\<lparr>sc_has_error := True\<rparr>)) = calls w1"
        "sc_has_error (end_scope n start ((report_error st w1)\<lparr>sc_has_error := True\<rparr>))"
        by (simp_all add: end_scope_def report_error_def calls_def)
      then show ?thesis unfolding step using True src1 by (intro exI [of _ 1]) (simp add: x)
    next
      case ok: False
      let ?w' = "if IsStopStatus st then ?stop else ?go"
      have g: "filter (is_source nodes) (calls ?w') = filter (is_source nodes) (calls w) @ [n] \<and>
          sc_stopping ?w' = sc_stopping w \<and> sc_all_nodes ?w' = sc_all_nodes w \<and> same_nodes (w_nodes ?w') nodes"
        by (rule go) simp
      have "\<exists>k. filter (is_source nodes) (calls (run_sources ?env xs ?w')) =
          filter (is_source nodes) (calls ?w') @ take k (map snd xs) \<and>
          (\<not> sc_stopping ?w' \<and> \<not> sc_has_error (run_sources ?env xs ?w') \<longrightarrow> length xs \<le> k)"
        using g Cons.prems(1,3) by (intro Cons.IH) auto
      then obtain k where k: "filter (is_source nodes) (calls (run_sources ?env xs ?w')) =
          filter (is_source nodes) (calls ?w') @ take k (map snd xs)"
        "\<not> sc_stopping ?w' \<and> \<not> sc_has_error (run_sources ?env xs ?w') \<longrightarrow> length xs \<le> k" by blast
      have eq: "run_sources ?env (x # xs) w = run_sources ?env xs ?w'" unfolding step using ok by (simp only: if_False)
      show ?thesis unfolding eq using k g by (intro exI [of _ "Suc k"]) (simp add: x)
    qed
  qed
qed simp

section \<open>Opening\<close>

lemma open_all_sources:
  fixes w :: "('v, 'u \<times> nat list, 'z) runtime_scheme"
  assumes "open_all (traced uc) False ns w = (st, w')"
  shows "run_part w' = run_part w" "w_nodes w' = w_nodes w"
    "st_ok st \<Longrightarrow> sc_active_sources w' =
       fold (\<lambda>n. omap_put (n_addr (w_nodes w ! n)) n) (filter (is_source (w_nodes w)) ns) (sc_active_sources w)"
proof -
  have "run_part w' = run_part w \<and> w_nodes w' = w_nodes w \<and> (st_ok st \<longrightarrow> sc_active_sources w' =
       fold (\<lambda>n. omap_put (n_addr (w_nodes w ! n)) n) (filter (is_source (w_nodes w)) ns) (sc_active_sources w))"
    using assms
  proof (induction ns arbitrary: w)
    case (Cons n ns)
    let ?nodes = "w_nodes w"
    obtain start p where sc: "scope_begin (w_prof w) = (start, p)" by (cases "scope_begin (w_prof w)")
    obtain os c u where op: "uc_open (traced uc) n (lifecycle_context n ts_Unstarted w) (w_user w) = (os, c, u)"
      by (meson prod_cases3)
    have u: "snd u = calls w" using op by (auto simp: traced_def calls_def split: prod.splits)
    let ?w1 = "w\<lparr>w_prof := p, w_user := u\<rparr>"
    let ?w2 = "if input_port_count (?nodes ! n) = 0
        then ?w1\<lparr>sc_active_sources := omap_put (n_addr (?nodes ! n)) n (sc_active_sources w)\<rparr> else ?w1"
    let ?w3 = "?w2\<lparr>w_prof := scope_end OpenEvent (n_name (?nodes ! n)) start (w_prof ?w2)\<rparr>"
    have w1: "run_part ?w1 = run_part w" using u by (simp add: run_part_def calls_def)
    show ?case
    proof (cases "st_ok os")
      case False
      then have st: "st = os" and w': "w' = (report_error os ?w1)\<lparr>sc_state := kTerminated,
          w_prof := scope_end OpenEvent (n_name (?nodes ! n)) start (w_prof (report_error os ?w1))\<rparr>"
        using Cons.prems sc op by (auto simp: Let_def)
      have "run_part w' = run_part ?w1" unfolding w' by simp
      moreover have "w_nodes w' = ?nodes" unfolding w' by (simp add: report_error_def)
      ultimately show ?thesis using w1 False st by simp
    next
      case True
      then have rest: "open_all (traced uc) False ns ?w3 = (st, w')"
        using Cons.prems sc op by (cases "input_port_count (?nodes ! n) = 0") (simp_all add: Let_def)
      have "run_part ?w3 = run_part w" "w_nodes ?w3 = ?nodes"
        "sc_active_sources ?w3 = (if is_source ?nodes n
           then omap_put (n_addr (?nodes ! n)) n (sc_active_sources w) else sc_active_sources w)"
        using w1 by (simp_all add: is_source_def)
      then show ?thesis using Cons.IH [OF rest] by simp
    qed
  qed simp
  then show "run_part w' = run_part w" "w_nodes w' = w_nodes w"
    "st_ok st \<Longrightarrow> sc_active_sources w' =
       fold (\<lambda>n. omap_put (n_addr (w_nodes w ! n)) n) (filter (is_source (w_nodes w)) ns) (sc_active_sources w)"
    by simp_all
qed

lemma fold_put_entries:
  fixes key :: "nat \<Rightarrow> int"
  assumes "omap_wf m" "distinct ns" "inj_on key (set ns)" "\<forall>n\<in>set ns. key n \<notin> fst ` set m"
  shows "omap_wf (fold (\<lambda>n. omap_put (key n) n) ns m) \<and>
    set (fold (\<lambda>n. omap_put (key n) n) ns m) = set m \<union> (\<lambda>n. (key n, n)) ` set ns"
  using assms
proof (induction ns arbitrary: m)
  case (Cons n ns)
  have put: "set (omap_put k v m) = insert (k, v) (set m)" if "k \<notin> fst ` set m" for k v
    using that by (induction k v m rule: omap_put.induct) auto
  have "set (omap_put (key n) n m) = insert (key n, n) (set m)" using put Cons.prems(4) by simp
  moreover have "key k \<notin> fst ` set (omap_put (key n) n m)" if "k \<in> set ns" for k
    using Cons.prems(2-4) that by (auto simp: set_keys_omap_put inj_on_def)
  ultimately show ?case
    using Cons.IH [of "omap_put (key n) n m"] Cons.prems by (auto simp: omap_wf_put)
qed simp

lemma fold_put_distinct:
  fixes key :: "nat \<Rightarrow> int"
  assumes "distinct ns" "inj_on key (set ns)"
  defines "m \<equiv> fold (\<lambda>n. omap_put (key n) n) ns []"
  shows "distinct (map snd m)" "set (map snd m) = set ns"
proof -
  have m: "omap_wf m" "set m = (\<lambda>n. (key n, n)) ` set ns"
    using fold_put_entries [of "[]" ns key] assms(1,2) by (simp_all add: m_def)
  have "distinct m" using m(1) unfolding omap_wf_def by (metis distinct_map strict_sorted_iff)
  moreover have "inj_on snd (set m)" using m(2) by (auto simp: inj_on_def)
  ultimately show "distinct (map snd m)" by (simp add: distinct_map)
  show "set (map snd m) = set ns" using m(2) by force
qed

section \<open>Properties\<close>

lemma Schedule_source_calls:
  fixes r :: "('v, 'u \<times> nat list, 'z) runtime_scheme"
  assumes run: "rt_Schedule (traced uc) r = (st, r')" and sched: "rt_has_scheduler r"
    and new: "calls r = []" "sc_active_sources r = []" "\<not> sc_stopping r"
    and nodes: "distinct (sc_all_nodes r)" "\<forall>n\<in>set (sc_all_nodes r). n < length (w_nodes r)"
      "inj_on (\<lambda>n. n_addr (w_nodes r ! n)) (set (sc_all_nodes r))"
  shows "distinct (filter (is_source (w_nodes r)) (calls r')) \<and>
    set (filter (is_source (w_nodes r)) (calls r')) \<subseteq> set (filter (is_source (w_nodes r)) (sc_all_nodes r)) \<and>
    (st_ok st \<and> \<not> sc_has_error r' \<longrightarrow>
       set (filter (is_source (w_nodes r)) (calls r')) = set (filter (is_source (w_nodes r)) (sc_all_nodes r)))"
proof -
  let ?src = "is_source (w_nodes r)"
  let ?r0 = "sc_SetInputSidePackets (side_packet_set (rt_side_packets r)) r"
  let ?w1 = "start_profiler (?r0\<lparr>sc_state := kRunning\<rparr>)"
  let ?w = "assign_all (collect_sources ?w1)"
  obtain st2 w2 where op: "open_all (traced uc) False (sc_all_nodes ?w1) ?w = (st2, w2)"
    by (cases "open_all (traced uc) False (sc_all_nodes ?w1) ?w")
  note o = open_all_sources [OF op]
  have w1: "run_part ?w1 = run_part r" by (simp add: sc_SetInputSidePackets_def)
  then have w: "run_part ?w = run_part r" by simp
  have same: "same_nodes (w_nodes ?w) (w_nodes r)"
    by (rule same_nodes_run [OF w]) (simp add: same_nodes_def)
  have active: "sc_active_sources ?w = []"
  proof -
    have "sc_active_sources (fold sc_AssignNodeToQueue ns s) = sc_active_sources s"
      for ns and s :: "('v, 'u \<times> nat list, 'z) runtime_scheme"
      by (induction ns arbitrary: s) (simp_all add: sc_AssignNodeToQueue_def upd_node_def Let_def split: option.splits)
    then show ?thesis
      using new(2) by (simp add: assign_all_def collect_sources_def start_profiler_def sc_SetInputSidePackets_def)
  qed
  have all1: "sc_all_nodes ?w1 = sc_all_nodes r" by (rule run_partD(4) [OF w1])
  have res: "(st, r') = (if \<not> st_ok st2 then (st2, w2) else (ok_status,
      (stop_profiler (sc_CloseAllNodes (traced uc) (process_loop (runtime_env (traced uc)) w2)))\<lparr>sc_state := kTerminated\<rparr>))"
    using run sched op unfolding rt_Schedule_def sc_Schedule_def Let_def runtime_env_def by simp
  have w2: "run_part w2 = run_part r" using o(1) w by simp
  show ?thesis
  proof (cases "st_ok st2")
    case False
    then show ?thesis using res run_partD(1) [OF w2] new(1) by simp
  next
    case True
    let ?srcs = "filter ?src (sc_all_nodes r)" and ?addr = "\<lambda>n. n_addr (w_nodes r ! n)"
    have "filter (is_source (w_nodes ?w)) (sc_all_nodes r) = ?srcs"
      using same_nodesD(1) [OF same] nodes(2) by (intro filter_cong) auto
    moreover have "fold (\<lambda>n. omap_put (n_addr (w_nodes ?w ! n)) n) ?srcs [] = fold (\<lambda>n. omap_put (?addr n) n) ?srcs []"
      using same_nodesD(2) [OF same] nodes(2) by (intro fold_cong) auto
    ultimately have a: "sc_active_sources w2 = fold (\<lambda>n. omap_put (?addr n) n) ?srcs []"
      using o(3) [OF True] active all1 by simp
    have "distinct ?srcs" "inj_on ?addr (set ?srcs)" using nodes by (auto intro: inj_on_subset)
    note d = fold_put_distinct [OF this, folded a]
    have srcs: "\<forall>n\<in>snd ` set (sc_active_sources w2). ?src n" using d(2) by auto
    have same2: "same_nodes (w_nodes w2) (w_nodes r)" by (rule same_nodes_run [OF w2]) (simp add: same_nodes_def)
    have range2: "\<forall>n\<in>set (sc_all_nodes w2). n < length (w_nodes r)" using nodes(2) run_partD(4) [OF w2] by simp
    let ?loop = "process_loop (runtime_env (traced uc)) w2"
    obtain k where k: "filter ?src (calls ?loop) = take k (map snd (sc_active_sources w2))"
      "\<not> sc_has_error ?loop \<longrightarrow> length (sc_active_sources w2) \<le> k"
    proof (cases "sc_has_error w2")
      case True
      then show ?thesis
        using that [of 0] run_partD(1) [OF w2] new(1) by (simp add: process_loop_def)
    next
      case False
      then show ?thesis
        using run_sources_calls [OF range2 same2 srcs, of uc] run_partD(1,2) [OF w2] new(1,3) that
        by (auto simp: process_loop_def)
    qed
    have "run_part r' = run_part ?loop" using res True by simp
    then have r': "calls r' = calls ?loop" "sc_has_error r' = sc_has_error ?loop" by (rule run_partD)+
    have "set (take k (map snd (sc_active_sources w2))) \<subseteq> set ?srcs"
      using d(2) set_take_subset by fastforce
    then show ?thesis
      unfolding r' k(1) using d k(2) by (auto intro: distinct_take)
  qed
qed

text \<open>
  C10: the synchronous run calls the \<open>Process\<close> of each source at most once, and of exactly every
  source if nothing fails, however much more the source could produce: its loop makes one pass
  over the sources opened. (\<open>traced\<close> runs the nodes unchanged and records their calls.)
\<close>

theorem Schedule_runs_each_source_once:
  fixes r :: "('v, 'u \<times> nat list, 'z) runtime_scheme"
  assumes "rt_Schedule (traced uc) r = (st, r')" "rt_has_scheduler r"
    and "calls r = []" "sc_active_sources r = []" "\<not> sc_stopping r"
    and "distinct (sc_all_nodes r)" "\<forall>n\<in>set (sc_all_nodes r). n < length (w_nodes r)"
    and "inj_on (\<lambda>n. n_addr (w_nodes r ! n)) (set (sc_all_nodes r))"
  shows "distinct (filter (is_source (w_nodes r)) (calls r')) \<and>
    set (filter (is_source (w_nodes r)) (calls r')) \<subseteq> set (filter (is_source (w_nodes r)) (sc_all_nodes r)) \<and>
    (st_ok st \<and> \<not> sc_has_error r' \<longrightarrow>
       set (filter (is_source (w_nodes r)) (calls r')) = set (filter (is_source (w_nodes r)) (sc_all_nodes r)))"
  by (rule Schedule_source_calls [OF assms])

definition one_source :: "(int, unit \<times> nat list) runtime" where
  "one_source = (GraphRuntime_new ((), []))\<lparr>w_nodes := [node_new 5 ''s''], sc_all_nodes := [0]\<rparr>"

theorem Schedule_runs_each_source_once_witness:
  "filter (is_source (w_nodes one_source)) (calls (snd (rt_Schedule (traced idle_code) one_source))) = [0]"
proof -
  obtain st r' where run: "rt_Schedule (traced idle_code) one_source = (st, r')"
    by (cases "rt_Schedule (traced idle_code) one_source") auto
  have src: "is_source (w_nodes one_source) 0" "sc_all_nodes one_source = [0]" "rt_has_scheduler one_source"
    "calls one_source = []" "sc_active_sources one_source = []" "\<not> sc_stopping one_source"
    "length (w_nodes one_source) = 1"
    by (simp_all add: one_source_def is_source_def input_port_count_def node_new_def
        GraphRuntime_new_def Scheduler_new_def world.defs calls_def)
  have "st_ok (fst (rt_Schedule (traced idle_code) one_source)) \<and>
      \<not> sc_has_error (snd (rt_Schedule (traced idle_code) one_source))"
    by code_simp
  then have ok: "st_ok st" "\<not> sc_has_error r'" using run by simp_all
  let ?c = "filter (is_source (w_nodes one_source)) (calls r')"
  have "distinct ?c" "set ?c = {0}"
    using Schedule_runs_each_source_once [OF run src(3-6)] ok src(1,2,7) by simp_all
  then have "?c = [0]" by (cases ?c; cases "tl ?c") auto
  then show ?thesis using run by simp
qed

end
