(* ===== verification/Tag_Map.thy ===== *)
theory Tag_Map
  imports GR_Prelude "HOL-Library.Product_Lexorder"
begin

text \<open>
  \<open>framework/tool/validate_name.{h,cc}\<close> and \<open>framework/tool/tag_map.{h,cc}\<close>: parsing
  \<open>TAG:index:name\<close> and the map from tags to contiguous ids. \<open>absl::StrSplit\<close> is a third-party
  function and so a parameter \<open>split\<close>; what the code relies on is \<open>splits_at_colon\<close>.
  \<open>std::strtol\<close> is the C library's, in base 10 on a 64-bit \<open>long\<close>.
\<close>

section \<open>Parsing\<close>

record tag_index_name =
  tin_tag :: string
  tin_index :: int
  tin_name :: string

text \<open>Returns the value and the unread rest; with no digits the rest is the whole input.\<close>

definition is_space :: "char \<Rightarrow> bool" where
  "is_space c \<longleftrightarrow> of_char c = (32 :: nat) \<or> (9 \<le> (of_char c :: nat) \<and> of_char c \<le> (13 :: nat))"

definition clamp_long :: "int \<Rightarrow> int" where
  "clamp_long v = max INT64_MIN (min INT64_MAX v)"

definition strtol10 :: "string \<Rightarrow> int \<times> string" where
  "strtol10 s =
     (let s1 = dropWhile is_space s;
          neg = (s1 \<noteq> [] \<and> hd s1 = CHR ''-'');
          s2 = (if s1 \<noteq> [] \<and> (hd s1 = CHR ''-'' \<or> hd s1 = CHR ''+'') then tl s1 else s1);
          ds = takeWhile is_digit s2
      in if ds = [] then (0, s)
         else (clamp_long ((if neg then -1 else 1) * int (dec_value 0 ds)), dropWhile is_digit s2))"

text \<open>\<open>c_str()\<close> read as a C string ends at the first NUL.\<close>

definition c_string :: "string \<Rightarrow> string" where
  "c_string s = takeWhile (\<lambda>c. of_char c \<noteq> (0 :: nat)) s"

definition tick :: string where "tick = [char_of (39 :: nat)]"

definition bad_index :: "string \<Rightarrow> string \<Rightarrow> status" where
  "bad_index input part =
     Status CInvalidArgument (''invalid index in '' @ tick @ input @ tick @ '': '' @ tick @ part @
       tick @ '' is not an integer'')"

definition ParseTagIndexName ::
  "(string \<Rightarrow> string list) \<Rightarrow> string \<Rightarrow> tag_index_name status_or" where
  "ParseTagIndexName split input =
     (let parts = split input
      in if length parts = 1
         then Inr \<lparr>tin_tag = [], tin_index = -1, tin_name = parts ! 0\<rparr>
         else if length parts = 2
         then let (idx, rest) = strtol10 (c_string (parts ! 1))
              in if rest \<noteq> [] \<or> parts ! 1 = [] then Inl (bad_index input (parts ! 1))
                 else Inr \<lparr>tin_tag = parts ! 0, tin_index = to_i32 idx, tin_name = []\<rparr>
         else if length parts = 3
         then let (idx, rest) = strtol10 (c_string (parts ! 1))
              in if rest \<noteq> [] \<or> parts ! 1 = [] then Inl (bad_index input (parts ! 1))
                 else Inr \<lparr>tin_tag = parts ! 0, tin_index = to_i32 idx, tin_name = parts ! 2\<rparr>
         else Inl (Status CInvalidArgument (''invalid format '' @ tick @ input @ tick @
                '': expected TAG:index, TAG:index:name, or name'')))"

section \<open>The tag map\<close>

record tag_data =
  td_first_id :: int
  td_count :: int

record tag_map =
  tm_num_entries :: int
  tm_mapping :: "(string, tag_data) omap"
  tm_names :: "string list"
  tm_tag_order :: "string list"

type_synonym groups = "(string \<times> (int \<times> string) list) list"

fun add_entry :: "string \<Rightarrow> int \<times> string \<Rightarrow> groups \<Rightarrow> groups" where
  "add_entry tag e [] = [(tag, [e])]"
| "add_entry tag e ((t, es) # gs) =
     (if t = tag then (t, es @ [e]) # gs else (t, es) # add_entry tag e gs)"

fun collect_groups ::
  "(string \<Rightarrow> string list) \<Rightarrow> string list \<Rightarrow> groups \<Rightarrow> groups status_or" where
  "collect_groups split [] gs = Inr gs"
| "collect_groups split (x # xs) gs =
     (case ParseTagIndexName split x of
        Inl e \<Rightarrow> Inl e
      | Inr p \<Rightarrow> collect_groups split xs (add_entry (tin_tag p) (tin_index p, tin_name p) gs))"

definition add_group :: "string \<times> (int \<times> string) list \<Rightarrow> tag_map \<Rightarrow> tag_map" where
  "add_group g m =
     (let es = sort (snd g)
      in m\<lparr>tm_mapping := omap_put (fst g)
             \<lparr>td_first_id = tm_num_entries m, td_count = int (length es)\<rparr> (tm_mapping m),
           tm_tag_order := tm_tag_order m @ [fst g],
           tm_names := tm_names m @ map snd es,
           tm_num_entries := tm_num_entries m + int (length es)\<rparr>)"

definition tag_map0 :: tag_map where
  "tag_map0 = \<lparr>tm_num_entries = 0, tm_mapping = [], tm_names = [], tm_tag_order = []\<rparr>"

definition TagMap_Create ::
  "(string \<Rightarrow> string list) \<Rightarrow> string list \<Rightarrow> tag_map status_or" where
  "TagMap_Create split tag_index_names =
     (case collect_groups split tag_index_names [] of
        Inl e \<Rightarrow> Inl e
      | Inr gs \<Rightarrow> Inr (fold add_group gs tag_map0))"

definition tm_NumEntries :: "string \<Rightarrow> tag_map \<Rightarrow> int" where
  "tm_NumEntries tag m = (case omap_get (tm_mapping m) tag of None \<Rightarrow> 0 | Some d \<Rightarrow> td_count d)"

definition tm_HasTag :: "string \<Rightarrow> tag_map \<Rightarrow> bool" where
  "tm_HasTag tag m \<longleftrightarrow> omap_get (tm_mapping m) tag \<noteq> None"

definition tm_GetTags :: "tag_map \<Rightarrow> string list" where
  "tm_GetTags m = map fst (tm_mapping m)"

definition tm_GetId :: "string \<Rightarrow> int \<Rightarrow> tag_map \<Rightarrow> int" where
  "tm_GetId tag index m =
     (case omap_get (tm_mapping m) tag of
        None \<Rightarrow> -1
      | Some d \<Rightarrow> if index < 0 \<or> index \<ge> td_count d then -1 else td_first_id d + index)"

definition tm_GetIdByName :: "(string \<Rightarrow> string list) \<Rightarrow> string \<Rightarrow> tag_map \<Rightarrow> int" where
  "tm_GetIdByName split tag_index_name m =
     (case ParseTagIndexName split tag_index_name of
        Inl e \<Rightarrow> -1
      | Inr p \<Rightarrow> if tin_tag p = [] then -1 else tm_GetId (tin_tag p) (tin_index p) m)"

section \<open>What is assumed of StrSplit\<close>

definition splits_at_colon :: "(string \<Rightarrow> string list) \<Rightarrow> bool" where
  "splits_at_colon split \<longleftrightarrow>
     (\<forall>s. CHR '':'' \<notin> set s \<longrightarrow> split s = [s]) \<and>
     (\<forall>s t. CHR '':'' \<notin> set s \<longrightarrow> split (s @ '':'' @ t) = s # split t)"

text \<open>A splitter with that behaviour, used to instantiate the parameter.\<close>

fun colon_split :: "string \<Rightarrow> string list" where
  "colon_split [] = [[]]"
| "colon_split (c # s) =
     (if c = CHR '':'' then [] # colon_split s
      else case colon_split s of [] \<Rightarrow> [[c]] | p # ps \<Rightarrow> (c # p) # ps)"

lemma colon_split_plain: "CHR '':'' \<notin> set s \<Longrightarrow> colon_split s = [s]"
  by (induction s) auto

lemma colon_split_not_Nil: "colon_split s \<noteq> []"
  by (cases s) (auto split: list.splits)

lemma colon_split_join: "CHR '':'' \<notin> set s \<Longrightarrow> colon_split (s @ CHR '':'' # t) = s # colon_split t"
  by (induction s) (auto split: list.splits)

lemma splits_at_colon_split: "splits_at_colon colon_split"
  by (simp add: splits_at_colon_def colon_split_plain colon_split_join)

section \<open>Parsing what was printed\<close>

lemma digits_of_dec:
  "takeWhile is_digit (dec_of_nat n) = dec_of_nat n" "dropWhile is_digit (dec_of_nat n) = []"
  using dec_of_nat_digits [of n] by (simp_all add: takeWhile_eq_all_conv)

lemma digit_not_space: "is_digit c \<Longrightarrow> \<not> is_space c \<and> of_char c \<noteq> (0 :: nat) \<and> c \<noteq> CHR ''-'' \<and>
    c \<noteq> CHR ''+'' \<and> c \<noteq> CHR '':''"
  by (auto simp: is_digit_def is_space_def)

lemma hd_dec: "is_digit (hd (dec_of_nat n))"
  using dec_of_nat_digits [of n] by simp

lemma c_string_dec: "c_string (dec_of_nat n) = dec_of_nat n"
  unfolding c_string_def using dec_of_nat_digits [of n] digit_not_space
  by (subst takeWhile_eq_all_conv) blast

lemma strtol10_dec:
  "int n \<le> INT64_MAX \<Longrightarrow> strtol10 (dec_of_nat n) = (int n, [])"
proof -
  assume n: "int n \<le> INT64_MAX"
  have "dropWhile is_space (dec_of_nat n) = dec_of_nat n"
    using hd_dec [of n] digit_not_space
    by (cases "dec_of_nat n") auto
  then show ?thesis
    using n hd_dec [of n] digit_not_space [of "hd (dec_of_nat n)"]
    by (simp add: strtol10_def Let_def digits_of_dec dec_value_dec_of_nat clamp_long_def)
qed



section \<open>Ids are a numbering of the entries\<close>

text \<open>The entries given for one tag, in the order given.\<close>

definition tag_entries ::
  "(string \<Rightarrow> string list) \<Rightarrow> string list \<Rightarrow> string \<Rightarrow> (int \<times> string) list" where
  "tag_entries split xs tag =
     concat (map (\<lambda>x. case ParseTagIndexName split x of
        Inl _ \<Rightarrow> []
      | Inr p \<Rightarrow> if tin_tag p = tag then [(tin_index p, tin_name p)] else []) xs)"

definition group_of :: "groups \<Rightarrow> string \<Rightarrow> (int \<times> string) list" where
  "group_of gs tag = (case map_of gs tag of Some es \<Rightarrow> es | None \<Rightarrow> [])"

lemma map_of_add_entry:
  "map_of (add_entry t e gs) tag =
     (if tag = t then Some (group_of gs t @ [e]) else map_of gs tag)"
  by (induction t e gs rule: add_entry.induct) (auto simp: group_of_def)

lemma keys_add_entry: "fst ` set (add_entry t e gs) = insert t (fst ` set gs)"
  by (induction t e gs rule: add_entry.induct) auto

lemma distinct_add_entry: "distinct (map fst gs) \<Longrightarrow> distinct (map fst (add_entry t e gs))"
  by (induction t e gs rule: add_entry.induct) (auto simp: keys_add_entry)

lemma collect_groups_spec:
  "collect_groups split xs gs = Inr gs' \<Longrightarrow> distinct (map fst gs) \<Longrightarrow>
   distinct (map fst gs') \<and> (\<forall>tag. group_of gs' tag = group_of gs tag @ tag_entries split xs tag)"
proof (induction xs arbitrary: gs)
  case (Cons x xs)
  then obtain p where p: "ParseTagIndexName split x = Inr p"
    by (auto split: sum.splits)
  let ?gs = "add_entry (tin_tag p) (tin_index p, tin_name p) gs"
  have "distinct (map fst gs') \<and> (\<forall>tag. group_of gs' tag = group_of ?gs tag @ tag_entries split xs tag)"
    using Cons.IH [of ?gs] Cons.prems p distinct_add_entry by simp
  then show ?case
    using p by (auto simp: group_of_def map_of_add_entry tag_entries_def split: option.splits)
qed (simp add: tag_entries_def)

definition seg_ok :: "tag_map \<Rightarrow> string \<Rightarrow> (int \<times> string) list \<Rightarrow> bool" where
  "seg_ok m tag es \<longleftrightarrow>
     (\<exists>f. omap_get (tm_mapping m) tag = Some \<lparr>td_first_id = f, td_count = int (length es)\<rparr> \<and>
        0 \<le> f \<and> f + int (length es) \<le> int (length (tm_names m)) \<and>
        (\<forall>k < length es. tm_names m ! (nat f + k) = snd (sort es ! k)))"

definition tm_inv :: "tag_map \<Rightarrow> bool" where
  "tm_inv m \<longleftrightarrow> omap_wf (tm_mapping m) \<and> tm_num_entries m = int (length (tm_names m)) \<and>
     (\<forall>t d. omap_get (tm_mapping m) t = Some d \<longrightarrow>
        td_first_id d + td_count d \<le> tm_num_entries m) \<and>
     (\<forall>t d u e. t \<noteq> u \<longrightarrow> omap_get (tm_mapping m) t = Some d \<longrightarrow>
        omap_get (tm_mapping m) u = Some e \<longrightarrow>
        td_first_id d + td_count d \<le> td_first_id e \<or> td_first_id e + td_count e \<le> td_first_id d)"

lemma add_group_inv: "tm_inv m \<Longrightarrow> tm_inv (add_group g m)"
  by (auto simp: tm_inv_def add_group_def Let_def omap_wf_put omap_get_put split: if_splits)
    fastforce+

lemma add_group_seg:
  assumes "tm_inv m"
  shows "seg_ok (add_group (tag, es) m) tag es"
    and "seg_ok m t us \<Longrightarrow> t \<noteq> tag \<Longrightarrow> seg_ok (add_group (tag, es) m) t us"
proof -
  show "seg_ok (add_group (tag, es) m) tag es"
    using assms by (auto simp: seg_ok_def add_group_def Let_def tm_inv_def omap_get_put nth_append)
  assume seg: "seg_ok m t us" and "t \<noteq> tag"
  then show "seg_ok (add_group (tag, es) m) t us"
    using assms unfolding seg_ok_def
    by (elim exE, intro exI) (auto simp: add_group_def Let_def tm_inv_def omap_get_put nth_append)
qed

lemma fold_add_group:
  "tm_inv m \<Longrightarrow> distinct (map fst gs) \<Longrightarrow>
   tm_inv (fold add_group gs m) \<and>
   (\<forall>(tag, es) \<in> set gs. seg_ok (fold add_group gs m) tag es) \<and>
   (\<forall>t us. seg_ok m t us \<longrightarrow> t \<notin> fst ` set gs \<longrightarrow> seg_ok (fold add_group gs m) t us)"
proof (induction gs arbitrary: m)
  case (Cons g gs)
  obtain tag es where g: "g = (tag, es)" by (cases g)
  have inv: "tm_inv (add_group g m)" using Cons.prems add_group_inv by simp
  show ?case
    using Cons.IH [OF inv] Cons.prems add_group_seg [OF Cons.prems(1)] g
    by (auto simp: image_iff)
qed simp

lemma map_of_group: "distinct (map fst gs) \<Longrightarrow> group_of gs tag \<noteq> [] \<Longrightarrow> (tag, group_of gs tag) \<in> set gs"
  by (auto simp: group_of_def split: option.splits dest: map_of_SomeD)

text \<open>
  C38: the tag map numbers its entries: the ids of a tag are a contiguous range of its number of
  entries, the ranges of different tags do not overlap, an index out of range gives -1, and
  the name stored at \<open>GetId(tag, k)\<close> is that of the tag's \<open>k\<close>-th entry in increasing order
  of the written index. \<open>k\<close> is a rank: when written indices are not \<open>0..n-1\<close>, \<open>GetId\<close> does
  not find an entry by the index it was written with.
\<close>

theorem TagMap_GetId_spec:
  assumes "TagMap_Create split xs = Inr m" "tag_entries split xs tag \<noteq> []"
  shows "tm_NumEntries tag m = int (length (tag_entries split xs tag)) \<and>
    (\<forall>k. 0 \<le> k \<and> k < tm_NumEntries tag m \<longrightarrow>
       tm_GetId tag k m = tm_GetId tag 0 m + k \<and>
       0 \<le> tm_GetId tag k m \<and> tm_GetId tag k m < tm_num_entries m \<and>
       tm_names m ! nat (tm_GetId tag k m) = snd (sort (tag_entries split xs tag) ! nat k)) \<and>
    (\<forall>k. k < 0 \<or> tm_NumEntries tag m \<le> k \<longrightarrow> tm_GetId tag k m = -1) \<and>
    (\<forall>tag' k k'. tag' \<noteq> tag \<and> tag_entries split xs tag' \<noteq> [] \<and> tm_GetId tag' k' m \<noteq> -1 \<and>
       tm_GetId tag k m \<noteq> -1 \<longrightarrow> tm_GetId tag k m \<noteq> tm_GetId tag' k' m)"
proof -
  obtain gs where gs: "collect_groups split xs [] = Inr gs" and m: "m = fold add_group gs tag_map0"
    using assms(1) by (auto simp: TagMap_Create_def split: sum.splits)
  have dist: "distinct (map fst gs)" and grp: "group_of gs t = tag_entries split xs t" for t
    using collect_groups_spec [OF gs] by (simp_all add: group_of_def)
  have "tm_inv tag_map0" by (simp add: tm_inv_def tag_map0_def)
  from fold_add_group [OF this dist]
  have inv: "tm_inv m" and seg: "\<And>t. tag_entries split xs t \<noteq> [] \<Longrightarrow> seg_ok m t (tag_entries split xs t)"
    using map_of_group [OF dist] unfolding grp m by fastforce+
  obtain f where f: "omap_get (tm_mapping m) tag =
      Some \<lparr>td_first_id = f, td_count = int (length (tag_entries split xs tag))\<rparr>" "0 \<le> f"
      "f + int (length (tag_entries split xs tag)) \<le> int (length (tm_names m))"
      "\<forall>k < length (tag_entries split xs tag).
         tm_names m ! (nat f + k) = snd (sort (tag_entries split xs tag) ! k)"
    using seg [OF assms(2)] by (auto simp: seg_ok_def)
  have num: "tm_num_entries m = int (length (tm_names m))" using inv by (simp add: tm_inv_def)
  have other: "tm_GetId tag k m \<noteq> tm_GetId tag' k' m" if "tag' \<noteq> tag"
      "tm_GetId tag' k' m \<noteq> -1" "tm_GetId tag k m \<noteq> -1" for tag' k k'
    using that inv f(1) unfolding tm_inv_def
    by (fastforce simp: tm_GetId_def split: option.splits if_splits)
  have ix: "nat (f + k) = nat f + nat k" if "0 \<le> k" for k
    using that f(2) by (simp add: nat_add_distrib)
  show ?thesis
    using f num other ix
    by (auto simp: tm_NumEntries_def tm_GetId_def zless_nat_eq_int_zless nat_less_iff)
qed

theorem TagMap_GetId_spec_witness:
  "let split = (\<lambda>s. if s = ''V:5'' then [''V'', ''5''] else [s])
   in \<forall>m. TagMap_Create split [''V:5''] = Inr m \<longrightarrow> tm_GetId ''V'' 5 m = -1"
proof -
  let ?split = "\<lambda>s. if s = ''V:5'' then [''V'', ''5''] else [s]"
  have e: "tag_entries ?split [''V:5''] ''V'' = [(5, [])]"
    by (simp add: tag_entries_def ParseTagIndexName_def strtol10_def c_string_def Let_def is_space_def
        is_digit_def digit_val_def clamp_long_def to_i32_id)
  show ?thesis
    using TagMap_GetId_spec [of ?split "[''V:5'']" _ "''V''"] by (auto simp: e Let_def)
qed

end
