(* ===== verification/Logging.thy ===== *)
theory Logging
  imports GR_Prelude
begin

text \<open>
  \<open>framework/utils/hook.{h,cc}\<close> and \<open>framework/utils/logger.{h,cc}\<close>: the table of hooks and the
  log line. A hook is a function pointer, \<open>None\<close> when null; calling one gives its answer, or
  \<open>None\<close> when it throws. The table is \<open>None\<close> until the first registration. The clock and
  the formatted date are parameters; a C string ends at its first NUL, so \<open>%s\<close> prints the
  text up to there.
\<close>

section \<open>Hooks\<close>

type_synonym hook_fn = "string \<Rightarrow> int \<Rightarrow> bool option"

record hook_entry =
  he_type :: int
  he_fn :: "hook_fn option"

type_synonym hooks = "hook_entry list option"

definition EnsureInit :: "hooks \<Rightarrow> hook_entry list" where
  "EnsureInit g_hooks = (case g_hooks of Some es \<Rightarrow> es | None \<Rightarrow> [])"

fun set_hook :: "int \<Rightarrow> hook_fn option \<Rightarrow> hook_entry list \<Rightarrow> hook_entry list" where
  "set_hook type fn [] = [\<lparr>he_type = type, he_fn = fn\<rparr>]"
| "set_hook type fn (e # es) =
     (if he_type e = type then e\<lparr>he_fn := fn\<rparr> # es else e # set_hook type fn es)"

definition hook_Register :: "int \<Rightarrow> hook_fn option \<Rightarrow> hooks \<Rightarrow> hooks" where
  "hook_Register type fn g_hooks = Some (set_hook type fn (EnsureInit g_hooks))"

text \<open>\<open>GraphRuntime::SetHook\<close>.\<close>

definition SetHook :: "int \<Rightarrow> hook_fn option \<Rightarrow> hooks \<Rightarrow> hooks" where
  "SetHook type fn g_hooks = hook_Register type fn g_hooks"

fun first_accept :: "int \<Rightarrow> string \<Rightarrow> int \<Rightarrow> hook_entry list \<Rightarrow> bool option" where
  "first_accept type data flags [] = Some False"
| "first_accept type data flags (e # es) =
     (case he_fn e of
        Some fn \<Rightarrow> if he_type e = type then fn data flags else first_accept type data flags es
      | None \<Rightarrow> first_accept type data flags es)"

definition ForEachAccept :: "int \<Rightarrow> string \<Rightarrow> int \<Rightarrow> hooks \<Rightarrow> bool option" where
  "ForEachAccept type data flags g_hooks =
     (case g_hooks of None \<Rightarrow> Some False | Some es \<Rightarrow> first_accept type data flags es)"

definition hook_ClearForTesting :: "hooks \<Rightarrow> hooks" where
  "hook_ClearForTesting g_hooks = map_option (\<lambda>_. []) g_hooks"

section \<open>Logger\<close>

datatype log_level = kFatal | kError | kWarn | kInfo | kDebug

fun LogLevelToString :: "log_level \<Rightarrow> string" where
  "LogLevelToString kFatal = ''F''"
| "LogLevelToString kError = ''E''"
| "LogLevelToString kWarn = ''W''"
| "LogLevelToString kInfo = ''I''"
| "LogLevelToString kDebug = ''D''"

definition NUL :: char where "NUL = CHR 0x00"

definition c_str :: "string \<Rightarrow> string" where
  "c_str s = takeWhile (\<lambda>c. c \<noteq> NUL) s"

text \<open>\<open>%03d\<close> of a number below 1000.\<close>

definition three_digits :: "nat \<Rightarrow> string" where
  "three_digits n = replicate (3 - length (dec_of_nat n)) CHR ''0'' @ dec_of_nat n"

definition log_line :: "log_level \<Rightarrow> string \<Rightarrow> nat \<Rightarrow> string \<Rightarrow> string \<Rightarrow> string" where
  "log_line level timestamp ts_ms tag content =
     c_str tag @ '' '' @ LogLevelToString level @ '' '' @ timestamp @ ''.'' @ three_digits (ts_ms mod 1000) @
     '' '' @ c_str content"

text \<open>
  The buffer holds at most 2047 characters and a NUL; the hooks read the C string, the default
  output writes as many bytes as the untruncated line has, but at most the whole buffer.
\<close>

definition formatted_buffer :: "string \<Rightarrow> string" where
  "formatted_buffer line = take 2047 line"

definition written_bytes :: "string \<Rightarrow> string" where
  "written_bytes line = (if length line < 2048 then line else take 2047 line @ [NUL])"

record log_output =
  lo_stderr :: string
  lo_stdout :: string

definition hook_warning :: string where
  "hook_warning = ''graphrt W Hook threw exception, falling back to default output'' @ [CHR 0x0A]"

definition Log ::
  "log_level \<Rightarrow> string \<Rightarrow> nat \<Rightarrow> string \<Rightarrow> string \<Rightarrow> hooks \<Rightarrow> log_output \<Rightarrow> log_output" where
  "Log level timestamp ts_ms tag content g_hooks out =
     (let line = log_line level timestamp ts_ms tag content;
          answer = ForEachAccept 1 (formatted_buffer line) 0 g_hooks;
          out1 = (if answer = None then out\<lparr>lo_stderr := lo_stderr out @ hook_warning\<rparr> else out);
          bytes = written_bytes line @ [CHR 0x0A]
      in if answer = Some True then out1
         else if level = kFatal \<or> level = kError then out1\<lparr>lo_stderr := lo_stderr out1 @ bytes\<rparr>
         else out1\<lparr>lo_stdout := lo_stdout out1 @ bytes\<rparr>)"

text \<open>The five levels, with a tag and with the default tag.\<close>

definition Logger_Debug :: "string \<Rightarrow> nat \<Rightarrow> string \<Rightarrow> string \<Rightarrow> hooks \<Rightarrow> log_output \<Rightarrow> log_output" where
  "Logger_Debug timestamp ts_ms tag content = Log kDebug timestamp ts_ms tag content"

definition Logger_Info :: "string \<Rightarrow> nat \<Rightarrow> string \<Rightarrow> string \<Rightarrow> hooks \<Rightarrow> log_output \<Rightarrow> log_output" where
  "Logger_Info timestamp ts_ms tag content = Log kInfo timestamp ts_ms tag content"

definition Logger_Warn :: "string \<Rightarrow> nat \<Rightarrow> string \<Rightarrow> string \<Rightarrow> hooks \<Rightarrow> log_output \<Rightarrow> log_output" where
  "Logger_Warn timestamp ts_ms tag content = Log kWarn timestamp ts_ms tag content"

definition Logger_Error :: "string \<Rightarrow> nat \<Rightarrow> string \<Rightarrow> string \<Rightarrow> hooks \<Rightarrow> log_output \<Rightarrow> log_output" where
  "Logger_Error timestamp ts_ms tag content = Log kError timestamp ts_ms tag content"

definition Logger_Fatal :: "string \<Rightarrow> nat \<Rightarrow> string \<Rightarrow> string \<Rightarrow> hooks \<Rightarrow> log_output \<Rightarrow> log_output" where
  "Logger_Fatal timestamp ts_ms tag content = Log kFatal timestamp ts_ms tag content"

definition GRAPHRT_LOG_TAG :: string where "GRAPHRT_LOG_TAG = ''graphrt''"

definition Debug_untagged :: "string \<Rightarrow> nat \<Rightarrow> string \<Rightarrow> hooks \<Rightarrow> log_output \<Rightarrow> log_output" where
  "Debug_untagged timestamp ts_ms content = Log kDebug timestamp ts_ms GRAPHRT_LOG_TAG content"

definition Info_untagged :: "string \<Rightarrow> nat \<Rightarrow> string \<Rightarrow> hooks \<Rightarrow> log_output \<Rightarrow> log_output" where
  "Info_untagged timestamp ts_ms content = Log kInfo timestamp ts_ms GRAPHRT_LOG_TAG content"

definition Warn_untagged :: "string \<Rightarrow> nat \<Rightarrow> string \<Rightarrow> hooks \<Rightarrow> log_output \<Rightarrow> log_output" where
  "Warn_untagged timestamp ts_ms content = Log kWarn timestamp ts_ms GRAPHRT_LOG_TAG content"

definition Error_untagged :: "string \<Rightarrow> nat \<Rightarrow> string \<Rightarrow> hooks \<Rightarrow> log_output \<Rightarrow> log_output" where
  "Error_untagged timestamp ts_ms content = Log kError timestamp ts_ms GRAPHRT_LOG_TAG content"

definition Fatal_untagged :: "string \<Rightarrow> nat \<Rightarrow> string \<Rightarrow> hooks \<Rightarrow> log_output \<Rightarrow> log_output" where
  "Fatal_untagged timestamp ts_ms content = Log kFatal timestamp ts_ms GRAPHRT_LOG_TAG content"

section \<open>The table of hooks as a dictionary\<close>

text \<open>What the table answers for a type: nothing, or the function registered last.\<close>

definition hook_of :: "hooks \<Rightarrow> int \<Rightarrow> hook_fn option option" where
  "hook_of g_hooks type = map_option he_fn (find (\<lambda>e. he_type e = type) (EnsureInit g_hooks))"

definition hooks_wf :: "hooks \<Rightarrow> bool" where
  "hooks_wf g_hooks \<longleftrightarrow> distinct (map he_type (EnsureInit g_hooks))"

lemma EnsureInit_simps [simp]: "EnsureInit None = []" "EnsureInit (Some es) = es"
  by (simp_all add: EnsureInit_def)

lemma types_set_hook: "he_type ` set (set_hook type fn es) = insert type (he_type ` set es)"
  by (induction type fn es rule: set_hook.induct) auto

lemma distinct_set_hook: "distinct (map he_type es) \<Longrightarrow> distinct (map he_type (set_hook type fn es))"
  by (induction type fn es rule: set_hook.induct)
    (auto simp: types_set_hook image_iff dest: equalityD1 [OF types_set_hook, THEN subsetD, OF imageI])

lemma find_set_hook:
  "map_option he_fn (find (\<lambda>e. he_type e = t) (set_hook type fn es)) =
     (if t = type then Some fn else map_option he_fn (find (\<lambda>e. he_type e = t) es))"
  by (induction type fn es rule: set_hook.induct) auto

interpretation hook_table: dict None hook_of "\<lambda>type fn. hook_Register type fn" hooks_wf
  by unfold_locales
    (simp_all add: hooks_wf_def hook_of_def hook_Register_def distinct_set_hook find_set_hook)

lemma first_accept_find:
  "distinct (map he_type es) \<Longrightarrow>
   first_accept type data flags es =
     (case map_option he_fn (find (\<lambda>e. he_type e = type) es) of
        Some (Some fn) \<Rightarrow> fn data flags | _ \<Rightarrow> Some False)"
proof (induction es)
  case (Cons e es)
  have "find (\<lambda>x. he_type x = type) es = None" if "he_type e = type"
    using Cons.prems that by (auto simp: find_None_iff image_iff)
  then show ?case
    using Cons by (cases "he_type e = type"; cases "he_fn e") simp_all
qed simp

lemma ForEachAccept_hook:
  "hooks_wf g_hooks \<Longrightarrow>
   ForEachAccept type data flags g_hooks =
     (case hook_of g_hooks type of Some (Some fn) \<Rightarrow> fn data flags | _ \<Rightarrow> Some False)"
  by (cases g_hooks) (simp_all add: ForEachAccept_def hook_of_def hooks_wf_def first_accept_find)

text \<open>
  A log line goes to exactly one place: the hook registered last for the log, when it accepts, or
  else standard error for errors and standard output for the rest; a null hook counts as none,
  and a hook that throws gets a warning and the default output.
\<close>

lemma Log_routing:
  assumes "hooks_wf g_hooks"
  shows "Log level timestamp ts_ms tag content (hook_Register 1 fn g_hooks) out =
    (let line = log_line level timestamp ts_ms tag content; bytes = written_bytes line @ [CHR 0x0A];
         answer = (case fn of Some f \<Rightarrow> f (formatted_buffer line) 0 | None \<Rightarrow> Some False);
         warning = (if answer = None then hook_warning else [])
     in if answer = Some True then out
        else if level \<in> {kFatal, kError} then out\<lparr>lo_stderr := lo_stderr out @ warning @ bytes\<rparr>
        else out\<lparr>lo_stderr := lo_stderr out @ warning, lo_stdout := lo_stdout out @ bytes\<rparr>)"
  using assms
  by (simp add: Log_def Let_def ForEachAccept_hook hook_table.inv_put hook_table.get_put_same
      split: option.splits)

text \<open>A line longer than the buffer is written with the terminating NUL in it.\<close>

lemma long_line_has_NUL:
  "2048 \<le> length line \<Longrightarrow> length (written_bytes line) = 2048 \<and> last (written_bytes line) = NUL"
  by (simp add: written_bytes_def)

end
