(* ===== verification/Key_Value.thy ===== *)
theory Key_Value
  imports Config_Validator Tag_Map Logging
begin

text \<open>
  Two extensions a client makes: the parser of \<open>examples/custom_parser.cc\<close> for a line-based format,
  and the log filter of \<open>examples/log_intercept_demo.cc\<close>. \<open>absl::StrSplit\<close> at colons is the parameter
  \<open>split\<close>, as in \<open>Tag_Map\<close>; \<open>SkipEmpty\<close> drops the empty pieces.
\<close>

section \<open>Reading lines\<close>

definition end_of_line :: char where "end_of_line = CHR 0x0A"

text \<open>The lines \<open>std::getline\<close> yields until the end of the file.\<close>

function lines_of :: "string \<Rightarrow> string list" where
  "lines_of text =
     (if text = [] then []
      else let l = takeWhile (\<lambda>c. c \<noteq> end_of_line) text in l # lines_of (drop (length l + 1) text))"
  by pat_completeness auto
termination
  by (relation "measure length") auto

declare lines_of.simps [simp del]

section \<open>The key-value parser\<close>

text \<open>One line: skipped when empty or a comment, otherwise a node when its fields say so.\<close>

definition kv_line :: "(string \<Rightarrow> string list) \<Rightarrow> string \<Rightarrow> node_def option" where
  "kv_line split line =
     (if line = [] \<or> hd line = CHR ''#'' then None
      else
        let tokens = filter (\<lambda>t. t \<noteq> []) (split line)
        in if tokens = [] then None
           else if tokens ! 0 = ''node'' \<and> length tokens \<ge> 3
           then Some (node_def0\<lparr>nd_name := tokens ! 1, nd_type := tokens ! 2,
                  nd_input_streams := (if length tokens > 3 then [tokens ! 3] else []),
                  nd_output_streams := (if length tokens > 4 then [tokens ! 4] else [])\<rparr>)
           else None)"

definition KeyValueParser_Parse ::
  "(string \<Rightarrow> string list) \<Rightarrow> (string \<Rightarrow> string option) \<Rightarrow> string \<Rightarrow> graph_config status_or" where
  "KeyValueParser_Parse split read_file file_path =
     (case read_file file_path of
        None \<Rightarrow> Inl (Status CNotFound (''config file not found: '' @ file_path))
      | Some text \<Rightarrow>
          let config = graph_config0\<lparr>gc_nodes := List.map_filter (kv_line split) (lines_of text)\<rparr>;
              status = Validate config
          in if \<not> st_ok status then Inl status else Inr config)"

section \<open>Writing the format\<close>

text \<open>The nodes the format can express, and the line of one.\<close>

definition kv_field :: "string \<Rightarrow> bool" where
  "kv_field s \<longleftrightarrow> s \<noteq> [] \<and> CHR '':'' \<notin> set s \<and> end_of_line \<notin> set s"

definition kv_node :: "node_def \<Rightarrow> bool" where
  "kv_node d \<longleftrightarrow> kv_field (nd_name d) \<and> kv_field (nd_type d) \<and>
     list_all kv_field (nd_input_streams d) \<and> list_all kv_field (nd_output_streams d) \<and>
     length (nd_input_streams d) \<le> 1 \<and> length (nd_output_streams d) \<le> length (nd_input_streams d) \<and>
     d = node_def0\<lparr>nd_name := nd_name d, nd_type := nd_type d, nd_input_streams := nd_input_streams d,
                   nd_output_streams := nd_output_streams d\<rparr>"

definition kv_fields :: "node_def \<Rightarrow> string list" where
  "kv_fields d = [''node'', nd_name d, nd_type d] @ nd_input_streams d @ nd_output_streams d"

fun join_colons :: "string list \<Rightarrow> string" where
  "join_colons [] = []"
| "join_colons [s] = s"
| "join_colons (s # t # ss) = s @ '':'' @ join_colons (t # ss)"

definition kv_text :: "node_def list \<Rightarrow> string" where
  "kv_text ds = concat (map (\<lambda>d. join_colons (kv_fields d) @ [end_of_line]) ds)"

lemma split_join:
  "splits_at_colon split \<Longrightarrow> ss \<noteq> [] \<Longrightarrow> \<forall>s\<in>set ss. CHR '':'' \<notin> set s \<Longrightarrow> split (join_colons ss) = ss"
  by (induction ss rule: join_colons.induct) (simp_all add: splits_at_colon_def)

lemma lines_of_Nil [simp]: "lines_of [] = []"
  by (simp add: lines_of.simps)

lemma lines_of_line: "end_of_line \<notin> set l \<Longrightarrow> lines_of (l @ end_of_line # rest) = l # lines_of rest"
  by (subst lines_of.simps) (simp add: takeWhile_append Let_def)

lemma set_join: "set (join_colons ss) \<subseteq> insert CHR '':'' (\<Union> (set ` set ss))"
  by (induction ss rule: join_colons.induct) auto

lemma kv_fields_ok: "kv_node d \<Longrightarrow> \<forall>s\<in>set (kv_fields d). kv_field s"
  by (auto simp: kv_node_def kv_fields_def list_all_iff) (simp add: kv_field_def end_of_line_def)

lemma kv_line_node:
  assumes "splits_at_colon split" "kv_node d"
  shows "kv_line split (join_colons (kv_fields d)) = Some d"
proof -
  let ?f = "kv_fields d"
  have f: "\<forall>s\<in>set ?f. s \<noteq> [] \<and> CHR '':'' \<notin> set s"
    using kv_fields_ok [OF assms(2)] by (simp add: kv_field_def)
  have "split (join_colons ?f) = ?f" by (rule split_join [OF assms(1)]) (use f in \<open>auto simp: kv_fields_def\<close>)
  moreover have "filter (\<lambda>t. t \<noteq> []) ?f = ?f" using f by simp
  moreover have "join_colons ?f \<noteq> [] \<and> hd (join_colons ?f) \<noteq> CHR ''#''" by (simp add: kv_fields_def)
  ultimately have line: "kv_line split (join_colons ?f) =
      Some (node_def0\<lparr>nd_name := nd_name d, nd_type := nd_type d,
        nd_input_streams := (if length ?f > 3 then [?f ! 3] else []),
        nd_output_streams := (if length ?f > 4 then [?f ! 4] else [])\<rparr>)"
    by (simp add: kv_line_def kv_fields_def Let_def)
  have "(if length ?f > 3 then [?f ! 3] else []) = nd_input_streams d \<and>
      (if length ?f > 4 then [?f ! 4] else []) = nd_output_streams d"
    using assms(2) unfolding kv_node_def kv_fields_def
    by (cases "nd_input_streams d"; cases "nd_output_streams d") (auto simp: numeral_eq_Suc)
  then have "(if length ?f > 3 then [?f ! 3] else []) = nd_input_streams d"
    "(if length ?f > 4 then [?f ! 4] else []) = nd_output_streams d" by blast+
  then show ?thesis using line assms(2) by (simp only: kv_node_def)
qed

lemma lines_of_text:
  "\<forall>d\<in>set ds. kv_node d \<Longrightarrow> lines_of (kv_text ds) = map (\<lambda>d. join_colons (kv_fields d)) ds"
proof (induction ds)
  case (Cons d ds)
  have "end_of_line \<notin> set (join_colons (kv_fields d))"
    using set_join [of "kv_fields d"] kv_fields_ok [of d] Cons.prems
    by (auto simp: kv_field_def end_of_line_def)
  then show ?case using Cons by (simp add: kv_text_def lines_of_line)
qed (simp add: kv_text_def)

section \<open>Properties\<close>

text \<open>
  C37: the key-value parser reads back what the format can say: the text of nodes with at most
  one input and one output stream each, and no output without an input, parses to the
  configuration of exactly those nodes in order, which is returned if it is valid and otherwise
  replaced by the validator's status; a file that does not open is NotFound.
\<close>

theorem KeyValueParser_roundtrip:
  assumes "splits_at_colon split" "\<forall>d\<in>set ds. kv_node d"
  shows "KeyValueParser_Parse split (\<lambda>path. if path = p then Some (kv_text ds) else None) q =
    (if q \<noteq> p then Inl (Status CNotFound (''config file not found: '' @ q))
     else let config = graph_config0\<lparr>gc_nodes := ds\<rparr>
          in if st_ok (Validate config) then Inr config else Inl (Validate config))"
proof -
  have "List.map_filter (kv_line split) (map (\<lambda>d. join_colons (kv_fields d)) ds) = ds"
    using assms(2)
    by (induction ds) (simp_all add: List.map_filter_simps kv_line_node [OF assms(1)])
  then show ?thesis
    using lines_of_text [OF assms(2)] by (simp add: KeyValueParser_Parse_def Let_def)
qed

theorem KeyValueParser_roundtrip_witness:
  "KeyValueParser_Parse colon_split (\<lambda>path. if path = ''test.kv'' then Some (''node:a:T'' @ [end_of_line]) else None)
     ''test.kv'' = Inr (graph_config0\<lparr>gc_nodes := [node_def0\<lparr>nd_name := ''a'', nd_type := ''T''\<rparr>]\<rparr>)"
proof -
  let ?d = "node_def0\<lparr>nd_name := ''a'', nd_type := ''T''\<rparr>"
  have d: "\<forall>d\<in>set [?d]. kv_node d"
    by (simp add: kv_node_def kv_field_def node_def0_def end_of_line_def)
  have v: "st_ok (Validate (graph_config0\<lparr>gc_nodes := [?d]\<rparr>))" by code_simp
  have t: "kv_text [?d] = ''node:a:T'' @ [end_of_line]" by (simp add: kv_text_def kv_fields_def node_def0_def)
  have "KeyValueParser_Parse colon_split (\<lambda>path. if path = ''test.kv'' then Some (kv_text [?d]) else None) ''test.kv'' =
      Inr (graph_config0\<lparr>gc_nodes := [?d]\<rparr>)"
    using KeyValueParser_roundtrip [OF splits_at_colon_split d, of "''test.kv''" "''test.kv''"] v
    by (simp add: Let_def)
  then show ?thesis unfolding t .
qed

text \<open>
  A source with an output cannot be written: the empty input field is skipped, so what was meant
  as the output stream is read as the input.
\<close>

lemma kv_source_misread:
  assumes "splits_at_colon split"
  shows "kv_line split ''node:a:T::out'' =
    Some (node_def0\<lparr>nd_name := ''a'', nd_type := ''T'', nd_input_streams := [''out'']\<rparr>)"
proof -
  have "split ''node:a:T::out'' = [''node'', ''a'', ''T'', [], ''out'']"
    using split_join [OF assms, of "[''node'', ''a'', ''T'', [], ''out'']"] by simp
  then show ?thesis by (simp add: kv_line_def Let_def node_def0_def)
qed

section \<open>The debug filter\<close>

text \<open>The loop of \<open>FilterDebugHook\<close> over the C string, up to the first space.\<close>

fun filters_debug :: "string \<Rightarrow> bool" where
  "filters_debug [] = False"
| "filters_debug (c # line) =
     (if c = CHR '' '' \<and> take 2 line = ''D '' then True
      else if c = CHR '' '' then False
      else filters_debug line)"

definition FilterDebugHook :: hook_fn where
  "FilterDebugHook data flags = Some (filters_debug data)"

lemma filters_debug_line:
  "CHR '' '' \<notin> set tag \<Longrightarrow> filters_debug (tag @ CHR '' '' # rest) \<longleftrightarrow> take 2 rest = ''D ''"
  by (induction tag) auto

text \<open>
  The filter of the log interception demo drops exactly the debug lines: once it is
  registered for the log, whichever hook was there before, a message of level Debug writes nothing
  and every other message goes where it goes without a hook, provided its tag has no space in it and
  leaves room for the level in the buffer.
\<close>

lemma FilterDebugHook_drops_debug:
  assumes "CHR '' '' \<notin> set (c_str tag)" "length (c_str tag) + 3 \<le> 2047" "hooks_wf g_hooks"
  shows "Log level timestamp ts_ms tag content (SetHook 1 (Some FilterDebugHook) g_hooks) out =
    (if level = kDebug then out else Log level timestamp ts_ms tag content None out)"
proof -
  let ?line = "log_line level timestamp ts_ms tag content"
  let ?t = "c_str tag"
  obtain rest where line: "?line = ?t @ CHR '' '' # (LogLevelToString level @ '' '') @ rest"
    by (simp add: log_line_def)
  have len: "length (LogLevelToString level) = 1" by (cases level) simp_all
  have "formatted_buffer ?line = ?t @ CHR '' '' # (LogLevelToString level @ '' '') @ take (2044 - length ?t) rest"
    unfolding formatted_buffer_def line using assms(2) len by (simp add: take_Cons')
  then have "filters_debug (formatted_buffer ?line) \<longleftrightarrow> LogLevelToString level @ '' '' = ''D ''"
    using filters_debug_line [OF assms(1)] len by simp
  then have f: "filters_debug (formatted_buffer ?line) \<longleftrightarrow> level = kDebug"
    by (cases level) simp_all
  show ?thesis
    unfolding SetHook_def Log_routing [OF assms(3)] using f
    by (auto simp: FilterDebugHook_def Let_def Log_def ForEachAccept_def)
qed

lemma FilterDebugHook_drops_debug_witness:
  "Log kDebug ''t'' 0 ''demo'' ''x'' (SetHook 1 (Some FilterDebugHook) None) \<lparr>lo_stderr = [], lo_stdout = []\<rparr> =
     \<lparr>lo_stderr = [], lo_stdout = []\<rparr>"
  using FilterDebugHook_drops_debug [of "''demo''" None kDebug]
  by (simp add: c_str_def NUL_def hooks_wf_def)

end
