(* ===== verification/Json_Config.thy ===== *)
theory Json_Config
  imports Config_Validator
begin

text \<open>
  \<open>framework/config/json/json_parser.cc\<close> and \<open>framework/config/parser_registry.cc\<close>: reading a
  configuration from a JSON document, and choosing a parser by file extension. The JSON library
  is a parameter, the record \<open>json_lib\<close> of the calls the code makes: the typed reads
  (\<open>value(key, default)\<close>) may throw, which is an \<open>Inl\<close> carrying the message. The parser catches
  only the parse error, so its result is either an exception or a status or a configuration.
\<close>

section \<open>The JSON library, as the code calls it\<close>

record 'j json_lib =
  js_parse :: "string \<Rightarrow> string + 'j"
  js_contains :: "'j \<Rightarrow> string \<Rightarrow> bool"
  js_at :: "'j \<Rightarrow> string \<Rightarrow> 'j"
  js_elements :: "'j \<Rightarrow> 'j list"
  js_items :: "'j \<Rightarrow> (string \<times> 'j) list"
  js_is_object :: "'j \<Rightarrow> bool"
  js_is_string :: "'j \<Rightarrow> bool"
  js_is_boolean :: "'j \<Rightarrow> bool"
  js_is_number_integer :: "'j \<Rightarrow> bool"
  js_is_number_float :: "'j \<Rightarrow> bool"
  js_get_string :: "'j \<Rightarrow> string"
  js_get_bool :: "'j \<Rightarrow> bool"
  js_get_int :: "'j \<Rightarrow> int"
  js_get_double :: "'j \<Rightarrow> rat"
  js_value_int :: "'j \<Rightarrow> string \<Rightarrow> int \<Rightarrow> string + int"
  js_value_int64 :: "'j \<Rightarrow> string \<Rightarrow> int \<Rightarrow> string + int"
  js_value_bool :: "'j \<Rightarrow> string \<Rightarrow> bool \<Rightarrow> string + bool"
  js_value_string :: "'j \<Rightarrow> string \<Rightarrow> string \<Rightarrow> string + string"
  js_value_strings :: "'j \<Rightarrow> string \<Rightarrow> string list \<Rightarrow> string + string list"

definition and_then :: "'e + 'a \<Rightarrow> ('a \<Rightarrow> 'e + 'b) \<Rightarrow> 'e + 'b" where
  "and_then x f = (case x of Inl e \<Rightarrow> Inl e | Inr a \<Rightarrow> f a)"

lemma and_then_simps [simp]: "and_then (Inl e) f = Inl e" "and_then (Inr a) f = f a"
  by (simp_all add: and_then_def)

lemma and_then_Inr: "and_then x f = Inr b \<longleftrightarrow> (\<exists>a. x = Inr a \<and> f a = Inr b)"
  by (cases x) simp_all

section \<open>Parsing\<close>

fun ParseNodeOptions ::
  "('j, 'z) json_lib_scheme \<Rightarrow> string \<Rightarrow> (string \<times> 'j) list \<Rightarrow> node_options \<Rightarrow> status + node_options" where
  "ParseNodeOptions L node_name [] opts = Inr opts"
| "ParseNodeOptions L node_name ((key, v) # rest) opts =
     (if js_is_string L v
      then ParseNodeOptions L node_name rest (no_Set key (AnyString (js_get_string L v)) opts)
      else if js_is_boolean L v
      then ParseNodeOptions L node_name rest (no_Set key (AnyBool (js_get_bool L v)) opts)
      else if js_is_number_integer L v
      then ParseNodeOptions L node_name rest (no_Set key (AnyInt (js_get_int L v)) opts)
      else if js_is_number_float L v
      then ParseNodeOptions L node_name rest (no_Set key (AnyDouble (js_get_double L v)) opts)
      else Inl (InvalidArgument (''node '' @ quote @ node_name @ quote @ '': option '' @ quote @ key @
             quote @ '' has an unsupported JSON value type (must be scalar)'')))"

definition parse_profiler ::
  "('j, 'z) json_lib_scheme \<Rightarrow> 'j \<Rightarrow> profiler_config \<Rightarrow> string + profiler_config" where
  "parse_profiler L pc p =
     and_then (js_value_bool L pc ''enable_profiler'' False) (\<lambda>enable.
     and_then (js_value_int64 L pc ''histogram_interval_size_usec'' 1000000) (\<lambda>interval.
     and_then (js_value_int L pc ''num_histogram_intervals'' 5) (\<lambda>num.
     and_then (js_value_string L pc ''trace_log_path'' []) (\<lambda>path.
       Inr (p\<lparr>pc_enable_profiler := enable, pc_histogram_interval_size_usec := interval,
              pc_num_histogram_intervals := num, pc_trace_log_path := path\<rparr>)))))"

fun parse_executors ::
  "('j, 'z) json_lib_scheme \<Rightarrow> 'j list \<Rightarrow> executor_def list \<Rightarrow> string + executor_def list" where
  "parse_executors L [] es = Inr es"
| "parse_executors L (ej # rest) es =
     and_then (js_value_string L ej ''name'' []) (\<lambda>name.
     and_then (js_value_string L ej ''type'' ''ThreadPoolExecutor'') (\<lambda>ty.
     and_then (js_value_int L ej ''num_threads'' 0) (\<lambda>num.
       parse_executors L rest (es @ [\<lparr>ed_name = name, ed_type = ty, ed_num_threads = num\<rparr>]))))"

definition parse_node :: "('j, 'z) json_lib_scheme \<Rightarrow> 'j \<Rightarrow> string + node_def status_or" where
  "parse_node L nj =
     and_then (js_value_string L nj ''name'' []) (\<lambda>name.
     if name = [] then Inr (Inl (InvalidArgument ''node name is required'')) else
     and_then (js_value_string L nj ''type'' []) (\<lambda>ty.
     if ty = [] then Inr (Inl (InvalidArgument (''node '' @ quote @ name @ quote @ '': type is required''))) else
     and_then (js_value_strings L nj ''input_streams'' []) (\<lambda>ins.
     and_then (js_value_strings L nj ''output_streams'' []) (\<lambda>outs.
     and_then (js_value_strings L nj ''input_side_packets'' []) (\<lambda>in_side.
     and_then (js_value_strings L nj ''output_side_packets'' []) (\<lambda>out_side.
     and_then (js_value_string L nj ''executor'' []) (\<lambda>executor.
     and_then (js_value_string L nj ''input_stream_handler'' []) (\<lambda>handler.
     and_then (js_value_int L nj ''max_in_flight'' 1) (\<lambda>max_in_flight.
     and_then (js_value_int L nj ''source_layer'' 0) (\<lambda>source_layer.
       let d = \<lparr>nd_name = name, nd_type = ty, nd_input_streams = ins, nd_output_streams = outs,
                nd_input_side_packets = in_side, nd_output_side_packets = out_side,
                nd_options = [], nd_executor = executor, nd_input_stream_handler = handler,
                nd_max_in_flight = max_in_flight, nd_source_layer = source_layer\<rparr>
       in if js_contains L nj ''options''
          then if \<not> js_is_object L (js_at L nj ''options'')
               then Inr (Inl (InvalidArgument (''node '' @ quote @ name @ quote @ '': '' @ quote @ ''options'' @ quote @
                      '' must be a JSON object'')))
               else case ParseNodeOptions L name (js_items L (js_at L nj ''options'')) [] of
                      Inl st \<Rightarrow> Inr (Inl st)
                    | Inr opts \<Rightarrow> Inr (Inr (d\<lparr>nd_options := opts\<rparr>))
          else Inr (Inr d)))))))))))"

fun parse_nodes ::
  "('j, 'z) json_lib_scheme \<Rightarrow> 'j list \<Rightarrow> node_def list \<Rightarrow> string + node_def list status_or" where
  "parse_nodes L [] ds = Inr (Inr ds)"
| "parse_nodes L (nj # rest) ds =
     and_then (parse_node L nj) (\<lambda>res.
       case res of Inl st \<Rightarrow> Inr (Inl st) | Inr d \<Rightarrow> parse_nodes L rest (ds @ [d]))"

definition ParseJsonText ::
  "('j, 'z) json_lib_scheme \<Rightarrow> string \<Rightarrow> string \<Rightarrow> string + graph_config status_or" where
  "ParseJsonText L json_text source_name =
     (case js_parse L json_text of
        Inl what \<Rightarrow> Inr (Inl (InvalidArgument (source_name @ '': JSON parse error: '' @ what)))
      | Inr doc \<Rightarrow>
          and_then (js_value_int L doc ''max_queue_size'' 100) (\<lambda>max_queue_size.
          and_then (js_value_bool L doc ''report_deadlock'' False) (\<lambda>report_deadlock.
          and_then (if js_contains L doc ''profiler_config''
                    then parse_profiler L (js_at L doc ''profiler_config'') profiler_config0
                    else Inr profiler_config0) (\<lambda>profiler.
          and_then (js_value_strings L doc ''input_streams'' []) (\<lambda>ins.
          and_then (js_value_strings L doc ''output_streams'' []) (\<lambda>outs.
          and_then (if js_contains L doc ''executors''
                    then parse_executors L (js_elements L (js_at L doc ''executors'')) []
                    else Inr []) (\<lambda>executors.
          and_then (if js_contains L doc ''nodes''
                    then parse_nodes L (js_elements L (js_at L doc ''nodes'')) []
                    else Inr (Inr [])) (\<lambda>res.
            case res of
              Inl st \<Rightarrow> Inr (Inl st)
            | Inr nodes \<Rightarrow>
                let config = \<lparr>gc_max_queue_size = max_queue_size, gc_report_deadlock = report_deadlock,
                              gc_profiler_config = profiler, gc_nodes = nodes,
                              gc_executors = executors, gc_input_streams = ins,
                              gc_output_streams = outs\<rparr>;
                    st = Validate config
                in Inr (if \<not> st_ok st then Inl st else Inr config)))))))))"

text \<open>\<open>read_file\<close> is the contents of a file that opens; \<open>None\<close> when it does not.\<close>

definition JsonParser_Parse ::
  "('j, 'z) json_lib_scheme \<Rightarrow> (string \<Rightarrow> string option) \<Rightarrow> string \<Rightarrow> string + graph_config status_or" where
  "JsonParser_Parse L read_file file_path =
     (case read_file file_path of
        None \<Rightarrow> Inr (Inl (Status CNotFound (''config file not found: '' @ file_path)))
      | Some text \<Rightarrow> ParseJsonText L text file_path)"

definition JsonParser_ParseFromString ::
  "('j, 'z) json_lib_scheme \<Rightarrow> string \<Rightarrow> string + graph_config status_or" where
  "JsonParser_ParseFromString L json_text = ParseJsonText L json_text ''<json_string>''"

section \<open>Choosing a parser\<close>

type_synonym 'f parser_registry = "(string, 'f) omap"

text \<open>\<open>std::tolower\<close> in the C locale.\<close>

definition to_lower :: "char \<Rightarrow> char" where
  "to_lower c =
     (if of_char CHR ''A'' \<le> (of_char c :: nat) \<and> (of_char c :: nat) \<le> of_char CHR ''Z''
      then char_of ((of_char c :: nat) + 32) else c)"

definition ExtensionFromPath :: "string \<Rightarrow> string" where
  "ExtensionFromPath path =
     (if CHR ''.'' \<notin> set path then []
      else map to_lower (rev (takeWhile (\<lambda>c. c \<noteq> CHR ''.'') (rev path))))"

definition pr_Register :: "string \<Rightarrow> 'f \<Rightarrow> 'f parser_registry \<Rightarrow> 'f parser_registry" where
  "pr_Register extension f d = omap_put extension f d"

definition pr_CreateForFile :: "string \<Rightarrow> 'f parser_registry \<Rightarrow> 'f option" where
  "pr_CreateForFile file_path d = omap_get d (ExtensionFromPath file_path)"

definition pr_IsFormatSupported :: "string \<Rightarrow> 'f parser_registry \<Rightarrow> bool" where
  "pr_IsFormatSupported file_path d \<longleftrightarrow> omap_get d (ExtensionFromPath file_path) \<noteq> None"

section \<open>A document for a configuration\<close>

text \<open>
  The constructors of a JSON library, the document that spells out every field of a
  configuration, and the documented behaviour of the reads on documents built so.
\<close>

record 'j json_make =
  mk_object :: "(string \<times> 'j) list \<Rightarrow> 'j"
  mk_array :: "'j list \<Rightarrow> 'j"
  mk_string :: "string \<Rightarrow> 'j"
  mk_bool :: "bool \<Rightarrow> 'j"
  mk_int :: "int \<Rightarrow> 'j"
  mk_double :: "rat \<Rightarrow> 'j"

definition reads_objects :: "('j, 'z) json_lib_scheme \<Rightarrow> 'j json_make \<Rightarrow> bool" where
  "reads_objects L B \<longleftrightarrow>
     (\<forall>kvs. js_is_object L (mk_object B kvs)) \<and>
     (\<forall>kvs. omap_wf kvs \<longrightarrow> js_items L (mk_object B kvs) = kvs) \<and>
     (\<forall>kvs k. js_contains L (mk_object B kvs) k \<longleftrightarrow> map_of kvs k \<noteq> None) \<and>
     (\<forall>kvs k j. map_of kvs k = Some j \<longrightarrow> js_at L (mk_object B kvs) k = j) \<and>
     (\<forall>js. js_elements L (mk_array B js) = js)"

definition reads_values :: "('j, 'z) json_lib_scheme \<Rightarrow> 'j json_make \<Rightarrow> bool" where
  "reads_values L B \<longleftrightarrow>
     (\<forall>kvs k d i. map_of kvs k = Some (mk_int B i) \<and> INT32_MIN \<le> i \<and> i \<le> INT32_MAX \<longrightarrow>
        js_value_int L (mk_object B kvs) k d = Inr i) \<and>
     (\<forall>kvs k d i. map_of kvs k = Some (mk_int B i) \<and> INT64_MIN \<le> i \<and> i \<le> INT64_MAX \<longrightarrow>
        js_value_int64 L (mk_object B kvs) k d = Inr i) \<and>
     (\<forall>kvs k d b. map_of kvs k = Some (mk_bool B b) \<longrightarrow> js_value_bool L (mk_object B kvs) k d = Inr b) \<and>
     (\<forall>kvs k d s. map_of kvs k = Some (mk_string B s) \<longrightarrow>
        js_value_string L (mk_object B kvs) k d = Inr s) \<and>
     (\<forall>kvs k d ss. map_of kvs k = Some (mk_array B (map (mk_string B) ss)) \<longrightarrow>
        js_value_strings L (mk_object B kvs) k d = Inr ss)"

definition reads_scalars :: "('j, 'z) json_lib_scheme \<Rightarrow> 'j json_make \<Rightarrow> bool" where
  "reads_scalars L B \<longleftrightarrow>
     (\<forall>s. js_is_string L (mk_string B s) \<and> js_get_string L (mk_string B s) = s) \<and>
     (\<forall>b. \<not> js_is_string L (mk_bool B b) \<and> js_is_boolean L (mk_bool B b) \<and>
        js_get_bool L (mk_bool B b) = b) \<and>
     (\<forall>i. \<not> js_is_string L (mk_int B i) \<and> \<not> js_is_boolean L (mk_int B i) \<and>
        js_is_number_integer L (mk_int B i) \<and>
        (INT32_MIN \<le> i \<and> i \<le> INT32_MAX \<longrightarrow> js_get_int L (mk_int B i) = i)) \<and>
     (\<forall>x. \<not> js_is_string L (mk_double B x) \<and> \<not> js_is_boolean L (mk_double B x) \<and>
        \<not> js_is_number_integer L (mk_double B x) \<and> js_is_number_float L (mk_double B x) \<and>
        js_get_double L (mk_double B x) = x)"

fun json_of_any :: "'j json_make \<Rightarrow> any_val \<Rightarrow> 'j" where
  "json_of_any B (AnyString s) = mk_string B s"
| "json_of_any B (AnyBool b) = mk_bool B b"
| "json_of_any B (AnyInt i) = mk_int B i"
| "json_of_any B (AnyDouble x) = mk_double B x"
| "json_of_any B (AnyOther ty v) = mk_string B ty"

definition json_of_strings :: "'j json_make \<Rightarrow> string list \<Rightarrow> 'j" where
  "json_of_strings B ss = mk_array B (map (mk_string B) ss)"

definition json_of_options :: "'j json_make \<Rightarrow> node_options \<Rightarrow> 'j" where
  "json_of_options B opts = mk_object B (map (\<lambda>(k, a). (k, json_of_any B (the a))) opts)"

definition json_of_node :: "'j json_make \<Rightarrow> node_def \<Rightarrow> 'j" where
  "json_of_node B d = mk_object B
     [(''name'', mk_string B (nd_name d)), (''type'', mk_string B (nd_type d)),
      (''input_streams'', json_of_strings B (nd_input_streams d)),
      (''output_streams'', json_of_strings B (nd_output_streams d)),
      (''input_side_packets'', json_of_strings B (nd_input_side_packets d)),
      (''output_side_packets'', json_of_strings B (nd_output_side_packets d)),
      (''options'', json_of_options B (nd_options d)),
      (''executor'', mk_string B (nd_executor d)),
      (''input_stream_handler'', mk_string B (nd_input_stream_handler d)),
      (''max_in_flight'', mk_int B (nd_max_in_flight d)),
      (''source_layer'', mk_int B (nd_source_layer d))]"

definition json_of_executor :: "'j json_make \<Rightarrow> executor_def \<Rightarrow> 'j" where
  "json_of_executor B e = mk_object B
     [(''name'', mk_string B (ed_name e)), (''type'', mk_string B (ed_type e)),
      (''num_threads'', mk_int B (ed_num_threads e))]"

definition json_of_profiler :: "'j json_make \<Rightarrow> profiler_config \<Rightarrow> 'j" where
  "json_of_profiler B p = mk_object B
     [(''enable_profiler'', mk_bool B (pc_enable_profiler p)),
      (''histogram_interval_size_usec'', mk_int B (pc_histogram_interval_size_usec p)),
      (''num_histogram_intervals'', mk_int B (pc_num_histogram_intervals p)),
      (''trace_log_path'', mk_string B (pc_trace_log_path p))]"

definition json_of_config :: "'j json_make \<Rightarrow> graph_config \<Rightarrow> 'j" where
  "json_of_config B c = mk_object B
     [(''max_queue_size'', mk_int B (gc_max_queue_size c)),
      (''report_deadlock'', mk_bool B (gc_report_deadlock c)),
      (''profiler_config'', json_of_profiler B (gc_profiler_config c)),
      (''input_streams'', json_of_strings B (gc_input_streams c)),
      (''output_streams'', json_of_strings B (gc_output_streams c)),
      (''executors'', mk_array B (map (json_of_executor B) (gc_executors c))),
      (''nodes'', mk_array B (map (json_of_node B) (gc_nodes c)))]"

text \<open>The configurations a document can express.\<close>

definition is_int :: "int \<Rightarrow> bool" where
  "is_int i \<longleftrightarrow> INT32_MIN \<le> i \<and> i \<le> INT32_MAX"

fun scalar :: "any \<Rightarrow> bool" where
  "scalar (Some (AnyInt i)) \<longleftrightarrow> is_int i"
| "scalar (Some (AnyOther ty v)) \<longleftrightarrow> False"
| "scalar (Some v) \<longleftrightarrow> True"
| "scalar None \<longleftrightarrow> False"

definition json_node :: "node_def \<Rightarrow> bool" where
  "json_node d \<longleftrightarrow> nd_name d \<noteq> [] \<and> nd_type d \<noteq> [] \<and> omap_wf (nd_options d) \<and>
     (\<forall>a\<in>snd ` set (nd_options d). scalar a) \<and> is_int (nd_max_in_flight d) \<and> is_int (nd_source_layer d)"

definition json_config :: "graph_config \<Rightarrow> bool" where
  "json_config c \<longleftrightarrow> is_int (gc_max_queue_size c) \<and>
     INT64_MIN \<le> pc_histogram_interval_size_usec (gc_profiler_config c) \<and>
     pc_histogram_interval_size_usec (gc_profiler_config c) \<le> INT64_MAX \<and>
     is_int (pc_num_histogram_intervals (gc_profiler_config c)) \<and>
     (\<forall>e\<in>set (gc_executors c). is_int (ed_num_threads e)) \<and> (\<forall>d\<in>set (gc_nodes c). json_node d)"

section \<open>Reading the document back\<close>

lemma omap_put_last: "\<forall>x\<in>set m. fst x < k \<Longrightarrow> omap_put k v m = m @ [(k, v)]"
  by (induction k v m rule: omap_put.induct) auto

lemma omap_wf_snoc: "omap_wf (m @ (k, v) # m') \<Longrightarrow> \<forall>x\<in>set m. fst x < k"
  by (auto simp: omap_wf_def sorted_wrt_append)

lemma omap_wf_map: "omap_wf (map (\<lambda>(k, v). (k, f v)) m) \<longleftrightarrow> omap_wf m"
  by (simp add: omap_wf_def comp_def case_prod_unfold)

lemma ParseNodeOptions_document:
  assumes "reads_scalars L B"
  shows "omap_wf (acc @ opts) \<Longrightarrow> \<forall>a\<in>snd ` set opts. scalar a \<Longrightarrow>
    ParseNodeOptions L node (map (\<lambda>(k, a). (k, json_of_any B (the a))) opts) acc = Inr (acc @ opts)"
proof (induction opts arbitrary: acc)
  case (Cons o' opts)
  obtain k a where o': "o' = (k, a)" by (cases o')
  have put: "omap_put k v acc = acc @ [(k, v)]" for v
    using Cons.prems(1) by (intro omap_put_last omap_wf_snoc) (simp add: o')
  have "scalar a" using Cons.prems(2) by (simp add: o')
  then show ?case
    using Cons.IH [of "acc @ [(k, a)]"] Cons.prems assms
    by (cases a rule: scalar.cases) (auto simp: o' put no_Set_def reads_scalars_def is_int_def)
qed simp

lemma reads_values_simps:
  assumes "reads_values L B"
  shows "map_of kvs k = Some (mk_int B i) \<Longrightarrow> is_int i \<Longrightarrow> js_value_int L (mk_object B kvs) k d = Inr i"
    "map_of kvs k = Some (mk_int B i) \<Longrightarrow> INT64_MIN \<le> i \<Longrightarrow> i \<le> INT64_MAX \<Longrightarrow>
       js_value_int64 L (mk_object B kvs) k d = Inr i"
    "map_of kvs k = Some (mk_bool B b) \<Longrightarrow> js_value_bool L (mk_object B kvs) k d' = Inr b"
    "map_of kvs k = Some (mk_string B s) \<Longrightarrow> js_value_string L (mk_object B kvs) k d'' = Inr s"
    "map_of kvs k = Some (json_of_strings B ss) \<Longrightarrow> js_value_strings L (mk_object B kvs) k d''' = Inr ss"
  using assms unfolding reads_values_def is_int_def json_of_strings_def by blast+

lemma reads_objects_simps:
  assumes "reads_objects L B"
  shows "js_is_object L (mk_object B kvs)" "omap_wf kvs \<Longrightarrow> js_items L (mk_object B kvs) = kvs"
    "js_contains L (mk_object B kvs) k \<longleftrightarrow> map_of kvs k \<noteq> None"
    "map_of kvs k = Some j \<Longrightarrow> js_at L (mk_object B kvs) k = j"
    "js_elements L (mk_array B js) = js"
  using assms unfolding reads_objects_def by blast+

lemma parse_node_document:
  assumes "reads_objects L B" "reads_values L B" "reads_scalars L B" "json_node d"
  shows "parse_node L (json_of_node B d) = Inr (Inr d)"
proof -
  have opts: "ParseNodeOptions L (nd_name d) (js_items L (json_of_options B (nd_options d))) [] =
      Inr (nd_options d)"
    using ParseNodeOptions_document [OF assms(3), of "[]" "nd_options d"] assms(1,4)
    by (simp add: json_of_options_def reads_objects_simps omap_wf_map json_node_def)
  have obj: "js_is_object L (json_of_options B (nd_options d))"
    using assms(1) by (simp add: json_of_options_def reads_objects_simps)
  show ?thesis
    using assms(4) opts obj
    by (simp add: parse_node_def json_of_node_def json_node_def Let_def
        reads_values_simps [OF assms(2)] reads_objects_simps [OF assms(1)])
qed

lemma parse_nodes_document:
  assumes "reads_objects L B" "reads_values L B" "reads_scalars L B"
  shows "\<forall>d\<in>set ds. json_node d \<Longrightarrow> parse_nodes L (map (json_of_node B) ds) acc = Inr (Inr (acc @ ds))"
  by (induction ds arbitrary: acc) (simp_all add: parse_node_document [OF assms])

lemma parse_executors_document:
  assumes "reads_values L B"
  shows "\<forall>e\<in>set es. is_int (ed_num_threads e) \<Longrightarrow>
    parse_executors L (map (json_of_executor B) es) acc = Inr (acc @ es)"
  by (induction es arbitrary: acc)
     (simp_all add: json_of_executor_def reads_values_simps [OF assms])

lemma parse_profiler_document:
  assumes "reads_values L B" "json_config c"
  shows "parse_profiler L (json_of_profiler B (gc_profiler_config c)) p = Inr (gc_profiler_config c)"
  using assms(2)
  by (simp add: parse_profiler_def json_of_profiler_def json_config_def
      reads_values_simps [OF assms(1)])

lemma graph_config_eta:
  "\<lparr>gc_max_queue_size = gc_max_queue_size c, gc_report_deadlock = gc_report_deadlock c,
    gc_profiler_config = gc_profiler_config c, gc_nodes = gc_nodes c, gc_executors = gc_executors c,
    gc_input_streams = gc_input_streams c, gc_output_streams = gc_output_streams c\<rparr> = c"
  by (cases c) simp

section \<open>Properties\<close>


datatype json_value =
  JNull | JBool bool | JInt int | JDouble rat | JString string | JArray "json_value list" |
  JObject "(string \<times> json_value) list"

text \<open>
  A concrete library for the witness: reads by key from an object, with the default when the key
  is absent and an exception when the value has another type. Its parser knows one text.
\<close>

definition demo_read :: "(json_value \<Rightarrow> 'a option) \<Rightarrow> json_value \<Rightarrow> string \<Rightarrow> 'a \<Rightarrow> string + 'a" where
  "demo_read get j k d =
     (case j of
        JObject kvs \<Rightarrow>
          (case map_of kvs k of
             None \<Rightarrow> Inr d
           | Some v \<Rightarrow> (case get v of Some x \<Rightarrow> Inr x | None \<Rightarrow> Inl ''type_error.302''))
      | _ \<Rightarrow> Inl ''type_error.306'')"

definition demo_lib :: "string \<Rightarrow> json_value \<Rightarrow> json_value json_lib" where
  "demo_lib text doc =
     \<lparr>js_parse = (\<lambda>t. if t = text then Inr doc else Inl ''syntax error''),
      js_contains = (\<lambda>j k. case j of JObject kvs \<Rightarrow> map_of kvs k \<noteq> None | _ \<Rightarrow> False),
      js_at = (\<lambda>j k. case j of JObject kvs \<Rightarrow> (case map_of kvs k of Some v \<Rightarrow> v | None \<Rightarrow> JNull) | _ \<Rightarrow> JNull),
      js_elements = (\<lambda>j. case j of JArray js \<Rightarrow> js | JObject kvs \<Rightarrow> map snd kvs | JNull \<Rightarrow> [] | _ \<Rightarrow> [j]),
      js_items = (\<lambda>j. case j of JObject kvs \<Rightarrow> kvs | _ \<Rightarrow> []),
      js_is_object = (\<lambda>j. case j of JObject kvs \<Rightarrow> True | _ \<Rightarrow> False),
      js_is_string = (\<lambda>j. case j of JString s \<Rightarrow> True | _ \<Rightarrow> False),
      js_is_boolean = (\<lambda>j. case j of JBool b \<Rightarrow> True | _ \<Rightarrow> False),
      js_is_number_integer = (\<lambda>j. case j of JInt i \<Rightarrow> True | _ \<Rightarrow> False),
      js_is_number_float = (\<lambda>j. case j of JDouble x \<Rightarrow> True | _ \<Rightarrow> False),
      js_get_string = (\<lambda>j. case j of JString s \<Rightarrow> s | _ \<Rightarrow> []),
      js_get_bool = (\<lambda>j. case j of JBool b \<Rightarrow> b | _ \<Rightarrow> False),
      js_get_int = (\<lambda>j. case j of JInt i \<Rightarrow> to_i32 i | _ \<Rightarrow> 0),
      js_get_double = (\<lambda>j. case j of JDouble x \<Rightarrow> x | _ \<Rightarrow> 0),
      js_value_int = demo_read (\<lambda>j. case j of JInt i \<Rightarrow> Some (to_i32 i) | _ \<Rightarrow> None),
      js_value_int64 = demo_read (\<lambda>j. case j of JInt i \<Rightarrow> Some i | _ \<Rightarrow> None),
      js_value_bool = demo_read (\<lambda>j. case j of JBool b \<Rightarrow> Some b | _ \<Rightarrow> None),
      js_value_string = demo_read (\<lambda>j. case j of JString s \<Rightarrow> Some s | _ \<Rightarrow> None),
      js_value_strings = demo_read (\<lambda>j. case j of
        JArray js \<Rightarrow> Some (map (\<lambda>x. case x of JString s \<Rightarrow> s | _ \<Rightarrow> []) js) | _ \<Rightarrow> None)\<rparr>"

definition demo_make :: "json_value json_make" where
  "demo_make = \<lparr>mk_object = JObject, mk_array = JArray, mk_string = JString, mk_bool = JBool,
                mk_int = JInt, mk_double = JDouble\<rparr>"

lemma demo_reads:
  "reads_objects (demo_lib text doc) demo_make" "reads_values (demo_lib text doc) demo_make"
  "reads_scalars (demo_lib text doc) demo_make"
  by (auto simp: reads_objects_def reads_values_def reads_scalars_def demo_lib_def demo_make_def
      demo_read_def to_i32_id comp_def split: option.split)


text \<open>Options of the four types a document can give them.\<close>

definition scalar_options :: "node_options \<Rightarrow> bool" where
  "scalar_options opts \<longleftrightarrow> omap_wf opts \<and>
     (\<forall>(k, a)\<in>set opts. a \<noteq> None \<and> any_type (the a) \<in> {''std::string'', ''bool'', ''int'', ''double''})"

lemma scalar_options_Set:
  assumes "scalar_options opts" "any_type x \<in> {''std::string'', ''bool'', ''int'', ''double''}"
  shows "scalar_options (no_Set key x opts)"
proof -
  have "set (omap_put key (Some x) opts) \<subseteq> insert (key, Some x) (set opts)"
    by (induction key "Some x" opts rule: omap_put.induct) auto
  then show ?thesis
    using assms unfolding scalar_options_def no_Set_def by (auto simp: omap_wf_put)
qed

lemma ParseNodeOptions_scalars:
  "ParseNodeOptions L node kvs opts = Inr opts' \<Longrightarrow> scalar_options opts \<Longrightarrow> scalar_options opts'"
proof (induction kvs arbitrary: opts)
  case (Cons kv kvs)
  obtain key v where kv: "kv = (key, v)" by (cases kv)
  show ?case
    using Cons.prems by (auto simp: kv scalar_options_Set split: if_splits dest!: Cons.IH)
qed simp

lemma parse_node_ok:
  assumes "parse_node L nj = Inr (Inr d)"
  shows "nd_name d \<noteq> [] \<and> nd_type d \<noteq> [] \<and> scalar_options (nd_options d)"
proof -
  have "scalar_options []" by (simp add: scalar_options_def)
  then show ?thesis
    using assms
    by (auto simp: parse_node_def and_then_Inr Let_def split: if_splits sum.splits
        dest: ParseNodeOptions_scalars)
qed

lemma status_case_Inr:
  "(case res of Inl st \<Rightarrow> Inr (Inl st) | Inr d \<Rightarrow> f d) = Inr (Inr c) \<longleftrightarrow>
     (\<exists>d. res = Inr d \<and> f d = Inr (Inr c))"
  by (cases res) simp_all

lemma parse_nodes_ok:
  "parse_nodes L js ds = Inr (Inr ds') \<Longrightarrow>
   \<exists>es. ds' = ds @ es \<and> length es = length js \<and>
     (\<forall>d\<in>set es. nd_name d \<noteq> [] \<and> nd_type d \<noteq> [] \<and> scalar_options (nd_options d))"
proof (induction js arbitrary: ds)
  case (Cons j js)
  then obtain d where d: "parse_node L j = Inr (Inr d)" "parse_nodes L js (ds @ [d]) = Inr (Inr ds')"
    by (auto simp: and_then_Inr status_case_Inr)
  from Cons.IH [OF d(2)] obtain es where "ds' = (ds @ [d]) @ es" "length es = length js"
    "\<forall>d\<in>set es. nd_name d \<noteq> [] \<and> nd_type d \<noteq> [] \<and> scalar_options (nd_options d)" by blast
  then show ?case
    using parse_node_ok [OF d(1)] by (intro exI [of _ "d # es"]) simp
qed simp

text \<open>
  C27: what the parser hands out is well formed: an accepted document gives a configuration that
  passed validation, with one node per element of its node list, each with a name and a type and
  with options that are strings, booleans, ints or doubles, sorted by key with no key twice.
\<close>

theorem parsed_config_valid:
  assumes "ParseJsonText L text source = Inr (Inr c)"
  shows "st_ok (Validate c) \<and>
    (\<forall>d\<in>set (gc_nodes c). nd_name d \<noteq> [] \<and> nd_type d \<noteq> [] \<and> omap_wf (nd_options d) \<and>
       (\<forall>(k, a)\<in>set (nd_options d).
          a \<noteq> None \<and> any_type (the a) \<in> {''std::string'', ''bool'', ''int'', ''double''})) \<and>
    (\<exists>doc. js_parse L text = Inr doc \<and> length (gc_nodes c) =
       (if js_contains L doc ''nodes'' then length (js_elements L (js_at L doc ''nodes'')) else 0))"
proof -
  obtain doc where doc: "js_parse L text = Inr doc"
    using assms by (cases "js_parse L text") (simp_all add: ParseJsonText_def)
  have checked: "(if \<not> b then Inl st else Inr x) = Inr y \<longleftrightarrow> b \<and> x = y" for b st and x y :: graph_config
    by simp
  obtain nodes where nodes: "gc_nodes c = nodes"
    "(if js_contains L doc ''nodes'' then parse_nodes L (js_elements L (js_at L doc ''nodes'')) []
      else Inr (Inr [])) = Inr (Inr nodes)" and valid: "st_ok (Validate c)"
    using assms unfolding ParseJsonText_def doc sum.case and_then_Inr status_case_Inr Let_def
      sum.inject checked by (elim exE conjE, hypsubst) simp
  have "(\<forall>d\<in>set nodes. nd_name d \<noteq> [] \<and> nd_type d \<noteq> [] \<and> scalar_options (nd_options d)) \<and>
      length nodes = (if js_contains L doc ''nodes''
        then length (js_elements L (js_at L doc ''nodes'')) else 0)"
  proof (cases "js_contains L doc ''nodes''")
    case True
    then have "parse_nodes L (js_elements L (js_at L doc ''nodes'')) [] = Inr (Inr nodes)"
      using nodes(2) by simp
    from parse_nodes_ok [OF this] show ?thesis using True by simp
  next
    case False
    then show ?thesis using nodes(2) by simp
  qed
  then show ?thesis
    by (simp add: doc nodes(1) valid scalar_options_def)
qed

theorem parsed_config_valid_witness:
  "\<exists>c. ParseJsonText (demo_lib ''doc'' (JObject [])) ''doc'' ''f.json'' = Inr (Inr c) \<and>
     st_ok (Validate c) \<and> gc_nodes c = []"
proof -
  let ?L = "demo_lib ''doc'' (JObject [])"
  have "st_ok (Validate graph_config0)" by code_simp
  then have run: "ParseJsonText ?L ''doc'' ''f.json'' = Inr (Inr graph_config0)"
    by (simp add: ParseJsonText_def demo_lib_def demo_read_def Let_def graph_config0_def)
  have nodes: "\<not> js_contains ?L (JObject []) ''nodes''" "js_parse ?L ''doc'' = Inr (JObject [])"
    by (simp_all add: demo_lib_def)
  show ?thesis
    using parsed_config_valid [OF run] run nodes by (intro exI [of _ graph_config0]) simp
qed

section \<open>Parsers by extension\<close>

lemma takeWhile_extension:
  "CHR ''.'' \<notin> set e \<Longrightarrow> ExtensionFromPath (dir @ CHR ''.'' # e) = map to_lower e"
  by (simp add: ExtensionFromPath_def takeWhile_append)

lemma to_lower_idem: "to_lower (to_lower c) = to_lower c"
  by (auto simp: to_lower_def)

text \<open>
  The parser of a file is the one registered last for the lower-case form of what follows
  the last dot of its path, whatever the case of the path; so a parser registered under an
  extension with an upper-case letter is never found.
\<close>

lemma CreateForFile_extension:
  assumes "omap_wf d" "CHR ''.'' \<notin> set e"
  shows "pr_CreateForFile (dir @ CHR ''.'' # e) (pr_Register ext f d) =
      (if map to_lower e = ext then Some f else pr_CreateForFile (dir @ CHR ''.'' # e) d) \<and>
    (pr_IsFormatSupported (dir @ CHR ''.'' # e) d \<longleftrightarrow>
       pr_CreateForFile (dir @ CHR ''.'' # e) d \<noteq> None) \<and>
    (map to_lower ext \<noteq> ext \<longrightarrow> pr_CreateForFile path (pr_Register ext f d) = pr_CreateForFile path d)"
proof -
  have "map to_lower (ExtensionFromPath path) = ExtensionFromPath path"
    by (simp add: ExtensionFromPath_def to_lower_idem comp_def)
  then have "map to_lower ext \<noteq> ext \<longrightarrow> ExtensionFromPath path \<noteq> ext" by auto
  then show ?thesis
    using assms by (auto simp: pr_CreateForFile_def pr_Register_def pr_IsFormatSupported_def
        takeWhile_extension omap_get_put)
qed

end
