(* ===== verification/Profile_Writer.thy ===== *)
theory Profile_Writer
  imports Profiler
begin

text \<open>
  \<open>framework/profiler/profile_writer.{h,cc}\<close> and \<open>GraphProfiler::WriteProfile\<close>: the text of a
  profile file. A \<open>double\<close> is an exact rational, printed as \<open>operator<<\<close> prints it by
  default: six significant digits, trailing zeros dropped, with an exponent when the value
  rounded so is below 1e-4 or at least 1e6. The lemmas give the shape of a printed number: a
  plain decimal in that range, and digits followed by an exponent above it.
\<close>

section \<open>Printing numbers\<close>

definition round_half_even :: "rat \<Rightarrow> int" where
  "round_half_even x =
     (let n = \<lfloor>x\<rfloor>; d = x - of_int n
      in if d < 1 / 2 \<or> d = 1 / 2 \<and> even n then n else n + 1)"

text \<open>The decimal exponent of a positive number.\<close>

definition dec_exponent :: "rat \<Rightarrow> int" where
  "dec_exponent x =
     (if 1 \<le> x then int (length (dec_of_nat (nat \<lfloor>x\<rfloor>))) - 1
      else - int (length (takeWhile (\<lambda>k. x * 10 ^ k < 1)
             [0 ..< Suc (length (dec_of_nat (nat (snd (quotient_of x)))))])))"

text \<open>Six significant digits as an integer, and the exponent after rounding.\<close>

definition six_digits :: "rat \<Rightarrow> int \<times> int" where
  "six_digits x =
     (let e = dec_exponent x;
          m = round_half_even (if e \<le> 5 then x * 10 ^ nat (5 - e) else x / 10 ^ nat (e - 5))
      in if m = 1000000 then (100000, e + 1) else (m, e))"

definition with_point :: "string \<Rightarrow> string \<Rightarrow> string" where
  "with_point int_part frac_part =
     (let frac = rev (dropWhile (\<lambda>c. c = CHR ''0'') (rev frac_part))
      in if frac = [] then int_part else int_part @ ''.'' @ frac)"

definition exponent_text :: "int \<Rightarrow> string" where
  "exponent_text e =
     ''e'' @ (if e < 0 then ''-'' else ''+'') @ (if \<bar>e\<bar> < 10 then ''0'' else []) @ dec_of_nat (nat \<bar>e\<bar>)"

definition show_positive :: "rat \<Rightarrow> string" where
  "show_positive x =
     (let (m, e) = six_digits x; ds = dec_of_nat (nat m)
      in if -4 \<le> e \<and> e < 6
         then if 0 \<le> e then with_point (take (nat e + 1) ds) (drop (nat e + 1) ds)
              else with_point ''0'' (replicate (nat (- e) - 1) CHR ''0'' @ ds)
         else with_point (take 1 ds) (drop 1 ds) @ exponent_text e)"

definition show_double :: "rat \<Rightarrow> string" where
  "show_double x =
     (if x = 0 then ''0'' else if x < 0 then CHR ''-'' # show_positive (- x) else show_positive x)"

section \<open>The writer\<close>

record writer_node =
  wn_node_name :: string
  wn_open_runtime_usec :: int
  wn_close_runtime_usec :: int
  wn_process_count :: int
  wn_process_time_total_usec :: int
  wn_process_time_mean_usec :: rat
  wn_histogram_interval_size_usec :: int
  wn_histogram_num_intervals :: int
  wn_histogram_buckets :: "int list"

definition dquote :: char where "dquote = CHR 0x22"
definition backslash :: char where "backslash = CHR 0x5C"
definition newline :: char where "newline = CHR 0x0A"
definition carriage_return :: char where "carriage_return = CHR 0x0D"
definition tab :: char where "tab = CHR 0x09"

definition escape_char :: "char \<Rightarrow> string" where
  "escape_char c =
     (if c = dquote then [backslash, dquote]
      else if c = backslash then [backslash, backslash]
      else if c = newline then [backslash, CHR ''n'']
      else if c = carriage_return then [backslash, CHR ''r'']
      else if c = tab then [backslash, CHR ''t'']
      else [c])"

definition WriteJsonString :: "string \<Rightarrow> string" where
  "WriteJsonString s = dquote # concat (map escape_char s) @ [dquote]"

text \<open>An indented key, as the string constants of the writer spell it.\<close>

definition json_key :: "nat \<Rightarrow> string \<Rightarrow> string" where
  "json_key indent key = replicate indent CHR '' '' @ dquote # key @ dquote # '': ''"

definition comma_line :: string where
  "comma_line = CHR '','' # [newline]"

definition WriteProfilerConfigJson :: "profiler_config \<Rightarrow> string" where
  "WriteProfilerConfigJson config =
     ''{'' @ [newline] @
     json_key 4 ''enable_profiler'' @ (if pc_enable_profiler config then ''true'' else ''false'') @ comma_line @
     json_key 4 ''histogram_interval_size_usec'' @ dec_of_int (pc_histogram_interval_size_usec config) @ comma_line @
     json_key 4 ''num_histogram_intervals'' @ dec_of_int (pc_num_histogram_intervals config) @ comma_line @
     json_key 4 ''trace_log_path'' @ WriteJsonString (pc_trace_log_path config) @
     [newline] @ ''  }''"

fun write_buckets :: "int list \<Rightarrow> string" where
  "write_buckets [] = []"
| "write_buckets [b] = dec_of_int b"
| "write_buckets (b # bs) = dec_of_int b @ '', '' @ write_buckets bs"

definition WriteNodeDataJson :: "writer_node \<Rightarrow> string" where
  "WriteNodeDataJson node =
     ''  {'' @ [newline] @
     json_key 4 ''node_name'' @ WriteJsonString (wn_node_name node) @ comma_line @
     json_key 4 ''open_runtime_usec'' @ dec_of_int (wn_open_runtime_usec node) @ comma_line @
     json_key 4 ''close_runtime_usec'' @ dec_of_int (wn_close_runtime_usec node) @ comma_line @
     json_key 4 ''process_count'' @ dec_of_int (wn_process_count node) @ comma_line @
     json_key 4 ''process_time_total_usec'' @ dec_of_int (wn_process_time_total_usec node) @ comma_line @
     json_key 4 ''process_time_mean_usec'' @ show_double (wn_process_time_mean_usec node) @ comma_line @
     json_key 4 ''process_runtime'' @ ''{'' @ [newline] @
     json_key 6 ''interval_size_usec'' @ dec_of_int (wn_histogram_interval_size_usec node) @ comma_line @
     json_key 6 ''num_intervals'' @ dec_of_int (wn_histogram_num_intervals node) @ comma_line @
     json_key 6 ''count'' @ dec_of_int (wn_process_count node) @ comma_line @
     json_key 6 ''total_usec'' @ dec_of_int (wn_process_time_total_usec node) @ comma_line @
     json_key 6 ''buckets'' @ ''['' @ write_buckets (wn_histogram_buckets node) @
     '']'' @ [newline] @ ''    }'' @ [newline] @ ''  }''"

fun write_nodes :: "writer_node list \<Rightarrow> string" where
  "write_nodes [] = []"
| "write_nodes [node] = WriteNodeDataJson node"
| "write_nodes (node # nodes) = WriteNodeDataJson node @ comma_line @ write_nodes nodes"

definition profile_text :: "string \<Rightarrow> profiler_config \<Rightarrow> writer_node list \<Rightarrow> string" where
  "profile_text capture_time config nodes =
     ''{'' @ [newline] @
     json_key 2 ''capture_time'' @ WriteJsonString capture_time @ comma_line @
     json_key 2 ''node_count'' @ dec_of_nat (length nodes) @ comma_line @
     json_key 2 ''profiler_config'' @ WriteProfilerConfigJson config @ comma_line @
     json_key 2 ''nodes'' @ ''['' @ [newline] @ write_nodes nodes @
     [newline] @ ''  ]'' @ [newline] @ ''}'' @ [newline]"

text \<open>
  The file system: which paths open for writing, whether the stream is still good after the
  text was written, and the files by path. The time of day is a parameter.
\<close>

record file_system =
  fs_opens :: "string \<Rightarrow> bool"
  fs_good :: "string \<Rightarrow> bool"
  fs_files :: "string \<Rightarrow> string option"

definition WriteProfile ::
  "string \<Rightarrow> string \<Rightarrow> profiler_config \<Rightarrow> writer_node list \<Rightarrow> file_system \<Rightarrow> status \<times> file_system" where
  "WriteProfile capture_time path config nodes fs =
     (if \<not> fs_opens fs path
      then (Status CInternal (''Failed to open file for writing: '' @ path), fs)
      else
        let fs' = fs\<lparr>fs_files := (fs_files fs)(path \<mapsto> profile_text capture_time config nodes)\<rparr>
        in if \<not> fs_good fs path
           then (Status CInternal (''Failed to write profile to: '' @ path), fs')
           else (ok_status, fs'))"

definition writer_node_of :: "string \<times> per_node \<Rightarrow> writer_node" where
  "writer_node_of ip =
     (let h = pn_process_runtime (snd ip)
      in \<lparr>wn_node_name = fst ip, wn_open_runtime_usec = pn_open_runtime (snd ip),
          wn_close_runtime_usec = pn_close_runtime (snd ip), wn_process_count = hg_count h,
          wn_process_time_total_usec = hg_total h, wn_process_time_mean_usec = hg_mean h,
          wn_histogram_interval_size_usec = hg_interval h, wn_histogram_num_intervals = hg_num h,
          wn_histogram_buckets = hg_buckets h\<rparr>)"

definition pf_WriteProfile ::
  "string \<Rightarrow> string \<Rightarrow> string \<Rightarrow> profiler \<Rightarrow> file_system \<Rightarrow> status \<times> file_system" where
  "pf_WriteProfile time_seconds capture_time path p fs =
     (let log_path = pc_trace_log_path (pf_config p);
          output_path = (if path = [] \<and> log_path \<noteq> []
                         then log_path @ ''/profile_'' @ time_seconds @ ''.json'' else path)
      in if output_path = []
         then (Status CInvalidArgument ''WriteProfile requires an explicit path or trace_log_path'', fs)
         else WriteProfile capture_time output_path (pf_config p)
                (map writer_node_of (pf_GetNodeProfiles p)) fs)"

section \<open>The shape of a printed number\<close>

lemma length_dec_of_nat_le: "0 < k \<Longrightarrow> length (dec_of_nat n) \<le> k \<longleftrightarrow> n < 10 ^ k"
proof (induction n arbitrary: k rule: dec_of_nat.induct)
  case (1 n)
  show ?case
  proof (cases "n < 10")
    case True
    then have "(10::nat) ^ 1 \<le> 10 ^ k" using 1(2) by (intro power_increasing) simp_all
    then show ?thesis using True 1(2) by (subst dec_of_nat.simps) simp
  next
    case False
    then obtain j where j: "k = Suc j" using 1(2) by (cases k) simp_all
    have "length (dec_of_nat (n div 10)) \<le> j \<longleftrightarrow> n div 10 < 10 ^ j"
    proof (cases j)
      case 0
      have "length (dec_of_nat (n div 10)) \<noteq> 0" by simp
      then show ?thesis using False 0 by simp
    next
      case (Suc i)
      then show ?thesis using 1(1) [OF False, of j] by simp
    qed
    also have "\<dots> \<longleftrightarrow> n < 10 ^ k"
      by (simp add: j div_less_iff_less_mult mult.commute)
    finally show ?thesis using False by (subst dec_of_nat.simps) (simp add: j)
  qed
qed

lemma dec_exponent_less:
  assumes "0 < k" "x < 10 ^ k"
  shows "dec_exponent x < int k"
proof (cases "1 \<le> x")
  case True
  then have "nat \<lfloor>x\<rfloor> < 10 ^ k"
    using assms(2) by (simp add: nat_less_iff floor_less_iff)
  then have "length (dec_of_nat (nat \<lfloor>x\<rfloor>)) \<le> k"
    using length_dec_of_nat_le [OF assms(1)] by blast
  then show ?thesis using True by (simp add: dec_exponent_def)
next
  case False
  then show ?thesis using assms(1) by (simp add: dec_exponent_def)
qed

lemma dec_exponent_ge:
  assumes "0 < k" "10 ^ k \<le> x"
  shows "int k \<le> dec_exponent x"
proof -
  have "1 \<le> (10::rat) ^ k" by simp
  with assms(2) have "1 \<le> x" by linarith
  moreover have "\<not> nat \<lfloor>x\<rfloor> < 10 ^ k"
    using assms(2) by (simp add: nat_less_iff floor_less_iff)
  then have "\<not> length (dec_of_nat (nat \<lfloor>x\<rfloor>)) \<le> k"
    using length_dec_of_nat_le [OF assms(1)] by blast
  ultimately show ?thesis by (simp add: dec_exponent_def)
qed

lemma dec_exponent_lower:
  assumes "1 / 10 ^ k \<le> x"
  shows "- int k \<le> dec_exponent x"
proof (cases "1 \<le> x")
  case True
  have "0 < length (dec_of_nat (nat \<lfloor>x\<rfloor>))" by simp
  then have "0 \<le> dec_exponent x"
    unfolding dec_exponent_def if_P [OF True] by linarith
  then show ?thesis by linarith
next
  case False
  have "length (takeWhile (\<lambda>k. x * 10 ^ k < 1) [0 ..< n]) \<le> k" for n
  proof (rule ccontr)
    assume "\<not> ?thesis"
    then have less: "k < length (takeWhile (\<lambda>k. x * 10 ^ k < 1) [0 ..< n])" by simp
    then have "k < n" using length_takeWhile_le [of _ "[0 ..< n]"] by (metis diff_zero length_upt less_le_trans)
    then have "x * 10 ^ k < 1"
      using set_takeWhileD [OF nth_mem [OF less]] takeWhile_nth [OF less] by simp
    then show False using assms by (simp add: field_simps)
  qed
  then show ?thesis using False by (simp add: dec_exponent_def del: upt_Suc)
qed

lemma round_half_even_six:
  assumes "x < 1000000"
  shows "round_half_even x = 1000000 \<longleftrightarrow> 1999999 / 2 \<le> x"
proof
  assume r: "round_half_even x = 1000000"
  have "\<lfloor>x\<rfloor> < 1000000" using assms by (simp add: floor_less_iff)
  then have "\<lfloor>x\<rfloor> \<noteq> 1000000" by linarith
  with r have "\<lfloor>x\<rfloor> = 999999" "\<not> x - of_int \<lfloor>x\<rfloor> < 1 / 2"
    by (simp_all add: round_half_even_def Let_def split: if_splits)
  then show "1999999 / 2 \<le> x" by simp
next
  assume "1999999 / 2 \<le> x"
  moreover from this assms have "\<lfloor>x\<rfloor> = 999999" by (intro floor_unique) simp_all
  ultimately show "round_half_even x = 1000000"
    by (simp add: round_half_even_def Let_def)
qed

lemma six_digits_exponent:
  "1999999 / 2 \<le> x \<Longrightarrow> 6 \<le> snd (six_digits x)"
  "1 / 10000 \<le> x \<Longrightarrow> x < 1999999 / 2 \<Longrightarrow> -4 \<le> snd (six_digits x) \<and> snd (six_digits x) < 6"
proof -
  assume x: "1999999 / 2 \<le> x"
  then have "5 \<le> dec_exponent x" using dec_exponent_ge [of 5 x] by simp
  then consider "6 \<le> dec_exponent x" | "dec_exponent x = 5" by linarith
  then show "6 \<le> snd (six_digits x)"
  proof cases
    case 1
    then show ?thesis by (simp add: six_digits_def Let_def)
  next
    case 2
    then have "x < 1000000" using dec_exponent_ge [of 6 x] by (rule_tac ccontr) simp
    then show ?thesis using 2 x round_half_even_six [of x] by (simp add: six_digits_def)
  qed
next
  assume x: "1 / 10000 \<le> x" "x < 1999999 / 2"
  have e: "-4 \<le> dec_exponent x" "dec_exponent x < 6"
    using dec_exponent_lower [of 4 x] dec_exponent_less [of 6 x] x by simp_all
  show "-4 \<le> snd (six_digits x) \<and> snd (six_digits x) < 6"
  proof (cases "dec_exponent x = 5")
    case True
    have "round_half_even x \<noteq> 1000000" using round_half_even_six [of x] x by simp
    then show ?thesis using True by (simp add: six_digits_def)
  next
    case False
    then show ?thesis using e by (simp add: six_digits_def Let_def)
  qed
qed

text \<open>A plain decimal: digits, or digits, a point and digits.\<close>

definition plain_decimal :: "string \<Rightarrow> bool" where
  "plain_decimal s \<longleftrightarrow>
     (\<exists>ip fp. ip \<noteq> [] \<and> (\<forall>c\<in>set (ip @ fp). is_digit c) \<and> (s = ip \<or> s = ip @ CHR ''.'' # fp))"

lemma plain_decimalI:
  "ip \<noteq> [] \<Longrightarrow> \<forall>c\<in>set ip. is_digit c \<Longrightarrow> plain_decimal ip"
  "ip \<noteq> [] \<Longrightarrow> \<forall>c\<in>set ip. is_digit c \<Longrightarrow> \<forall>c\<in>set fp. is_digit c \<Longrightarrow>
     plain_decimal (ip @ CHR ''.'' # fp)"
  unfolding plain_decimal_def
  by (rule exI [of _ ip], rule exI [of _ "[]"], simp)
    (rule exI [of _ ip], rule exI [of _ fp], simp add: ball_Un)

lemma plain_decimal_with_point:
  assumes "ip \<noteq> []" "\<forall>c\<in>set (ip @ fp). is_digit c"
  shows "plain_decimal (with_point ip fp)"
proof -
  have "\<forall>c\<in>set ip. is_digit c" "\<forall>c\<in>set fp. is_digit c"
    using assms(2) by (simp_all add: ball_Un)
  moreover from this(2) have "\<forall>c\<in>set (rev (dropWhile (\<lambda>c. c = CHR ''0'') (rev fp))). is_digit c"
    by (metis set_dropWhileD set_rev)
  ultimately show ?thesis
    using assms(1) by (simp add: with_point_def Let_def plain_decimalI del: set_rev)
qed

lemma digit_zero: "is_digit CHR ''0''"
  by (simp add: is_digit_def)

lemma show_double_plain:
  assumes "x = 0 \<or> 1 / 10000 \<le> x" "x < 1999999 / 2"
  shows "plain_decimal (show_double x)"
proof (cases "x = 0")
  case True
  then show ?thesis
    unfolding plain_decimal_def show_double_def
    by (intro exI [of _ "''0''"] exI [of _ "[]"]) (simp add: digit_zero)
next
  case False
  then have pos: "1 / 10000 \<le> x" using assms(1) by simp
  obtain m e where me: "six_digits x = (m, e)" by (cases "six_digits x")
  have e: "-4 \<le> e" "e < 6" using six_digits_exponent(2) [OF pos assms(2)] me by simp_all
  have digits: "\<forall>c\<in>set (dec_of_nat (nat m)). is_digit c" by (rule dec_of_nat_digits)
  have zeros: "\<forall>c\<in>set (replicate n CHR ''0''). is_digit c" for n by (simp add: digit_zero)
  have "plain_decimal (show_positive x)"
  proof (cases "0 \<le> e")
    case True
    have "plain_decimal (with_point (take (nat e + 1) (dec_of_nat (nat m))) (drop (nat e + 1) (dec_of_nat (nat m))))"
      using digits by (intro plain_decimal_with_point) (simp_all flip: set_append)
    then show ?thesis using True e by (simp add: show_positive_def me Let_def)
  next
    case False
    have "plain_decimal (with_point ''0'' (replicate (nat (- e) - 1) CHR ''0'' @ dec_of_nat (nat m)))"
      using digits zeros by (intro plain_decimal_with_point) (auto simp: digit_zero)
    then show ?thesis using False e by (simp add: show_positive_def me Let_def)
  qed
  moreover have "\<not> x < 0" using pos by simp
  ultimately show ?thesis using False by (simp add: show_double_def)
qed

lemma show_double_exponent:
  assumes "1999999 / 2 \<le> x"
  shows "\<exists>ds es. plain_decimal ds \<and> show_double x = ds @ CHR ''e'' # es"
proof -
  obtain m e where me: "six_digits x = (m, e)" by (cases "six_digits x")
  have e: "6 \<le> e" using six_digits_exponent(1) [OF assms] me by simp
  have digits: "\<forall>c\<in>set (dec_of_nat (nat m)). is_digit c" by (rule dec_of_nat_digits)
  let ?ds = "with_point (take 1 (dec_of_nat (nat m))) (drop 1 (dec_of_nat (nat m)))"
  have "plain_decimal ?ds"
    using digits by (intro plain_decimal_with_point) (auto dest: in_set_takeD in_set_dropD)
  moreover have "show_double x = ?ds @ exponent_text e"
    using assms e by (simp add: show_double_def show_positive_def me Let_def)
  ultimately show ?thesis by (auto simp: exponent_text_def)
qed

end
