(* ===== verification/Profile_Reader.thy ===== *)
theory Profile_Reader
  imports Profile_Writer
begin

text \<open>
  \<open>framework/profiler/reporter/reporter.{h,cc}\<close>: the hand-written JSON reader and the reporter
  that accumulates profiles. A reader is the text from its position on; a position at or past
  the end is the empty text. The loops of the reader need not end, so they run on fuel, one unit
  per iteration, and \<open>None\<close> is fuel used up. A \<open>double\<close> is an exact rational.
\<close>

section \<open>SimpleJsonReader\<close>

definition is_json_space :: "char \<Rightarrow> bool" where
  "is_json_space c \<longleftrightarrow> c = CHR '' '' \<or> c = newline \<or> c = carriage_return \<or> c = tab"

definition SkipWhitespace :: "string \<Rightarrow> string" where
  "SkipWhitespace s = dropWhile is_json_space s"

definition Expect :: "char \<Rightarrow> string \<Rightarrow> bool \<times> string" where
  "Expect c s =
     (case SkipWhitespace s of
        [] \<Rightarrow> (False, [])
      | d # r \<Rightarrow> if d = c then (True, r) else (False, d # r))"

definition unescape_char :: "char \<Rightarrow> char" where
  "unescape_char c =
     (if c = CHR ''n'' then newline
      else if c = CHR ''r'' then carriage_return
      else if c = CHR ''t'' then tab
      else c)"

fun string_body :: "string \<Rightarrow> string \<times> string" where
  "string_body [] = ([], [])"
| "string_body (c # s) =
     (if c = dquote then ([], s)
      else if c = backslash
      then (case s of
              [] \<Rightarrow> ([], [])
            | d # s' \<Rightarrow> let (t, r) = string_body s' in (unescape_char d # t, r))
      else let (t, r) = string_body s in (c # t, r))"

definition ReadString :: "string \<Rightarrow> string \<times> string" where
  "ReadString s =
     (case SkipWhitespace s of
        [] \<Rightarrow> ([], [])
      | c # r \<Rightarrow> if c \<noteq> dquote then ([], c # r) else string_body r)"

definition read_sign :: "string \<Rightarrow> bool \<times> string" where
  "read_sign s = (case s of [] \<Rightarrow> (False, []) | c # r \<Rightarrow> if c = CHR ''-'' then (True, r) else (False, s))"

fun read_digits :: "int \<Rightarrow> string \<Rightarrow> int \<times> string" where
  "read_digits val [] = (val, [])"
| "read_digits val (c # s) =
     (if is_digit c then read_digits (to_i64 (val * 10 + int (digit_val c))) s else (val, c # s))"

definition ReadInt64 :: "string \<Rightarrow> int \<times> string" where
  "ReadInt64 s =
     (let (neg, s1) = read_sign (SkipWhitespace s);
          (val, s2) = read_digits 0 s1
      in (if neg then to_i64 (- val) else val, s2))"

fun read_digits_double :: "rat \<Rightarrow> string \<Rightarrow> rat \<times> string" where
  "read_digits_double val [] = (val, [])"
| "read_digits_double val (c # s) =
     (if is_digit c then read_digits_double (val * 10 + of_nat (digit_val c)) s else (val, c # s))"

fun read_fraction :: "rat \<Rightarrow> rat \<Rightarrow> string \<Rightarrow> rat \<times> string" where
  "read_fraction num den [] = (num / den, [])"
| "read_fraction num den (c # s) =
     (if is_digit c then read_fraction (num * 10 + of_nat (digit_val c)) (den * 10) s
      else (num / den, c # s))"

definition ReadDouble :: "string \<Rightarrow> rat \<times> string" where
  "ReadDouble s =
     (let (neg, s1) = read_sign (SkipWhitespace s);
          (val, s2) = read_digits_double 0 s1;
          (val', s3) = (case s2 of
                          c # r \<Rightarrow> if c = CHR ''.'' then let (q, r') = read_fraction 0 1 r in (val + q, r')
                                   else (val, s2)
                        | [] \<Rightarrow> (val, s2))
      in (if neg then - val' else val', s3))"

definition ReadBool :: "string \<Rightarrow> bool \<times> string" where
  "ReadBool s =
     (let s1 = SkipWhitespace s
      in if take 4 s1 = ''true'' then (True, drop 4 s1)
         else if take 5 s1 = ''false'' then (False, drop 5 s1)
         else (False, s1))"

definition starts_bool :: "char \<Rightarrow> bool" where
  "starts_bool c \<longleftrightarrow> c = CHR ''t'' \<or> c = CHR ''f''"

definition starts_number :: "char \<Rightarrow> bool" where
  "starts_number c \<longleftrightarrow> c = CHR ''-'' \<or> is_digit c"

text \<open>
  The loops of \<open>SkipObject\<close> and \<open>SkipArray\<close>, with their nesting depth. At the end of the text
  \<open>content_[pos_]\<close> is the terminating NUL, which the last branch steps over.
\<close>

fun skip_object :: "nat \<Rightarrow> nat \<Rightarrow> string \<Rightarrow> string option"
and skip_array :: "nat \<Rightarrow> nat \<Rightarrow> string \<Rightarrow> string option" where
  "skip_object 0 depth s = None"
| "skip_object (Suc fuel) depth s =
     (if s = [] \<or> depth = 0 then Some s
      else case SkipWhitespace s of
             [] \<Rightarrow> skip_object fuel depth []
           | c # r \<Rightarrow>
               if c = CHR ''{'' then skip_object fuel (depth + 1) r
               else if c = CHR ''}'' then skip_object fuel (depth - 1) r
               else if c = dquote then skip_object fuel depth (snd (ReadString (c # r)))
               else if c = CHR ''['' then Option.bind (skip_array fuel 1 (snd (Expect CHR ''['' (c # r)))) (skip_object fuel depth)
               else if starts_bool c then skip_object fuel depth (snd (ReadBool (c # r)))
               else if starts_number c then skip_object fuel depth (snd (ReadDouble (c # r)))
               else skip_object fuel depth r)"
| "skip_array 0 depth s = None"
| "skip_array (Suc fuel) depth s =
     (if s = [] \<or> depth = 0 then Some s
      else case SkipWhitespace s of
             [] \<Rightarrow> skip_array fuel depth []
           | c # r \<Rightarrow>
               if c = CHR ''['' then skip_array fuel (depth + 1) r
               else if c = CHR '']'' then skip_array fuel (depth - 1) r
               else if c = CHR ''{'' then Option.bind (skip_object fuel 1 (snd (Expect CHR ''{'' (c # r)))) (skip_array fuel depth)
               else if c = dquote then skip_array fuel depth (snd (ReadString (c # r)))
               else if starts_bool c then skip_array fuel depth (snd (ReadBool (c # r)))
               else if starts_number c then skip_array fuel depth (snd (ReadDouble (c # r)))
               else skip_array fuel depth r)"

declare skip_object.simps [simp del] skip_array.simps [simp del]

definition SkipObject :: "nat \<Rightarrow> string \<Rightarrow> string option" where
  "SkipObject fuel s = skip_object fuel 1 (snd (Expect CHR ''{'' s))"

definition SkipArray :: "nat \<Rightarrow> string \<Rightarrow> string option" where
  "SkipArray fuel s = skip_array fuel 1 (snd (Expect CHR ''['' s))"

definition SkipValue :: "nat \<Rightarrow> string \<Rightarrow> string option" where
  "SkipValue fuel s =
     (case SkipWhitespace s of
        [] \<Rightarrow> Some []
      | c # r \<Rightarrow>
          if c = dquote then Some (snd (ReadString (c # r)))
          else if c = CHR ''{'' then SkipObject fuel (c # r)
          else if c = CHR ''['' then SkipArray fuel (c # r)
          else if starts_bool c then Some (snd (ReadBool (c # r)))
          else Some (snd (ReadDouble (c # r))))"

definition ReadKey :: "string \<Rightarrow> string \<times> string" where
  "ReadKey s =
     (case SkipWhitespace s of
        [] \<Rightarrow> ([], [])
      | c # r \<Rightarrow> if c \<noteq> dquote then ([], c # r) else ReadString (c # r))"

section \<open>Reporter\<close>

record per_node_accum =
  pa_node_name :: string
  pa_open_runtime_usec :: int
  pa_close_runtime_usec :: int
  pa_process_count :: int
  pa_process_time_total_usec :: int
  pa_process_time_min_usec :: int
  pa_process_time_max_usec :: int
  pa_samples :: int

definition per_node_accum0 :: "string \<Rightarrow> per_node_accum" where
  "per_node_accum0 name =
     \<lparr>pa_node_name = name, pa_open_runtime_usec = 0, pa_close_runtime_usec = 0, pa_process_count = 0,
      pa_process_time_total_usec = 0, pa_process_time_min_usec = INT64_MAX,
      pa_process_time_max_usec = 0, pa_samples = 0\<rparr>"

text \<open>The locals of one pass over a node object.\<close>

record node_fields =
  nf_name :: string
  nf_open_runtime :: int
  nf_close_runtime :: int
  nf_process_count :: int
  nf_process_time_total :: int

definition node_fields0 :: node_fields where
  "node_fields0 = \<lparr>nf_name = [], nf_open_runtime = 0, nf_close_runtime = 0, nf_process_count = 0,
     nf_process_time_total = 0\<rparr>"

text \<open>The branch of the field loop for one field, up to its \<open>Expect(',')\<close>.\<close>

definition read_field :: "nat \<Rightarrow> string \<Rightarrow> string \<Rightarrow> node_fields \<Rightarrow> (node_fields \<times> string) option" where
  "read_field fuel field s nf =
     (if field = ''node_name''
      then let (v, r) = ReadString s in Some (nf\<lparr>nf_name := v\<rparr>, snd (Expect CHR '','' r))
      else if field = ''open_runtime_usec''
      then let (v, r) = ReadInt64 s in Some (nf\<lparr>nf_open_runtime := v\<rparr>, snd (Expect CHR '','' r))
      else if field = ''close_runtime_usec''
      then let (v, r) = ReadInt64 s in Some (nf\<lparr>nf_close_runtime := v\<rparr>, snd (Expect CHR '','' r))
      else if field = ''process_count''
      then let (v, r) = ReadInt64 s in Some (nf\<lparr>nf_process_count := v\<rparr>, snd (Expect CHR '','' r))
      else if field = ''process_time_total_usec''
      then let (v, r) = ReadInt64 s in Some (nf\<lparr>nf_process_time_total := v\<rparr>, snd (Expect CHR '','' r))
      else if field = ''process_time_mean_usec''
      then Some (nf, snd (Expect CHR '','' (snd (ReadDouble s))))
      else map_option (\<lambda>r. (nf, snd (Expect CHR '','' r))) (SkipValue fuel s))"

fun read_fields :: "nat \<Rightarrow> string \<Rightarrow> node_fields \<Rightarrow> (node_fields \<times> string) option" where
  "read_fields 0 s nf = None"
| "read_fields (Suc fuel) s nf =
     (if s = [] then Some (nf, s)
      else let (closed, s1) = Expect CHR ''}'' s
           in if closed then Some (nf, snd (Expect CHR '','' s1))
              else let (field, s2) = ReadKey s1
                   in if field = [] then Some (nf, s2)
                      else Option.bind (read_field fuel field (snd (Expect CHR '':'' s2)) nf)
                             (\<lambda>(nf', s'). read_fields fuel s' nf'))"

definition add_node_sample :: "node_fields \<Rightarrow> per_node_accum \<Rightarrow> per_node_accum" where
  "add_node_sample nf e =
     (let e1 = e\<lparr>pa_open_runtime_usec := nf_open_runtime nf, pa_close_runtime_usec := nf_close_runtime nf,
                 pa_process_count := to_i64 (pa_process_count e + nf_process_count nf),
                 pa_process_time_total_usec := to_i64 (pa_process_time_total_usec e + nf_process_time_total nf)\<rparr>;
          avg = nf_process_time_total nf sdiv nf_process_count nf;
          e2 = (if nf_process_count nf > 0 \<and> avg < pa_process_time_min_usec e1
                then e1\<lparr>pa_process_time_min_usec := avg\<rparr> else e1);
          e3 = (if nf_process_count nf > 0 \<and> avg > pa_process_time_max_usec e2
                then e2\<lparr>pa_process_time_max_usec := avg\<rparr> else e2)
      in e3\<lparr>pa_samples := to_i32 (pa_samples e3 + 1)\<rparr>)"

text \<open>The first entry of that name, or a new one at the end.\<close>

fun update_entry :: "node_fields \<Rightarrow> per_node_accum list \<Rightarrow> per_node_accum list" where
  "update_entry nf [] = [add_node_sample nf (per_node_accum0 (nf_name nf))]"
| "update_entry nf (e # es) =
     (if pa_node_name e = nf_name nf then add_node_sample nf e # es else e # update_entry nf es)"

definition accumulate_node :: "node_fields \<Rightarrow> per_node_accum list \<Rightarrow> per_node_accum list" where
  "accumulate_node nf data = (if nf_name nf \<noteq> [] then update_entry nf data else data)"

fun read_nodes :: "nat \<Rightarrow> string \<Rightarrow> per_node_accum list \<Rightarrow> (per_node_accum list \<times> string) option" where
  "read_nodes 0 s data = None"
| "read_nodes (Suc fuel) s data =
     (if s = [] then Some (data, s)
      else let (closed, s1) = Expect CHR '']'' s
           in if closed then Some (data, s1)
              else let (opened, s2) = Expect CHR ''{'' s1
                   in if \<not> opened
                      then Option.bind (SkipValue fuel s2) (\<lambda>s3. read_nodes fuel (snd (Expect CHR '','' s3)) data)
                      else Option.bind (read_fields fuel s2 node_fields0)
                             (\<lambda>(nf, s3). read_nodes fuel s3 (accumulate_node nf data)))"

fun read_profile :: "nat \<Rightarrow> string \<Rightarrow> per_node_accum list \<Rightarrow> per_node_accum list option" where
  "read_profile 0 s data = None"
| "read_profile (Suc fuel) s data =
     (if s = [] then Some data
      else let (closed, s1) = Expect CHR ''}'' s
           in if closed then Some data
              else let (key, s2) = ReadKey s1
                   in if key = [] then Some data
                      else let s3 = snd (Expect CHR '':'' s2)
                           in if key = ''nodes''
                              then let (opened, s4) = Expect CHR ''['' s3
                                   in if \<not> opened
                                      then Option.bind (SkipValue fuel s4)
                                             (\<lambda>s5. read_profile fuel (snd (Expect CHR '','' s5)) data)
                                      else Option.bind (read_nodes fuel s4 data)
                                             (\<lambda>(data', s5). read_profile fuel s5 data')
                              else Option.bind (SkipValue fuel s3)
                                     (\<lambda>s4. read_profile fuel (snd (Expect CHR '','' s4)) data))"

declare read_fields.simps [simp del] read_nodes.simps [simp del] read_profile.simps [simp del]

definition Accumulate ::
  "nat \<Rightarrow> (string \<Rightarrow> string option) \<Rightarrow> string \<Rightarrow> per_node_accum list \<Rightarrow> (status \<times> per_node_accum list) option" where
  "Accumulate fuel read_file json_path data =
     (case read_file json_path of
        None \<Rightarrow> Some (Status CNotFound (''Profile file not found: '' @ json_path), data)
      | Some content \<Rightarrow>
          let (opened, s) = Expect CHR ''{'' content
          in if \<not> opened then Some (Status CInvalidArgument ''Expected JSON object'', data)
             else map_option (Pair ok_status) (read_profile fuel s data))"

record node_stats =
  ns_node_name :: string
  ns_open_runtime_usec :: int
  ns_close_runtime_usec :: int
  ns_process_count :: int
  ns_process_time_total_usec :: int
  ns_process_time_mean_usec :: rat
  ns_process_time_min_usec :: int
  ns_process_time_max_usec :: int

record profile_report =
  pr_nodes :: "node_stats list"
  pr_total_process_count :: int
  pr_total_process_time_usec :: int

definition stats_of :: "per_node_accum \<Rightarrow> node_stats" where
  "stats_of entry =
     \<lparr>ns_node_name = pa_node_name entry, ns_open_runtime_usec = pa_open_runtime_usec entry,
      ns_close_runtime_usec = pa_close_runtime_usec entry, ns_process_count = pa_process_count entry,
      ns_process_time_total_usec = pa_process_time_total_usec entry,
      ns_process_time_mean_usec =
        (if pa_process_count entry > 0
         then of_int (pa_process_time_total_usec entry) / of_int (pa_process_count entry) else 0),
      ns_process_time_min_usec =
        (if pa_process_time_min_usec entry = INT64_MAX then 0 else pa_process_time_min_usec entry),
      ns_process_time_max_usec = pa_process_time_max_usec entry\<rparr>"

definition report_entry :: "per_node_accum \<Rightarrow> profile_report \<Rightarrow> profile_report" where
  "report_entry entry r =
     (let stats = stats_of entry
      in r\<lparr>pr_nodes := pr_nodes r @ [stats],
          pr_total_process_count := to_i64 (pr_total_process_count r + ns_process_count stats),
          pr_total_process_time_usec :=
            to_i64 (pr_total_process_time_usec r + ns_process_time_total_usec stats)\<rparr>)"

definition Report :: "per_node_accum list \<Rightarrow> profile_report" where
  "Report data = fold report_entry data
     \<lparr>pr_nodes = [], pr_total_process_count = 0, pr_total_process_time_usec = 0\<rparr>"

record delta =
  dl_node_name :: string
  dl_process_mean_delta_usec :: rat
  dl_process_mean_delta_pct :: rat

definition compare_node :: "(string, node_stats) omap \<Rightarrow> node_stats \<Rightarrow> delta" where
  "compare_node baseline_map node =
     (case omap_get baseline_map (ns_node_name node) of
        Some b \<Rightarrow>
          let d = ns_process_time_mean_usec node - ns_process_time_mean_usec b
          in \<lparr>dl_node_name = ns_node_name node, dl_process_mean_delta_usec = d,
              dl_process_mean_delta_pct =
                (if ns_process_time_mean_usec b > 0 then d / ns_process_time_mean_usec b * 100 else 0)\<rparr>
      | None \<Rightarrow>
          \<lparr>dl_node_name = ns_node_name node,
           dl_process_mean_delta_usec = ns_process_time_mean_usec node,
           dl_process_mean_delta_pct = 100\<rparr>)"

definition Compare :: "profile_report \<Rightarrow> per_node_accum list \<Rightarrow> delta list" where
  "Compare baseline data =
     (let baseline_map = fold (\<lambda>node. omap_put (ns_node_name node) node) (pr_nodes baseline) []
      in map (compare_node baseline_map) (pr_nodes (Report data)))"

definition rp_Clear :: "per_node_accum list \<Rightarrow> per_node_accum list" where
  "rp_Clear data = []"

end
