(* ===== verification/Profile_Roundtrip.thy ===== *)
theory Profile_Roundtrip
  imports Profile_Reader
begin

text \<open>
  What the reporter makes of the files the profile writer produces. Reading is proved loop by
  loop: \<open>settles\<close> says that a fuelled loop has a value once it is given enough fuel, \<open>leads_to\<close>
  that one iteration of a loop takes it from one state to another, whatever fuel is left, beyond
  some amount. A loop that leads to one that never returns does not return either, because more
  fuel never changes a value.
\<close>

section \<open>Fuel\<close>

definition settles :: "(nat \<Rightarrow> 'a option) \<Rightarrow> 'a \<Rightarrow> bool" where
  "settles F y \<longleftrightarrow> (\<exists>n. \<forall>f\<ge>n. F f = Some y)"

definition leads_to :: "(nat \<Rightarrow> 'a option) \<Rightarrow> (nat \<Rightarrow> 'a option) \<Rightarrow> bool" where
  "leads_to F G \<longleftrightarrow> (\<exists>n. \<forall>f\<ge>n. F (Suc f) = G f)"

lemma settles_const: "settles (\<lambda>f. Some y) y"
  by (simp add: settles_def)

lemma settles_bind:
  assumes "settles A x" "settles (\<lambda>f. G f x) y"
  shows "settles (\<lambda>f. Option.bind (A f) (G f)) y"
proof -
  obtain m n where "\<forall>f\<ge>m. A f = Some x" "\<forall>f\<ge>n. G f x = Some y"
    using assms by (auto simp: settles_def)
  then have "\<forall>f\<ge>max m n. Option.bind (A f) (G f) = Some y" by simp
  then show ?thesis unfolding settles_def by (rule exI)
qed

lemma settles_map: "settles A x \<Longrightarrow> settles (\<lambda>f. map_option g (A f)) (g x)"
  unfolding settles_def by (metis option.map(2))

lemma leads_to_bind:
  assumes "settles A x" "\<And>f. F (Suc f) = Option.bind (A f) (G f)"
  shows "leads_to F (\<lambda>f. G f x)"
proof -
  obtain n where "\<forall>f\<ge>n. A f = Some x" using assms(1) by (auto simp: settles_def)
  then have "\<forall>f\<ge>n. F (Suc f) = G f x" by (simp add: assms(2))
  then show ?thesis unfolding leads_to_def by (rule exI)
qed

lemma leads_to_eq: "(\<And>f. F (Suc f) = G f) \<Longrightarrow> leads_to F G"
  by (simp add: leads_to_def)

lemma settles_step: "leads_to F G \<Longrightarrow> settles G y \<Longrightarrow> settles F y"
proof -
  assume "leads_to F G" "settles G y"
  then obtain m n where "\<forall>f\<ge>m. F (Suc f) = G f" "\<forall>f\<ge>n. G f = Some y"
    by (auto simp: leads_to_def settles_def)
  then have "\<forall>f\<ge>Suc (max m n). F f = Some y"
    by (metis Suc_le_D Suc_le_mono max.bounded_iff)
  then show ?thesis unfolding settles_def by (rule exI)
qed

definition fuel_mono :: "(nat \<Rightarrow> 'a option) \<Rightarrow> bool" where
  "fuel_mono F \<longleftrightarrow> (\<forall>f y. F f = Some y \<longrightarrow> F (Suc f) = Some y)"

lemma fuel_mono_le: "fuel_mono F \<Longrightarrow> F f = Some y \<Longrightarrow> f \<le> f' \<Longrightarrow> F f' = Some y"
  by (rotate_tac 2, induction rule: dec_induct) (auto simp: fuel_mono_def)

lemma diverges_step:
  assumes "leads_to F G" "fuel_mono F" "\<And>f. G f = None"
  shows "F f = None"
proof (rule ccontr)
  assume "F f \<noteq> None"
  then obtain y where y: "F f = Some y" by blast
  obtain m where "\<forall>f\<ge>m. F (Suc f) = G f" using assms(1) by (auto simp: leads_to_def)
  then have "F (Suc (f + m)) = None" using assms(3) by simp
  moreover have "F (Suc (f + m)) = Some y" by (rule fuel_mono_le [OF assms(2) y]) simp
  ultimately show False by simp
qed

section \<open>Tokens\<close>

lemma special_chars [simp]:
  "is_json_space CHR '' ''" "is_json_space newline"
  "\<not> is_json_space dquote" "\<not> is_json_space CHR '':''" "\<not> is_json_space CHR '',''"
  "\<not> is_json_space CHR ''{''" "\<not> is_json_space CHR ''}''" "\<not> is_json_space CHR ''[''"
  "\<not> is_json_space CHR '']''" "\<not> is_json_space CHR ''-''" "\<not> is_json_space CHR ''e''"
  "\<not> is_json_space CHR ''t''" "\<not> is_json_space CHR ''f''"
  by (simp_all add: is_json_space_def newline_def carriage_return_def tab_def dquote_def)

lemma dquote_neq [simp]:
  "dquote \<noteq> CHR '':''" "dquote \<noteq> CHR '',''" "dquote \<noteq> CHR ''{''" "dquote \<noteq> CHR ''}''"
  "dquote \<noteq> CHR ''[''" "dquote \<noteq> CHR '']''" "dquote \<noteq> backslash" "dquote \<noteq> CHR ''e''"
  "CHR '':'' \<noteq> dquote" "CHR '','' \<noteq> dquote" "CHR ''{'' \<noteq> dquote" "CHR ''}'' \<noteq> dquote"
  "CHR ''['' \<noteq> dquote" "CHR '']'' \<noteq> dquote" "CHR ''e'' \<noteq> dquote" "CHR ''-'' \<noteq> dquote"
  "CHR ''t'' \<noteq> dquote" "CHR ''f'' \<noteq> dquote"
  by (simp_all add: dquote_def backslash_def)

lemma digit_chars: "is_digit c \<Longrightarrow> \<not> is_json_space c \<and> c \<noteq> dquote \<and> c \<noteq> CHR ''{'' \<and> c \<noteq> CHR ''}'' \<and>
    c \<noteq> CHR ''['' \<and> c \<noteq> CHR '']'' \<and> c \<noteq> CHR ''t'' \<and> c \<noteq> CHR ''f'' \<and> c \<noteq> CHR ''-'' \<and> c \<noteq> CHR ''.''"
  by (auto simp: is_digit_def is_json_space_def newline_def carriage_return_def tab_def dquote_def)

lemma not_digit_chars [simp]:
  "\<not> is_digit newline" "\<not> is_digit dquote" "\<not> is_digit CHR ''e''"
  "\<not> is_digit CHR ''{''" "\<not> is_digit CHR ''[''"
  by (simp_all add: is_digit_def newline_def dquote_def)

lemma SkipWhitespace_Cons:
  "SkipWhitespace (c # s) = (if is_json_space c then SkipWhitespace s else c # s)"
  by (simp add: SkipWhitespace_def)

lemma SkipWhitespace_spaces [simp]:
  "SkipWhitespace (replicate n CHR '' '' @ s) = SkipWhitespace s"
  by (induction n) (simp_all add: SkipWhitespace_Cons)

lemma SkipWhitespace_same:
  assumes "SkipWhitespace s = SkipWhitespace s'"
  shows "Expect c s = Expect c s'" "ReadKey s = ReadKey s'" "ReadString s = ReadString s'"
    "ReadInt64 s = ReadInt64 s'" "ReadDouble s = ReadDouble s'" "SkipValue f s = SkipValue f s'"
  using assms by (simp_all add: Expect_def ReadKey_def ReadString_def ReadInt64_def ReadDouble_def
      SkipValue_def)

lemma space_Cons:
  assumes "is_json_space c"
  shows "Expect d (c # s) = Expect d s" "ReadKey (c # s) = ReadKey s" "ReadString (c # s) = ReadString s"
    "ReadInt64 (c # s) = ReadInt64 s" "ReadDouble (c # s) = ReadDouble s"
    "SkipValue f (c # s) = SkipValue f s"
  by (rule SkipWhitespace_same, simp add: SkipWhitespace_Cons assms)+

lemma Expect_spaces [simp]: "Expect d (replicate n CHR '' '' @ s) = Expect d s"
  by (rule SkipWhitespace_same) simp

lemma Expect_newline [simp]: "Expect d (newline # s) = Expect d s"
  "Expect d (CHR '' '' # s) = Expect d s"
  by (rule space_Cons; simp)+

lemma Expect_Cons: "\<not> is_json_space c \<Longrightarrow> Expect d (c # s) = (if c = d then (True, s) else (False, c # s))"
  by (simp add: Expect_def SkipWhitespace_Cons)

lemma string_body_plain:
  "dquote \<notin> set k \<Longrightarrow> backslash \<notin> set k \<Longrightarrow> string_body (k @ dquote # r) = (k, r)"
  by (induction k) auto

lemma string_body_escaped: "string_body (concat (map escape_char s) @ dquote # r) = (s, r)"
proof (induction s)
  case (Cons c s)
  have "string_body (escape_char c @ t) = (let (u, r) = string_body t in (c # u, r))" for t
    by (simp add: escape_char_def unescape_char_def newline_def carriage_return_def tab_def
        dquote_def backslash_def)
  then show ?case using Cons by simp
qed simp

lemma ReadString_written: "ReadString (WriteJsonString s @ r) = (s, r)"
  by (simp add: ReadString_def WriteJsonString_def SkipWhitespace_Cons string_body_escaped)

text \<open>A text whose first character ends a number.\<close>

definition ends_number :: "string \<Rightarrow> bool" where
  "ends_number r \<longleftrightarrow> r \<noteq> [] \<and> \<not> is_digit (hd r) \<and> hd r \<noteq> CHR ''.''"

lemma ends_number_simps [simp]:
  "ends_number (CHR '','' # r)" "ends_number (CHR '']'' # r)" "ends_number (newline # r)"
  "ends_number (CHR ''e'' # r)"
  by (simp_all add: ends_number_def) (simp add: newline_def)

lemma ends_number_Cons: "ends_number r \<Longrightarrow> \<exists>c r'. r = c # r' \<and> \<not> is_digit c \<and> c \<noteq> CHR ''.''"
  by (cases r) (simp_all add: ends_number_def)

lemma dec_value_mono: "a \<le> dec_value a ds"
proof (induction ds arbitrary: a)
  case (Cons c ds)
  have "a \<le> a * 10 + digit_val c" by simp
  also have "\<dots> \<le> dec_value a (c # ds)" using Cons [of "a * 10 + digit_val c"] by simp
  finally show ?case .
qed simp

lemma read_digits_run:
  "\<forall>c\<in>set ds. is_digit c \<Longrightarrow> int (dec_value a ds) \<le> INT64_MAX \<Longrightarrow> ends_number r \<Longrightarrow>
   read_digits (int a) (ds @ r) = (int (dec_value a ds), r)"
proof (induction ds arbitrary: a)
  case Nil
  then show ?case using ends_number_Cons [of r] by auto
next
  case (Cons c ds)
  have "a * 10 + digit_val c \<le> dec_value a (c # ds)"
    using dec_value_mono [of "a * 10 + digit_val c" ds] by simp
  then have "to_i64 (int a * 10 + int (digit_val c)) = int (a * 10 + digit_val c)"
    using Cons.prems(2) by (subst to_i64_id) simp_all
  then show ?case using Cons.IH [of "a * 10 + digit_val c"] Cons.prems by simp
qed

text \<open>The values the writer prints and the reader reads back without overflow.\<close>

definition printable :: "int \<Rightarrow> bool" where
  "printable i \<longleftrightarrow> - INT64_MAX \<le> i \<and> i \<le> INT64_MAX"

lemma dec_of_nat_Cons: "\<exists>c cs. dec_of_nat n = c # cs \<and> is_digit c"
  using dec_of_nat_digits [of n] by (cases "dec_of_nat n") auto

lemma read_digits_nat:
  "int n \<le> INT64_MAX \<Longrightarrow> ends_number r \<Longrightarrow> read_digits 0 (dec_of_nat n @ r) = (int n, r)"
  using read_digits_run [of "dec_of_nat n" 0 r] by (simp add: dec_of_nat_digits dec_value_dec_of_nat)

lemma ReadInt64_written:
  assumes "printable i" "ends_number r"
  shows "ReadInt64 (dec_of_int i @ r) = (i, r)"
proof (cases "i < 0")
  case True
  then have "int (nat (- i)) \<le> INT64_MAX" using assms(1) by (simp add: printable_def)
  from read_digits_nat [OF this assms(2)] show ?thesis
    using True assms(1)
    by (simp add: ReadInt64_def dec_of_int_def SkipWhitespace_Cons read_sign_def printable_def to_i64_id)
next
  case False
  then have "int (nat i) \<le> INT64_MAX" using assms(1) by (simp add: printable_def)
  from read_digits_nat [OF this assms(2)] dec_of_nat_Cons [of "nat i"] show ?thesis
    using False digit_chars
    by (auto simp: ReadInt64_def dec_of_int_def SkipWhitespace_Cons read_sign_def)
qed

lemma read_digits_double_run:
  "\<forall>c\<in>set ds. is_digit c \<Longrightarrow> \<not> is_digit (hd r) \<Longrightarrow> r \<noteq> [] \<Longrightarrow> snd (read_digits_double v (ds @ r)) = r"
  by (induction ds arbitrary: v) (cases r; simp)+

lemma read_fraction_run:
  "\<forall>c\<in>set ds. is_digit c \<Longrightarrow> \<not> is_digit (hd r) \<Longrightarrow> r \<noteq> [] \<Longrightarrow> snd (read_fraction n d (ds @ r)) = r"
  by (induction ds arbitrary: n d) (cases r; simp)+

lemma ReadDouble_sign:
  "snd (ReadDouble (CHR ''-'' # c # s)) = snd (ReadDouble (c # s))" if "is_digit c"
  using digit_chars [OF that]
  by (simp add: ReadDouble_def SkipWhitespace_Cons read_sign_def split_beta Let_def split: list.splits)

lemma ReadDouble_digits:
  assumes "ip \<noteq> []" "\<forall>c\<in>set ip. is_digit c" "ends_number r"
  shows "snd (ReadDouble (ip @ r)) = r"
proof -
  have "\<not> is_json_space (hd ip)" "hd ip \<noteq> CHR ''-''" using assms(1,2) digit_chars by simp_all
  then have "SkipWhitespace (ip @ r) = ip @ r" "read_sign (ip @ r) = (False, ip @ r)"
    using assms(1) by (cases ip; simp add: SkipWhitespace_Cons read_sign_def)+
  moreover have "snd (read_digits_double 0 (ip @ r)) = r"
    using assms(3) by (intro read_digits_double_run assms) (simp_all add: ends_number_def)
  ultimately show ?thesis
    using ends_number_Cons [OF assms(3)]
    by (auto simp: ReadDouble_def split_beta Let_def split: list.splits)
qed

lemma ReadDouble_point:
  assumes "ip \<noteq> []" "\<forall>c\<in>set ip. is_digit c" "\<forall>c\<in>set fp. is_digit c" "ends_number r"
  shows "snd (ReadDouble (ip @ CHR ''.'' # fp @ r)) = r"
proof -
  let ?s = "CHR ''.'' # fp @ r"
  have "\<not> is_json_space (hd ip)" "hd ip \<noteq> CHR ''-''" using assms(1,2) digit_chars by simp_all
  then have "SkipWhitespace (ip @ ?s) = ip @ ?s" "read_sign (ip @ ?s) = (False, ip @ ?s)"
    using assms(1) by (cases ip; simp add: SkipWhitespace_Cons read_sign_def)+
  moreover have "snd (read_digits_double 0 (ip @ ?s)) = ?s"
    by (intro read_digits_double_run assms) simp_all
  moreover have "snd (read_fraction 0 1 (fp @ r)) = r"
    using assms(4) by (intro read_fraction_run assms) (simp_all add: ends_number_def)
  ultimately show ?thesis
    by (simp add: ReadDouble_def split_beta Let_def)
qed

lemma ReadDouble_written:
  assumes "plain_decimal d" "ends_number r"
  shows "snd (ReadDouble (d @ r)) = r"
proof -
  obtain ip fp where d: "ip \<noteq> []" "\<forall>c\<in>set (ip @ fp). is_digit c" "d = ip \<or> d = ip @ CHR ''.'' # fp"
    using assms(1) unfolding plain_decimal_def by blast
  have digits: "\<forall>c\<in>set ip. is_digit c" "\<forall>c\<in>set fp. is_digit c"
    using d(2) by (simp_all add: ball_Un)
  from d(3) show ?thesis
    using ReadDouble_digits [OF d(1) digits(1) assms(2)] ReadDouble_point [OF d(1) digits assms(2)]
    by auto
qed

lemma ReadDouble_int:
  assumes "ends_number r"
  shows "snd (ReadDouble (dec_of_int i @ r)) = r"
proof -
  have nat: "snd (ReadDouble (dec_of_nat n @ r)) = r" for n
    using ReadDouble_digits [of "dec_of_nat n" r] assms by (simp add: dec_of_nat_digits)
  obtain c cs where "dec_of_nat (nat (- i)) = c # cs" "is_digit c" using dec_of_nat_Cons by blast
  then show ?thesis
    using nat [of "nat (- i)"] nat [of "nat i"] ReadDouble_sign by (simp add: dec_of_int_def)
qed

section \<open>More fuel keeps the value\<close>

lemma skip_mono:
  "(skip_object f d s = Some y \<longrightarrow> skip_object (Suc f) d s = Some y) \<and>
   (skip_array f d s = Some y \<longrightarrow> skip_array (Suc f) d s = Some y)"
proof (induction f arbitrary: d s y)
  case 0
  then show ?case by (simp add: skip_object.simps(1) skip_array.simps(1))
next
  case (Suc f)
  have obj: "skip_object f d s = Some y \<Longrightarrow> skip_object (Suc f) d s = Some y"
    and arr: "skip_array f d s = Some y \<Longrightarrow> skip_array (Suc f) d s = Some y" for d s y
    using Suc.IH by blast+
  show ?case
    unfolding skip_object.simps(2) [of "Suc f"] skip_array.simps(2) [of "Suc f"]
      skip_object.simps(2) [of f d s] skip_array.simps(2) [of f d s]
    by (auto simp: bind_eq_Some_conv split: list.splits if_splits dest!: obj arr)
qed

lemma SkipValue_mono: "SkipValue f s = Some y \<Longrightarrow> SkipValue (Suc f) s = Some y"
  using skip_mono by (auto simp: SkipValue_def SkipObject_def SkipArray_def split: list.splits if_splits)

lemma read_field_mono:
  "read_field f field s nf = Some y \<Longrightarrow> read_field (Suc f) field s nf = Some y"
  unfolding read_field_def by (auto split: if_splits dest: SkipValue_mono)

lemma read_fields_mono: "read_fields f s nf = Some y \<Longrightarrow> read_fields (Suc f) s nf = Some y"
proof (induction f arbitrary: s nf)
  case (Suc f)
  from Suc.prems show ?case
    unfolding read_fields.simps(2) [of "Suc f"] read_fields.simps(2) [of f s nf]
    by (auto simp: bind_eq_Some_conv Let_def read_field_mono Suc.IH split: if_splits prod.splits)
qed (simp add: read_fields.simps)

lemma read_nodes_mono: "read_nodes f s data = Some y \<Longrightarrow> read_nodes (Suc f) s data = Some y"
proof (induction f arbitrary: s data)
  case (Suc f)
  from Suc.prems show ?case
    unfolding read_nodes.simps(2) [of "Suc f"] read_nodes.simps(2) [of f s data]
    by (auto simp: bind_eq_Some_conv Let_def SkipValue_mono read_fields_mono Suc.IH
        split: if_splits prod.splits)
qed (simp add: read_nodes.simps)

lemma read_profile_mono: "read_profile f s data = Some y \<Longrightarrow> read_profile (Suc f) s data = Some y"
proof (induction f arbitrary: s data)
  case (Suc f)
  from Suc.prems show ?case
    unfolding read_profile.simps(2) [of "Suc f"] read_profile.simps(2) [of f s data]
    by (auto simp: bind_eq_Some_conv Let_def SkipValue_mono read_nodes_mono Suc.IH
        split: if_splits prod.splits)
qed (simp add: read_profile.simps)

section \<open>Skipping a value\<close>

definition plain_key :: "string \<Rightarrow> bool" where
  "plain_key k \<longleftrightarrow> k \<noteq> [] \<and> dquote \<notin> set k \<and> backslash \<notin> set k"

lemma ReadString_key: "plain_key k \<Longrightarrow> ReadString (dquote # k @ dquote # r) = (k, r)"
  by (simp add: ReadString_def SkipWhitespace_Cons string_body_plain plain_key_def)

lemma ReadKey_key: "plain_key k \<Longrightarrow> ReadKey (dquote # k @ dquote # r) = (k, r)"
  by (simp add: ReadKey_def SkipWhitespace_Cons ReadString_key)

lemma skip_object_space:
  "is_json_space c \<Longrightarrow> 0 < d \<Longrightarrow> s \<noteq> [] \<Longrightarrow> skip_object f d (c # s) = skip_object f d s"
  by (cases f) (simp_all add: skip_object.simps SkipWhitespace_Cons)

lemma skip_array_space:
  "is_json_space c \<Longrightarrow> 0 < d \<Longrightarrow> s \<noteq> [] \<Longrightarrow> skip_array f d (c # s) = skip_array f d s"
  by (cases f) (simp_all add: skip_array.simps SkipWhitespace_Cons)

lemma skip_object_spaces: "0 < d \<Longrightarrow> s \<noteq> [] \<Longrightarrow> skip_object f d (replicate n CHR '' '' @ s) = skip_object f d s"
  by (induction n) (simp_all add: skip_object_space)

definition other_char :: "char \<Rightarrow> bool" where
  "other_char c \<longleftrightarrow> \<not> is_json_space c \<and> c \<notin> {CHR ''{'', CHR ''}'', dquote, CHR ''['', CHR '']''} \<and>
     \<not> starts_bool c \<and> \<not> starts_number c"

lemma other_chars: "other_char CHR '':''" "other_char CHR '',''"
  by (simp_all add: other_char_def starts_bool_def starts_number_def)

lemma skip_object_other:
  "other_char c \<Longrightarrow> 0 < d \<Longrightarrow> settles (\<lambda>f. skip_object f d s) y \<Longrightarrow> settles (\<lambda>f. skip_object f d (c # s)) y"
  by (rule settles_step [OF leads_to_eq])
    (auto simp: skip_object.simps SkipWhitespace_Cons other_char_def)

lemma skip_array_other:
  "other_char c \<Longrightarrow> 0 < d \<Longrightarrow> settles (\<lambda>f. skip_array f d s) y \<Longrightarrow> settles (\<lambda>f. skip_array f d (c # s)) y"
  by (rule settles_step [OF leads_to_eq])
    (auto simp: skip_array.simps SkipWhitespace_Cons other_char_def)

lemma dec_of_int_Cons: "\<exists>c cs. dec_of_int i = c # cs \<and> starts_number c"
  using dec_of_nat_Cons [of "nat i"] dec_of_nat_Cons [of "nat (- i)"]
  by (auto simp: dec_of_int_def starts_number_def)

lemma starts_number_chars: "starts_number c \<Longrightarrow> \<not> is_json_space c \<and> c \<notin> {CHR ''{'', CHR ''}'', dquote, CHR ''['', CHR '']''} \<and>
    \<not> starts_bool c"
  using digit_chars by (auto simp: starts_number_def starts_bool_def)

lemma skip_object_int:
  assumes "0 < d" "ends_number r" "settles (\<lambda>f. skip_object f d r) y"
  shows "settles (\<lambda>f. skip_object f d (dec_of_int i @ r)) y"
proof (rule settles_step [OF leads_to_eq assms(3)])
  obtain c cs where c: "dec_of_int i = c # cs" "starts_number c" using dec_of_int_Cons by blast
  then show "skip_object (Suc f) d (dec_of_int i @ r) = skip_object f d r" for f
    using ReadDouble_int [OF assms(2), of i] starts_number_chars [OF c(2)] assms(1)
    by (simp add: skip_object.simps SkipWhitespace_Cons)
qed

lemma skip_array_int:
  assumes "0 < d" "ends_number r" "settles (\<lambda>f. skip_array f d r) y"
  shows "settles (\<lambda>f. skip_array f d (dec_of_int i @ r)) y"
proof (rule settles_step [OF leads_to_eq assms(3)])
  obtain c cs where c: "dec_of_int i = c # cs" "starts_number c" using dec_of_int_Cons by blast
  then show "skip_array (Suc f) d (dec_of_int i @ r) = skip_array f d r" for f
    using ReadDouble_int [OF assms(2), of i] starts_number_chars [OF c(2)] assms(1)
    by (simp add: skip_array.simps SkipWhitespace_Cons)
qed

lemma skip_object_string:
  assumes "0 < d" "settles (\<lambda>f. skip_object f d r) y"
  shows "settles (\<lambda>f. skip_object f d (WriteJsonString s @ r)) y"
proof (rule settles_step [OF leads_to_eq assms(2)])
  show "skip_object (Suc f) d (WriteJsonString s @ r) = skip_object f d r" for f
    using assms(1) ReadString_written [of s r]
    by (simp add: skip_object.simps SkipWhitespace_Cons WriteJsonString_def)
qed

lemma skip_object_bool:
  assumes "0 < d" "settles (\<lambda>f. skip_object f d r) y"
  shows "settles (\<lambda>f. skip_object f d ((if b then ''true'' else ''false'') @ r)) y"
proof (rule settles_step [OF leads_to_eq assms(2)])
  show "skip_object (Suc f) d ((if b then ''true'' else ''false'') @ r) = skip_object f d r" for f
    using assms(1) by (simp add: skip_object.simps SkipWhitespace_Cons ReadBool_def starts_bool_def)
qed

lemma skip_object_key:
  assumes "0 < d" "plain_key k" "s \<noteq> []" "settles (\<lambda>f. skip_object f d s) y"
  shows "settles (\<lambda>f. skip_object f d (json_key n k @ s)) y"
proof -
  have "settles (\<lambda>f. skip_object f d (CHR '':'' # CHR '' '' # s)) y"
    using assms by (intro skip_object_other [OF other_chars(1)]) (simp_all add: skip_object_space)
  then have "settles (\<lambda>f. skip_object f d (dquote # k @ dquote # CHR '':'' # CHR '' '' # s)) y"
    by (rule settles_step [OF leads_to_eq, rotated])
       (use assms(1) ReadString_key [OF assms(2)] in \<open>simp add: skip_object.simps SkipWhitespace_Cons\<close>)
  then show ?thesis using assms(1) by (simp add: json_key_def skip_object_spaces)
qed

lemma skip_object_comma:
  "0 < d \<Longrightarrow> s \<noteq> [] \<Longrightarrow> settles (\<lambda>f. skip_object f d s) y \<Longrightarrow> settles (\<lambda>f. skip_object f d (comma_line @ s)) y"
  unfolding comma_line_def
  by (simp, rule skip_object_other [OF other_chars(2)]) (simp_all add: skip_object_space)

lemma skip_object_close: "settles (\<lambda>f. skip_object f (Suc 0) (CHR ''}'' # s)) s"
proof (rule settles_step [OF leads_to_eq])
  show "skip_object (Suc f) (Suc 0) (CHR ''}'' # s) = skip_object f 0 s" for f
    by (simp add: skip_object.simps SkipWhitespace_Cons)
  show "settles (\<lambda>f. skip_object f 0 s) s"
    by (rule settles_step [OF leads_to_eq settles_const]) (simp add: skip_object.simps)
qed

lemma skip_array_close: "settles (\<lambda>f. skip_array f (Suc 0) (CHR '']'' # s)) s"
proof (rule settles_step [OF leads_to_eq])
  show "skip_array (Suc f) (Suc 0) (CHR '']'' # s) = skip_array f 0 s" for f
    by (simp add: skip_array.simps SkipWhitespace_Cons)
  show "settles (\<lambda>f. skip_array f 0 s) s"
    by (rule settles_step [OF leads_to_eq settles_const]) (simp add: skip_array.simps)
qed

lemma skip_array_buckets: "settles (\<lambda>f. skip_array f (Suc 0) (write_buckets bs @ CHR '']'' # s)) s"
proof (induction bs rule: write_buckets.induct)
  case 1
  then show ?case by (simp add: skip_array_close)
next
  case (2 b)
  then show ?case by (simp add: skip_array_int skip_array_close)
next
  case (3 b b' bs)
  have "settles (\<lambda>f. skip_array f (Suc 0) (CHR '','' # CHR '' '' # write_buckets (b' # bs) @ CHR '']'' # s)) s"
    using 3 by (intro skip_array_other [OF other_chars(2)]) (simp_all add: skip_array_space)
  then show ?case by (simp add: skip_array_int)
qed

lemma skip_object_buckets:
  assumes "0 < d" "settles (\<lambda>f. skip_object f d r) y"
  shows "settles (\<lambda>f. skip_object f d (CHR ''['' # write_buckets bs @ CHR '']'' # r)) y"
proof (rule settles_step [OF _ assms(2)],
    rule leads_to_bind [OF skip_array_buckets [of bs r], where G = "\<lambda>f. skip_object f d"])
  show "skip_object (Suc f) d (CHR ''['' # write_buckets bs @ CHR '']'' # r) =
      Option.bind (skip_array f (Suc 0) (write_buckets bs @ CHR '']'' # r)) (skip_object f d)" for f
    using assms(1) by (simp add: skip_object.simps SkipWhitespace_Cons Expect_Cons)
qed

lemma SkipValue_object:
  "settles (\<lambda>f. skip_object f (Suc 0) s) y \<Longrightarrow> settles (\<lambda>f. SkipValue f (CHR ''{'' # s)) y"
  by (simp add: SkipValue_def SkipWhitespace_Cons SkipObject_def Expect_Cons)

lemma comma_line_simps [simp]:
  "ends_number (comma_line @ r)" "comma_line @ r \<noteq> []" "Expect CHR '','' (comma_line @ r) = (True, newline # r)"
  by (simp_all add: comma_line_def Expect_Cons)

lemma json_key_not_Nil [simp]: "json_key n k \<noteq> []" "json_key n k @ s \<noteq> []"
  by (simp_all add: json_key_def)

lemma written_not_Nil [simp]: "dec_of_int i \<noteq> []" "WriteJsonString s \<noteq> []"
  by (simp_all add: dec_of_int_def WriteJsonString_def)

lemma config_keys:
  "plain_key ''enable_profiler''" "plain_key ''histogram_interval_size_usec''"
  "plain_key ''num_histogram_intervals''" "plain_key ''trace_log_path''"
  by (simp_all add: plain_key_def dquote_def backslash_def)

lemma runtime_keys:
  "plain_key ''interval_size_usec''" "plain_key ''num_intervals''" "plain_key ''count''"
  "plain_key ''total_usec''" "plain_key ''buckets''"
  by (simp_all add: plain_key_def dquote_def backslash_def)

lemma node_keys:
  "plain_key ''node_name''" "plain_key ''open_runtime_usec''" "plain_key ''close_runtime_usec''"
  "plain_key ''process_count''" "plain_key ''process_time_total_usec''"
  "plain_key ''process_time_mean_usec''" "plain_key ''process_runtime''"
  by (simp_all add: plain_key_def dquote_def backslash_def)

lemma profile_keys:
  "plain_key ''capture_time''" "plain_key ''node_count''" "plain_key ''profiler_config''"
  "plain_key ''nodes''"
  by (simp_all add: plain_key_def dquote_def backslash_def)

lemmas skip_object_rules = skip_object_key skip_object_int skip_object_string skip_object_bool
  skip_object_buckets skip_object_comma

lemma skip_object_end:
  "settles (\<lambda>f. skip_object f (Suc 0) (newline # replicate n CHR '' '' @ CHR ''}'' # r)) r"
  using skip_object_close [of r] by (simp add: skip_object_space skip_object_spaces)

lemma SkipValue_config: "settles (\<lambda>f. SkipValue f (WriteProfilerConfigJson config @ r)) r"
proof -
  have "settles (\<lambda>f. skip_object f (Suc 0)
     (json_key 4 ''enable_profiler'' @ (if pc_enable_profiler config then ''true'' else ''false'') @ comma_line @
      json_key 4 ''histogram_interval_size_usec'' @ dec_of_int (pc_histogram_interval_size_usec config) @ comma_line @
      json_key 4 ''num_histogram_intervals'' @ dec_of_int (pc_num_histogram_intervals config) @ comma_line @
      json_key 4 ''trace_log_path'' @ WriteJsonString (pc_trace_log_path config) @
      newline # replicate 2 CHR '' '' @ CHR ''}'' # r)) r"
    by (intro skip_object_rules config_keys skip_object_end) simp_all
  then show ?thesis
    by (simp add: WriteProfilerConfigJson_def SkipValue_object skip_object_space numeral_2_eq_2)
qed

text \<open>The histogram object of a node.\<close>

definition histogram_text :: "writer_node \<Rightarrow> string" where
  "histogram_text node = CHR ''{'' # newline #
     json_key 6 ''interval_size_usec'' @ dec_of_int (wn_histogram_interval_size_usec node) @ comma_line @
     json_key 6 ''num_intervals'' @ dec_of_int (wn_histogram_num_intervals node) @ comma_line @
     json_key 6 ''count'' @ dec_of_int (wn_process_count node) @ comma_line @
     json_key 6 ''total_usec'' @ dec_of_int (wn_process_time_total_usec node) @ comma_line @
     json_key 6 ''buckets'' @ CHR ''['' # write_buckets (wn_histogram_buckets node) @
     CHR '']'' # newline # replicate 4 CHR '' '' @ CHR ''}'' # []"

lemma SkipValue_histogram: "settles (\<lambda>f. SkipValue f (histogram_text node @ r)) r"
proof -
  have "settles (\<lambda>f. skip_object f (Suc 0)
     (json_key 6 ''interval_size_usec'' @ dec_of_int (wn_histogram_interval_size_usec node) @ comma_line @
      json_key 6 ''num_intervals'' @ dec_of_int (wn_histogram_num_intervals node) @ comma_line @
      json_key 6 ''count'' @ dec_of_int (wn_process_count node) @ comma_line @
      json_key 6 ''total_usec'' @ dec_of_int (wn_process_time_total_usec node) @ comma_line @
      json_key 6 ''buckets'' @ CHR ''['' # write_buckets (wn_histogram_buckets node) @
      CHR '']'' # newline # replicate 4 CHR '' '' @ CHR ''}'' # r)) r"
    by (intro skip_object_rules runtime_keys skip_object_end) simp_all
  then show ?thesis
    by (simp add: histogram_text_def SkipValue_object skip_object_space)
qed

section \<open>Reading a node\<close>

definition fields_of :: "writer_node \<Rightarrow> node_fields" where
  "fields_of node = \<lparr>nf_name = wn_node_name node, nf_open_runtime = wn_open_runtime_usec node,
     nf_close_runtime = wn_close_runtime_usec node, nf_process_count = wn_process_count node,
     nf_process_time_total = wn_process_time_total_usec node\<rparr>"

definition node_printable :: "writer_node \<Rightarrow> bool" where
  "node_printable node \<longleftrightarrow> printable (wn_open_runtime_usec node) \<and> printable (wn_close_runtime_usec node) \<and>
     printable (wn_process_count node) \<and> printable (wn_process_time_total_usec node)"

lemma read_fields_key:
  assumes "plain_key k"
  shows "read_fields (Suc f) (newline # json_key n k @ s) nf =
    Option.bind (read_field f k (CHR '' '' # s) nf) (\<lambda>(nf', s'). read_fields f s' nf')"
  using assms ReadKey_key [OF assms]
  by (simp add: read_fields.simps json_key_def Expect_Cons Let_def plain_key_def)

lemma read_fields_value:
  assumes "plain_key k" "settles (\<lambda>f. read_field f k (CHR '' '' # s) nf) (nf', s')"
    "settles (\<lambda>f. read_fields f s' nf') y"
  shows "settles (\<lambda>f. read_fields f (newline # json_key n k @ s) nf) y"
proof (rule settles_step [OF leads_to_eq], rule read_fields_key [OF assms(1)])
  show "settles (\<lambda>f. Option.bind (read_field f k (CHR '' '' # s) nf)
      (\<lambda>(nf', s'). read_fields f s' nf')) y"
    by (rule settles_bind [OF assms(2), where G = "\<lambda>f (nf', s'). read_fields f s' nf'"])
       (simp add: assms(3))
qed

lemma read_field_written:
  "settles (\<lambda>f. read_field f ''node_name'' (CHR '' '' # WriteJsonString v @ comma_line @ r) nf)
     (nf\<lparr>nf_name := v\<rparr>, newline # r)"
  "printable i \<Longrightarrow> settles (\<lambda>f. read_field f ''open_runtime_usec'' (CHR '' '' # dec_of_int i @ comma_line @ r) nf)
     (nf\<lparr>nf_open_runtime := i\<rparr>, newline # r)"
  "printable i \<Longrightarrow> settles (\<lambda>f. read_field f ''close_runtime_usec'' (CHR '' '' # dec_of_int i @ comma_line @ r) nf)
     (nf\<lparr>nf_close_runtime := i\<rparr>, newline # r)"
  "printable i \<Longrightarrow> settles (\<lambda>f. read_field f ''process_count'' (CHR '' '' # dec_of_int i @ comma_line @ r) nf)
     (nf\<lparr>nf_process_count := i\<rparr>, newline # r)"
  "printable i \<Longrightarrow> settles (\<lambda>f. read_field f ''process_time_total_usec'' (CHR '' '' # dec_of_int i @ comma_line @ r) nf)
     (nf\<lparr>nf_process_time_total := i\<rparr>, newline # r)"
  "plain_decimal d \<Longrightarrow> settles (\<lambda>f. read_field f ''process_time_mean_usec'' (CHR '' '' # d @ comma_line @ r) nf)
     (nf, newline # r)"
  "plain_decimal d \<Longrightarrow> settles (\<lambda>f. read_field f ''process_time_mean_usec'' (CHR '' '' # d @ CHR ''e'' # r) nf)
     (nf, CHR ''e'' # r)"
  by (simp_all add: read_field_def space_Cons ReadString_written ReadInt64_written ReadDouble_written
      Expect_Cons settles_const)

lemma read_field_histogram:
  "settles (\<lambda>f. read_field f ''process_runtime'' (CHR '' '' # histogram_text node @ newline # r) nf)
     (nf, snd (Expect CHR '','' r))"
proof -
  have "read_field f ''process_runtime'' (CHR '' '' # s) nf =
      map_option (\<lambda>r. (nf, snd (Expect CHR '','' r))) (SkipValue f s)" for f s
    unfolding read_field_def by (simp add: space_Cons(6))
  moreover have "settles (\<lambda>f. map_option (\<lambda>r. (nf, snd (Expect CHR '','' r)))
      (SkipValue f (histogram_text node @ newline # r))) (nf, snd (Expect CHR '','' (newline # r)))"
    by (rule settles_map [OF SkipValue_histogram])
  ultimately show ?thesis by (simp only: Expect_newline(1))
qed

text \<open>The fields before the mean.\<close>

definition head_text :: "writer_node \<Rightarrow> string" where
  "head_text node =
     json_key 4 ''node_name'' @ WriteJsonString (wn_node_name node) @ comma_line @
     json_key 4 ''open_runtime_usec'' @ dec_of_int (wn_open_runtime_usec node) @ comma_line @
     json_key 4 ''close_runtime_usec'' @ dec_of_int (wn_close_runtime_usec node) @ comma_line @
     json_key 4 ''process_count'' @ dec_of_int (wn_process_count node) @ comma_line @
     json_key 4 ''process_time_total_usec'' @ dec_of_int (wn_process_time_total_usec node) @ comma_line @
     json_key 4 ''process_time_mean_usec''"

lemma WriteNodeDataJson_split:
  "WriteNodeDataJson node = CHR '' '' # CHR '' '' # CHR ''{'' # newline # head_text node @
     show_double (wn_process_time_mean_usec node) @ comma_line @ json_key 4 ''process_runtime'' @
     histogram_text node @ newline # CHR '' '' # CHR '' '' # CHR ''}'' # []"
  by (simp add: WriteNodeDataJson_def head_text_def histogram_text_def eval_nat_numeral)

lemma read_fields_head:
  assumes "node_printable node"
    and "settles (\<lambda>f. read_field f ''process_time_mean_usec'' (CHR '' '' # s) (fields_of node)) (fields_of node, s')"
    and "settles (\<lambda>f. read_fields f s' (fields_of node)) y"
  shows "settles (\<lambda>f. read_fields f (newline # head_text node @ s) node_fields0) y"
proof -
  have p: "printable (wn_open_runtime_usec node)" "printable (wn_close_runtime_usec node)"
    "printable (wn_process_count node)" "printable (wn_process_time_total_usec node)"
    using assms(1) by (simp_all add: node_printable_def)
  show ?thesis
    unfolding head_text_def append_assoc
    by (rule read_fields_value [OF node_keys(1) read_field_written(1)],
        rule read_fields_value [OF node_keys(2) read_field_written(2) [OF p(1)]],
        rule read_fields_value [OF node_keys(3) read_field_written(3) [OF p(2)]],
        rule read_fields_value [OF node_keys(4) read_field_written(4) [OF p(3)]],
        rule read_fields_value [OF node_keys(5) read_field_written(5) [OF p(4)]],
        rule read_fields_value [OF node_keys(6) _ assms(3)])
       (use assms(2) in \<open>simp add: fields_of_def node_fields0_def\<close>)
qed

lemma read_fields_written:
  assumes "node_printable node" "plain_decimal (show_double (wn_process_time_mean_usec node))"
  shows "settles (\<lambda>f. read_fields f (newline # head_text node @ show_double (wn_process_time_mean_usec node) @
      comma_line @ json_key 4 ''process_runtime'' @ histogram_text node @
      newline # CHR '' '' # CHR '' '' # CHR ''}'' # r) node_fields0)
    (fields_of node, snd (Expect CHR '','' r))"
proof (rule read_fields_head [OF assms(1) read_field_written(6) [OF assms(2)]],
    rule read_fields_value [OF node_keys(7) read_field_histogram])
  show "settles (\<lambda>f. read_fields f (snd (Expect CHR '','' (CHR '' '' # CHR '' '' # CHR ''}'' # r))) (fields_of node))
      (fields_of node, snd (Expect CHR '','' r))"
    by (rule settles_step [OF leads_to_eq settles_const]) (simp add: read_fields.simps Expect_Cons)
qed

lemma read_fields_exponent:
  assumes "node_printable node" "plain_decimal d"
  shows "settles (\<lambda>f. read_fields f (newline # head_text node @ d @ CHR ''e'' # r) node_fields0)
    (fields_of node, CHR ''e'' # r)"
proof (rule read_fields_head [OF assms(1) read_field_written(7) [OF assms(2)]])
  show "settles (\<lambda>f. read_fields f (CHR ''e'' # r) (fields_of node)) (fields_of node, CHR ''e'' # r)"
    by (rule settles_step [OF leads_to_eq settles_const])
       (simp add: read_fields.simps Expect_Cons ReadKey_def SkipWhitespace_Cons)
qed

section \<open>Reading the node list\<close>

lemma read_nodes_open:
  "read_nodes (Suc f) (newline # CHR '' '' # CHR '' '' # CHR ''{'' # s) data =
     Option.bind (read_fields f s node_fields0) (\<lambda>(nf, s'). read_nodes f s' (accumulate_node nf data))"
  by (simp add: read_nodes.simps Expect_Cons)

lemma read_nodes_bind:
  assumes "settles (\<lambda>f. read_fields f s node_fields0) (nf, s')"
  shows "leads_to (\<lambda>f. read_nodes f (newline # CHR '' '' # CHR '' '' # CHR ''{'' # s) data)
    (\<lambda>f. read_nodes f s' (accumulate_node nf data))"
  using leads_to_bind [OF assms, where G = "\<lambda>f (nf, s'). read_nodes f s' (accumulate_node nf data)"]
  by (simp add: read_nodes_open)

definition readable :: "writer_node \<Rightarrow> bool" where
  "readable node \<longleftrightarrow> node_printable node \<and>
     (wn_process_time_mean_usec node = 0 \<or> 1 / 10000 \<le> wn_process_time_mean_usec node) \<and>
     wn_process_time_mean_usec node < 1999999 / 2"

lemma read_nodes_written:
  assumes "readable node"
  shows "leads_to (\<lambda>f. read_nodes f (newline # WriteNodeDataJson node @ r) data)
    (\<lambda>f. read_nodes f (snd (Expect CHR '','' r)) (accumulate_node (fields_of node) data))"
proof -
  have "node_printable node" "plain_decimal (show_double (wn_process_time_mean_usec node))"
    using assms by (simp_all add: readable_def show_double_plain)
  from read_nodes_bind [OF read_fields_written [OF this]] show ?thesis
    by (simp add: WriteNodeDataJson_split)
qed

lemma read_nodes_stuck: "read_nodes f (CHR ''e'' # r) data = None"
proof (induction f)
  case (Suc f)
  have "SkipValue f (CHR ''e'' # r) = Some (CHR ''e'' # r)"
    by (simp add: SkipValue_def SkipWhitespace_Cons ReadDouble_def read_sign_def starts_bool_def)
  then show ?case using Suc by (simp add: read_nodes.simps Expect_Cons)
qed (simp add: read_nodes.simps)

lemma read_nodes_exponent:
  assumes "node_printable node" "1999999 / 2 \<le> wn_process_time_mean_usec node"
  shows "read_nodes f (newline # WriteNodeDataJson node @ r) data = None"
proof -
  obtain d es where d: "plain_decimal d" "show_double (wn_process_time_mean_usec node) = d @ CHR ''e'' # es"
    using show_double_exponent [OF assms(2)] by blast
  let ?F = "\<lambda>f. read_nodes f (newline # WriteNodeDataJson node @ r) data"
  have "\<exists>s. leads_to ?F (\<lambda>f. read_nodes f (CHR ''e'' # s) (accumulate_node (fields_of node) data))"
    using read_nodes_bind [OF read_fields_exponent [OF assms(1) d(1)]]
    by (simp add: WriteNodeDataJson_split d(2)) blast
  then show ?thesis
    using diverges_step [of ?F] read_nodes_stuck read_nodes_mono by (fastforce simp: fuel_mono_def)
qed

lemma write_nodes_Cons:
  "write_nodes (n # ns) @ t = WriteNodeDataJson n @ (if ns = [] then t else comma_line @ write_nodes ns @ t)"
  by (cases ns) simp_all

text \<open>The text from the end of the node list on.\<close>

definition tail_text :: string where
  "tail_text = newline # CHR '' '' # CHR '' '' # CHR '']'' # newline # CHR ''}'' # [newline]"

lemma read_nodes_tail:
  "settles (\<lambda>f. read_nodes f (newline # tail_text) data) (data, newline # CHR ''}'' # [newline])"
  "settles (\<lambda>f. read_nodes f (snd (Expect CHR '','' tail_text)) data) (data, newline # CHR ''}'' # [newline])"
  by (rule settles_step [OF leads_to_eq settles_const],
      simp add: read_nodes.simps tail_text_def Expect_Cons)+

lemma read_nodes_list:
  "\<forall>node\<in>set nodes. readable node \<Longrightarrow>
   settles (\<lambda>f. read_nodes f (newline # write_nodes nodes @ tail_text) data)
     (fold accumulate_node (map fields_of nodes) data, newline # CHR ''}'' # [newline])"
proof (induction nodes arbitrary: data)
  case Nil
  then show ?case using read_nodes_tail(1) by simp
next
  case (Cons node nodes)
  let ?r = "if nodes = [] then tail_text else comma_line @ write_nodes nodes @ tail_text"
  have "settles (\<lambda>f. read_nodes f (snd (Expect CHR '','' ?r)) (accumulate_node (fields_of node) data))
      (fold accumulate_node (map fields_of (node # nodes)) data, newline # CHR ''}'' # [newline])"
    using Cons read_nodes_tail(2) by simp
  then show ?case
    unfolding write_nodes_Cons using Cons.prems
    by (intro settles_step [OF read_nodes_written]) simp_all
qed

lemma read_nodes_hangs:
  assumes "node_printable node" "1999999 / 2 \<le> wn_process_time_mean_usec node"
  shows "\<forall>node\<in>set before. readable node \<Longrightarrow>
    read_nodes f (newline # write_nodes (before @ node # after) @ t) data = None"
proof (induction before arbitrary: data f)
  case Nil
  then show ?case by (simp add: write_nodes_Cons read_nodes_exponent [OF assms])
next
  case (Cons n before)
  let ?r = "comma_line @ write_nodes (before @ node # after) @ t"
  have "leads_to (\<lambda>f. read_nodes f (newline # WriteNodeDataJson n @ ?r) data)
      (\<lambda>f. read_nodes f (snd (Expect CHR '','' ?r)) (accumulate_node (fields_of n) data))"
    using Cons.prems by (intro read_nodes_written) simp
  moreover have "fuel_mono (\<lambda>f. read_nodes f (newline # WriteNodeDataJson n @ ?r) data)"
    by (simp add: fuel_mono_def read_nodes_mono)
  ultimately have "read_nodes f (newline # WriteNodeDataJson n @ ?r) data = None"
    by (rule diverges_step) (use Cons in simp)
  then show ?case by (simp add: write_nodes_Cons)
qed

section \<open>Reading a profile\<close>

lemma read_profile_skip:
  assumes "plain_key k" "k \<noteq> ''nodes''" "settles (\<lambda>f. SkipValue f (v @ comma_line @ s)) (comma_line @ s)"
  shows "leads_to (\<lambda>f. read_profile f (newline # json_key n k @ v @ comma_line @ s) data)
    (\<lambda>f. read_profile f (newline # s) data)"
proof -
  have "read_profile (Suc f) (newline # json_key n k @ v @ comma_line @ s) data =
      Option.bind (SkipValue f (v @ comma_line @ s)) (\<lambda>s'. read_profile f (snd (Expect CHR '','' s')) data)" for f
    using ReadKey_key [OF assms(1)] assms(1,2)
    by (simp add: read_profile.simps json_key_def Expect_Cons Let_def plain_key_def space_Cons)
  from leads_to_bind [OF assms(3), where G = "\<lambda>f s'. read_profile f (snd (Expect CHR '','' s')) data",
      of "\<lambda>f. read_profile f (newline # json_key n k @ v @ comma_line @ s) data", OF this]
  show ?thesis by simp
qed

lemma read_profile_nodes:
  "read_profile (Suc f) (newline # json_key n ''nodes'' @ CHR ''['' # s) data =
     Option.bind (read_nodes f s data) (\<lambda>(data', s'). read_profile f s' data')"
  using ReadKey_key [OF profile_keys(4)]
  by (simp add: read_profile.simps json_key_def Expect_Cons Let_def)

lemma SkipValue_string: "settles (\<lambda>f. SkipValue f (WriteJsonString s @ r)) r"
  using ReadString_written [of s r]
  by (simp add: SkipValue_def WriteJsonString_def SkipWhitespace_Cons settles_const)

lemma SkipValue_count:
  assumes "ends_number r"
  shows "settles (\<lambda>f. SkipValue f (dec_of_nat n @ r)) r"
proof -
  obtain c cs where "dec_of_nat n = c # cs" "is_digit c" using dec_of_nat_Cons by blast
  then show ?thesis
    using digit_chars [of c] ReadDouble_int [OF assms, of "int n"]
    by (simp add: SkipValue_def SkipWhitespace_Cons settles_const starts_bool_def dec_of_int_def)
qed

definition nodes_text :: "writer_node list \<Rightarrow> string" where
  "nodes_text nodes = newline # json_key 2 ''nodes'' @ CHR ''['' # newline # write_nodes nodes @ tail_text"

lemma profile_text_split:
  "profile_text capture_time config nodes = CHR ''{'' # newline #
     json_key 2 ''capture_time'' @ WriteJsonString capture_time @ comma_line @
     json_key 2 ''node_count'' @ dec_of_nat (length nodes) @ comma_line @
     json_key 2 ''profiler_config'' @ WriteProfilerConfigJson config @ comma_line @ tl (nodes_text nodes)"
  by (simp add: profile_text_def nodes_text_def tail_text_def)

text \<open>The members before the node list lead to it.\<close>

lemma read_profile_to_nodes:
  fixes capture_time config nodes data
  defines "F \<equiv> \<lambda>f. read_profile f (tl (profile_text capture_time config nodes)) data"
    and "G \<equiv> \<lambda>f. read_profile f (nodes_text nodes) data"
  shows "settles G y \<Longrightarrow> settles F y" "(\<And>f. G f = None) \<Longrightarrow> F f = None"
proof -
  let ?t3 = "tl (nodes_text nodes)"
  let ?t2 = "json_key 2 ''profiler_config'' @ WriteProfilerConfigJson config @ comma_line @ ?t3"
  let ?t1 = "json_key 2 ''node_count'' @ dec_of_nat (length nodes) @ comma_line @ ?t2"
  have t3: "nodes_text nodes = newline # ?t3" by (simp add: nodes_text_def)
  have 1: "leads_to F (\<lambda>f. read_profile f (newline # ?t1) data)"
    unfolding F_def profile_text_split list.sel
    by (intro read_profile_skip profile_keys SkipValue_string) simp_all
  have 2: "leads_to (\<lambda>f. read_profile f (newline # ?t1) data) (\<lambda>f. read_profile f (newline # ?t2) data)"
    by (intro read_profile_skip profile_keys SkipValue_count) simp_all
  have 3: "leads_to (\<lambda>f. read_profile f (newline # ?t2) data) G"
    unfolding G_def by (subst (2) t3) (intro read_profile_skip profile_keys SkipValue_config, simp)
  show "settles G y \<Longrightarrow> settles F y"
    by (intro settles_step [OF 1] settles_step [OF 2] settles_step [OF 3])
  have mono: "fuel_mono (\<lambda>f. read_profile f s data)" for s
    by (simp add: fuel_mono_def read_profile_mono)
  show "F f = None" if "\<And>f. G f = None"
    using diverges_step [OF 1] diverges_step [OF 2 mono] diverges_step [OF 3 mono that] mono
    by (simp add: F_def)
qed

lemma Accumulate_profile:
  "read_file path = Some (profile_text capture_time config nodes) \<Longrightarrow>
   Accumulate fuel read_file path data =
     map_option (Pair ok_status) (read_profile fuel (tl (profile_text capture_time config nodes)) data)"
  unfolding Accumulate_def profile_text_split by (simp add: Expect_Cons)

lemma Accumulate_written:
  assumes "read_file path = Some (profile_text capture_time config nodes)"
    and "\<forall>node\<in>set nodes. readable node"
  shows "settles (\<lambda>fuel. Accumulate fuel read_file path data)
    (ok_status, fold accumulate_node (map fields_of nodes) data)"
proof -
  let ?data = "fold accumulate_node (map fields_of nodes) data"
  have "settles (\<lambda>f. read_profile f (newline # CHR ''}'' # [newline]) ?data) ?data"
    by (rule settles_step [OF leads_to_eq settles_const]) (simp add: read_profile.simps Expect_Cons)
  then have "settles (\<lambda>f. Option.bind (read_nodes f (newline # write_nodes nodes @ tail_text) data)
      (\<lambda>(data', s'). read_profile f s' data')) ?data"
    by (intro settles_bind [OF read_nodes_list [OF assms(2)],
          where G = "\<lambda>f (data', s'). read_profile f s' data'"]) simp
  then have "settles (\<lambda>f. read_profile f (nodes_text nodes) data) ?data"
    unfolding nodes_text_def by (rule settles_step [OF leads_to_eq, rotated]) (rule read_profile_nodes)
  then show ?thesis
    unfolding Accumulate_profile [of read_file path capture_time config nodes, OF assms(1)]
    by (intro settles_map read_profile_to_nodes(1))
qed

lemma Accumulate_hangs:
  assumes "read_file path = Some (profile_text capture_time config (before @ node # after))"
    and "\<forall>n\<in>set before. readable n" "node_printable node" "1999999 / 2 \<le> wn_process_time_mean_usec node"
  shows "Accumulate fuel read_file path data = None"
proof -
  have "read_profile f (nodes_text (before @ node # after)) data = None" for f
    unfolding nodes_text_def using read_nodes_hangs [OF assms(3,4,2)]
    by (cases f) (simp_all add: read_profile_nodes read_profile.simps(1))
  then show ?thesis
    unfolding Accumulate_profile [of read_file path capture_time config "before @ node # after", OF assms(1)] by (simp add: read_profile_to_nodes(2))
qed


definition demo_files :: file_system where
  "demo_files = \<lparr>fs_opens = (\<lambda>_. True), fs_good = (\<lambda>_. True), fs_files = (\<lambda>_. None)\<rparr>"

definition demo_writer_node :: "rat \<Rightarrow> writer_node" where
  "demo_writer_node mean = \<lparr>wn_node_name = ''sink'', wn_open_runtime_usec = 100, wn_close_runtime_usec = 50,
     wn_process_count = 10, wn_process_time_total_usec = 5000, wn_process_time_mean_usec = mean,
     wn_histogram_interval_size_usec = 1000, wn_histogram_num_intervals = 3,
     wn_histogram_buckets = [8, 2, 0]\<rparr>"


text \<open>
  C31: the reader does not survive a slow node. If a node of the file has a mean of 999999.5
  microseconds or more, the writer prints it with an exponent, which \<open>ReadDouble\<close> does not
  read; the node loop then skips a value of no characters again and again, so \<open>Accumulate\<close> does
  not return, whatever the fuel.
\<close>

theorem slow_profile_hangs:
  assumes "fs_opens fs path"
    and "\<forall>n\<in>set before. node_printable n \<and>
      (wn_process_time_mean_usec n = 0 \<or> 1 / 10000 \<le> wn_process_time_mean_usec n) \<and>
      wn_process_time_mean_usec n < 1999999 / 2"
    and "node_printable node" "1999999 / 2 \<le> wn_process_time_mean_usec node"
  shows "Accumulate fuel (fs_files (snd (WriteProfile capture_time path config (before @ node # after) fs)))
    path data = None"
  using assms by (intro Accumulate_hangs [where before = before and node = node and after = after
        and capture_time = capture_time and config = config])
    (simp_all add: WriteProfile_def readable_def Let_def)

theorem slow_profile_hangs_witness:
  "\<forall>fuel. Accumulate fuel (fs_files (snd (WriteProfile ''now'' ''p.json'' profiler_config0
     [demo_writer_node 500, demo_writer_node 1000000] demo_files))) ''p.json'' [] = None"
  using slow_profile_hangs [of demo_files "''p.json''" "[demo_writer_node 500]" "demo_writer_node 1000000"
      _ "''now''" profiler_config0 "[]" "[]"]
  by (simp add: demo_files_def demo_writer_node_def node_printable_def printable_def)

end
