(* ===== verification/Profile_Report.thy ===== *)
theory Profile_Report
  imports Profile_Roundtrip
begin

text \<open>
  What the reporter's numbers mean. The accumulated entries are a dictionary from node names to
  entries, so the laws of \<open>dict\<close> apply to them; the samples of a name are folded into its
  entry, and the report adds the entries up.
\<close>

section \<open>The entries as a dictionary\<close>

definition entry_of :: "per_node_accum list \<Rightarrow> string \<Rightarrow> per_node_accum option" where
  "entry_of data name = find (\<lambda>e. pa_node_name e = name) data"

lemma pa_node_name_sample [simp]: "pa_node_name (add_node_sample nf e) = pa_node_name e"
  by (simp add: add_node_sample_def Let_def)

lemma entry_of_update:
  "entry_of (update_entry nf data) name =
     (if name = nf_name nf
      then Some (add_node_sample nf (case entry_of data name of None \<Rightarrow> per_node_accum0 name | Some e \<Rightarrow> e))
      else entry_of data name)"
  by (induction nf data rule: update_entry.induct)
     (auto simp: entry_of_def per_node_accum0_def)

lemma names_update:
  "map pa_node_name (update_entry nf data) =
     (if nf_name nf \<in> pa_node_name ` set data then map pa_node_name data
      else map pa_node_name data @ [nf_name nf])"
  by (induction nf data rule: update_entry.induct) (auto simp: per_node_accum0_def)

lemma distinct_update:
  "distinct (map pa_node_name data) \<Longrightarrow> distinct (map pa_node_name (update_entry nf data))"
  by (auto simp: names_update)

lemma entry_of_mem:
  assumes "distinct (map pa_node_name data)"
  shows "e \<in> set data \<longleftrightarrow> entry_of data (pa_node_name e) = Some e"
  using assms by (induction data) (auto simp: entry_of_def find_Some_iff rev_image_eqI)

section \<open>Folding the samples of a name\<close>

text \<open>The nodes of the files read so far, with the name they are filed under.\<close>

definition samples_of :: "string \<Rightarrow> node_fields list \<Rightarrow> node_fields list" where
  "samples_of name nfs = filter (\<lambda>nf. nf_name nf = name) nfs"

definition sample_ok :: "node_fields \<Rightarrow> bool" where
  "sample_ok nf \<longleftrightarrow> nf_name nf \<noteq> [] \<and> 0 \<le> nf_process_count nf \<and> 0 \<le> nf_process_time_total nf"

definition total_count :: "node_fields list \<Rightarrow> int" where
  "total_count nfs = sum_list (map nf_process_count nfs)"

definition total_time :: "node_fields list \<Rightarrow> int" where
  "total_time nfs = sum_list (map nf_process_time_total nfs)"

lemma entry_of_fold:
  "\<forall>nf\<in>set nfs. nf_name nf \<noteq> [] \<Longrightarrow>
   entry_of (fold accumulate_node nfs data) name =
     (if samples_of name nfs = [] then entry_of data name
      else Some (fold add_node_sample (samples_of name nfs)
             (case entry_of data name of None \<Rightarrow> per_node_accum0 name | Some e \<Rightarrow> e)))"
proof (induction nfs arbitrary: data)
  case (Cons nf nfs)
  then show ?case
    by (simp add: accumulate_node_def entry_of_update samples_of_def)
qed (simp add: samples_of_def)

lemma names_fold:
  "\<forall>nf\<in>set nfs. nf_name nf \<noteq> [] \<Longrightarrow> distinct (map pa_node_name data) \<Longrightarrow>
   distinct (map pa_node_name (fold accumulate_node nfs data)) \<and>
   pa_node_name ` set (fold accumulate_node nfs data) = pa_node_name ` set data \<union> nf_name ` set nfs"
proof (induction nfs arbitrary: data)
  case (Cons nf nfs)
  have "pa_node_name ` set (update_entry nf data) = insert (nf_name nf) (pa_node_name ` set data)"
    using arg_cong [OF names_update [of nf data], of set] by auto
  then show ?case
    using Cons.IH [of "update_entry nf data"] Cons.prems
    by (simp add: accumulate_node_def distinct_update)
qed simp

lemma totals_nonneg:
  "\<forall>nf\<in>set nfs. sample_ok nf \<Longrightarrow> 0 \<le> total_count nfs \<and> 0 \<le> total_time nfs"
  by (induction nfs) (simp_all add: total_count_def total_time_def sample_ok_def)

lemma totals_Cons [simp]:
  "total_count (nf # nfs) = nf_process_count nf + total_count nfs"
  "total_time (nf # nfs) = nf_process_time_total nf + total_time nfs"
  by (simp_all add: total_count_def total_time_def)

lemma totals_Nil [simp]: "total_count [] = 0" "total_time [] = 0"
  by (simp_all add: total_count_def total_time_def)

lemma fold_samples:
  "\<forall>nf\<in>set nfs. sample_ok nf \<Longrightarrow> 0 \<le> pa_process_count e \<Longrightarrow> 0 \<le> pa_process_time_total_usec e \<Longrightarrow>
   pa_process_count e + total_count nfs \<le> INT64_MAX \<Longrightarrow>
   pa_process_time_total_usec e + total_time nfs \<le> INT64_MAX \<Longrightarrow>
   pa_process_count (fold add_node_sample nfs e) = pa_process_count e + total_count nfs \<and>
   pa_process_time_total_usec (fold add_node_sample nfs e) = pa_process_time_total_usec e + total_time nfs"
proof (induction nfs arbitrary: e)
  case (Cons nf nfs)
  have "0 \<le> total_count nfs" "0 \<le> total_time nfs" "sample_ok nf"
    using totals_nonneg [of nfs] Cons.prems(1) by simp_all
  then have "pa_process_count (add_node_sample nf e) = pa_process_count e + nf_process_count nf"
    "pa_process_time_total_usec (add_node_sample nf e) = pa_process_time_total_usec e + nf_process_time_total nf"
    using Cons.prems by (simp_all add: add_node_sample_def Let_def sample_ok_def to_i64_id)
  then show ?case
    using Cons.IH [of "add_node_sample nf e"] Cons.prems \<open>sample_ok nf\<close>
    by (simp add: sample_ok_def)
qed simp

lemma fold_runtimes:
  "nfs \<noteq> [] \<Longrightarrow>
   pa_open_runtime_usec (fold add_node_sample nfs e) = nf_open_runtime (last nfs) \<and>
   pa_close_runtime_usec (fold add_node_sample nfs e) = nf_close_runtime (last nfs)"
  by (induction nfs rule: rev_induct) (simp_all add: add_node_sample_def Let_def)

text \<open>The mean of one file's node, as the extremes record it.\<close>

definition file_mean :: "node_fields \<Rightarrow> int" where
  "file_mean nf = nf_process_time_total nf sdiv nf_process_count nf"

definition timed :: "node_fields list \<Rightarrow> node_fields list" where
  "timed nfs = filter (\<lambda>nf. 0 < nf_process_count nf) nfs"

lemma fold_extremes:
  "pa_process_time_min_usec (fold add_node_sample nfs e) =
     fold min (map file_mean (timed nfs)) (pa_process_time_min_usec e) \<and>
   pa_process_time_max_usec (fold add_node_sample nfs e) =
     fold max (map file_mean (timed nfs)) (pa_process_time_max_usec e)"
proof (induction nfs arbitrary: e)
  case (Cons nf nfs)
  have "pa_process_time_min_usec (add_node_sample nf e) =
      (if 0 < nf_process_count nf then min (file_mean nf) (pa_process_time_min_usec e)
       else pa_process_time_min_usec e)"
    "pa_process_time_max_usec (add_node_sample nf e) =
      (if 0 < nf_process_count nf then max (file_mean nf) (pa_process_time_max_usec e)
       else pa_process_time_max_usec e)"
    by (simp_all add: add_node_sample_def Let_def file_mean_def min_def max_def)
  then show ?case using Cons.IH [of "add_node_sample nf e"] by (simp add: timed_def)
qed (simp add: timed_def)

lemma fold_min_Min: "fold min xs (a::int) = Min (insert a (set xs))"
  by (simp add: Min.set_eq_fold [symmetric] flip: list.set(2))

lemma fold_max_Max: "fold max xs (a::int) = Max (insert a (set xs))"
  by (simp add: Max.set_eq_fold [symmetric] flip: list.set(2))

section \<open>The report\<close>

lemma Report_nodes_aux: "pr_nodes (fold report_entry data r) = pr_nodes r @ map stats_of data"
  by (induction data arbitrary: r) (simp_all add: report_entry_def Let_def)

lemma Report_nodes: "pr_nodes (Report data) = map stats_of data"
  by (simp add: Report_def Report_nodes_aux)

lemma sum_update_entry:
  fixes g :: "per_node_accum \<Rightarrow> int"
  assumes "g (per_node_accum0 (nf_name nf)) = 0"
    "\<And>e. e \<in> insert (per_node_accum0 (nf_name nf)) (set data) \<Longrightarrow> g (add_node_sample nf e) = g e + v"
  shows "sum_list (map g (update_entry nf data)) = sum_list (map g data) + v"
  using assms by (induction nf data rule: update_entry.induct) auto

lemma stats_count [simp]: "ns_process_count (stats_of e) = pa_process_count e"
  "ns_process_time_total_usec (stats_of e) = pa_process_time_total_usec e"
  "ns_node_name (stats_of e) = pa_node_name e"
  by (simp_all add: stats_of_def)

definition accum_ok :: "per_node_accum list \<Rightarrow> bool" where
  "accum_ok data \<longleftrightarrow> (\<forall>e\<in>set data. 0 \<le> pa_process_count e \<and> 0 \<le> pa_process_time_total_usec e)"

lemma accum_ok_nonneg:
  "accum_ok data \<Longrightarrow>
   0 \<le> sum_list (map pa_process_count data) \<and> 0 \<le> sum_list (map pa_process_time_total_usec data)"
  by (induction data) (simp_all add: accum_ok_def)

lemma sum_list_ge_elem:
  fixes g :: "'a \<Rightarrow> int"
  shows "\<forall>e\<in>set xs. 0 \<le> g e \<Longrightarrow> e \<in> set xs \<Longrightarrow> g e \<le> sum_list (map g xs)"
  by (rule member_le_sum_list) auto

lemma set_update_entry:
  "set (update_entry nf data) \<subseteq> set data \<union> add_node_sample nf ` insert (per_node_accum0 (nf_name nf)) (set data)"
  by (induction nf data rule: update_entry.induct) auto

lemma update_entry_sums:
  assumes "sample_ok nf" "accum_ok data"
    and "sum_list (map pa_process_count data) + nf_process_count nf \<le> INT64_MAX"
    and "sum_list (map pa_process_time_total_usec data) + nf_process_time_total nf \<le> INT64_MAX"
  shows "accum_ok (update_entry nf data)"
    "sum_list (map pa_process_count (update_entry nf data)) =
       sum_list (map pa_process_count data) + nf_process_count nf"
    "sum_list (map pa_process_time_total_usec (update_entry nf data)) =
       sum_list (map pa_process_time_total_usec data) + nf_process_time_total nf"
proof -
  have nonneg: "0 \<le> sum_list (map pa_process_count data)" "0 \<le> sum_list (map pa_process_time_total_usec data)"
    using accum_ok_nonneg [OF assms(2)] by simp_all
  have e: "pa_process_count (add_node_sample nf e) = pa_process_count e + nf_process_count nf \<and>
      pa_process_time_total_usec (add_node_sample nf e) = pa_process_time_total_usec e + nf_process_time_total nf \<and>
      0 \<le> pa_process_count e \<and> 0 \<le> pa_process_time_total_usec e"
    if "e \<in> insert (per_node_accum0 (nf_name nf)) (set data)" for e
  proof -
    have "0 \<le> pa_process_count e \<and> pa_process_count e \<le> sum_list (map pa_process_count data)"
      using that assms(2) nonneg sum_list_ge_elem [of data pa_process_count e]
      by (auto simp: accum_ok_def per_node_accum0_def)
    moreover have "0 \<le> pa_process_time_total_usec e \<and>
        pa_process_time_total_usec e \<le> sum_list (map pa_process_time_total_usec data)"
      using that assms(2) nonneg sum_list_ge_elem [of data pa_process_time_total_usec e]
      by (auto simp: accum_ok_def per_node_accum0_def)
    ultimately show ?thesis
      using assms by (simp add: add_node_sample_def Let_def sample_ok_def to_i64_id)
  qed
  show "accum_ok (update_entry nf data)"
    using set_update_entry [of nf data] e assms(1,2) by (force simp: accum_ok_def sample_ok_def)
  show "sum_list (map pa_process_count (update_entry nf data)) =
       sum_list (map pa_process_count data) + nf_process_count nf"
    by (rule sum_update_entry) (use e in \<open>auto simp: per_node_accum0_def\<close>)
  show "sum_list (map pa_process_time_total_usec (update_entry nf data)) =
       sum_list (map pa_process_time_total_usec data) + nf_process_time_total nf"
    by (rule sum_update_entry) (use e in \<open>auto simp: per_node_accum0_def\<close>)
qed

lemma accumulate_sums:
  "\<forall>nf\<in>set nfs. sample_ok nf \<Longrightarrow> accum_ok data \<Longrightarrow>
   sum_list (map pa_process_count data) + total_count nfs \<le> INT64_MAX \<Longrightarrow>
   sum_list (map pa_process_time_total_usec data) + total_time nfs \<le> INT64_MAX \<Longrightarrow>
   accum_ok (fold accumulate_node nfs data) \<and>
   sum_list (map pa_process_count (fold accumulate_node nfs data)) =
     sum_list (map pa_process_count data) + total_count nfs \<and>
   sum_list (map pa_process_time_total_usec (fold accumulate_node nfs data)) =
     sum_list (map pa_process_time_total_usec data) + total_time nfs"
proof (induction nfs arbitrary: data)
  case (Cons nf nfs)
  have "0 \<le> total_count nfs" "0 \<le> total_time nfs" and ok: "sample_ok nf"
    using totals_nonneg [of nfs] Cons.prems(1) by simp_all
  then have sums: "sum_list (map pa_process_count data) + nf_process_count nf \<le> INT64_MAX"
    "sum_list (map pa_process_time_total_usec data) + nf_process_time_total nf \<le> INT64_MAX"
    using Cons.prems(3,4) by simp_all
  note u = update_entry_sums [OF ok Cons.prems(2) sums]
  have "accumulate_node nf data = update_entry nf data"
    using ok by (simp add: accumulate_node_def sample_ok_def)
  then show ?case
    using Cons.IH [OF _ u(1)] Cons.prems by (simp add: u)
qed simp

lemma Report_totals_aux:
  "accum_ok data \<Longrightarrow> 0 \<le> pr_total_process_count r \<Longrightarrow> 0 \<le> pr_total_process_time_usec r \<Longrightarrow>
   pr_total_process_count r + sum_list (map pa_process_count data) \<le> INT64_MAX \<Longrightarrow>
   pr_total_process_time_usec r + sum_list (map pa_process_time_total_usec data) \<le> INT64_MAX \<Longrightarrow>
   pr_total_process_count (fold report_entry data r) =
     pr_total_process_count r + sum_list (map pa_process_count data) \<and>
   pr_total_process_time_usec (fold report_entry data r) =
     pr_total_process_time_usec r + sum_list (map pa_process_time_total_usec data)"
proof (induction data arbitrary: r)
  case (Cons e data)
  have "0 \<le> sum_list (map pa_process_count data)" "0 \<le> sum_list (map pa_process_time_total_usec data)"
    using accum_ok_nonneg [of data] Cons.prems(1) by (simp_all add: accum_ok_def)
  moreover have "0 \<le> pa_process_count e" "0 \<le> pa_process_time_total_usec e" "accum_ok data"
    using Cons.prems(1) by (simp_all add: accum_ok_def)
  ultimately show ?case
    using Cons.IH [of "report_entry e r"] Cons.prems
    by (simp add: report_entry_def Let_def to_i64_id)
qed simp

section \<open>Comparing\<close>

lemma baseline_get:
  "omap_get (fold (\<lambda>node. omap_put (ns_node_name node) node) nodes []) name =
     map_of (rev (map (\<lambda>node. (ns_node_name node, node)) nodes)) name"
proof -
  have "fold (\<lambda>node. omap_put (ns_node_name node) node) nodes [] =
      fold (\<lambda>(k, v). omap_put k v) (map (\<lambda>node. (ns_node_name node, node)) nodes) []"
    by (simp add: fold_map comp_def)
  then show ?thesis
    using omap.get_put_all [OF omap_wf_Nil, of "map (\<lambda>node. (ns_node_name node, node)) nodes" name]
    by (simp only:) (simp split: option.splits)
qed

lemma Compare_self:
  assumes "distinct (map pa_node_name data)"
  shows "Compare (Report data) data =
    map (\<lambda>e. \<lparr>dl_node_name = pa_node_name e, dl_process_mean_delta_usec = 0,
              dl_process_mean_delta_pct = 0\<rparr>) data"
proof -
  let ?kvs = "map (\<lambda>node. (ns_node_name node, node)) (map stats_of data)"
  have "distinct (map fst (rev ?kvs))" using assms by (simp add: comp_def rev_map [symmetric])
  then have "map_of (rev ?kvs) (pa_node_name e) = Some (stats_of e)" if "e \<in> set data" for e
    using that by (intro map_of_is_SomeI) (auto simp: image_iff)
  then show ?thesis
    unfolding Compare_def Let_def Report_nodes map_map compare_node_def comp_def baseline_get
    by (simp add: comp_def)
qed

section \<open>What a report says\<close>

lemma file_mean_bounds:
  assumes "sample_ok nf" "0 < nf_process_count nf"
  shows "0 \<le> file_mean nf \<and> file_mean nf \<le> nf_process_time_total nf"
proof -
  have "file_mean nf = nf_process_time_total nf div nf_process_count nf"
    using assms by (cases "nf_process_time_total nf = 0")
      (simp_all add: file_mean_def sample_ok_def signed_divide_int_def)
  moreover have "nf_process_time_total nf div nf_process_count nf \<le> nf_process_time_total nf"
    using assms zdiv_mono2 [of "nf_process_time_total nf" 1 "nf_process_count nf"] by (simp add: sample_ok_def)
  ultimately show ?thesis using assms by (simp add: sample_ok_def pos_imp_zdiv_nonneg_iff)
qed

lemma total_time_member: "\<forall>nf\<in>set nfs. sample_ok nf \<Longrightarrow> nf \<in> set nfs \<Longrightarrow> nf_process_time_total nf \<le> total_time nfs"
  unfolding total_time_def by (rule sum_list_ge_elem) (auto simp: sample_ok_def)

lemma totals_samples:
  "\<forall>nf\<in>set nfs. sample_ok nf \<Longrightarrow>
   total_count (samples_of name nfs) \<le> total_count nfs \<and> total_time (samples_of name nfs) \<le> total_time nfs"
  by (induction nfs) (auto simp: samples_of_def sample_ok_def)

lemma entry_stats:
  assumes ok: "\<forall>nf\<in>set nfs. sample_ok nf" "total_count nfs \<le> INT64_MAX" "total_time nfs < INT64_MAX"
    and own: "own = samples_of name nfs" "own \<noteq> []"
    and s: "s = stats_of (fold add_node_sample own (per_node_accum0 name))"
  shows "ns_process_count s = total_count own \<and> ns_process_time_total_usec s = total_time own \<and>
    ns_process_time_mean_usec s =
      (if total_count own > 0 then of_int (total_time own) / of_int (total_count own) else 0) \<and>
    ns_open_runtime_usec s = nf_open_runtime (last own) \<and>
    ns_close_runtime_usec s = nf_close_runtime (last own) \<and>
    ns_process_time_min_usec s = (if timed own = [] then 0 else Min (file_mean ` set (timed own))) \<and>
    ns_process_time_max_usec s = (if timed own = [] then 0 else Max (file_mean ` set (timed own)))"
proof -
  have own_ok: "\<forall>nf\<in>set own. sample_ok nf" using ok(1) own(1) by (simp add: samples_of_def)
  have le: "total_count own \<le> INT64_MAX" "total_time own < INT64_MAX"
    using totals_samples [OF ok(1), of name] ok(2,3) own(1) by simp_all
  have m: "0 \<le> file_mean nf \<and> file_mean nf < INT64_MAX" if "nf \<in> set (timed own)" for nf
    using file_mean_bounds [of nf] total_time_member [OF own_ok, of nf] own_ok that le(2)
    by (auto simp: timed_def)
  let ?S = "file_mean ` set (timed own)"
  have min: "Min (insert INT64_MAX ?S) = Min ?S \<and> Min ?S \<noteq> INT64_MAX" if ne: "timed own \<noteq> []"
  proof -
    have "Min ?S \<in> ?S" using ne by (intro Min_in) simp_all
    with m obtain i where "Min ?S = i" "i < INT64_MAX" by blast
    then show ?thesis using Min_insert [of ?S INT64_MAX] ne by simp
  qed
  have max: "Max (insert 0 ?S) = Max ?S" if ne: "timed own \<noteq> []"
  proof -
    have "Max ?S \<in> ?S" using ne by (intro Max_in) simp_all
    with m obtain i where "Max ?S = i" "0 \<le> i" by blast
    then show ?thesis using Max_insert [of ?S 0] ne by simp
  qed
  show ?thesis
    unfolding s using fold_samples [OF own_ok, of "per_node_accum0 name"] le min max
      fold_runtimes [OF own(2), of "per_node_accum0 name"] fold_extremes [of own "per_node_accum0 name"]
    by (simp add: stats_of_def per_node_accum0_def fold_min_Min fold_max_Max)
qed

text \<open>
  C32: a report adds up the files. Every name that occurs in them is reported exactly once; its
  count and total time are the sums over the nodes of that name, its mean is their quotient (not
  the mean of the means), its open and close times are those of the last file, and its extremes
  are the smallest and the largest of the per-file means, over the files in which the node ran.
  The totals of the report are the totals of all files, and comparing a report with its own data
  gives no difference for any node. No sum may overflow.
\<close>

theorem Report_merges:
  assumes "\<forall>nf\<in>set nfs. sample_ok nf" "total_count nfs \<le> INT64_MAX" "total_time nfs < INT64_MAX"
  shows "let data = fold accumulate_node nfs []; report = Report data in
    distinct (map ns_node_name (pr_nodes report)) \<and>
    ns_node_name ` set (pr_nodes report) = nf_name ` set nfs \<and>
    (\<forall>s\<in>set (pr_nodes report). let own = samples_of (ns_node_name s) nfs in
       ns_process_count s = total_count own \<and> ns_process_time_total_usec s = total_time own \<and>
       ns_process_time_mean_usec s =
         (if total_count own > 0 then of_int (total_time own) / of_int (total_count own) else 0) \<and>
       ns_open_runtime_usec s = nf_open_runtime (last own) \<and>
       ns_close_runtime_usec s = nf_close_runtime (last own) \<and>
       ns_process_time_min_usec s = (if timed own = [] then 0 else Min (file_mean ` set (timed own))) \<and>
       ns_process_time_max_usec s = (if timed own = [] then 0 else Max (file_mean ` set (timed own)))) \<and>
    pr_total_process_count report = total_count nfs \<and>
    pr_total_process_time_usec report = total_time nfs \<and>
    Compare report data = map (\<lambda>e. \<lparr>dl_node_name = pa_node_name e, dl_process_mean_delta_usec = 0,
       dl_process_mean_delta_pct = 0\<rparr>) data"
proof -
  let ?data = "fold accumulate_node nfs []"
  have named: "\<forall>nf\<in>set nfs. nf_name nf \<noteq> []" using assms(1) by (simp add: sample_ok_def)
  have names: "distinct (map pa_node_name ?data)" "pa_node_name ` set ?data = nf_name ` set nfs"
    using names_fold [OF named, of "[]"] by simp_all
  have stats: "s = stats_of (fold add_node_sample (samples_of (ns_node_name s) nfs) (per_node_accum0 (ns_node_name s)))"
    "samples_of (ns_node_name s) nfs \<noteq> []" if mem: "s \<in> set (pr_nodes (Report ?data))" for s
  proof -
    obtain e where e: "e \<in> set ?data" "s = stats_of e" using mem by (auto simp: Report_nodes)
    then have "entry_of ?data (ns_node_name s) = Some e" using entry_of_mem [OF names(1)] by simp
    then show "s = stats_of (fold add_node_sample (samples_of (ns_node_name s) nfs) (per_node_accum0 (ns_node_name s)))"
      "samples_of (ns_node_name s) nfs \<noteq> []"
      using entry_of_fold [OF named, of "[]" "ns_node_name s"] e(2)
      by (simp_all add: entry_of_def split: if_splits)
  qed
  have sums: "accum_ok ?data \<and> sum_list (map pa_process_count ?data) = total_count nfs \<and>
      sum_list (map pa_process_time_total_usec ?data) = total_time nfs"
    using accumulate_sums [OF assms(1), of "[]"] assms(2,3) by (simp add: accum_ok_def)
  have totals: "pr_total_process_count (Report ?data) = total_count nfs"
    "pr_total_process_time_usec (Report ?data) = total_time nfs"
    unfolding Report_def using Report_totals_aux [of ?data] sums assms(2,3) by simp_all
  have "distinct (map ns_node_name (pr_nodes (Report ?data)))"
    "ns_node_name ` set (pr_nodes (Report ?data)) = nf_name ` set nfs"
    using names by (simp_all add: Report_nodes comp_def image_image)
  then show ?thesis
    unfolding Let_def using totals Compare_self [OF names(1)] entry_stats [OF assms refl stats(2) stats(1)]
    by simp
qed

theorem Report_merges_witness:
  "let nf = fields_of (demo_writer_node 500); report = Report (fold accumulate_node [nf, nf] []) in
     map ns_node_name (pr_nodes report) = [''sink''] \<and> pr_total_process_count report = 20 \<and>
     pr_total_process_time_usec report = 10000 \<and> (\<forall>s\<in>set (pr_nodes report). ns_process_time_mean_usec s = 500)"
proof -
  let ?nf = "fields_of (demo_writer_node 500)"
  let ?report = "Report (fold accumulate_node [?nf, ?nf] [])"
  have nf: "nf_name ?nf = ''sink''" "nf_process_count ?nf = 10" "nf_process_time_total ?nf = 5000"
    by (simp_all add: fields_of_def demo_writer_node_def)
  have names: "map ns_node_name (pr_nodes ?report) = [''sink'']"
    by (simp add: Report_nodes accumulate_node_def nf) (simp add: per_node_accum0_def)
  then have "ns_node_name s = ''sink''" if "s \<in> set (pr_nodes ?report)" for s
    using that by (cases "pr_nodes ?report") auto
  moreover have "samples_of ''sink'' [?nf, ?nf] = [?nf, ?nf]" by (simp add: samples_of_def nf)
  moreover have "\<forall>nf\<in>set [?nf, ?nf]. sample_ok nf" by (simp add: sample_ok_def nf)
  ultimately show ?thesis
    using Report_merges [of "[?nf, ?nf]"] names unfolding Let_def by (simp add: nf)
qed

end
