(* ===== verification/Print_Profile.thy ===== *)
theory Print_Profile
  imports Profile_Report
begin

text \<open>
  \<open>framework/profiler/reporter/tools/print_profile.cc\<close>: the command line tool that prints
  profiles. Output is the text written to a stream; \<open>os.width(n)\<close> pads on the left, and the
  formats \<open>%.3f\<close>, \<open>%+.3f\<close> and \<open>%+.1f%%\<close> round the exact value to nearest, ties to even.
  \<open>absl::Status::ToString\<close> is a parameter.
\<close>

section \<open>Formatting\<close>

definition pad_left :: "nat \<Rightarrow> string \<Rightarrow> string" where
  "pad_left width s = replicate (width - length s) CHR '' '' @ s"

definition fixed_digits :: "nat \<Rightarrow> rat \<Rightarrow> string" where
  "fixed_digits k x =
     (let m = nat (round_half_even (x * 10 ^ k)); frac_part = dec_of_nat (m mod 10 ^ k)
      in dec_of_nat (m div 10 ^ k) @
         (if k = 0 then [] else ''.'' @ replicate (k - length frac_part) CHR ''0'' @ frac_part))"

definition fmt_fixed :: "nat \<Rightarrow> rat \<Rightarrow> string" where
  "fmt_fixed k x = (if x < 0 then CHR ''-'' # fixed_digits k (- x) else fixed_digits k x)"

definition fmt_signed :: "nat \<Rightarrow> rat \<Rightarrow> string" where
  "fmt_signed k x = (if x < 0 then CHR ''-'' # fixed_digits k (- x) else CHR ''+'' # fixed_digits k x)"

text \<open>\<open>snprintf\<close> into a buffer of 64 characters.\<close>

definition buf64 :: "string \<Rightarrow> string" where
  "buf64 s = take 63 s"

definition ms :: "rat \<Rightarrow> string" where
  "ms usec = buf64 (fmt_fixed 3 (usec / 1000))"

text \<open>UTF-8 of a horizontal bar and of a dash.\<close>

definition bars :: "nat \<Rightarrow> string" where
  "bars n = concat (replicate n [char_of (0xE2 :: nat), char_of (0x94 :: nat), char_of (0x80 :: nat)])"

definition em_dash :: string where
  "em_dash = [char_of (0xE2 :: nat), char_of (0x80 :: nat), char_of (0x94 :: nat)]"

section \<open>Arguments\<close>

record args =
  ar_files :: "string list"
  ar_node_filter :: string
  ar_compare :: bool
  ar_format :: string
  ar_output_path :: string

definition args0 :: args where
  "args0 = \<lparr>ar_files = [], ar_node_filter = [], ar_compare = False, ar_format = ''table'', ar_output_path = []\<rparr>"

text \<open>Splitting at the commas, with a last empty part dropped.\<close>

fun split_files :: "string \<Rightarrow> string \<Rightarrow> string list" where
  "split_files part [] = (if part = [] then [] else [part])"
| "split_files part (c # s) =
     (if c = CHR '','' then part # split_files [] s else split_files (part @ [c]) s)"

definition add_files :: "string \<Rightarrow> args \<Rightarrow> args" where
  "add_files val a = a\<lparr>ar_files := ar_files a @ split_files [] val\<rparr>"

text \<open>One argument that takes no other; \<open>arg[7]\<close> at the end of the string is the NUL.\<close>

definition is_files_option :: "string \<Rightarrow> bool" where
  "is_files_option arg \<longleftrightarrow> take 7 arg = ''--files'' \<or> take 7 arg = ''--file=''"

definition has_files_value :: "string \<Rightarrow> bool" where
  "has_files_value arg \<longleftrightarrow> 7 < length arg \<and> arg ! 7 = CHR ''=''"

definition plain_option :: "string \<Rightarrow> args \<Rightarrow> args" where
  "plain_option arg a =
     (if take 14 arg = ''--node-filter='' then a\<lparr>ar_node_filter := drop 14 arg\<rparr>
      else if arg = ''--compare'' then a\<lparr>ar_compare := True\<rparr>
      else if take 9 arg = ''--format='' then a\<lparr>ar_format := drop 9 arg\<rparr>
      else if take 9 arg = ''--output='' then a\<lparr>ar_output_path := drop 9 arg\<rparr>
      else a)"

fun parse_args :: "string list \<Rightarrow> args \<Rightarrow> args" where
  "parse_args [] a = a"
| "parse_args [arg] a =
     (if is_files_option arg
      then add_files (if has_files_value arg then drop 8 arg else []) a
      else plain_option arg a)"
| "parse_args (arg # next_arg # rest) a =
     (if is_files_option arg
      then if has_files_value arg then parse_args (next_arg # rest) (add_files (drop 8 arg) a)
           else parse_args rest (add_files next_arg a)
      else parse_args (next_arg # rest) (plain_option arg a))"

definition ParseArgs :: "string list \<Rightarrow> args" where
  "ParseArgs argv = parse_args (tl argv) args0"

definition MatchesFilter :: "string \<Rightarrow> string \<Rightarrow> bool" where
  "MatchesFilter name flt =
     (if flt = [] then True
      else if flt = ''*'' then True
      else if CHR ''*'' \<in> set flt
      then let prefix = takeWhile (\<lambda>c. c \<noteq> CHR ''*'') flt; suffix = drop (length prefix + 1) flt
           in length name \<ge> length prefix + length suffix \<and> take (length prefix) name = prefix \<and>
              drop (length name - length suffix) name = suffix
      else name = flt)"

section \<open>Tables\<close>

definition table_separator :: string where
  "table_separator = bars 22 @ ''  '' @ bars 5 @ ''  '' @ bars 8 @ ''  '' @ bars 9 @ ''  '' @ bars 8 @ ''  '' @
     bars 9 @ [newline]"

definition table_row :: "node_stats \<Rightarrow> string" where
  "table_row node =
     pad_left 22 (ns_node_name node) @ ''  '' @ pad_left 5 (dec_of_int (ns_process_count node)) @ ''  '' @
     pad_left 8 (ms (ns_process_time_mean_usec node)) @ ''  '' @
     pad_left 8 (ms (of_int (ns_process_time_total_usec node))) @ ''  '' @
     pad_left 8 (ms (of_int (ns_open_runtime_usec node))) @ ''  '' @
     pad_left 8 (ms (of_int (ns_close_runtime_usec node))) @ [newline]"

text \<open>The mean of all nodes; a division of a positive number by zero prints as \<open>inf\<close>.\<close>

definition total_mean :: "profile_report \<Rightarrow> string" where
  "total_mean report =
     (if pr_total_process_time_usec report > 0
      then if pr_total_process_count report = 0 then ''inf''
           else ms (of_int (pr_total_process_time_usec report) / of_int (pr_total_process_count report))
      else ms 0)"

definition PrintTable :: "profile_report \<Rightarrow> string \<Rightarrow> string" where
  "PrintTable report node_filter =
     pad_left 22 ''Node'' @ ''  Count  Mean(ms)  Total(ms)  Open(ms)  Close(ms)'' @ [newline] @
     table_separator @
     concat (map table_row (filter (\<lambda>node. MatchesFilter (ns_node_name node) node_filter) (pr_nodes report))) @
     table_separator @
     pad_left 22 ''TOTAL'' @ ''  '' @ pad_left 5 (dec_of_int (pr_total_process_count report)) @ ''  '' @
     pad_left 8 (total_mean report) @ ''  '' @
     pad_left 8 (ms (of_int (pr_total_process_time_usec report))) @ ''  '' @
     ''  '' @ em_dash @ ''       '' @ em_dash @ [newline]"

definition csv_row :: "node_stats \<Rightarrow> string" where
  "csv_row node =
     ns_node_name node @ '','' @ dec_of_int (ns_process_count node) @ '','' @
     ms (ns_process_time_mean_usec node) @ '','' @ ms (of_int (ns_process_time_total_usec node)) @ '','' @
     ms (of_int (ns_open_runtime_usec node)) @ '','' @ ms (of_int (ns_close_runtime_usec node)) @ [newline]"

definition PrintCsv :: "profile_report \<Rightarrow> string \<Rightarrow> string" where
  "PrintCsv report node_filter =
     ''Node,Count,Mean(ms),Total(ms),Open(ms),Close(ms)'' @ [newline] @
     concat (map csv_row (filter (\<lambda>node. MatchesFilter (ns_node_name node) node_filter) (pr_nodes report)))"

definition delta_separator :: string where
  "delta_separator = bars 22 @ ''  '' @ bars 8 @ ''  '' @ bars 9 @ ''  '' @ bars 9 @ [newline]"

definition delta_row :: "delta \<Rightarrow> string" where
  "delta_row d =
     pad_left 22 (dl_node_name d) @ ''  '' @ pad_left 8 (ms (dl_process_mean_delta_usec d)) @ ''  '' @
     pad_left 9 (buf64 (fmt_signed 3 (dl_process_mean_delta_usec d / 1000))) @ ''  '' @
     pad_left 9 (buf64 (fmt_signed 1 (dl_process_mean_delta_pct d) @ ''%'')) @ [newline]"

definition PrintDeltaTable :: "delta list \<Rightarrow> string" where
  "PrintDeltaTable deltas =
     pad_left 22 ''Node'' @ ''  Mean(ms)  Delta(ms)  Delta(%)'' @ [newline] @ delta_separator @
     concat (map delta_row deltas)"

definition delta_csv_row :: "delta \<Rightarrow> string" where
  "delta_csv_row d =
     dl_node_name d @ '','' @ ms (dl_process_mean_delta_usec d) @ '','' @
     ms (dl_process_mean_delta_usec d) @ '','' @ show_double (dl_process_mean_delta_pct d) @ [newline]"

definition delta_csv :: "delta list \<Rightarrow> string \<Rightarrow> string" where
  "delta_csv deltas node_filter =
     ''Node,Mean(ms),Delta(ms),Delta(%)'' @ [newline] @
     concat (map delta_csv_row (filter (\<lambda>d. MatchesFilter (dl_node_name d) node_filter) deltas))"

section \<open>Run\<close>

text \<open>The exit code, the text on the error stream, the text on standard output, and the files.\<close>

record outcome =
  oc_exit :: int
  oc_stderr :: string
  oc_stdout :: string
  oc_files :: "string \<Rightarrow> string option"

fun accumulate_files ::
  "nat \<Rightarrow> (string \<Rightarrow> string option) \<Rightarrow> string list \<Rightarrow> per_node_accum list \<Rightarrow>
   (status + per_node_accum list) option" where
  "accumulate_files fuel read_file [] data = Some (Inr data)"
| "accumulate_files fuel read_file (file # files) data =
     Option.bind (Accumulate fuel read_file file data)
       (\<lambda>(st, data'). if \<not> st_ok st then Some (Inl st) else accumulate_files fuel read_file files data')"

definition run_failed_with :: "(status \<Rightarrow> string) \<Rightarrow> status \<Rightarrow> file_system \<Rightarrow> outcome" where
  "run_failed_with show_status st fs =
     \<lparr>oc_exit = 1, oc_stderr = ''Error: '' @ show_status st @ [newline], oc_stdout = [], oc_files = fs_files fs\<rparr>"

text \<open>Opening the output file truncates it before anything is printed.\<close>

definition open_output :: "args \<Rightarrow> file_system \<Rightarrow> file_system" where
  "open_output a fs =
     (if ar_output_path a = [] then fs else fs\<lparr>fs_files := (fs_files fs)(ar_output_path a \<mapsto> [])\<rparr>)"

definition run_printed :: "args \<Rightarrow> file_system \<Rightarrow> string \<Rightarrow> outcome" where
  "run_printed a fs text =
     (if ar_output_path a = []
      then \<lparr>oc_exit = 0, oc_stderr = [], oc_stdout = text, oc_files = fs_files fs\<rparr>
      else \<lparr>oc_exit = 0, oc_stderr = [], oc_stdout = [], oc_files = (fs_files fs)(ar_output_path a \<mapsto> text)\<rparr>)"

definition run_compare :: "(status \<Rightarrow> string) \<Rightarrow> nat \<Rightarrow> args \<Rightarrow> file_system \<Rightarrow> outcome option" where
  "run_compare show_status fuel a fs =
     Option.bind (Accumulate fuel (fs_files fs) (ar_files a ! 0) [])
       (\<lambda>(st, baseline_data).
          if \<not> st_ok st then Some (run_failed_with show_status st fs)
          else
            Option.bind (accumulate_files fuel (fs_files fs) (drop 1 (ar_files a)) [])
              (\<lambda>res. case res of
                 Inl st \<Rightarrow> Some (run_failed_with show_status st fs)
               | Inr data \<Rightarrow>
                   let deltas = Compare (Report baseline_data) data
                   in Some (run_printed a fs
                        (if ar_format a = ''csv'' then delta_csv deltas (ar_node_filter a)
                         else PrintDeltaTable deltas))))"

definition Run :: "(status \<Rightarrow> string) \<Rightarrow> nat \<Rightarrow> args \<Rightarrow> file_system \<Rightarrow> outcome option" where
  "Run show_status fuel a fs =
     (if ar_files a = []
      then Some \<lparr>oc_exit = 1, oc_stderr = ''Error: --files is required'' @ [newline], oc_stdout = [],
                 oc_files = fs_files fs\<rparr>
      else
        Option.bind (accumulate_files fuel (fs_files fs) (ar_files a) [])
          (\<lambda>res. case res of
             Inl st \<Rightarrow> Some (run_failed_with show_status st fs)
           | Inr data \<Rightarrow>
               if ar_output_path a \<noteq> [] \<and> \<not> fs_opens fs (ar_output_path a)
               then Some \<lparr>oc_exit = 1, oc_stderr = ''Error: cannot open output file: '' @ ar_output_path a @ [newline],
                          oc_stdout = [], oc_files = fs_files fs\<rparr>
               else
                 let fs1 = open_output a fs
                 in if ar_compare a \<and> length (ar_files a) \<ge> 2
                    then run_compare show_status fuel a fs1
                    else let report = Report data
                         in Some (run_printed a fs1
                              (if ar_format a = ''csv'' then PrintCsv report (ar_node_filter a)
                               else PrintTable report (ar_node_filter a)))))"

definition print_profile_main :: "(status \<Rightarrow> string) \<Rightarrow> nat \<Rightarrow> string list \<Rightarrow> file_system \<Rightarrow> outcome option" where
  "print_profile_main show_status fuel argv fs = Run show_status fuel (ParseArgs argv) fs"

section \<open>Filters and arguments\<close>

lemma MatchesFilter_star:
  assumes "CHR ''*'' \<notin> set p"
  shows "MatchesFilter name (p @ CHR ''*'' # s) \<longleftrightarrow> (\<exists>m. name = p @ m @ s)"
proof -
  have prefix: "takeWhile (\<lambda>c. c \<noteq> CHR ''*'') (p @ CHR ''*'' # s) = p"
    using assms by (simp add: takeWhile_append)
  have "MatchesFilter name (p @ CHR ''*'' # s) \<longleftrightarrow>
      length name \<ge> length p + length s \<and> take (length p) name = p \<and>
      drop (length name - length s) name = s"
    by (cases "p = [] \<and> s = []") (auto simp: MatchesFilter_def prefix Let_def append_eq_Cons_conv)
  also have "\<dots> \<longleftrightarrow> (\<exists>m. name = p @ m @ s)"
  proof
    assume a: "length name \<ge> length p + length s \<and> take (length p) name = p \<and>
      drop (length name - length s) name = s"
    let ?m = "take (length name - length s - length p) (drop (length p) name)"
    have "name = take (length p) name @ drop (length p) name" by simp
    also have "drop (length p) name = ?m @ drop (length name - length s - length p) (drop (length p) name)"
      by (rule append_take_drop_id [symmetric])
    also have "drop (length name - length s - length p) (drop (length p) name) = s" using a by simp
    finally show "\<exists>m. name = p @ m @ s" using a by metis
  qed auto
  finally show ?thesis .
qed

lemma split_files_plain: "CHR '','' \<notin> set s \<Longrightarrow> split_files part s = (if part @ s = [] then [] else [part @ s])"
  by (induction s arbitrary: part) auto

text \<open>
  The prefix \<open>--file=\<close> is accepted, but its value is not: the next argument is taken for it.
\<close>

lemma parse_args_file_equals:
  assumes "v = [] \<or> hd v \<noteq> CHR ''=''"
  shows "parse_args ((''--file='' @ v) # next_arg # rest) a = parse_args rest (add_files next_arg a)"
  using assms by (cases v) (simp_all add: is_files_option_def has_files_value_def)

lemma ParseArgs_csv:
  assumes "path \<noteq> []" "CHR '','' \<notin> set path"
  shows "ParseArgs [exe, ''--files='' @ path, ''--format=csv'', ''--node-filter='' @ flt] =
    args0\<lparr>ar_files := [path], ar_format := ''csv'', ar_node_filter := flt\<rparr>"
  using assms by (simp add: ParseArgs_def is_files_option_def has_files_value_def plain_option_def
      add_files_def split_files_plain args0_def)

section \<open>From the profiler to the table\<close>

lemma accumulate_distinct:
  "distinct (map nf_name nfs) \<Longrightarrow> \<forall>nf\<in>set nfs. nf_name nf \<noteq> [] \<Longrightarrow>
   pa_node_name ` set data \<inter> nf_name ` set nfs = {} \<Longrightarrow>
   fold accumulate_node nfs data = data @ map (\<lambda>nf. add_node_sample nf (per_node_accum0 (nf_name nf))) nfs"
proof (induction nfs arbitrary: data)
  case (Cons nf nfs)
  have new: "update_entry nf data = data @ [add_node_sample nf (per_node_accum0 (nf_name nf))]"
    if "nf_name nf \<notin> pa_node_name ` set data" for data
    using that by (induction nf data rule: update_entry.induct) auto
  let ?data = "data @ [add_node_sample nf (per_node_accum0 (nf_name nf))]"
  have "nf_name nf \<notin> pa_node_name ` set data" using Cons.prems(3) by auto
  then have step: "accumulate_node nf data = ?data"
    using Cons.prems(2) new by (simp add: accumulate_node_def)
  have "pa_node_name (per_node_accum0 (nf_name nf)) = nf_name nf" by (simp add: per_node_accum0_def)
  then have "pa_node_name ` set ?data \<inter> nf_name ` set nfs = {}" using Cons.prems(1,3) by auto
  then show ?case using Cons.IH [of ?data] Cons.prems(1,2) by (simp add: step)
qed simp

lemma csv_row_written:
  assumes "node_printable node" "nf = fields_of node"
  shows "csv_row (stats_of (add_node_sample nf (per_node_accum0 (nf_name nf)))) =
    wn_node_name node @ '','' @ dec_of_int (wn_process_count node) @ '','' @
    ms (if 0 < wn_process_count node
        then of_int (wn_process_time_total_usec node) / of_int (wn_process_count node) else 0) @ '','' @
    ms (of_int (wn_process_time_total_usec node)) @ '','' @
    ms (of_int (wn_open_runtime_usec node)) @ '','' @ ms (of_int (wn_close_runtime_usec node)) @ [newline]"
proof -
  have "to_i64 (wn_process_count node) = wn_process_count node"
    "to_i64 (wn_process_time_total_usec node) = wn_process_time_total_usec node"
    using assms(1) by (simp_all add: node_printable_def printable_def to_i64_id)
  then show ?thesis
    by (simp add: csv_row_def stats_of_def add_node_sample_def Let_def per_node_accum0_def
        fields_of_def assms(2))
qed

lemma Run_csv:
  assumes "Accumulate fuel (fs_files fs) path [] = Some (ok_status, data)"
  shows "Run show_status fuel (args0\<lparr>ar_files := [path], ar_format := ''csv'', ar_node_filter := flt\<rparr>) fs =
    Some \<lparr>oc_exit = 0, oc_stderr = [], oc_stdout = PrintCsv (Report data) flt, oc_files = fs_files fs\<rparr>"
  by (simp add: Run_def assms args0_def open_output_def run_printed_def Let_def)



end
