(* ===== verification/Spec2Isabelle.thy ===== *)
theory Spec2Isabelle
  imports Demo_Graphs Synchronous Key_Value Json_Config Print_Profile
begin

text \<open>
  \<^bold>\<open>A verification library for the graph runtime.\<close>

  The program (\<open>src/graph_runtime/src/framework\<close>) runs a graph of nodes connected by packet
  streams. A configuration (\<open>config/\<close>) names nodes, their types, their input and output
  streams, executors and options; it is parsed from JSON and validated. A builder
  (\<open>public/graph_builder.cc\<close>) creates the nodes from registered factories (\<open>node/\<close>), and
  the runtime (\<open>public/graph_runtime.cc\<close>) wires every output stream to the input queues that
  consume it (\<open>stream/\<close>). The scheduler (\<open>scheduler/\<close>) keeps queues of ready nodes, runs
  them on thread pools, propagates their outputs, closes them when their inputs are done, and
  terminates the run. A profiler (\<open>profiler/\<close>) times the nodes, writes profile files, and a
  reporter with a command line tool reads them back.

  \<^bold>\<open>Conventions.\<close> An \<open>int64_t\<close> or \<open>int\<close> is an \<open>int\<close>, with \<open>to_i64\<close> or \<open>to_i32\<close> where the code
  can leave the width; \<open>absl::Status\<close> is a datatype, \<open>absl::StatusOr\<close> a sum with the status on
  the left; \<open>std::map\<close> is an association list sorted by key (\<open>omap\<close>), because the code iterates
  over its maps; objects reached through pointers live in lists and are addressed by index; a
  callback that another component installs is an event that the model of the installer executes.
  Packet payloads and user state are type variables. A \<open>double\<close> is an exact rational.

  \<^bold>\<open>The theories\<close>, in the order of their imports:

  \<^item> \<open>GR_Prelude\<close>: status values, widths, decimal printing, \<open>omap\<close>, and the locale \<open>dict\<close>, the
    contract of a dictionary, interpreted by \<open>omap\<close>, by the hook table and by the wrappers of
    \<open>std::map\<close> in the components.
  \<^item> \<open>Timestamps\<close>, \<open>Packets\<close>: \<open>stream/timestamp.*\<close>, \<open>stream/packet.*\<close>, \<open>public/side_packet.h\<close>.
  \<^item> \<open>Channel_Contract\<close>: the locale of a lossless channel, with conservation of packets proved
    from its laws; \<open>Input_Streams\<close> (\<open>stream/input_stream_manager.*\<close>) interprets it.
  \<^item> \<open>Stream_Names\<close>, \<open>Graph_Config\<close>, \<open>Config_Validator\<close>, \<open>Json_Config\<close>: \<open>config/\<close> and
    \<open>node/node_options.h\<close>. Validation is shown equivalent to a declarative condition, with
    the iterative depth-first search matched against cycles of the dependency graph; parsing is
    shown to invert writing a document and to yield valid configurations only.
  \<^item> \<open>Input_Handlers\<close>, \<open>Output_Streams\<close>, \<open>Output_Handlers\<close>: \<open>scheduler/input_stream_handler.*\<close>,
    \<open>stream/output_stream_*\<close>: when a node is ready, what it consumes, how its outputs fan out.
  \<^item> \<open>Node_Model\<close>: \<open>node/\<close>: nodes, contracts, factories, registries and the pool of contexts.
  \<^item> \<open>Tag_Map\<close>: \<open>tool/\<close>: tag-index names and the map from tags to ids.
  \<^item> \<open>Profiler\<close>: \<open>profiler/time_histogram.*\<close>, \<open>clock.h\<close>, \<open>graph_profiler.*\<close>.
  \<^item> \<open>Scheduler_Queue\<close>: \<open>scheduler/scheduler_queue.*\<close> and the thread pool, one definition per
    locked section; \<open>Scheduling\<close>: the interleavings of these sections by any number of threads
    as a step relation, with the invariants of its reachable states (pending counters,
    in-flight limits, no work left behind).
  \<^item> \<open>Scheduler\<close>: \<open>scheduler/scheduler.*\<close>: starting, running, pausing, cancelling, draining and
    terminating a graph.
  \<^item> \<open>Graph_Runtime\<close>, \<open>Building\<close>, \<open>Wiring\<close>, \<open>Injection\<close>: \<open>public/\<close>: the definitions, and what
    building, initialisation and packet injection do to the network of streams.
  \<^item> \<open>Delivery\<close>: the flow of packets through one run of a node, from the queues it reads to the
    queues its output streams feed; \<open>Histories\<close>: the same over any sequence of injections,
    closings and runs of the threads, from \<open>Initialize\<close> on; \<open>Executions\<close>: every use of the
    public class, in any order, is such a history and leaves no reference dangling; \<open>Synchronous\<close>: which nodes the
    synchronous run calls, from a trace added to the user code.
  \<^item> \<open>Node_Ports\<close>: which queues and output managers \<open>Initialize\<close> gives each node; \<open>Pipelines\<close>: what a
    chain of nodes computes in an execution, when the code of each turns the packet it reads from a
    port into what it writes to another; \<open>Completion\<close>: that the runtime closes a stream only when
    nothing is left for it, so that nothing is lost at the end of a run.
  \<^item> \<open>Evaluation\<close>: code equations that evaluate runs in the kernel, and executions as programs of calls
    and worker tasks; \<open>Demo_Graphs\<close>: the nodes and graphs of \<open>examples/interactive_pipeline.cc\<close>,
    \<open>add_packet_demo.cc\<close>, \<open>async_pipeline_demo.cc\<close> and \<open>profiler_demo.cc\<close>, run on the model.
  \<^item> \<open>String_Pipeline\<close>, \<open>Key_Value\<close>: the example programs \<open>examples/string_pipeline.cc\<close>,
    \<open>custom_parser.cc\<close> and the filter of \<open>log_intercept_demo.cc\<close>.
  \<^item> \<open>Profile_Writer\<close>, \<open>Profile_Reader\<close>, \<open>Profile_Roundtrip\<close>, \<open>Profile_Report\<close>, \<open>Print_Profile\<close>:
    \<open>profiler/profile_writer.*\<close>, \<open>profiler/reporter/\<close>: the file format, its hand-written
    reader, the reports made from files and the tool that prints them.
  \<^item> \<open>Logging\<close>: \<open>utils/\<close>: the hook table and the log line.

  \<^bold>\<open>What is shown.\<close> The properties, in the order of their ids: every edge of an initialised graph delivers
  the packets of its stream exactly once and in order, whatever the nodes do with the shards they
  are given and however the threads interleave; a chain of nodes delivers the composition of what they
  compute, and all of it even when the graph is closed meanwhile; no execution leaves a reference dangling; a run of a node neither loses nor invents a
  packet; the scheduler never exceeds a
  node's in-flight limit, is quiescent when it reports idle and strands no work item; idle
  handling terminates exactly when it should; the synchronous run calls each source at most
  once; streams deliver every accepted packet once and in
  order; outputs reach every consumer; a node is finalised once; the synchronised input policy
  loses no packet; initialisation wires the graph the configuration describes; building,
  validation and parsing accept what they should and say why otherwise; closing and cancelling
  are final; the thread pool runs every task; profile files are read back as written and reports
  add them up. Some properties state behaviour the documentation does not promise: the reader
  of profiles does not return on a mean that prints with an exponent, a replaced factory can be
  unregistered by the old token, a full queue blocks the node that would drain it.

  \<^bold>\<open>Fuel and bounds.\<close> Loops over data are structural recursions; the cycle search of the validator
  has a termination measure, and the idle loop of the scheduler runs its body at most once,
  because every path through it returns or breaks. Only the profile reader has loops that need
  not end: they take fuel, one unit per iteration, and \<open>None\<close> means fuel used up; the round trip
  is stated for all sufficiently large fuel, the failure for every fuel. Integer bounds appear
  as hypotheses only where the code would overflow.

  \<^bold>\<open>Parameters.\<close> Code that is not part of the repository is an argument: the JSON library
  (\<open>json_lib\<close>), \<open>absl::StrSplit\<close>, \<open>absl::Status::ToString\<close>, clock readings and formatted times,
  the file system, and the methods of user nodes (\<open>Open\<close>, \<open>Process\<close>, \<open>Close\<close>). The theorems on
  delivery assume of user nodes what the interface of \<open>OutputStreamShard\<close> enforces: a shard is
  changed through its operations only (\<open>respects_shards\<close>). Those on pipelines assume what the code of the
  nodes of the chain computes (\<open>transforms\<close>), and for completion that a node with inputs neither stops
  nor closes its outputs itself and that no node moves a bound to the end of time (\<open>settled\<close>); the nodes of
  the examples are shown to do so.

  \<^bold>\<open>Not modelled.\<close> The system clock, memory management and move semantics beyond the contents of
  moved-from packet lists, the memory orders of atomics (the code reads them under its locks or
  as flags), condition variables (a waiting call is the predicate it waits for), static
  registration at load time, umbrella headers, tests, and what the examples do besides calling the
  library: printing, sleeping, writing a file, and the output callback of \<open>interactive_pipeline.cc\<close>, which
  calls the runtime from inside a propagation (a callback is an entry of the log here).
\<close>

end
